(* ===== verification/Prelude.thy ===== *)
theory Prelude
  imports "HOL-Library.Word"
begin

text \<open>
  Shared vocabulary of the development: the machine integers of the firmware
  (\<open>uint8_t\<close>, \<open>uint16_t\<close>, \<open>uint32_t\<close>), the little-endian byte codecs that nearly every
  source file repeats as \<open>read_le16\<close>/\<open>write_le16\<close> or \<open>decode\<close>/\<open>encode\<close>, byte-buffer
  splicing, and the XDATA caller-buffer window test. The lemmas here are the facts about
  words, bytes and lists that the component theories use through \<open>simp\<close> or through the
  collections \<open>le_simps\<close> and \<open>buf_simps\<close>.
\<close>

unbundle bit_operations_syntax

named_theorems le_simps "little-endian codec laws"
named_theorems buf_simps "byte buffer splicing laws"

type_synonym u8 = "8 word"
type_synonym u16 = "16 word"
type_synonym u32 = "32 word"
type_synonym bytes = "u8 list"

section \<open>Words by their bits\<close>

lemma list_ex_upt: "list_ex P [0..<n] \<longleftrightarrow> (\<exists>i < n. P i)"
  by (auto simp: list_ex_iff)

lemma unat_ucast_mod: "unat (ucast (w :: 'a::len word) :: 'b::len word) = unat w mod 2 ^ LENGTH('b)"
  by (simp add: unsigned_ucast_eq take_bit_eq_mod)

lemma unat_ucast_16_32 [simp]: "unat (ucast (w :: u16) :: u32) = unat w"
proof -
  have "unat w < 2 ^ LENGTH(16)" by (rule unsigned_less)
  then show ?thesis by (simp add: unat_ucast_mod)
qed

lemma unat_plus_mod: "unat ((a :: 'a::len word) + b) = (unat a + unat b) mod 2 ^ LENGTH('a)"
  by (simp add: unat_word_ariths)

lemma and_take_bit:
  "(w :: 'a::len word) AND 3 = take_bit 2 w" "w AND 7 = take_bit 3 w" "w AND 15 = take_bit 4 w" "w AND 255 = take_bit 8 w"
  by (simp_all add: take_bit_eq_mask mask_eq_exp_minus_1)

lemma and_exp_cases: "(w :: 'a::len word) AND 2 ^ k = 0 \<or> w AND 2 ^ k = 2 ^ k"
  by (cases "bit w k") (auto simp: and_exp_eq_0_iff_not_bit intro!: bit_word_eqI simp: bit_simps)

lemma and_high_byte: "(w :: u16) AND 0xff00 = push_bit 8 (drop_bit 8 w)"
proof -
  have m: "(0xff00 :: u16) = push_bit 8 (mask 8)" by (simp add: mask_eq_exp_minus_1)
  show ?thesis unfolding m
  proof (rule bit_word_eqI)
    fix n assume "n < LENGTH(16)"
    then show "bit (w AND push_bit 8 (mask 8)) n \<longleftrightarrow> bit (push_bit 8 (drop_bit 8 w)) n"
      by (cases "8 \<le> n") (auto simp: bit_simps)
  qed
qed

section \<open>Little-endian codecs\<close>

definition read_le16 :: "bytes \<Rightarrow> u16" where
  "read_le16 p = ucast (p ! 0) OR push_bit 8 (ucast (p ! 1))"

definition write_le16 :: "u16 \<Rightarrow> bytes" where
  "write_le16 v = [ucast v, ucast (drop_bit 8 v)]"

definition decode32 :: "bytes \<Rightarrow> u32" where
  "decode32 p = ucast (p ! 0) OR push_bit 8 (ucast (p ! 1)) OR
     push_bit 16 (ucast (p ! 2)) OR push_bit 24 (ucast (p ! 3))"

text \<open>The loop of \<open>encode\<close>: store the low byte, shift right by eight, four times.\<close>

fun encode_le :: "nat \<Rightarrow> u32 \<Rightarrow> bytes" where
  "encode_le 0 v = []"
| "encode_le (Suc n) v = ucast v # encode_le n (drop_bit 8 v)"

definition encode32 :: "u32 \<Rightarrow> bytes" where
  "encode32 v = encode_le 4 v"

lemma length_write_le16 [simp, le_simps]: "length (write_le16 v) = 2"
  by (simp add: write_le16_def)

lemma encode32_unfold:
  "encode32 v = [ucast v, ucast (drop_bit 8 v), ucast (drop_bit 16 v), ucast (drop_bit 24 v)]"
  by (simp add: encode32_def numeral_eq_Suc)

lemma length_encode32 [simp, le_simps]: "length (encode32 v) = 4"
  by (simp add: encode32_unfold)

lemma read_write_le16 [simp, le_simps]: "read_le16 (write_le16 v) = v"
  by (rule bit_word_eqI) (auto simp: read_le16_def write_le16_def bit_simps)

lemma read_write_le16_append [simp, le_simps]: "read_le16 (write_le16 v @ r) = v"
  by (rule bit_word_eqI) (auto simp: read_le16_def write_le16_def bit_simps)

lemma read_le16_bytes [simp, le_simps]: "read_le16 (ucast v # ucast (drop_bit 8 v) # r) = v"
  using read_write_le16_append [of v r] by (simp add: write_le16_def)

lemma write_read_le16 [le_simps]: "write_le16 (read_le16 (a # b # r)) = [a, b]"
proof -
  have "ucast (read_le16 (a # b # r)) = a"
    by (rule bit_word_eqI) (auto simp: read_le16_def bit_simps dest: bit_imp_le_length)
  moreover have "ucast (drop_bit 8 (read_le16 (a # b # r))) = b"
    by (rule bit_word_eqI) (auto simp: read_le16_def bit_simps dest: bit_imp_le_length)
  ultimately show ?thesis by (simp add: write_le16_def)
qed

lemma read_le16_split: "read_le16 (x # ucast (drop_bit 8 v) # r) = ucast x OR (v AND 0xff00)"
  unfolding and_high_byte by (rule bit_word_eqI) (auto simp: read_le16_def bit_simps)

lemma decode_encode32_append [simp, le_simps]: "decode32 (encode32 v @ r) = v"
proof (rule bit_word_eqI)
  fix n assume "n < LENGTH(32)"
  then show "bit (decode32 (encode32 v @ r)) n \<longleftrightarrow> bit v n"
    by (cases "n < 16"; cases "n < 24") (auto simp: decode32_def encode32_unfold bit_simps)
qed

lemma decode_encode32 [simp, le_simps]: "decode32 (encode32 v) = v"
  using decode_encode32_append [of v "[]"] by simp

lemma xor_cancel: "a XOR c = b XOR c \<longleftrightarrow> a = (b :: 'w :: len word)"
proof
  assume "a XOR c = b XOR c"
  then have "(a XOR c) XOR c = (b XOR c) XOR c" by (rule arg_cong)
  then show "a = b" by (simp add: xor.assoc)
qed simp

end
