(* ===== verification/Flash_Interface.thy ===== *)
theory Flash_Interface
  imports Prelude
begin

text \<open>
  The interface between the NV journal and the flash services (\<open>src/include/flash.h\<close>,
  \<open>src/include/flash_write.h\<close>): the result codes, the three operations a client calls,
  and the contract they promise. The contract is the locale \<open>nv_flash\<close>; the journal's
  theorems are proved once inside it (theory \<open>Nv_Record\<close>).
\<close>

datatype flash_result =
    FLASH_OK | FLASH_INVALID_ARGUMENT | FLASH_INVALID_RANGE
  | FLASH_BUFFER_OWNERSHIP | FLASH_UNSUPPORTED_CHIP | FLASH_UNSUPPORTED_STATE
  | FLASH_CONTROLLER_STATE | FLASH_MAPPING_CHANGED

datatype flash_write_result =
    FLASH_WRITE_OK | FLASH_WRITE_INVALID_ARGUMENT | FLASH_WRITE_INVALID_RANGE
  | FLASH_WRITE_BUFFER_OWNERSHIP | FLASH_WRITE_HISTORY_UNKNOWN | FLASH_WRITE_WORD_USED
  | FLASH_WRITE_EXECUTOR_FAILED | FLASH_WRITE_READER_FAILED | FLASH_WRITE_VERIFY_FAILED
  | FLASH_WRITE_NOT_ERASED | FLASH_WRITE_PENDING

abbreviation (input) FLASH_PAGE_SIZE :: nat where "FLASH_PAGE_SIZE \<equiv> 2048"
abbreviation (input) FLASH_READ_MAX :: nat where "FLASH_READ_MAX \<equiv> 32"
abbreviation (input) FLASH_NV_PAGE_COUNT :: nat where "FLASH_NV_PAGE_COUNT \<equiv> 2"

text \<open>
  The operations as a client sees them, over an opaque machine state \<open>'h\<close>. A read returns
  the bytes it stored in the caller's buffer.
\<close>

record 'h flash_ops =
  op_read :: "nat \<Rightarrow> nat \<Rightarrow> nat \<Rightarrow> 'h \<Rightarrow> flash_result \<times> bytes \<times> 'h"
  op_program :: "nat \<Rightarrow> nat \<Rightarrow> bytes \<Rightarrow> u16 \<Rightarrow> 'h \<Rightarrow> flash_write_result \<times> 'h"
  op_erase :: "nat \<Rightarrow> u16 \<Rightarrow> 'h \<Rightarrow> flash_write_result \<times> 'h"

text \<open>\<open>store_at off w p\<close>: the buffer \<open>p\<close> with \<open>w\<close> stored at offset \<open>off\<close>.\<close>

definition store_at :: "nat \<Rightarrow> 'a list \<Rightarrow> 'a list \<Rightarrow> 'a list" where
  "store_at off w p = take off p @ w @ drop (off + length w) p"

lemma length_store_at [simp, buf_simps]:
  "off + length w \<le> length p \<Longrightarrow> length (store_at off w p) = length p"
  by (simp add: store_at_def)

lemma take_store_at [buf_simps]: "n \<le> off \<Longrightarrow> off \<le> length p \<Longrightarrow> take n (store_at off w p) = take n p"
  by (simp add: store_at_def min_def)

lemma drop_store_at [buf_simps]:
  "off \<le> length p \<Longrightarrow> off + length w \<le> n \<Longrightarrow> drop n (store_at off w p) = drop n p"
  by (simp add: store_at_def)

lemma store_at_same [buf_simps]:
  "off \<le> length p \<Longrightarrow> take (length w) (drop off (store_at off w p)) = w"
  by (simp add: store_at_def)

lemma nth_store_at:
  "off + length w \<le> length p \<Longrightarrow> i < length p \<Longrightarrow>
   store_at off w p ! i = (if off \<le> i \<and> i < off + length w then w ! (i - off) else p ! i)"
  by (auto simp: store_at_def nth_append min_def)

text \<open>
  The contract. \<open>pages h p\<close> is the content of NV page \<open>p\<close>; \<open>ok\<close> is the driver's state
  invariant; \<open>live\<close> says the services are usable (no fault latched, the machine in a state
  the driver accepts); \<open>fresh h p off\<close> that the word at \<open>off\<close> may be programmed; \<open>enough l\<close>
  that a poll limit outlasts a flash command.
  A failed program may leave any value in the addressed word (a torn write), a failed
  erase may leave anything in the addressed page; neither touches the other page.
\<close>

locale nv_flash =
  fixes ops :: "'h flash_ops"
    and pages :: "'h \<Rightarrow> nat \<Rightarrow> bytes"
    and ok :: "'h \<Rightarrow> bool"
    and live :: "'h \<Rightarrow> bool"
    and fresh :: "'h \<Rightarrow> nat \<Rightarrow> nat \<Rightarrow> bool"
    and enough :: "u16 \<Rightarrow> bool"
  assumes page_len: "ok h \<Longrightarrow> p < 2 \<Longrightarrow> length (pages h p) = 2048"
    and read_ok: "ok h \<Longrightarrow> op_read ops p off n h = (r, d, h') \<Longrightarrow> ok h'"
    and read_pages: "ok h \<Longrightarrow> op_read ops p off n h = (r, d, h') \<Longrightarrow> pages h' = pages h"
    and read_data: "ok h \<Longrightarrow> p < 2 \<Longrightarrow> op_read ops p off n h = (FLASH_OK, d, h') \<Longrightarrow>
        d = take n (drop off (pages h p))"
    and read_live: "ok h \<Longrightarrow> live h \<Longrightarrow> p < 2 \<Longrightarrow> 0 < n \<Longrightarrow> n \<le> 32 \<Longrightarrow> off + n \<le> 2048 \<Longrightarrow>
        op_read ops p off n h = (r, d, h') \<Longrightarrow>
        r = FLASH_OK \<and> live h' \<and> fresh h' = fresh h"
    and program_ok: "ok h \<Longrightarrow> op_program ops p off w l h = (wr, h') \<Longrightarrow> length w = 4 \<Longrightarrow> ok h'"
    and program_other: "ok h \<Longrightarrow> op_program ops p off w l h = (wr, h') \<Longrightarrow> length w = 4 \<Longrightarrow> q < 2 \<Longrightarrow>
        q \<noteq> p \<Longrightarrow> pages h' q = pages h q"
    and program_torn: "ok h \<Longrightarrow> op_program ops p off w l h = (wr, h') \<Longrightarrow> p < 2 \<Longrightarrow>
        length w = 4 \<Longrightarrow> off + 4 \<le> 2048 \<Longrightarrow>
        \<exists>t. length t = 4 \<and> pages h' p = store_at off t (pages h p)"
    and program_data: "ok h \<Longrightarrow> op_program ops p off w l h = (FLASH_WRITE_OK, h') \<Longrightarrow>
        p < 2 \<Longrightarrow> length w = 4 \<Longrightarrow> off + 4 \<le> 2048 \<Longrightarrow> pages h' p = store_at off w (pages h p)"
    and program_live: "ok h \<Longrightarrow> live h \<Longrightarrow> fresh h p off \<Longrightarrow> p < 2 \<Longrightarrow> length w = 4 \<Longrightarrow>
        off mod 4 = 0 \<Longrightarrow> off + 4 \<le> 2048 \<Longrightarrow> enough l \<Longrightarrow>
        op_program ops p off w l h = (wr, h') \<Longrightarrow>
        wr = FLASH_WRITE_OK \<and> live h' \<and>
        (\<forall>o'. o' mod 4 = 0 \<longrightarrow> o' + 4 \<le> 2048 \<longrightarrow> o' \<noteq> off \<longrightarrow> fresh h p o' \<longrightarrow> fresh h' p o')"
    and erase_ok: "ok h \<Longrightarrow> op_erase ops p l h = (wr, h') \<Longrightarrow> ok h'"
    and erase_other: "ok h \<Longrightarrow> op_erase ops p l h = (wr, h') \<Longrightarrow> q < 2 \<Longrightarrow> q \<noteq> p \<Longrightarrow>
        pages h' q = pages h q"
    and erase_data: "ok h \<Longrightarrow> op_erase ops p l h = (FLASH_WRITE_OK, h') \<Longrightarrow> p < 2 \<Longrightarrow>
        pages h' p = replicate 2048 255"
    and erase_live: "ok h \<Longrightarrow> live h \<Longrightarrow> p < 2 \<Longrightarrow> enough l \<Longrightarrow>
        op_erase ops p l h = (wr, h') \<Longrightarrow>
        wr = FLASH_WRITE_OK \<and> live h' \<and> (\<forall>o'. o' mod 4 = 0 \<longrightarrow> o' + 4 \<le> 2048 \<longrightarrow> fresh h' p o')"

end
