(* ===== verification/Mmio.thy ===== *)
theory Mmio
  imports Prelude
begin

text \<open>
  The register access macros of \<open>src/include/cc2530_mmio.h\<close>. The chip behind them is not
  part of the repository: it is the parameter \<open>bus\<close>, four access functions over an opaque
  hardware state \<open>'m\<close>. Reads return a new state because some registers change when read.
\<close>

record 'm bus =
  sfr_read :: "u8 \<Rightarrow> 'm \<Rightarrow> u8 \<times> 'm"
  sfr_write :: "u8 \<Rightarrow> u8 \<Rightarrow> 'm \<Rightarrow> 'm"
  xread :: "u16 \<Rightarrow> 'm \<Rightarrow> u8 \<times> 'm"
  xwrite :: "u16 \<Rightarrow> u8 \<Rightarrow> 'm \<Rightarrow> 'm"

abbreviation (input) SOC_IEN0 :: u8 where "SOC_IEN0 \<equiv> 0xa8"
abbreviation (input) SOC_IEN1 :: u8 where "SOC_IEN1 \<equiv> 0xb8"
abbreviation (input) SOC_IEN2 :: u8 where "SOC_IEN2 \<equiv> 0x9a"
abbreviation (input) SOC_SLEEPCMD :: u8 where "SOC_SLEEPCMD \<equiv> 0xbe"
abbreviation (input) SOC_CLKCONCMD :: u8 where "SOC_CLKCONCMD \<equiv> 0xc6"
abbreviation (input) SOC_CLKCONSTA :: u8 where "SOC_CLKCONSTA \<equiv> 0x9e"
abbreviation (input) SOC_DMAARM :: u8 where "SOC_DMAARM \<equiv> 0xd6"
abbreviation (input) SOC_DMAREQ :: u8 where "SOC_DMAREQ \<equiv> 0xd7"
abbreviation (input) SOC_MEMCTR :: u8 where "SOC_MEMCTR \<equiv> 0xc7"

text \<open>A run of consecutive register reads, in program order.\<close>

fun sfr_reads :: "'m bus \<Rightarrow> u8 list \<Rightarrow> 'm \<Rightarrow> bytes \<times> 'm" where
  "sfr_reads bus [] h = ([], h)"
| "sfr_reads bus (a # as) h =
     (case sfr_read bus a h of (v, h1) \<Rightarrow> case sfr_reads bus as h1 of (vs, h2) \<Rightarrow> (v # vs, h2))"

fun xreads :: "'m bus \<Rightarrow> u16 list \<Rightarrow> 'm \<Rightarrow> bytes \<times> 'm" where
  "xreads bus [] h = ([], h)"
| "xreads bus (a # as) h =
     (case xread bus a h of (v, h1) \<Rightarrow> case xreads bus as h1 of (vs, h2) \<Rightarrow> (v # vs, h2))"

fun xwrites :: "'m bus \<Rightarrow> (u16 \<times> u8) list \<Rightarrow> 'm \<Rightarrow> 'm" where
  "xwrites bus [] h = h"
| "xwrites bus ((a, v) # r) h = xwrites bus r (xwrite bus a v h)"

text \<open>A property of the hardware state that no access changes survives a run of accesses.\<close>

lemma sfr_reads_inv:
  assumes "\<And>a h v h'. sfr_read bus a h = (v, h') \<Longrightarrow> f h' = f h"
  shows "sfr_reads bus as h = (vs, h') \<Longrightarrow> f h' = f h"
  by (induction as arbitrary: h vs h') (auto split: prod.splits dest: assms)

lemma xreads_inv:
  assumes "\<And>a h v h'. xread bus a h = (v, h') \<Longrightarrow> f h' = f h"
  shows "xreads bus as h = (vs, h') \<Longrightarrow> f h' = f h"
  by (induction as arbitrary: h vs h') (auto split: prod.splits dest: assms)

lemma length_sfr_reads: "sfr_reads bus as h = (vs, h') \<Longrightarrow> length vs = length as"
  by (induction as arbitrary: h vs h') (auto split: prod.splits)

lemma length_xreads: "xreads bus as h = (vs, h') \<Longrightarrow> length vs = length as"
  by (induction as arbitrary: h vs h') (auto split: prod.splits)

text \<open>On a machine whose registers read without side effects the values are the register file.\<close>

lemma sfr_reads_quiet:
  assumes "\<And>a. a \<in> set as \<Longrightarrow> sfr_read bus a h = (R a, h)"
  shows "sfr_reads bus as h = (map R as, h)"
  using assms by (induction as) auto

lemma xreads_quiet:
  assumes "\<And>a. a \<in> set as \<Longrightarrow> xread bus a h = (R a, h)"
  shows "xreads bus as h = (map R as, h)"
  using assms by (induction as) auto

end
