(* ===== verification/Flash.thy ===== *)
theory Flash
  imports Flash_Interface Mmio
begin

text \<open>
  The flash services: the guarded NV reader (\<open>src/src/flash.c\<close>), the RAM-resident command
  executor (\<open>src/src/flash_exec.c\<close>, including the machine-code template it copies to RAM)
  and the verified writer (\<open>src/src/flash_write.c\<close>). Plain profile: no
  \<open>CC2530_MAC_LINK_*\<close> workspace and no \<open>CC2530_RADIO_RX_ISR\<close>, so the interrupt guards are
  \<open>0xff\<close>. Linker-assigned addresses are the fields of \<open>flash_config\<close>.

  When the poll limit runs out the template stores \<open>FLASH_EXEC_RAM_STOP\<close> and loops forever
  in RAM. The model returns that code: nothing of the firmware runs after it, and every
  later call returns the latched code without touching the flash.
\<close>

datatype flash_exec_result =
    FLASH_EXEC_IDLE | FLASH_EXEC_INVALID_ARGUMENT | FLASH_EXEC_UNSUPPORTED_STATE
  | FLASH_EXEC_MAPPING_CHANGED | FLASH_EXEC_CODE_CHANGED | FLASH_EXEC_ABORT
  | FLASH_EXEC_CONTROLLER_STATE | FLASH_EXEC_RAM_STOP

datatype flash_operation = FLASH_EXEC_ERASE | FLASH_EXEC_PROGRAM

datatype flash_write_phase =
    FLASH_WRITE_NONE | FLASH_WRITE_PREFLIGHT | FLASH_WRITE_COMMAND | FLASH_WRITE_VERIFY | FLASH_WRITE_DONE

record flash_config =
  cfg_flash_end :: u16
  cfg_write_end :: u16
  cfg_exec_end :: u16
  cfg_ram :: u16
  cfg_template_size :: nat
  cfg_check :: u16
  cfg_write_word :: u16
  cfg_nv_chunk :: u16
  cfg_nv_word :: u16

text \<open>
  The static state of the three files. \<open>flash_write_known\<close> is the page bit mask as a list of
  two flags; the writer's purely diagnostic fields (\<open>operation\<close>, \<open>page\<close>, \<open>offset_*\<close>,
  \<open>executor\<close>, \<open>reader\<close>), which no code reads back, are left out.
\<close>

record 'm flash_state =
  flash_fault :: flash_result
  saved_bank :: u8
  saved_clock :: u8
  saved_cache :: u8
  flash_exec_latch :: flash_exec_result
  exec_mapping :: u8
  exec_clock :: u8
  exec_cache :: u8
  flash_write_result :: flash_write_result
  flash_write_phase :: flash_write_phase
  flash_write_known :: "bool list"
  flash_write_used :: "u8 list"
  flash_hw :: 'm

abbreviation (input) FCTL :: u16 where "FCTL \<equiv> 0x6270"
abbreviation (input) NV_WINDOW :: u16 where "NV_WINDOW \<equiv> 0xe800"

section \<open>Reader\<close>

definition clock_ok :: "u8 \<Rightarrow> bool" where
  "clock_ok command \<longleftrightarrow> command AND 7 = (if command AND 0x40 \<noteq> 0 then 1 else 0) \<and>
     \<not> (command AND 0x40 \<noteq> 0 \<and> command AND 0x38 = 0)"

definition observe :: "'m bus \<Rightarrow> u8 \<Rightarrow> 'm flash_state \<Rightarrow> flash_result \<times> 'm flash_state" where
  "observe bus bank st =
     (case sfr_reads bus [SOC_IEN0, SOC_IEN1, SOC_IEN2, SOC_SLEEPCMD, SOC_CLKCONCMD, SOC_CLKCONSTA,
         SOC_DMAARM, SOC_DMAREQ] (flash_hw st) of (v, h1) \<Rightarrow>
      let ien0 = v ! 0; ien1 = v ! 1; ien2 = v ! 2; sleep = v ! 3; command = v ! 4; status = v ! 5;
          arm = v ! 6; request = v ! 7
      in if ien0 \<noteq> 0 \<or> ien1 \<noteq> 0 \<or> ien2 \<noteq> 0 \<or> arm \<noteq> 0 \<or> request \<noteq> 0 \<or> sleep AND 7 \<noteq> 4 \<or>
            command \<noteq> saved_clock st \<or> command \<noteq> status \<or> \<not> clock_ok command
         then (FLASH_UNSUPPORTED_STATE, st\<lparr>flash_hw := h1\<rparr>)
         else case xread bus FCTL h1 of (control, h2) \<Rightarrow>
           if control \<noteq> saved_cache st then (FLASH_CONTROLLER_STATE, st\<lparr>flash_hw := h2\<rparr>)
           else case sfr_read bus SOC_MEMCTR h2 of (mapping, h3) \<Rightarrow>
             if mapping \<noteq> bank then (FLASH_MAPPING_CHANGED, st\<lparr>flash_hw := h3\<rparr>)
             else (FLASH_OK, st\<lparr>flash_hw := h3\<rparr>))"

text \<open>Label \<open>failed\<close>: latch the fault.\<close>

definition read_failed :: "flash_result \<Rightarrow> 'm flash_state \<Rightarrow> flash_result \<times> bytes \<times> 'm flash_state" where
  "read_failed r st = (r, [], st\<lparr>flash_fault := r\<rparr>)"

text \<open>The mapped part: switch the window to bank 7, copy, recheck, restore, recheck.\<close>

definition read_mapped :: "'m bus \<Rightarrow> nat \<Rightarrow> nat \<Rightarrow> nat \<Rightarrow> 'm flash_state \<Rightarrow>
    flash_result \<times> bytes \<times> 'm flash_state" where
  "read_mapped bus page offset len st =
     (case observe bus 7 (st\<lparr>flash_hw := sfr_write bus SOC_MEMCTR 7 (flash_hw st)\<rparr>) of (r1, st1) \<Rightarrow>
        if r1 \<noteq> FLASH_OK then read_failed r1 st1
        else let source = NV_WINDOW + of_nat page * 2048 + of_nat offset in
        case xreads bus (map (\<lambda>i. source + of_nat i) [0..<len]) (flash_hw st1) of (staging, h2) \<Rightarrow>
        case observe bus 7 (st1\<lparr>flash_hw := h2\<rparr>) of (r3, st3) \<Rightarrow>
        if r3 \<noteq> FLASH_OK then read_failed r3 st3
        else case observe bus (saved_bank st3)
            (st3\<lparr>flash_hw := sfr_write bus SOC_MEMCTR (saved_bank st3) (flash_hw st3)\<rparr>) of (r4, st4) \<Rightarrow>
        if r4 \<noteq> FLASH_OK then read_failed r4 st4 else (FLASH_OK, staging, st4))"

definition flash_nv_read :: "flash_config \<Rightarrow> 'm bus \<Rightarrow> nat \<Rightarrow> nat \<Rightarrow> u16 option \<Rightarrow> nat \<Rightarrow>
    'm flash_state \<Rightarrow> flash_result \<times> bytes \<times> 'm flash_state" where
  "flash_nv_read cfg bus page offset output len st =
     (if flash_fault st \<noteq> FLASH_OK then (flash_fault st, [], st)
      else if output = None \<or> len = 0 \<or> FLASH_READ_MAX < len then (FLASH_INVALID_ARGUMENT, [], st)
      else if FLASH_NV_PAGE_COUNT \<le> page \<or> FLASH_PAGE_SIZE \<le> offset \<or> FLASH_PAGE_SIZE - offset < len
        then (FLASH_INVALID_RANGE, [], st)
      else let address = unat (the output) in
      if 0x1e00 \<le> address \<or> 0x1e00 - address < len then (FLASH_INVALID_RANGE, [], st)
      else if the output \<le> cfg_flash_end cfg then (FLASH_BUFFER_OWNERSHIP, [], st)
      else case sfr_reads bus [SOC_MEMCTR, SOC_CLKCONCMD] (flash_hw st) of (v, h1) \<Rightarrow>
        case xread bus FCTL h1 of (control, h2) \<Rightarrow>
        let st1 = st\<lparr>flash_hw := h2, saved_bank := v ! 0, saved_clock := v ! 1,
              saved_cache := control AND 0x0c\<rparr>
        in if saved_bank st1 AND 0xf8 \<noteq> 0 then read_failed FLASH_UNSUPPORTED_STATE st1
        else case observe bus (saved_bank st1) st1 of (r2, st2) \<Rightarrow>
          if r2 \<noteq> FLASH_OK then read_failed r2 st2
          else case xreads bus [0x624a, 0x6276, 0x6277] (flash_hw st2) of (c, h3) \<Rightarrow>
            if c ! 0 \<noteq> 0xa5 \<or> c ! 1 \<noteq> 0x44 \<or> c ! 2 AND 7 \<noteq> 7
            then read_failed FLASH_UNSUPPORTED_CHIP (st2\<lparr>flash_hw := h3\<rparr>)
            else read_mapped bus page offset len (st2\<lparr>flash_hw := h3\<rparr>))"

section \<open>Executor\<close>

definition exec_idle :: "'m bus \<Rightarrow> u8 \<Rightarrow> 'm flash_state \<Rightarrow> bool \<times> 'm flash_state" where
  "exec_idle bus expected st =
     (case sfr_reads bus [SOC_IEN0, SOC_IEN1, SOC_IEN2, SOC_DMAARM, SOC_DMAREQ, SOC_SLEEPCMD,
         SOC_CLKCONCMD, SOC_CLKCONSTA] (flash_hw st) of (v, h1) \<Rightarrow>
      case xread bus FCTL h1 of (control, h2) \<Rightarrow>
      case sfr_read bus SOC_MEMCTR h2 of (bank, h3) \<Rightarrow>
        (v ! 0 = 0 \<and> v ! 1 = 0 \<and> v ! 2 = 0 \<and> v ! 3 = 0 \<and> v ! 4 = 0 \<and> v ! 5 AND 7 = 4 \<and>
         v ! 6 = exec_clock st \<and> v ! 6 = v ! 7 \<and> clock_ok (v ! 6) \<and> control = exec_cache st \<and>
         bank = expected, st\<lparr>flash_hw := h3\<rparr>))"

text \<open>
  The template's poll loop: read \<open>FCTL\<close>; leave when \<open>FCTL & 0x83\<close> is clear; otherwise
  decrement the limit and stop when it reaches zero. \<open>Some\<close> is the last \<open>FCTL\<close> of a
  completed command.
\<close>

lemma limit_decreases: "(limit :: u16) \<noteq> 1 \<Longrightarrow> unat (limit - 2) < unat (limit - 1)"
proof -
  assume "limit \<noteq> 1"
  then have nz: "limit - 1 \<noteq> 0" by simp
  then have "unat (limit - 1 - 1) = unat (limit - 1) - 1" by (rule unat_minus_one)
  moreover have "0 < unat (limit - 1)" using nz by (simp add: unat_gt_0)
  ultimately show ?thesis by simp
qed

function template_poll :: "'m bus \<Rightarrow> u16 \<Rightarrow> 'm \<Rightarrow> u8 option \<times> 'm" where
  "template_poll bus limit h =
     (case xread bus FCTL h of (control, h1) \<Rightarrow>
        if control AND 0x83 = 0 then (Some control, h1)
        else if limit - 1 = 0 then (None, h1)
        else template_poll bus (limit - 1) h1)"
  by pat_completeness auto
termination
  by (relation "measure (\<lambda>(bus, limit, h). unat (limit - 1))") (auto simp: limit_decreases)

definition flash_exec_template :: "'m bus \<Rightarrow> u8 \<Rightarrow> bytes \<Rightarrow> u16 \<Rightarrow> 'm \<Rightarrow> flash_exec_result \<times> 'm" where
  "flash_exec_template bus command word limit h =
     (case xread bus FCTL (xwrite bus FCTL command h) of (readback, h1) \<Rightarrow>
      let started = (readback XOR command = 0x80);
          h2 = (if started \<and> command AND 2 \<noteq> 0 then xwrites bus (map (Pair 0x6273) word) h1 else h1)
      in (case template_poll bus limit h2 of
           (None, h3) \<Rightarrow> (FLASH_EXEC_RAM_STOP, h3)
         | (Some control, h3) \<Rightarrow>
             (if control AND 0x20 \<noteq> 0 then FLASH_EXEC_ABORT
              else if \<not> started \<or> (command AND 0x0c) XOR control \<noteq> 0 then FLASH_EXEC_CONTROLLER_STATE
              else FLASH_EXEC_IDLE, h3)))"

definition operation_code :: "flash_operation \<Rightarrow> u8" where
  "operation_code operation = (case operation of FLASH_EXEC_ERASE \<Rightarrow> 1 | FLASH_EXEC_PROGRAM \<Rightarrow> 2)"

definition exec_failed :: "flash_exec_result \<Rightarrow> 'm flash_state \<Rightarrow> flash_exec_result \<times> 'm flash_state" where
  "exec_failed r st = (r, st\<lparr>flash_exec_latch := r\<rparr>)"

text \<open>
  From the second \<open>idle\<close> check to the end: address registers, XMAP, template, restore.
  The copy of the template to RAM and its comparison are checked by address and size only:
  the bytes read back are the bytes stored.
\<close>

definition exec_run :: "'m bus \<Rightarrow> flash_operation \<Rightarrow> nat \<Rightarrow> nat \<Rightarrow> bytes \<Rightarrow> u16 \<Rightarrow> 'm flash_state \<Rightarrow>
    flash_exec_result \<times> 'm flash_state" where
  "exec_run bus operation page offset word limit st =
     (let mapping = exec_mapping st;
          command = exec_cache st OR operation_code operation;
          word = (if operation = FLASH_EXEC_PROGRAM then word else [0, 0, 0, 0]);
          target = of_nat (0x3e800 div 4 + page * 512 + offset div 4) :: u16
      in case exec_idle bus mapping st of (i1, st1) \<Rightarrow>
         if \<not> i1 then exec_failed FLASH_EXEC_UNSUPPORTED_STATE st1
         else case xreads bus [0x6271, 0x6272]
             (xwrites bus [(0x6271, ucast target), (0x6272, ucast (drop_bit 8 target))] (flash_hw st1)) of (a, h2) \<Rightarrow>
         if a ! 0 \<noteq> ucast target \<or> a ! 1 \<noteq> ucast (drop_bit 8 target)
         then exec_failed FLASH_EXEC_CONTROLLER_STATE (st1\<lparr>flash_hw := h2\<rparr>)
         else case sfr_read bus SOC_MEMCTR (sfr_write bus SOC_MEMCTR (mapping OR 8) h2) of (m, h3) \<Rightarrow>
         if m \<noteq> mapping OR 8 then exec_failed FLASH_EXEC_MAPPING_CHANGED (st1\<lparr>flash_hw := h3\<rparr>)
         else case exec_idle bus (mapping OR 8) (st1\<lparr>flash_hw := h3\<rparr>) of (i4, st4) \<Rightarrow>
         if \<not> i4 then exec_failed FLASH_EXEC_UNSUPPORTED_STATE st4
         else case flash_exec_template bus command word limit (flash_hw st4) of (r5, h5) \<Rightarrow>
         if r5 \<noteq> FLASH_EXEC_IDLE then exec_failed r5 (st4\<lparr>flash_hw := h5\<rparr>)
         else case exec_idle bus (mapping OR 8) (st4\<lparr>flash_hw := h5\<rparr>) of (i6, st6) \<Rightarrow>
         if \<not> i6 then exec_failed FLASH_EXEC_UNSUPPORTED_STATE st6
         else case sfr_read bus SOC_MEMCTR (sfr_write bus SOC_MEMCTR mapping (flash_hw st6)) of (m7, h7) \<Rightarrow>
         if m7 \<noteq> mapping then exec_failed FLASH_EXEC_MAPPING_CHANGED (st6\<lparr>flash_hw := h7\<rparr>)
         else (FLASH_EXEC_IDLE, st6\<lparr>flash_hw := h7\<rparr>))"

definition flash_exec_command :: "flash_config \<Rightarrow> 'm bus \<Rightarrow> flash_operation \<Rightarrow> nat \<Rightarrow> nat \<Rightarrow>
    (u16 \<times> bytes) option \<Rightarrow> u16 \<Rightarrow> 'm flash_state \<Rightarrow> flash_exec_result \<times> 'm flash_state" where
  "flash_exec_command cfg bus operation page offset word limit st =
     (if flash_exec_latch st \<noteq> FLASH_EXEC_IDLE then (flash_exec_latch st, st)
      else if FLASH_NV_PAGE_COUNT \<le> page \<or> limit = 0 \<or> FLASH_PAGE_SIZE \<le> offset \<or> offset mod 4 \<noteq> 0 \<or>
          (operation = FLASH_EXEC_ERASE \<and> offset \<noteq> 0) then (FLASH_EXEC_INVALID_ARGUMENT, st)
      else if operation = FLASH_EXEC_PROGRAM \<and> (word = None \<or>
          0x1dfc < fst (the word) \<or> fst (the word) \<le> cfg_exec_end cfg) then (FLASH_EXEC_INVALID_ARGUMENT, st)
      else case sfr_reads bus [SOC_MEMCTR, SOC_CLKCONCMD] (flash_hw st) of (v, h1) \<Rightarrow>
        case xread bus FCTL h1 of (control, h2) \<Rightarrow>
        let st1 = st\<lparr>flash_hw := h2, exec_mapping := v ! 0, exec_clock := v ! 1,
              exec_cache := control AND 0x0c\<rparr>
        in if exec_mapping st1 AND 0xf8 \<noteq> 0 then exec_failed FLASH_EXEC_UNSUPPORTED_STATE st1
        else case exec_idle bus (exec_mapping st1) st1 of (i2, st2) \<Rightarrow>
        if \<not> i2 then exec_failed FLASH_EXEC_UNSUPPORTED_STATE st2
        else case xreads bus [0x624a, 0x6276, 0x6277] (flash_hw st2) of (c, h3) \<Rightarrow>
        let st3 = st2\<lparr>flash_hw := h3\<rparr> in
        if c ! 0 \<noteq> 0xa5 \<or> c ! 1 \<noteq> 0x44 \<or> c ! 2 AND 7 \<noteq> 7 then exec_failed FLASH_EXEC_UNSUPPORTED_STATE st3
        else if cfg_template_size cfg = 0 \<or> 123 < cfg_template_size cfg \<or> 0x1e00 - 123 < cfg_ram cfg
          then exec_failed FLASH_EXEC_CODE_CHANGED st3
        else exec_run bus operation page offset (case word of None \<Rightarrow> [] | Some (_, w) \<Rightarrow> w) limit st3)"

section \<open>Writer\<close>

definition used_index :: "nat \<Rightarrow> nat \<Rightarrow> nat" where
  "used_index page offset = page * 64 + offset div 32"

definition used_mask :: "nat \<Rightarrow> u8" where
  "used_mask offset = push_bit (offset div 4 mod 8) 1"

definition write_failed :: "flash_write_result \<Rightarrow> 'm flash_state \<Rightarrow> flash_write_result \<times> 'm flash_state" where
  "write_failed r st = (r, st\<lparr>flash_write_result := r\<rparr>)"

text \<open>The verification loop: one read of the word, or the whole page in 32-byte steps.\<close>

fun verify_loop :: "flash_config \<Rightarrow> 'm bus \<Rightarrow> nat \<Rightarrow> nat \<Rightarrow> bytes \<Rightarrow> nat list \<Rightarrow> 'm flash_state \<Rightarrow>
    flash_write_result \<times> 'm flash_state" where
  "verify_loop cfg bus page len expected [] st = (FLASH_WRITE_OK, st)"
| "verify_loop cfg bus page len expected (position # rest) st =
     (case flash_nv_read cfg bus page position (Some (cfg_check cfg)) len st of (r, check, st1) \<Rightarrow>
        if r \<noteq> FLASH_OK then write_failed FLASH_WRITE_READER_FAILED st1
        else if check \<noteq> expected then write_failed FLASH_WRITE_VERIFY_FAILED st1
        else verify_loop cfg bus page len expected rest st1)"

text \<open>From the command to the end of \<open>operate\<close>.\<close>

definition operate_run :: "flash_config \<Rightarrow> 'm bus \<Rightarrow> flash_operation \<Rightarrow> nat \<Rightarrow> nat \<Rightarrow> bytes \<Rightarrow> u16 \<Rightarrow>
    'm flash_state \<Rightarrow> flash_write_result \<times> 'm flash_state" where
  "operate_run cfg bus operation page offset word limit st =
     (case flash_exec_command cfg bus operation page offset (Some (cfg_write_word cfg, word)) limit
         (st\<lparr>flash_write_phase := FLASH_WRITE_COMMAND\<rparr>) of (e, st1) \<Rightarrow>
      if e \<noteq> FLASH_EXEC_IDLE then write_failed FLASH_WRITE_EXECUTOR_FAILED st1
      else case (case operation of
          FLASH_EXEC_PROGRAM \<Rightarrow> verify_loop cfg bus page 4 word [offset]
            (st1\<lparr>flash_write_phase := FLASH_WRITE_VERIFY\<rparr>)
        | FLASH_EXEC_ERASE \<Rightarrow> verify_loop cfg bus page FLASH_READ_MAX (replicate 32 255)
            (map (\<lambda>k. 32 * k) [0..<64]) (st1\<lparr>flash_write_phase := FLASH_WRITE_VERIFY\<rparr>)) of (w, st2) \<Rightarrow>
      if w \<noteq> FLASH_WRITE_OK then (w, st2)
      else let st3 = (case operation of FLASH_EXEC_PROGRAM \<Rightarrow> st2
             | FLASH_EXEC_ERASE \<Rightarrow> st2\<lparr>
                 flash_write_used := store_at (page * 64) (replicate 64 0) (flash_write_used st2),
                 flash_write_known := (flash_write_known st2)[page := True]\<rparr>)
      in (FLASH_WRITE_OK, st3\<lparr>flash_write_phase := FLASH_WRITE_DONE, flash_write_result := FLASH_WRITE_OK\<rparr>))"

definition operate :: "flash_config \<Rightarrow> 'm bus \<Rightarrow> flash_operation \<Rightarrow> nat \<Rightarrow> nat \<Rightarrow> (u16 \<times> bytes) option \<Rightarrow>
    u16 \<Rightarrow> 'm flash_state \<Rightarrow> flash_write_result \<times> 'm flash_state" where
  "operate cfg bus operation page offset word limit st =
     (let program = (operation = FLASH_EXEC_PROGRAM) in
      if flash_write_result st \<noteq> FLASH_WRITE_OK then (flash_write_result st, st)
      else if limit = 0 \<or> (program \<and> word = None) then (FLASH_WRITE_INVALID_ARGUMENT, st)
      else if FLASH_NV_PAGE_COUNT \<le> page \<or> FLASH_PAGE_SIZE \<le> offset \<or> offset mod 4 \<noteq> 0
        then (FLASH_WRITE_INVALID_RANGE, st)
      else if program \<and> 0x1dfc < fst (the word) then (FLASH_WRITE_INVALID_RANGE, st)
      else if program \<and> fst (the word) \<le> cfg_write_end cfg then (FLASH_WRITE_BUFFER_OWNERSHIP, st)
      else if program \<and> \<not> flash_write_known st ! page then (FLASH_WRITE_HISTORY_UNKNOWN, st)
      else if program \<and> flash_write_used st ! used_index page offset AND used_mask offset \<noteq> 0
        then (FLASH_WRITE_WORD_USED, st)
      else case flash_nv_read cfg bus page offset (Some (cfg_check cfg)) (if program then 4 else 1)
          (st\<lparr>flash_write_result := FLASH_WRITE_PENDING, flash_write_phase := FLASH_WRITE_PREFLIGHT\<rparr>) of
        (r, check, st1) \<Rightarrow>
        if r \<noteq> FLASH_OK then write_failed FLASH_WRITE_READER_FAILED st1
        else if program \<and> check \<noteq> [255, 255, 255, 255] then write_failed FLASH_WRITE_NOT_ERASED st1
        else operate_run cfg bus operation page offset (case word of None \<Rightarrow> [] | Some (_, w) \<Rightarrow> take 4 w) limit
          (if program then st1\<lparr>flash_write_used := (flash_write_used st1)[used_index page offset :=
               flash_write_used st1 ! used_index page offset OR used_mask offset]\<rparr>
           else st1\<lparr>flash_write_known := (flash_write_known st1)[page := False]\<rparr>))"

definition flash_nv_erase :: "flash_config \<Rightarrow> 'm bus \<Rightarrow> nat \<Rightarrow> u16 \<Rightarrow> 'm flash_state \<Rightarrow>
    flash_write_result \<times> 'm flash_state" where
  "flash_nv_erase cfg bus page limit st = operate cfg bus FLASH_EXEC_ERASE page 0 None limit st"

definition flash_nv_program :: "flash_config \<Rightarrow> 'm bus \<Rightarrow> nat \<Rightarrow> nat \<Rightarrow> (u16 \<times> bytes) option \<Rightarrow> u16 \<Rightarrow>
    'm flash_state \<Rightarrow> flash_write_result \<times> 'm flash_state" where
  "flash_nv_program cfg bus page offset word limit st =
     operate cfg bus FLASH_EXEC_PROGRAM page offset word limit st"

text \<open>The services as the journal calls them, with its own buffers.\<close>

definition flash_services :: "flash_config \<Rightarrow> 'm bus \<Rightarrow> 'm flash_state flash_ops" where
  "flash_services cfg bus = \<lparr>
     op_read = (\<lambda>p off n. flash_nv_read cfg bus p off (Some (cfg_nv_chunk cfg)) n),
     op_program = (\<lambda>p off w. flash_nv_program cfg bus p off (Some (cfg_nv_word cfg, w))),
     op_erase = flash_nv_erase cfg bus\<rparr>"

text \<open>The statics after reset: no fault, and no write history.\<close>

definition flash_boot :: "'m \<Rightarrow> 'm flash_state" where
  "flash_boot hw = \<lparr>flash_fault = FLASH_OK, saved_bank = 0, saved_clock = 0, saved_cache = 0,
     flash_exec_latch = FLASH_EXEC_IDLE, exec_mapping = 0, exec_clock = 0, exec_cache = 0,
     flash_write_result = FLASH_WRITE_OK, flash_write_phase = FLASH_WRITE_NONE,
     flash_write_known = [False, False], flash_write_used = replicate 128 0, flash_hw = hw\<rparr>"

end
