(* ===== verification/Flash_Proof.thy ===== *)
theory Flash_Proof
  imports Flash
begin

text \<open>
  The flash services meet the contract \<open>nv_flash\<close>. What is assumed of the chip is stated in
  two definitions over abstraction functions of the hardware state: \<open>flash_chip\<close>, what the
  safety laws need, and \<open>flash_chip_idle\<close>, what the "it succeeds" laws need in addition.
\<close>

section \<open>What is assumed of the chip\<close>

text \<open>
  \<open>F h p\<close> is the content of NV page \<open>p\<close>, \<open>bank h\<close> the flash bank mapped into the upper XDATA
  window, \<open>faddr h\<close> the word address in the flash address registers. Register accesses do
  not change the flash; reading \<open>MEMCTR\<close> tells the mapped bank; with bank 7 mapped, the
  window shows the NV pages; reading the address registers tells the address; and a
  command changes at most the addressed page (erase) or word (program).
\<close>

definition nv_target_word :: "nat \<Rightarrow> nat \<Rightarrow> u16" where
  "nv_target_word p off = of_nat (0x3e800 div 4 + p * 512 + off div 4)"

definition flash_chip :: "'m bus \<Rightarrow> ('m \<Rightarrow> nat \<Rightarrow> bytes) \<Rightarrow> ('m \<Rightarrow> u8) \<Rightarrow> ('m \<Rightarrow> u16) \<Rightarrow> bool" where
  "flash_chip bus F bank faddr \<longleftrightarrow>
     (\<forall>h p. p < 2 \<longrightarrow> length (F h p) = 2048) \<and>
     (\<forall>a h. F (snd (sfr_read bus a h)) = F h \<and> faddr (snd (sfr_read bus a h)) = faddr h) \<and>
     (\<forall>a h. F (snd (xread bus a h)) = F h \<and> faddr (snd (xread bus a h)) = faddr h) \<and>
     (\<forall>a v h. F (sfr_write bus a v h) = F h \<and> faddr (sfr_write bus a v h) = faddr h) \<and>
     (\<forall>v h. F (xwrite bus 0x6271 v h) = F h \<and> F (xwrite bus 0x6272 v h) = F h) \<and>
     (\<forall>h. bank (snd (sfr_read bus SOC_MEMCTR h)) = fst (sfr_read bus SOC_MEMCTR h)) \<and>
     (\<forall>h p off. bank h = 7 \<longrightarrow> p < 2 \<longrightarrow> off < 2048 \<longrightarrow>
        fst (xread bus (NV_WINDOW + of_nat p * 2048 + of_nat off) h) = F h p ! off \<and>
        bank (snd (xread bus (NV_WINDOW + of_nat p * 2048 + of_nat off) h)) = 7) \<and>
     (\<forall>h. ucast (faddr (snd (xreads bus [0x6271, 0x6272] h))) = fst (xreads bus [0x6271, 0x6272] h) ! 0 \<and>
        ucast (drop_bit 8 (faddr (snd (xreads bus [0x6271, 0x6272] h)))) =
          fst (xreads bus [0x6271, 0x6272] h) ! 1) \<and>
     (\<forall>c w l h p off q. faddr h = nv_target_word p off \<longrightarrow> p < 2 \<longrightarrow> off < 2048 \<longrightarrow> off mod 4 = 0 \<longrightarrow>
        q < 2 \<longrightarrow> q \<noteq> p \<longrightarrow> F (snd (flash_exec_template bus c w l h)) q = F h q) \<and>
     (\<forall>c w l h p off. faddr h = nv_target_word p off \<longrightarrow> p < 2 \<longrightarrow> off < 2048 \<longrightarrow> off mod 4 = 0 \<longrightarrow>
        c AND 3 = 2 \<longrightarrow>
        (\<exists>t. length t = 4 \<and> F (snd (flash_exec_template bus c w l h)) p = store_at off t (F h p)))"

lemma flash_chipD:
  assumes "flash_chip bus F bank faddr"
  shows "p < 2 \<Longrightarrow> length (F h p) = 2048"
    and "F (snd (sfr_read bus a h)) = F h" "faddr (snd (sfr_read bus a h)) = faddr h"
    and "F (snd (xread bus x h)) = F h" "faddr (snd (xread bus x h)) = faddr h"
    and "F (sfr_write bus a v h) = F h" "faddr (sfr_write bus a v h) = faddr h"
    and "F (xwrite bus 0x6271 v h) = F h" "F (xwrite bus 0x6272 v h) = F h"
    and "bank (snd (sfr_read bus SOC_MEMCTR h)) = fst (sfr_read bus SOC_MEMCTR h)"
    and "bank h = 7 \<Longrightarrow> p < 2 \<Longrightarrow> off < 2048 \<Longrightarrow>
        fst (xread bus (NV_WINDOW + of_nat p * 2048 + of_nat off) h) = F h p ! off \<and>
        bank (snd (xread bus (NV_WINDOW + of_nat p * 2048 + of_nat off) h)) = 7"
    and "ucast (faddr (snd (xreads bus [0x6271, 0x6272] h))) = fst (xreads bus [0x6271, 0x6272] h) ! 0"
    and "ucast (drop_bit 8 (faddr (snd (xreads bus [0x6271, 0x6272] h)))) =
          fst (xreads bus [0x6271, 0x6272] h) ! 1"
    and "faddr h = nv_target_word p off \<Longrightarrow> p < 2 \<Longrightarrow> off < 2048 \<Longrightarrow> off mod 4 = 0 \<Longrightarrow>
        q < 2 \<Longrightarrow> q \<noteq> p \<Longrightarrow> F (snd (flash_exec_template bus c w l h)) q = F h q"
    and "faddr h = nv_target_word p off \<Longrightarrow> p < 2 \<Longrightarrow> off < 2048 \<Longrightarrow> off mod 4 = 0 \<Longrightarrow> c AND 3 = 2 \<Longrightarrow>
        \<exists>t. length t = 4 \<and> F (snd (flash_exec_template bus c w l h)) p = store_at off t (F h p)"
  by (insert assms [unfolded flash_chip_def]) (elim conjE, simp)+

lemma sfr_reads_keep:
  assumes "flash_chip bus F bank faddr" and "sfr_reads bus as h = (vs, h')"
  shows "F h' = F h \<and> faddr h' = faddr h"
  using sfr_reads_inv [of bus "\<lambda>h. (F h, faddr h)", OF _ assms(2)] flash_chipD(2,3) [OF assms(1)]
  by (metis prod.inject snd_conv)

lemma xreads_keep:
  assumes "flash_chip bus F bank faddr" and "xreads bus as h = (vs, h')"
  shows "F h' = F h \<and> faddr h' = faddr h"
  using xreads_inv [of bus "\<lambda>h. (F h, faddr h)", OF _ assms(2)] flash_chipD(4,5) [OF assms(1)]
  by (metis prod.inject snd_conv)

lemma access_keep:
  assumes "flash_chip bus F bank faddr"
  shows "sfr_read bus a h = (v, h') \<Longrightarrow> F h' = F h \<and> faddr h' = faddr h"
    and "xread bus x h = (v, h') \<Longrightarrow> F h' = F h \<and> faddr h' = faddr h"
    and "sfr_read bus SOC_MEMCTR h = (v, h') \<Longrightarrow> bank h' = v"
  using flash_chipD(2-5,10) [OF assms] by (metis fst_conv snd_conv)+

section \<open>Reader\<close>

text \<open>Everything but the reader's own fields and the hardware state is untouched.\<close>

definition reader_frame :: "'m flash_state \<Rightarrow> 'm flash_state \<Rightarrow> bool" where
  "reader_frame st st' \<longleftrightarrow>
     flash_exec_latch st' = flash_exec_latch st \<and> flash_write_result st' = flash_write_result st \<and>
     flash_write_phase st' = flash_write_phase st \<and> flash_write_known st' = flash_write_known st \<and>
     flash_write_used st' = flash_write_used st"

text \<open>Only the hardware state changed, and neither the flash nor the address registers.\<close>

definition hw_only :: "('m \<Rightarrow> nat \<Rightarrow> bytes) \<Rightarrow> ('m \<Rightarrow> u16) \<Rightarrow> 'm flash_state \<Rightarrow> 'm flash_state \<Rightarrow> bool" where
  "hw_only F faddr st st' \<longleftrightarrow> (\<exists>h. st' = st\<lparr>flash_hw := h\<rparr> \<and> F h = F (flash_hw st) \<and> faddr h = faddr (flash_hw st))"

lemma hw_only_trans: "hw_only F faddr a b \<Longrightarrow> hw_only F faddr b c \<Longrightarrow> hw_only F faddr a c"
  by (auto simp: hw_only_def)

lemma hw_only_upd: "F h = F (flash_hw st) \<Longrightarrow> faddr h = faddr (flash_hw st) \<Longrightarrow>
    hw_only F faddr st (st\<lparr>flash_hw := h\<rparr>)"
  by (auto simp: hw_only_def)

lemma hw_only_frame:
  assumes "hw_only F faddr st st'"
  shows "reader_frame st st'" "F (flash_hw st') = F (flash_hw st)" "faddr (flash_hw st') = faddr (flash_hw st)"
    "flash_fault st' = flash_fault st" "saved_bank st' = saved_bank st" "exec_mapping st' = exec_mapping st"
    "exec_cache st' = exec_cache st"
  using assms by (auto simp: hw_only_def reader_frame_def)

lemma observe_spec:
  assumes c: "flash_chip bus F bank faddr" and ob: "observe bus b st = (r, st')"
  shows "hw_only F faddr st st' \<and> (r = FLASH_OK \<longrightarrow> bank (flash_hw st') = b)"
proof -
  obtain v h1 where 1: "sfr_reads bus [SOC_IEN0, SOC_IEN1, SOC_IEN2, SOC_SLEEPCMD, SOC_CLKCONCMD, SOC_CLKCONSTA,
         SOC_DMAARM, SOC_DMAREQ] (flash_hw st) = (v, h1)" by fastforce
  obtain control h2 where 2: "xread bus FCTL h1 = (control, h2)" by fastforce
  obtain m h3 where 3: "sfr_read bus SOC_MEMCTR h2 = (m, h3)" by fastforce
  note k = sfr_reads_keep [OF c 1] access_keep(2) [OF c 2] access_keep(1,3) [OF c 3]
  show ?thesis using ob 1 2 3 k
    by (auto simp: observe_def Let_def hw_only_def split: if_splits)
qed

lemma window_reads:
  assumes c: "flash_chip bus F bank faddr"
  shows "bank h = 7 \<Longrightarrow> p < 2 \<Longrightarrow> off + n \<le> 2048 \<Longrightarrow>
    xreads bus (map (\<lambda>i. NV_WINDOW + of_nat p * 2048 + of_nat off + of_nat i) [k..<n]) h = (d, h') \<Longrightarrow>
    d = map (\<lambda>i. F h p ! (off + i)) [k..<n]"
proof (induction "n - k" arbitrary: k h d)
  case 0
  then show ?case by simp
next
  case (Suc m)
  then have k: "k < n" by simp
  let ?a = "NV_WINDOW + of_nat p * 2048 + of_nat (off + k) :: u16"
  obtain v h1 where x: "xread bus ?a h = (v, h1)" by (cases "xread bus ?a h")
  have v: "v = F h p ! (off + k)" "bank h1 = 7" "F h1 = F h"
    using flash_chipD(11) [OF c Suc.prems(1,2), of "off + k"] access_keep(2) [OF c x] x k Suc.prems(3)
    by auto
  have "NV_WINDOW + of_nat p * 2048 + of_nat off + of_nat k = ?a" by simp
  with Suc.prems(4) k x obtain ds where
    d: "d = v # ds" "xreads bus (map (\<lambda>i. NV_WINDOW + of_nat p * 2048 + of_nat off + of_nat i) [Suc k..<n]) h1 = (ds, h')"
    by (auto simp: upt_conv_Cons split: prod.splits)
  have "ds = map (\<lambda>i. F h1 p ! (off + i)) [Suc k..<n]"
    using Suc.hyps(1) [OF _ v(2) Suc.prems(2,3) d(2)] Suc.hyps(2) k by simp
  with d v k show ?case by (simp add: upt_conv_Cons)
qed

lemma read_mapped_spec:
  assumes c: "flash_chip bus F bank faddr" and "read_mapped bus p off n st = (r, d, st')"
    and "p < 2" and "off + n \<le> 2048"
  shows "F (flash_hw st') = F (flash_hw st) \<and> reader_frame st st' \<and> flash_fault st' = (if r = FLASH_OK then flash_fault st else r) \<and>
    (r = FLASH_OK \<longrightarrow> d = take n (drop off (F (flash_hw st) p)))"
proof -
  have slice: "map (\<lambda>i. F h p ! (off + i)) [0..<n] = take n (drop off (F h p))" for h
    by (rule nth_equalityI) (use flash_chipD(1) [OF c assms(3)] assms(4) in simp_all)
  let ?s0 = "st\<lparr>flash_hw := sfr_write bus SOC_MEMCTR 7 (flash_hw st)\<rparr>"
  have k0: "hw_only F faddr st ?s0" by (rule hw_only_upd) (simp_all add: flash_chipD [OF c])
  obtain r1 st1 where o1: "observe bus 7 ?s0 = (r1, st1)" by fastforce
  have k1: "hw_only F faddr st st1" using hw_only_trans [OF k0] observe_spec [OF c o1] by blast
  let ?as = "map (\<lambda>i. NV_WINDOW + of_nat p * 2048 + of_nat off + of_nat i) [0..<n] :: u16 list"
  obtain stg h2 where x2: "xreads bus ?as (flash_hw st1) = (stg, h2)" by fastforce
  let ?s2 = "st1\<lparr>flash_hw := h2\<rparr>"
  have k2: "hw_only F faddr st ?s2"
    by (rule hw_only_trans [OF k1 hw_only_upd]) (use xreads_keep [OF c x2] in simp_all)
  obtain r3 st3 where o3: "observe bus 7 ?s2 = (r3, st3)" by fastforce
  have k3: "hw_only F faddr st st3" using hw_only_trans [OF k2] observe_spec [OF c o3] by blast
  let ?s3 = "st3\<lparr>flash_hw := sfr_write bus SOC_MEMCTR (saved_bank st3) (flash_hw st3)\<rparr>"
  have k3': "hw_only F faddr st ?s3"
    by (rule hw_only_trans [OF k3 hw_only_upd]) (simp_all add: flash_chipD [OF c])
  obtain r4 st4 where o4: "observe bus (saved_bank st3) ?s3 = (r4, st4)" by fastforce
  have k4: "hw_only F faddr st st4" using hw_only_trans [OF k3'] observe_spec [OF c o4] by blast
  have stg: "r1 = FLASH_OK \<Longrightarrow> stg = take n (drop off (F (flash_hw st) p))"
    using window_reads [OF c _ assms(3,4) x2] observe_spec [OF c o1] hw_only_frame(2) [OF k1] slice by simp
  have fin: "F (flash_hw x) = F (flash_hw st) \<and> reader_frame st x \<and> flash_fault x = flash_fault st"
    if "hw_only F faddr st x" for x
    using hw_only_frame [OF that] by simp
  note run = assms(2) [unfolded read_mapped_def Let_def o1 x2 prod.case o3 o4]
  show ?thesis
    using run stg fin [OF k1] fin [OF k3] fin [OF k4]
    by (auto simp: read_failed_def reader_frame_def split: if_splits)
qed

lemma flash_nv_read_spec:
  assumes c: "flash_chip bus F bank faddr" and rd: "flash_nv_read cfg bus p off a n st = (r, d, st')"
  shows "F (flash_hw st') = F (flash_hw st) \<and> reader_frame st st' \<and>
    (r = FLASH_OK \<longrightarrow> flash_fault st' = FLASH_OK \<and> p < 2 \<and> d = take n (drop off (F (flash_hw st) p)))"
proof -
  obtain v h1 where 1: "sfr_reads bus [SOC_MEMCTR, SOC_CLKCONCMD] (flash_hw st) = (v, h1)" by fastforce
  obtain control h2 where 2: "xread bus FCTL h1 = (control, h2)" by fastforce
  define st1 where "st1 = st\<lparr>flash_hw := h2, saved_bank := v ! 0, saved_clock := v ! 1,
              saved_cache := control AND 0x0c\<rparr>"
  have k1: "F (flash_hw st1) = F (flash_hw st)" "reader_frame st st1" "flash_fault st1 = flash_fault st"
    using sfr_reads_keep [OF c 1] access_keep(2) [OF c 2] by (simp_all add: st1_def reader_frame_def)
  obtain r2 st2 where o2: "observe bus (saved_bank st1) st1 = (r2, st2)" by fastforce
  have hw2: "hw_only F faddr st1 st2" using observe_spec [OF c o2] by blast
  have k2: "F (flash_hw st2) = F (flash_hw st)" "reader_frame st st2" "flash_fault st2 = flash_fault st"
    using hw2 hw_only_frame [OF hw2] k1 by (simp_all add: hw_only_def reader_frame_def)
  obtain ch h3 where x3: "xreads bus [0x624a, 0x6276, 0x6277] (flash_hw st2) = (ch, h3)" by fastforce
  let ?s3 = "st2\<lparr>flash_hw := h3\<rparr>"
  have k3: "F (flash_hw ?s3) = F (flash_hw st)" "reader_frame st ?s3"
    using xreads_keep [OF c x3] k2 by (simp_all add: reader_frame_def)
  note run = rd [unfolded flash_nv_read_def Let_def 1 2 prod.case, folded st1_def, unfolded o2 x3 prod.case]
  have mapped: ?thesis if "read_mapped bus p off n ?s3 = (r, d, st')" "p < 2" "off + n \<le> 2048" "flash_fault st = FLASH_OK"
    using read_mapped_spec [OF c that(1-3)] k2 k3 that by (auto simp: reader_frame_def)
  show ?thesis
    using run mapped k1 k2 k3
    by (simp only: not_le not_less split: if_splits) (auto simp: read_failed_def reader_frame_def)
qed

section \<open>Executor\<close>

text \<open>The executor changes only its own fields and the hardware state.\<close>

definition exec_frame :: "'m flash_state \<Rightarrow> 'm flash_state \<Rightarrow> bool" where
  "exec_frame st st' \<longleftrightarrow>
     flash_fault st' = flash_fault st \<and> flash_write_result st' = flash_write_result st \<and>
     flash_write_phase st' = flash_write_phase st \<and> flash_write_known st' = flash_write_known st \<and>
     flash_write_used st' = flash_write_used st"

text \<open>
  What a command may do to the flash: the other page is untouched, and a program command
  changes at most the addressed word.
\<close>

definition flash_effect :: "flash_operation \<Rightarrow> nat \<Rightarrow> nat \<Rightarrow> (nat \<Rightarrow> bytes) \<Rightarrow> (nat \<Rightarrow> bytes) \<Rightarrow> bool" where
  "flash_effect operation p off pg pg' \<longleftrightarrow> (\<forall>q < 2. q \<noteq> p \<longrightarrow> pg' q = pg q) \<and>
     (operation = FLASH_EXEC_PROGRAM \<longrightarrow> (\<exists>t. length t = 4 \<and> pg' p = store_at off t (pg p)))"

lemma store_at_self: "off + 4 \<le> length p \<Longrightarrow> \<exists>t. length t = 4 \<and> p = store_at off t p"
  using append_take_drop_id [of 4 "drop off p"] append_take_drop_id [of off p]
  by (intro exI [of _ "take 4 (drop off p)"]) (simp add: store_at_def add.commute)

lemma flash_effect_refl: "off + 4 \<le> length (pg p) \<Longrightarrow> flash_effect operation p off pg pg"
  using store_at_self by (auto simp: flash_effect_def)

lemma exec_idle_spec:
  assumes c: "flash_chip bus F bank faddr" and ob: "exec_idle bus b st = (i, st')"
  shows "hw_only F faddr st st'"
proof -
  obtain v h1 where 1: "sfr_reads bus [SOC_IEN0, SOC_IEN1, SOC_IEN2, SOC_DMAARM, SOC_DMAREQ, SOC_SLEEPCMD,
         SOC_CLKCONCMD, SOC_CLKCONSTA] (flash_hw st) = (v, h1)" by fastforce
  obtain control h2 where 2: "xread bus FCTL h1 = (control, h2)" by fastforce
  obtain m h3 where 3: "sfr_read bus SOC_MEMCTR h2 = (m, h3)" by fastforce
  show ?thesis
    using ob sfr_reads_keep [OF c 1] access_keep(2) [OF c 2] access_keep(1) [OF c 3]
    by (auto simp: exec_idle_def 1 2 3 hw_only_def simp del: sfr_reads.simps)
qed

lemma command_code: "((x AND 0x0c) OR operation_code operation) AND 3 = (operation_code operation :: u8)"
  by (cases operation; rule bit_word_eqI) (auto simp: operation_code_def bit_simps numeral_eq_Suc less_Suc_eq)

lemma u16_bytes_eq: "(ucast a :: u8) = ucast b \<Longrightarrow> (ucast (drop_bit 8 a) :: u8) = ucast (drop_bit 8 b) \<Longrightarrow> a = (b :: u16)"
proof (rule bit_word_eqI)
  fix n assume lo: "(ucast a :: u8) = ucast b" and hi: "(ucast (drop_bit 8 a) :: u8) = ucast (drop_bit 8 b)"
    and "n < LENGTH(16)"
  then have "n < 8 \<or> n - 8 < 8 \<and> 8 + (n - 8) = n" by auto
  then show "bit a n = bit b n"
    using arg_cong [OF lo, of "\<lambda>w. bit w n"] arg_cong [OF hi, of "\<lambda>w. bit w (n - 8)"]
    by (auto simp: bit_simps)
qed

lemma exec_failed_simps:
  "exec_failed r st = (x, st') \<Longrightarrow> x = r \<and> flash_hw st' = flash_hw st \<and> exec_frame st st'"
  by (auto simp: exec_failed_def exec_frame_def)

lemma hw_only_exec_frame: "hw_only F faddr st st' \<Longrightarrow> exec_frame st st'"
  by (auto simp: hw_only_def exec_frame_def)

lemma exec_run_spec:
  assumes c: "flash_chip bus F bank faddr" and p: "p < 2" "off < 2048" "off mod 4 = 0"
    and cache: "exec_cache st = x AND 0x0c"
    and run: "exec_run bus operation p off w l st = (r, st')"
  shows "flash_effect operation p off (F (flash_hw st)) (F (flash_hw st')) \<and> exec_frame st st'"
proof -
  let ?t = "nv_target_word p off" and ?m = "exec_mapping st" and ?F0 = "F (flash_hw st)"
  let ?w = "if operation = FLASH_EXEC_PROGRAM then w else [0, 0, 0, 0]"
  have len: "off + 4 \<le> length (F h p)" for h using flash_chipD(1) [OF c p(1), of h] p by presburger
  obtain i1 st1 where 1: "exec_idle bus ?m st = (i1, st1)" by fastforce
  note k1 = exec_idle_spec [OF c 1]
  obtain a h2 where 2: "xreads bus [0x6271, 0x6272] (xwrites bus [(0x6271, ucast ?t), (0x6272, ucast (drop_bit 8 ?t))]
      (flash_hw st1)) = (a, h2)" by fastforce
  have F2: "F h2 = ?F0" using xreads_keep [OF c 2] hw_only_frame(2) [OF k1] flash_chipD(8,9) [OF c] by simp
  have a2: "a ! 0 = ucast ?t \<and> a ! 1 = ucast (drop_bit 8 ?t) \<Longrightarrow> faddr h2 = ?t"
    using flash_chipD(12,13) [OF c, of "xwrites bus [(0x6271, ucast ?t), (0x6272, ucast (drop_bit 8 ?t))] (flash_hw st1)",
        unfolded 2] by (intro u16_bytes_eq) simp_all
  obtain m3 h3 where 3: "sfr_read bus SOC_MEMCTR (sfr_write bus SOC_MEMCTR (?m OR 8) h2) = (m3, h3)" by fastforce
  have F3: "F h3 = ?F0" "faddr h3 = faddr h2"
    using access_keep(1) [OF c 3] F2 flash_chipD(6,7) [OF c] by simp_all
  obtain i4 st4 where 4: "exec_idle bus (?m OR 8) (st1\<lparr>flash_hw := h3\<rparr>) = (i4, st4)" by fastforce
  note k4 = exec_idle_spec [OF c 4]
  have F4: "F (flash_hw st4) = ?F0" "faddr (flash_hw st4) = faddr h2"
    using hw_only_frame(2,3) [OF k4] F3 by simp_all
  obtain r5 h5 where 5: "flash_exec_template bus (exec_cache st OR operation_code operation) ?w l (flash_hw st4) = (r5, h5)"
    by fastforce
  have cmd: "(exec_cache st OR operation_code operation) AND 3 = operation_code operation"
    by (simp only: cache command_code)
  have F5: "flash_effect operation p off ?F0 (F h5)" if "faddr h2 = ?t"
    using flash_chipD(14) [OF c _ p, of "flash_hw st4" _ "exec_cache st OR operation_code operation" ?w l]
      flash_chipD(15) [OF c _ p, of "flash_hw st4" "exec_cache st OR operation_code operation" ?w l] cmd that F4 5
    by (auto simp: flash_effect_def operation_code_def)
  obtain i6 st6 where 6: "exec_idle bus (?m OR 8) (st4\<lparr>flash_hw := h5\<rparr>) = (i6, st6)" by fastforce
  note k6 = exec_idle_spec [OF c 6]
  obtain m7 h7 where 7: "sfr_read bus SOC_MEMCTR (sfr_write bus SOC_MEMCTR ?m (flash_hw st6)) = (m7, h7)" by fastforce
  have F7: "F (flash_hw st6) = F h5" "F h7 = F h5"
    using access_keep(1) [OF c 7] flash_chipD(6) [OF c] hw_only_frame(2) [OF k6] by simp_all
  have fr: "exec_frame st st1" "exec_frame st st4" "exec_frame st st6"
    using hw_only_exec_frame [OF k1] hw_only_exec_frame [OF k4] hw_only_exec_frame [OF k6]
    by (simp_all add: exec_frame_def)
  have same: ?thesis if "F (flash_hw st') = ?F0" "exec_frame st st'"
    using flash_effect_refl [of off ?F0 p operation] len [of "flash_hw st"] that by simp
  note run' = run [unfolded exec_run_def Let_def 1 prod.case nv_target_word_def [symmetric],
      unfolded 2 prod.case, unfolded 3 prod.case, unfolded 4 prod.case, unfolded 5 prod.case, unfolded 6 prod.case,
      unfolded 7 prod.case]
  note ex = exec_failed_simps [of _ _ r st']
  consider "F (flash_hw st') = ?F0 \<and> exec_frame st st'" | "F (flash_hw st') = F h5 \<and> exec_frame st st' \<and> faddr h2 = ?t"
    using run' fr F2 F3 F4 F7 a2 hw_only_frame(2) [OF k1]
    by (auto dest!: ex simp: exec_frame_def split: if_splits)
  then show ?thesis
  proof cases
    case 2
    then show ?thesis using F5 by simp
  qed (use same in blast)
qed

lemma flash_exec_command_spec:
  assumes c: "flash_chip bus F bank faddr" and p: "p < 2" "off < 2048" "off mod 4 = 0"
    and run: "flash_exec_command cfg bus operation p off wd l st = (r, st')"
  shows "flash_effect operation p off (F (flash_hw st)) (F (flash_hw st')) \<and> exec_frame st st'"
proof -
  have len: "off + 4 \<le> length (F h p)" for h using flash_chipD(1) [OF c p(1), of h] p by presburger
  obtain v h1 where 1: "sfr_reads bus [SOC_MEMCTR, SOC_CLKCONCMD] (flash_hw st) = (v, h1)" by fastforce
  obtain control h2 where 2: "xread bus FCTL h1 = (control, h2)" by fastforce
  define st1 where "st1 = st\<lparr>flash_hw := h2, exec_mapping := v ! 0, exec_clock := v ! 1,
              exec_cache := control AND 0x0c\<rparr>"
  have k1: "F (flash_hw st1) = F (flash_hw st)" "exec_frame st st1"
    using sfr_reads_keep [OF c 1] access_keep(2) [OF c 2] by (simp_all add: st1_def exec_frame_def)
  obtain i2 st2 where o2: "exec_idle bus (exec_mapping st1) st1 = (i2, st2)" by fastforce
  note hw2 = exec_idle_spec [OF c o2]
  have k2: "F (flash_hw st2) = F (flash_hw st)" "exec_frame st st2" "exec_cache st2 = control AND 0x0c"
    using hw_only_frame(2,7) [OF hw2] hw_only_exec_frame [OF hw2] k1 by (simp_all add: exec_frame_def st1_def)
  obtain ch h3 where x3: "xreads bus [0x624a, 0x6276, 0x6277] (flash_hw st2) = (ch, h3)" by fastforce
  define st3 where "st3 = st2\<lparr>flash_hw := h3\<rparr>"
  have k3: "F (flash_hw st3) = F (flash_hw st)" "exec_frame st st3" "exec_cache st3 = control AND 0x0c"
    using xreads_keep [OF c x3] k2 by (simp_all add: exec_frame_def st3_def)
  have same: ?thesis if "F (flash_hw st') = F (flash_hw st)" "exec_frame st st'"
    using flash_effect_refl [of off "F (flash_hw st)" p operation] len [of "flash_hw st"] that by simp
  have go: ?thesis if "exec_run bus operation p off w l st3 = (r, st')" for w
    using exec_run_spec [OF c p k3(3) that] k3 by (simp add: exec_frame_def)
  note run' = run [unfolded flash_exec_command_def Let_def 1 2 prod.case, folded st1_def, unfolded o2 x3 prod.case,
      folded st3_def]
  note ex = exec_failed_simps [of _ _ r st']
  consider "F (flash_hw st') = F (flash_hw st) \<and> exec_frame st st'"
    | w where "exec_run bus operation p off w l st3 = (r, st')"
    using run' k1 k2 k3 by (auto dest!: ex simp: exec_frame_def split: if_splits)
  then show ?thesis using same go by cases blast+
qed

section \<open>Writer\<close>

text \<open>The verification loop reads only, and passing it means every read matched.\<close>

lemma verify_loop_spec:
  assumes c: "flash_chip bus F bank faddr"
  shows "verify_loop cfg bus p n e ps st = (r, st') \<Longrightarrow>
    F (flash_hw st') = F (flash_hw st) \<and> flash_write_known st' = flash_write_known st \<and>
    flash_write_used st' = flash_write_used st \<and> r \<in> {FLASH_WRITE_OK, FLASH_WRITE_READER_FAILED, FLASH_WRITE_VERIFY_FAILED} \<and>
    (r = FLASH_WRITE_OK \<longrightarrow> flash_write_result st' = flash_write_result st \<and>
      (\<forall>o' \<in> set ps. take n (drop o' (F (flash_hw st) p)) = e))"
proof (induction ps arbitrary: st)
  case Nil
  then show ?case by simp
next
  case (Cons q ps)
  obtain r1 d st1 where 1: "flash_nv_read cfg bus p q (Some (cfg_check cfg)) n st = (r1, d, st1)"
    using prod_cases3 by blast
  note k = flash_nv_read_spec [OF c 1]
  show ?case
  proof (cases "r1 = FLASH_OK \<and> d = e")
    case True
    with Cons.prems 1 have "verify_loop cfg bus p n e ps st1 = (r, st')" by simp
    from Cons.IH [OF this] k True show ?thesis by (auto simp: reader_frame_def)
  next
    case False
    with Cons.prems 1 k show ?thesis by (auto simp: write_failed_def reader_frame_def split: if_splits)
  qed
qed

lemma erased_chunks:
  assumes "length p = 2048" and "\<forall>k < 64. take 32 (drop (32 * k) p) = replicate 32 (255::u8)"
  shows "p = replicate 2048 255"
proof (rule nth_equalityI)
  fix i assume "i < length p"
  then have i: "i div 32 < 64" "i mod 32 < 32" "32 * (i div 32) + i mod 32 = i" using assms(1) by auto
  have "take 32 (drop (32 * (i div 32)) p) ! (i mod 32) = 255" using assms(2) i by simp
  then show "p ! i = replicate 2048 255 ! i" using i \<open>i < length p\<close> assms(1) by simp
qed (use assms in simp)

definition writer_wf :: "'m flash_state \<Rightarrow> bool" where
  "writer_wf st \<longleftrightarrow> length (flash_write_known st) = 2 \<and> length (flash_write_used st) = 128"

text \<open>What a writer call may do, whatever its result, and what success means.\<close>

definition writer_effect :: "flash_operation \<Rightarrow> nat \<Rightarrow> nat \<Rightarrow> bytes \<Rightarrow> (nat \<Rightarrow> bytes) \<Rightarrow> flash_write_result \<Rightarrow>
    (nat \<Rightarrow> bytes) \<Rightarrow> bool" where
  "writer_effect operation p off w pg r pg' \<longleftrightarrow>
     (\<forall>q < 2. q \<noteq> p \<longrightarrow> pg' q = pg q) \<and>
     (operation = FLASH_EXEC_PROGRAM \<longrightarrow> p < 2 \<longrightarrow> off + 4 \<le> 2048 \<longrightarrow>
        (\<exists>t. length t = 4 \<and> pg' p = store_at off t (pg p))) \<and>
     (r = FLASH_WRITE_OK \<longrightarrow> p < 2 \<and> off < 2048 \<and> off mod 4 = 0 \<and>
        pg' p = (case operation of FLASH_EXEC_PROGRAM \<Rightarrow> store_at off (take 4 w) (pg p)
                 | FLASH_EXEC_ERASE \<Rightarrow> replicate 2048 255))"

lemma writer_effect_refl:
  "(\<And>p. p < 2 \<Longrightarrow> length (pg p) = 2048) \<Longrightarrow> r \<noteq> FLASH_WRITE_OK \<Longrightarrow> writer_effect operation p off w pg r pg"
  using store_at_self [of off "pg p"] by (auto simp: writer_effect_def)

lemma operate_run_spec:
  assumes c: "flash_chip bus F bank faddr" and p: "p < 2" "off < 2048" "off mod 4 = 0"
    and wf: "writer_wf st" and w: "length w = 4 \<or> operation = FLASH_EXEC_ERASE"
    and run: "operate_run cfg bus operation p off w l st = (r, st')"
  shows "writer_effect operation p off w (F (flash_hw st)) r (F (flash_hw st')) \<and> writer_wf st'"
proof -
  let ?F = "F (flash_hw st)" and ?st0 = "st\<lparr>flash_write_phase := FLASH_WRITE_COMMAND\<rparr>"
  have len: "length (F h p) = 2048" for h using flash_chipD(1) [OF c p(1)] .
  have off: "off + 4 \<le> 2048" using p by presburger
  obtain e st1 where 1: "flash_exec_command cfg bus operation p off (Some (cfg_write_word cfg, w)) l ?st0 = (e, st1)"
    by fastforce
  note x = flash_exec_command_spec [OF c p 1]
  let ?ps = "case operation of FLASH_EXEC_PROGRAM \<Rightarrow> [off] | FLASH_EXEC_ERASE \<Rightarrow> map (\<lambda>k. 32 * k) [0..<64]"
  let ?n = "case operation of FLASH_EXEC_PROGRAM \<Rightarrow> 4 | FLASH_EXEC_ERASE \<Rightarrow> 32"
  let ?e = "case operation of FLASH_EXEC_PROGRAM \<Rightarrow> w | FLASH_EXEC_ERASE \<Rightarrow> replicate 32 255"
  obtain v st2 where 2: "verify_loop cfg bus p ?n ?e ?ps (st1\<lparr>flash_write_phase := FLASH_WRITE_VERIFY\<rparr>) = (v, st2)"
    by fastforce
  note y = verify_loop_spec [OF c 2]
  have run': "(r, st') = (if e \<noteq> FLASH_EXEC_IDLE then write_failed FLASH_WRITE_EXECUTOR_FAILED st1
      else if v \<noteq> FLASH_WRITE_OK then (v, st2)
      else (FLASH_WRITE_OK, (case operation of FLASH_EXEC_PROGRAM \<Rightarrow> st2
             | FLASH_EXEC_ERASE \<Rightarrow> st2\<lparr>
                 flash_write_used := store_at (p * 64) (replicate 64 0) (flash_write_used st2),
                 flash_write_known := (flash_write_known st2)[p := True]\<rparr>)
           \<lparr>flash_write_phase := FLASH_WRITE_DONE, flash_write_result := FLASH_WRITE_OK\<rparr>))"
    using run 1 2 by (cases operation) (auto simp: operate_run_def Let_def)
  have F': "F (flash_hw st') = F (flash_hw st1)"
    using run' y by (auto simp: write_failed_def split: if_splits flash_operation.splits)
  have wf': "writer_wf st'"
    using run' x y wf p by (auto simp: write_failed_def exec_frame_def writer_wf_def split: if_splits flash_operation.splits)
  have ok: "F (flash_hw st1) p = (case operation of FLASH_EXEC_PROGRAM \<Rightarrow> store_at off (take 4 w) (?F p)
                 | FLASH_EXEC_ERASE \<Rightarrow> replicate 2048 255)" if "r = FLASH_WRITE_OK"
  proof -
    from run' that have "v = FLASH_WRITE_OK" by (auto simp: write_failed_def split: if_splits)
    with y have m: "\<forall>o' \<in> set ?ps. take ?n (drop o' (F (flash_hw st1) p)) = ?e" by simp
    show ?thesis
    proof (cases operation)
      case FLASH_EXEC_PROGRAM
      from x FLASH_EXEC_PROGRAM obtain t where t: "length t = 4" "F (flash_hw st1) p = store_at off t (?F p)"
        by (auto simp: flash_effect_def)
      with m FLASH_EXEC_PROGRAM have "take 4 (drop off (store_at off t (?F p))) = w" by simp
      with t store_at_same [of off "?F p" t] len off have "t = w" by simp
      with t FLASH_EXEC_PROGRAM show ?thesis by simp
    next
      case FLASH_EXEC_ERASE
      with m show ?thesis using erased_chunks [of "F (flash_hw st1) p"] len by auto
    qed
  qed
  have eff: "flash_effect operation p off ?F (F (flash_hw st1))" using x by simp
  then have "writer_effect operation p off w ?F r (F (flash_hw st1))"
    using ok p by (simp add: writer_effect_def flash_effect_def)
  with F' wf' show ?thesis by simp
qed

lemma operate_spec:
  assumes c: "flash_chip bus F bank faddr" and wf: "writer_wf st"
    and w: "operation = FLASH_EXEC_PROGRAM \<longrightarrow> wd = Some (a, w) \<and> 4 \<le> length w"
    and run: "operate cfg bus operation p off wd l st = (r, st')"
  shows "writer_effect operation p off w (F (flash_hw st)) r (F (flash_hw st')) \<and> writer_wf st'"
proof -
  let ?F = "F (flash_hw st)" and ?pr = "operation = FLASH_EXEC_PROGRAM"
  let ?st0 = "st\<lparr>flash_write_result := FLASH_WRITE_PENDING, flash_write_phase := FLASH_WRITE_PREFLIGHT\<rparr>"
  obtain r1 d st1 where 1: "flash_nv_read cfg bus p off (Some (cfg_check cfg)) (if ?pr then 4 else 1) ?st0 = (r1, d, st1)"
    using prod_cases3 by blast
  note k = flash_nv_read_spec [OF c 1]
  define st2 where "st2 = (if ?pr then st1\<lparr>flash_write_used := (flash_write_used st1)[used_index p off :=
               flash_write_used st1 ! used_index p off OR used_mask off]\<rparr>
           else st1\<lparr>flash_write_known := (flash_write_known st1)[p := False]\<rparr>)"
  define w' where "w' = (case wd of None \<Rightarrow> [] | Some (_, w) \<Rightarrow> take 4 w)"
  have st2: "F (flash_hw st2) = ?F" "writer_wf st2"
    using k wf by (auto simp: st2_def writer_wf_def reader_frame_def)
  have same: ?thesis if "F (flash_hw st') = ?F" "r \<noteq> FLASH_WRITE_OK" "writer_wf st'"
    using writer_effect_refl [of ?F r] flash_chipD(1) [OF c] that by simp
  have go: ?thesis if "operate_run cfg bus operation p off w' l st2 = (r, st')" "p < 2" "off < 2048" "off mod 4 = 0"
    using operate_run_spec [OF c that(2-4) st2(2) _ that(1)] w st2(1)
    by (cases operation) (auto simp: w'_def writer_effect_def)
  consider "F (flash_hw st') = ?F \<and> r \<noteq> FLASH_WRITE_OK \<and> writer_wf st'"
    | "operate_run cfg bus operation p off w' l st2 = (r, st') \<and> p < 2 \<and> off < 2048 \<and> off mod 4 = 0"
    using run [unfolded operate_def Let_def 1 prod.case, folded st2_def w'_def] k wf
    by (simp only: not_le split: if_splits) (auto simp: write_failed_def writer_wf_def reader_frame_def)
  then show ?thesis
  proof cases
    case 1
    then show ?thesis by (intro same) simp_all
  next
    case 2
    then show ?thesis by (intro go) simp_all
  qed
qed

end
