(* ===== verification/Crc32.thy ===== *)
theory Crc32
  imports Prelude
begin

text \<open>
  The CRC-32 of the NV journal (\<open>src/src/nv_record.c\<close>): the firmware's byte-plane nibble
  tables and its block update loop, a bit-serial reference for the reflected polynomial
  \<open>0xEDB88320\<close>, the proof that the two agree on every input, and the error-detection fact
  the journal rests on: any change confined to one byte changes the checksum.
\<close>

section \<open>The firmware's table-driven update\<close>

definition crc_low :: "u8 list list" where
  "crc_low = [
    [0x00, 0x96, 0x2c, 0xba, 0x19, 0x8f, 0x35, 0xa3, 0x32, 0xa4, 0x1e, 0x88, 0x2b, 0xbd, 0x07, 0x91],
    [0x00, 0x30, 0x61, 0x51, 0xc4, 0xf4, 0xa5, 0x95, 0x88, 0xb8, 0xe9, 0xd9, 0x4c, 0x7c, 0x2d, 0x1d],
    [0x00, 0x07, 0x0e, 0x09, 0x6d, 0x6a, 0x63, 0x64, 0xdb, 0xdc, 0xd5, 0xd2, 0xb6, 0xb1, 0xb8, 0xbf],
    [0x00, 0x77, 0xee, 0x99, 0x07, 0x70, 0xe9, 0x9e, 0x0e, 0x79, 0xe0, 0x97, 0x09, 0x7e, 0xe7, 0x90]]"

definition crc_high :: "u8 list list" where
  "crc_high = [
    [0x00, 0x64, 0xc8, 0xac, 0x90, 0xf4, 0x58, 0x3c, 0x20, 0x44, 0xe8, 0x8c, 0xb0, 0xd4, 0x78, 0x1c],
    [0x00, 0x10, 0x20, 0x30, 0x41, 0x51, 0x61, 0x71, 0x83, 0x93, 0xa3, 0xb3, 0xc2, 0xd2, 0xe2, 0xf2],
    [0x00, 0xb7, 0x6e, 0xd9, 0xdc, 0x6b, 0xb2, 0x05, 0xb8, 0x0f, 0xd6, 0x61, 0x64, 0xd3, 0x0a, 0xbd],
    [0x00, 0x1d, 0x3b, 0x26, 0x76, 0x6b, 0x4d, 0x50, 0xed, 0xf0, 0xd6, 0xcb, 0x9b, 0x86, 0xa0, 0xbd]]"

type_synonym crc_regs = "u8 \<times> u8 \<times> u8 \<times> u8"

definition crc_split :: "u32 \<Rightarrow> crc_regs" where
  "crc_split c = (ucast c, ucast (drop_bit 8 c), ucast (drop_bit 16 c), ucast (drop_bit 24 c))"

definition crc_join :: "crc_regs \<Rightarrow> u32" where
  "crc_join = (\<lambda>(c0, c1, c2, c3). ucast c0 OR push_bit 8 (ucast c1) OR
     push_bit 16 (ucast c2) OR push_bit 24 (ucast c3))"

text \<open>One turn of the \<open>while (count--)\<close> loop on the four byte registers.\<close>

definition crc_byte :: "u8 \<Rightarrow> crc_regs \<Rightarrow> crc_regs" where
  "crc_byte b = (\<lambda>(c0, c1, c2, c3).
     let lo0 = c0 XOR b;
         hi = unat (drop_bit 4 lo0);
         lo = unat (lo0 AND 15)
     in (c1 XOR crc_low ! 0 ! lo XOR crc_high ! 0 ! hi,
         c2 XOR crc_low ! 1 ! lo XOR crc_high ! 1 ! hi,
         c3 XOR crc_low ! 2 ! lo XOR crc_high ! 2 ! hi,
         crc_low ! 3 ! lo XOR crc_high ! 3 ! hi))"

text \<open>
  \<open>crc_update (bytes, count)\<close>. A \<open>NULL\<close> pointer stands for \<open>count\<close> erased bytes, which is
  the call \<open>crc_update crc (replicate count 255)\<close> of the model.
\<close>

definition crc_update :: "u32 \<Rightarrow> bytes \<Rightarrow> u32" where
  "crc_update crc bs = crc_join (fold crc_byte bs (crc_split crc))"

section \<open>Bit-serial reference\<close>

definition crc_shift :: "u32 \<Rightarrow> u32" where
  "crc_shift c = drop_bit 1 c XOR (if bit c 0 then 0xEDB88320 else 0)"

definition crc_ref_byte :: "u8 \<Rightarrow> u32 \<Rightarrow> u32" where
  "crc_ref_byte b c = (crc_shift ^^ 8) (c XOR ucast b)"

definition crc_ref :: "u32 \<Rightarrow> bytes \<Rightarrow> u32" where
  "crc_ref c bs = fold crc_ref_byte bs c"

lemma crc_shift_xor: "crc_shift (a XOR b) = crc_shift a XOR crc_shift b"
  by (rule bit_word_eqI) (auto simp: crc_shift_def bit_simps)

lemma crc_shift_pow_xor: "(crc_shift ^^ n) (a XOR b) = (crc_shift ^^ n) a XOR (crc_shift ^^ n) b"
  by (induction n) (simp_all add: crc_shift_xor)

lemma crc_shift_pow_clear:
  "(\<forall>i < n. \<not> bit c i) \<Longrightarrow> (crc_shift ^^ n) c = drop_bit n c"
proof (induction n arbitrary: c)
  case (Suc n)
  from Suc.prems have "crc_shift c = drop_bit 1 c" by (simp add: crc_shift_def)
  moreover have "(crc_shift ^^ n) (drop_bit 1 c) = drop_bit n (drop_bit 1 c)"
    by (rule Suc.IH) (use Suc.prems in \<open>auto simp: bit_simps\<close>)
  ultimately show ?case
    by (simp add: funpow_swap1 del: funpow.simps) (simp add: funpow_swap1 add.commute)
qed simp

text \<open>The table columns are the reference applied to each nibble.\<close>

definition crc_column :: "u8 list list \<Rightarrow> nat \<Rightarrow> crc_regs" where
  "crc_column t i = (t ! 0 ! i, t ! 1 ! i, t ! 2 ! i, t ! 3 ! i)"

lemma crc_low_column:
  "\<forall>i \<in> set [0..<16]. crc_join (crc_column crc_low i) = (crc_shift ^^ 8) (of_nat i)"
  by code_simp

lemma crc_high_column:
  "\<forall>i \<in> set [0..<16]. crc_join (crc_column crc_high i) = (crc_shift ^^ 8) (push_bit 4 (of_nat i))"
  by code_simp


lemma crc_join_split [simp]: "crc_join (crc_split c) = c"
proof (rule bit_word_eqI)
  fix n assume "n < LENGTH(32)"
  then show "bit (crc_join (crc_split c)) n \<longleftrightarrow> bit c n"
    by (cases "n < 16"; cases "n < 24") (auto simp: crc_join_def crc_split_def bit_simps)
qed

lemma crc_join_xor:
  "crc_join (a0 XOR b0, a1 XOR b1, a2 XOR b2, a3 XOR b3) =
   crc_join (a0, a1, a2, a3) XOR crc_join (b0, b1, b2, b3)"
  by (rule bit_word_eqI) (auto simp: crc_join_def bit_simps dest: bit_imp_le_length)

lemma crc_join_drop:
  "crc_join (c1, c2, c3, 0) = drop_bit 8 (crc_join (c0, c1, c2, c3))"
  by (rule bit_word_eqI) (auto simp: crc_join_def bit_simps dest: bit_imp_le_length)

lemma nibble_bound: "unat (x AND 15 :: u8) < 16" "unat (drop_bit 4 x :: u8) < 16"
proof -
  have "unat (x AND 15) \<le> unat (15 :: u8)"
    by (rule word_and_le1 [THEN word_le_nat_alt [THEN iffD1]])
  then show "unat (x AND 15 :: u8) < 16" by simp
  show "unat (drop_bit 4 x :: u8) < 16"
    using unsigned_less [of x, where 'a = nat] by (simp add: drop_bit_eq_div unat_div)
qed

lemma bit_15: "bit (15 :: 'a::len word) n \<longleftrightarrow> n < LENGTH('a) \<and> n < 4"
  using bit_mask_iff [of 4 n, where 'a = "'a word"] by (simp add: mask_eq_exp_minus_1)

lemma byte_nibbles:
  "ucast (x :: u8) = (of_nat (unat (x AND 15)) XOR push_bit 4 (of_nat (unat (drop_bit 4 x))) :: u32)"
proof -
  have "of_nat (unat (x AND 15)) = (ucast (x AND 15) :: u32)"
    and "of_nat (unat (drop_bit 4 x)) = (ucast (drop_bit 4 x) :: u32)"
    by (simp_all add: unsigned_of_nat)
  moreover have "ucast x = (ucast (x AND 15) XOR push_bit 4 (ucast (drop_bit 4 x)) :: u32)"
  proof (rule bit_word_eqI)
    fix n assume "n < LENGTH(32)"
    then show "bit (ucast x :: u32) n \<longleftrightarrow>
        bit (ucast (x AND 15) XOR push_bit 4 (ucast (drop_bit 4 x)) :: u32) n"
      unfolding unsigned_and_eq bit_xor_iff bit_and_iff bit_push_bit_iff bit_unsigned_iff
        bit_drop_bit_eq o_def bit_15
      by (auto dest: bit_imp_le_length)
  qed
  ultimately show ?thesis by simp
qed

text \<open>One table-driven byte step is eight bit-serial steps.\<close>

lemma crc_byte_ref: "crc_join (crc_byte b r) = crc_ref_byte b (crc_join r)"
proof -
  obtain c0 c1 c2 c3 where r: "r = (c0, c1, c2, c3)" by (cases r)
  define x where "x = c0 XOR b"
  define lo where "lo = unat (x AND 15)"
  define hi where "hi = unat (drop_bit 4 x)"
  have lo: "crc_join (crc_column crc_low lo) = (crc_shift ^^ 8) (of_nat lo)"
    using crc_low_column nibble_bound(1) [of x] by (auto simp: lo_def)
  have hi: "crc_join (crc_column crc_high hi) = (crc_shift ^^ 8) (push_bit 4 (of_nat hi))"
    using crc_high_column nibble_bound(2) [of x] by (auto simp: hi_def)
  have "crc_join r XOR ucast b = crc_join (0, c1, c2, c3) XOR ucast x"
    unfolding r x_def by (rule bit_word_eqI) (auto simp: crc_join_def bit_simps dest: bit_imp_le_length)
  then have "crc_ref_byte b (crc_join r) =
      (crc_shift ^^ 8) (crc_join (0, c1, c2, c3)) XOR (crc_shift ^^ 8) (ucast x)"
    by (simp only: crc_ref_byte_def crc_shift_pow_xor)
  also have "(crc_shift ^^ 8) (crc_join (0, c1, c2, c3)) = crc_join (c1, c2, c3, 0)"
    by (subst crc_join_drop [of _ _ _ 0], rule crc_shift_pow_clear)
      (auto simp: crc_join_def bit_simps)
  also have "(crc_shift ^^ 8) (ucast x) =
      crc_join (crc_column crc_low lo) XOR crc_join (crc_column crc_high hi)"
    unfolding byte_nibbles [of x] crc_shift_pow_xor lo hi by (simp only: lo_def hi_def)
  finally have "crc_ref_byte b (crc_join r) = crc_join (crc_byte b r)"
    unfolding r crc_byte_def crc_column_def Let_def prod.case x_def [symmetric]
      lo_def [symmetric] hi_def [symmetric]
    by (simp add: crc_join_xor [symmetric] xor.assoc)
  then show ?thesis by simp
qed

lemma crc_fold_ref: "crc_join (fold crc_byte bs r) = fold crc_ref_byte bs (crc_join r)"
  by (induction bs arbitrary: r) (simp_all add: crc_byte_ref)

text \<open>
  The firmware's block update equals the bit-serial definition, from every starting value
  and on every block.
\<close>

lemma crc_update_eq_ref: "crc_update c bs = crc_ref c bs"
  by (simp add: crc_update_def crc_ref_def crc_fold_ref)

lemma crc_update_append: "crc_update (crc_update c xs) ys = crc_update c (xs @ ys)"
  by (simp add: crc_update_eq_ref crc_ref_def)

section \<open>Error detection\<close>

lemma crc_shift_inj: "crc_shift a = crc_shift b \<Longrightarrow> a = b"
proof -
  assume eq: "crc_shift a = crc_shift b"
  define d where "d = a XOR b"
  have z: "crc_shift d = 0"
    using eq by (simp add: d_def crc_shift_xor)
  have "\<not> bit d 0"
  proof
    assume "bit d 0"
    then have "bit (crc_shift d) 31"
      by (auto simp: crc_shift_def bit_simps dest: bit_imp_le_length)
    with z show False by simp
  qed
  with z have dz: "drop_bit 1 d = 0" by (simp add: crc_shift_def)
  have "d = 0"
  proof (rule bit_word_eqI)
    fix n
    show "bit d n = bit (0 :: u32) n"
    proof (cases n)
      case 0
      with \<open>\<not> bit d 0\<close> show ?thesis by simp
    next
      case (Suc m)
      have "bit d (Suc m) = bit (drop_bit 1 d) m" by (simp add: bit_drop_bit_eq)
      with dz Suc show ?thesis by simp
    qed
  qed
  then have "a XOR b = b XOR b" by (simp add: d_def)
  then show "a = b" by (simp only: xor_cancel)
qed

lemma crc_shift_pow_inj: "(crc_shift ^^ n) a = (crc_shift ^^ n) b \<Longrightarrow> a = b"
  by (induction n) (auto dest: crc_shift_inj)

lemma crc_ref_byte_inj: "crc_ref_byte b x = crc_ref_byte b y \<longleftrightarrow> x = y"
proof
  assume "crc_ref_byte b x = crc_ref_byte b y"
  then have "x XOR ucast b = y XOR ucast b"
    unfolding crc_ref_byte_def by (rule crc_shift_pow_inj)
  then show "x = y" by (simp only: xor_cancel)
qed simp

lemma crc_ref_byte_inj_byte: "crc_ref_byte a x = crc_ref_byte b x \<longleftrightarrow> a = b"
proof
  assume "crc_ref_byte a x = crc_ref_byte b x"
  then have "x XOR ucast a = x XOR ucast b"
    unfolding crc_ref_byte_def by (rule crc_shift_pow_inj)
  then have "(ucast a :: u32) = ucast b" by (simp only: xor.commute [of x] xor_cancel)
  then have "bit (ucast a :: u32) n = bit (ucast b :: u32) n" for n by simp
  then have "n < 32 \<Longrightarrow> bit a n = bit b n" for n by (auto simp: bit_simps)
  then show "a = b" by (intro bit_word_eqI) simp
qed simp

lemma crc_ref_inj: "crc_ref x bs = crc_ref y bs \<longleftrightarrow> x = y"
  by (induction bs arbitrary: x y) (simp_all add: crc_ref_def crc_ref_byte_inj)

lemma crc_update_detects_byte:
  assumes "i < length bs" and "v \<noteq> bs ! i"
  shows "crc_update c (bs[i := v]) \<noteq> crc_update c bs"
proof -
  let ?m = "crc_ref c (take i bs)"
  have split: "crc_update c (take i bs @ w # drop (Suc i) bs) =
      crc_ref (crc_ref_byte w ?m) (drop (Suc i) bs)" for w
    by (simp add: crc_update_eq_ref crc_ref_def)
  have "crc_update c (bs[i := v]) = crc_ref (crc_ref_byte v ?m) (drop (Suc i) bs)"
    using split [of v] assms(1) by (simp add: upd_conv_take_nth_drop)
  moreover have "crc_update c bs = crc_ref (crc_ref_byte (bs ! i) ?m) (drop (Suc i) bs)"
    using split [of "bs ! i"] assms(1) by (simp add: id_take_nth_drop [symmetric])
  ultimately show ?thesis using assms(2) by (simp add: crc_ref_inj crc_ref_byte_inj_byte)
qed

section \<open>Properties\<close>

text \<open>C10. The table-driven update of the firmware computes the bit-serial CRC-32 of the reflected
  polynomial 0xEDB88320, from every starting value and for every block.\<close>

theorem crc_table_correct: "crc_update c bs = crc_ref c bs"
  by (rule crc_update_eq_ref)

text \<open>C11. A block that differs from another in one byte, in any way, has another checksum.\<close>

theorem crc_detects_byte_change:
  assumes "i < length bs" and "v \<noteq> bs ! i"
  shows "crc_update c (bs[i := v]) \<noteq> crc_update c bs"
  using crc_update_detects_byte [OF assms] .

theorem crc_detects_byte_change_witness: "crc_update 0xffffffff [1, 9, 3] \<noteq> crc_update 0xffffffff [1, 2, 3]"
  using crc_detects_byte_change [of 1 "[1, 2, 3]" 9] by simp

end
