(* ===== verification/Nv_Record.thy ===== *)
theory Nv_Record
  imports Flash_Interface Crc32
begin

text \<open>
  The two-page NV journal (\<open>src/src/nv_record.c\<close>): page scan and classification, record
  selection, cached selection (\<open>resume\<close>), load and replace. The plain profile is modelled:
  none of the \<open>CC2530_MAC_LINK_*\<close> workspace macros and not \<open>CC2530_PARENT_RECOVERY\<close>, so
  \<open>NV_RECORD_MAX\<close> is 128. Static work buffers that carry a value between statements are
  fields of the state; \<open>crc\<close>, \<open>nv_record_chunk\<close> and \<open>nv_record_word\<close> are rewritten before
  every use and are local values here.
\<close>

section \<open>Data\<close>

abbreviation (input) NV_RECORD_MAX :: nat where "NV_RECORD_MAX \<equiv> 128"
abbreviation (input) NV_RECORD_ERASE_LIMIT :: nat where "NV_RECORD_ERASE_LIMIT \<equiv> 32"

datatype nv_record_result =
    NV_RECORD_OK | NV_RECORD_RECOVERED | NV_RECORD_EMPTY
  | NV_RECORD_INVALID_ARGUMENT | NV_RECORD_BUFFER_OWNERSHIP | NV_RECORD_NO_SPACE
  | NV_RECORD_RECOVERY_REQUIRED | NV_RECORD_CORRUPT | NV_RECORD_CONFLICT
  | NV_RECORD_GENERATION_EXHAUSTED | NV_RECORD_ERASE_LIMIT_REACHED
  | NV_RECORD_READ_FAILED | NV_RECORD_WRITE_FAILED | NV_RECORD_PENDING
  | NV_RECORD_UNSUPPORTED

datatype nv_record_page_state =
    NV_PAGE_UNCHECKED | NV_PAGE_EMPTY | NV_PAGE_VALID | NV_PAGE_INCOMPLETE
  | NV_PAGE_FORMAT | NV_PAGE_INTEGRITY | NV_PAGE_UNSUPPORTED

text \<open>
  \<open>nv_record_status_t\<close>. The byte 255 of \<open>reader\<close>/\<open>writer\<close> (no call yet) is \<open>None\<close>;
  \<open>selected\<close> keeps 255 for "no page".
\<close>

record nv_record_status =
  nv_generation :: u32
  nv_result :: nv_record_result
  nv_selected :: nat
  nv_length :: u8
  nv_phase :: nat
  nv_reader :: "flash_result option"
  nv_writer :: "flash_write_result option"
  nv_recovered :: bool
  nv_pages :: "nv_record_page_state list"
  nv_erase_attempts :: "nat list"

text \<open>\<open>nv_record_fault\<close> is zero, that is \<open>NV_RECORD_OK\<close>, while no fault is latched.\<close>

record 'h nv_state =
  nv_record_fault :: nv_record_result
  nv_record_diagnostic :: nv_record_status
  nv_header :: bytes
  nv_footer :: bytes
  nv_record_stage :: bytes
  nv_lengths :: "u8 list"
  nv_generations :: "u32 list"
  nv_hw :: 'h

definition magic :: bytes where "magic = [0x4e, 0x56, 0x52, 0x31]"
definition commit :: bytes where "commit = [0x43, 0x4d, 0x54, 0x31]"

text \<open>
  \<open>caller\<close>: a caller's buffer lies above the module's reserved XDATA and below \<open>0x1e00\<close>.
  The address of \<open>nv_record_reserved_end\<close> is the linker's.
\<close>

definition nv_caller :: "u16 \<Rightarrow> u16 \<Rightarrow> u8 \<Rightarrow> bool" where
  "nv_caller reserved_end address count \<longleftrightarrow>
     reserved_end < address \<and> address < 0x1e00 \<and> ucast count \<le> 0x1e00 - address"

section \<open>Diagnostics\<close>

definition nv_finish :: "nv_record_result \<Rightarrow> 'h nv_state \<Rightarrow> nv_record_result \<times> 'h nv_state" where
  "nv_finish r st = (r, st\<lparr>nv_record_diagnostic := (nv_record_diagnostic st)\<lparr>nv_result := r\<rparr>\<rparr>)"

definition nv_set_fault :: "nv_record_result \<Rightarrow> 'h nv_state \<Rightarrow> nv_record_result \<times> 'h nv_state" where
  "nv_set_fault r st = nv_finish r (st\<lparr>nv_record_fault := r\<rparr>)"

definition nv_begin_status :: "nv_record_status \<Rightarrow> nv_record_status" where
  "nv_begin_status d = \<lparr>nv_generation = 0, nv_result = NV_RECORD_PENDING, nv_selected = 255,
     nv_length = 0, nv_phase = 1, nv_reader = None, nv_writer = None, nv_recovered = False,
     nv_pages = [NV_PAGE_UNCHECKED, NV_PAGE_UNCHECKED],
     nv_erase_attempts = nv_erase_attempts d\<rparr>"

definition nv_begin :: "'h nv_state \<Rightarrow> 'h nv_state" where
  "nv_begin st = st\<lparr>nv_record_diagnostic := nv_begin_status (nv_record_diagnostic st)\<rparr>"

definition nv_known :: "nv_record_status \<Rightarrow> bool" where
  "nv_known d \<longleftrightarrow> nv_phase d = 8 \<and> nv_result d = NV_RECORD_OK \<and> nv_selected d < 2 \<and>
     \<not> nv_recovered d"

definition nv_resume :: "'h nv_state \<Rightarrow> bool \<times> 'h nv_state" where
  "nv_resume st =
     (let d = nv_record_diagnostic st; st' = nv_begin st in
      if \<not> nv_known d then (False, st')
      else (True, st'\<lparr>nv_record_diagnostic := (nv_record_diagnostic st')\<lparr>
        nv_selected := nv_selected d, nv_length := nv_length d,
        nv_generation := nv_generation d,
        nv_pages := [nv_pages d ! 0, nv_pages d ! 1]\<rparr>\<rparr>))"

section \<open>Page scan\<close>

record scan_acc =
  sc_crc :: u32
  sc_erased :: bool
  sc_padding :: bool
  sc_header :: bytes
  sc_footer :: bytes
  sc_stage :: bytes

text \<open>The body of the inner \<open>for\<close> loop, one byte at \<open>position = offset+i\<close>.\<close>

definition scan_byte :: "bool \<Rightarrow> nat \<Rightarrow> u8 \<Rightarrow> scan_acc \<Rightarrow> scan_acc" where
  "scan_byte capture position value a =
     (let a = (if value \<noteq> 255 then a\<lparr>sc_erased := False\<rparr> else a);
          a = (if position < 12 then a\<lparr>sc_header := (sc_header a)[position := value]\<rparr> else a)
      in if position < 2040 then
           (let a = (if 12 + unat (sc_header a ! 6) \<le> position \<and> value \<noteq> 255
                     then a\<lparr>sc_padding := True\<rparr> else a)
            in if capture \<and> 12 \<le> position \<and> position < 12 + NV_RECORD_MAX
               then a\<lparr>sc_stage := (sc_stage a)[position - 12 := value]\<rparr> else a)
         else a\<lparr>sc_footer := (sc_footer a)[position - 2040 := value]\<rparr>)"

fun scan_bytes :: "bool \<Rightarrow> nat \<Rightarrow> bytes \<Rightarrow> scan_acc \<Rightarrow> scan_acc" where
  "scan_bytes capture position [] a = a"
| "scan_bytes capture position (v # vs) a =
     scan_bytes capture (Suc position) vs (scan_byte capture position v a)"

text \<open>The outer loop over the 32-byte chunks, with its early exit on a failed read.\<close>

fun scan_chunks :: "'h flash_ops \<Rightarrow> nat \<Rightarrow> bool \<Rightarrow> nat list \<Rightarrow> scan_acc \<Rightarrow> 'h \<Rightarrow>
    flash_result \<times> scan_acc \<times> 'h" where
  "scan_chunks ops page capture [] a h = (FLASH_OK, a, h)"
| "scan_chunks ops page capture (offset # rest) a h =
     (case op_read ops page offset FLASH_READ_MAX h of (r, chunk, h') \<Rightarrow>
        if r \<noteq> FLASH_OK then (r, a, h')
        else scan_chunks ops page capture rest
          (scan_bytes capture offset chunk
            (a\<lparr>sc_crc := crc_update (sc_crc a)
               (take (if offset < 2040 - FLASH_READ_MAX then FLASH_READ_MAX else 2040 - offset)
                  chunk)\<rparr>)) h')"

definition scan_offsets :: "nat list" where
  "scan_offsets = map (\<lambda>k. 32 * k) [0..<64]"

definition scan_state :: "scan_acc \<Rightarrow> nv_record_page_state" where
  "scan_state a =
     (if sc_erased a then NV_PAGE_EMPTY
      else if take 4 (drop 4 (sc_footer a)) \<noteq> commit then NV_PAGE_INCOMPLETE
      else if take 4 (sc_header a) \<noteq> magic then NV_PAGE_FORMAT
      else if sc_header a ! 4 \<noteq> 1 then NV_PAGE_UNSUPPORTED
      else if sc_header a ! 5 \<noteq> 0 \<or> sc_header a ! 7 \<noteq> 0 \<or> sc_header a ! 6 = 0 \<or>
          NV_RECORD_MAX < unat (sc_header a ! 6) \<or> sc_padding a \<or>
          decode32 (drop 8 (sc_header a)) = 0 then NV_PAGE_FORMAT
      else if decode32 (sc_footer a) \<noteq> sc_crc a XOR 0xffffffff then NV_PAGE_INTEGRITY
      else NV_PAGE_VALID)"

definition scan_page :: "'h flash_ops \<Rightarrow> nat \<Rightarrow> bool \<Rightarrow> 'h nv_state \<Rightarrow>
    nv_record_result \<times> 'h nv_state" where
  "scan_page ops page capture st =
     (let d = nv_record_diagnostic st;
          d = d\<lparr>nv_pages := (nv_pages d)[page := NV_PAGE_UNCHECKED]\<rparr>
      in case scan_chunks ops page capture scan_offsets
           \<lparr>sc_crc = 0xffffffff, sc_erased = True, sc_padding = False,
            sc_header = nv_header st, sc_footer = nv_footer st, sc_stage = nv_record_stage st\<rparr>
           (nv_hw st) of (r, a, h) \<Rightarrow>
         let st' = st\<lparr>nv_hw := h, nv_header := sc_header a, nv_footer := sc_footer a,
               nv_record_stage := sc_stage a, nv_record_diagnostic := d\<lparr>nv_reader := Some r\<rparr>\<rparr>
         in if r \<noteq> FLASH_OK then nv_set_fault NV_RECORD_READ_FAILED st'
            else (NV_RECORD_OK, st'\<lparr>
              nv_record_diagnostic := d\<lparr>nv_reader := Some r,
                nv_pages := (nv_pages d)[page := scan_state a]\<rparr>,
              nv_generations := (nv_generations st)[page := decode32 (drop 8 (sc_header a))],
              nv_lengths := (nv_lengths st)[page := sc_header a ! 6]\<rparr>))"


section \<open>Selection\<close>

text \<open>The decision after both pages are scanned (the code after the \<open>for\<close> loop).\<close>

definition select_choose :: "'h nv_state \<Rightarrow> nv_record_result \<times> 'h nv_state" where
  "select_choose st =
     (let d = nv_record_diagnostic st; p0 = nv_pages d ! 0; p1 = nv_pages d ! 1;
          gens = nv_generations st;
          valid = (if p0 = NV_PAGE_VALID then 1 else 0) + (if p1 = NV_PAGE_VALID then 2 else 0 :: nat);
          selected = (if valid = 3 then (if gens ! 1 > gens ! 0 then 1 else 0)
                      else if valid = 1 then 0 else 1 :: nat);
          other = nv_pages d ! (selected XOR 1)
      in if p0 = NV_PAGE_UNSUPPORTED \<or> p1 = NV_PAGE_UNSUPPORTED then (NV_RECORD_UNSUPPORTED, st)
         else if valid = 0 then
           (if p0 = NV_PAGE_EMPTY \<and> p1 = NV_PAGE_EMPTY then NV_RECORD_EMPTY else NV_RECORD_CORRUPT, st)
         else if valid = 3 \<and>
             (gens ! selected = 0 \<or> gens ! selected - gens ! (selected XOR 1) \<noteq> 1) then
           (NV_RECORD_CONFLICT, st)
         else
           (let d' = d\<lparr>nv_selected := selected, nv_length := nv_lengths st ! selected,
                       nv_generation := gens ! selected\<rparr>
            in if other \<noteq> NV_PAGE_VALID \<and> other \<noteq> NV_PAGE_EMPTY
               then (NV_RECORD_RECOVERED, st\<lparr>nv_record_diagnostic := d'\<lparr>nv_recovered := True\<rparr>\<rparr>)
               else (NV_RECORD_OK, st\<lparr>nv_record_diagnostic := d'\<rparr>)))"

definition select_record :: "'h flash_ops \<Rightarrow> 'h nv_state \<Rightarrow> nv_record_result \<times> 'h nv_state" where
  "select_record ops st =
     (case scan_page ops 0 False st of (r0, st0) \<Rightarrow>
        if r0 \<noteq> NV_RECORD_OK then (r0, st0)
        else case scan_page ops 1 False st0 of (r1, st1) \<Rightarrow>
          if r1 \<noteq> NV_RECORD_OK then (r1, st1) else select_choose st1)"

section \<open>Load\<close>

definition nv_set_phase :: "nat \<Rightarrow> 'h nv_state \<Rightarrow> 'h nv_state" where
  "nv_set_phase n st = st\<lparr>nv_record_diagnostic := (nv_record_diagnostic st)\<lparr>nv_phase := n\<rparr>\<rparr>"

text \<open>The recheck of the selected page against the selection kept in the diagnostic.\<close>

definition nv_selection_holds :: "nat \<Rightarrow> 'h nv_state \<Rightarrow> bool" where
  "nv_selection_holds selected st \<longleftrightarrow>
     (let d = nv_record_diagnostic st in
      nv_pages d ! selected = NV_PAGE_VALID \<and> nv_generations st ! selected = nv_generation d \<and>
      nv_lengths st ! selected = nv_length d)"

text \<open>Label \<open>publish\<close>: the staged bytes go to the caller's buffer. The middle component of a
  load's result is what was stored there, \<open>[]\<close> when the call stored nothing.\<close>

definition nv_publish :: "nv_record_result \<Rightarrow> 'h nv_state \<Rightarrow> nv_record_result \<times> bytes \<times> 'h nv_state"
where
  "nv_publish r st =
     (let out = take (unat (nv_length (nv_record_diagnostic st))) (nv_record_stage st);
          (r', st') = nv_finish r (nv_set_phase 8 st)
      in (r', out, st'))"

definition nv_quit :: "nv_record_result \<times> 'h nv_state \<Rightarrow> nv_record_result \<times> bytes \<times> 'h nv_state" where
  "nv_quit x = (fst x, [], snd x)"

definition nv_load_full :: "'h flash_ops \<Rightarrow> u8 \<Rightarrow> 'h nv_state \<Rightarrow>
    nv_record_result \<times> bytes \<times> 'h nv_state" where
  "nv_load_full ops capacity st =
     (case select_record ops st of (r, st1) \<Rightarrow>
        if r \<noteq> NV_RECORD_OK \<and> r \<noteq> NV_RECORD_RECOVERED then nv_quit (nv_finish r st1)
        else if capacity < nv_length (nv_record_diagnostic st1) then
          nv_quit (nv_finish NV_RECORD_NO_SPACE st1)
        else
          let selected = nv_selected (nv_record_diagnostic st1) in
          case scan_page ops selected True (nv_set_phase 2 st1) of (r2, st2) \<Rightarrow>
            if r2 \<noteq> NV_RECORD_OK then nv_quit (nv_record_fault st2, st2)
            else if \<not> nv_selection_holds selected st2 then nv_quit (nv_finish NV_RECORD_CORRUPT st2)
            else nv_publish r st2)"

definition nv_record_load :: "'h flash_ops \<Rightarrow> u16 \<Rightarrow> u16 option \<Rightarrow> u8 \<Rightarrow> 'h nv_state \<Rightarrow>
    nv_record_result \<times> bytes \<times> 'h nv_state" where
  "nv_record_load ops reserved_end output capacity st =
     (if nv_record_fault st \<noteq> NV_RECORD_OK then nv_quit (nv_record_fault st, st)
      else if output = None \<or> capacity = 0 then nv_quit (NV_RECORD_INVALID_ARGUMENT, st)
      else if \<not> nv_caller reserved_end (the output) capacity then
        nv_quit (NV_RECORD_BUFFER_OWNERSHIP, st)
      else case nv_resume st of (known, st1) \<Rightarrow>
        if \<not> known then nv_load_full ops capacity st1
        else if capacity < nv_length (nv_record_diagnostic st1) then
          nv_quit (nv_finish NV_RECORD_NO_SPACE st1)
        else
          let selected = nv_selected (nv_record_diagnostic st1) in
          case scan_page ops selected True (nv_set_phase 2 st1) of (r2, st2) \<Rightarrow>
            if r2 \<noteq> NV_RECORD_OK then nv_quit (nv_record_fault st2, st2)
            else if nv_selection_holds selected st2 then nv_publish NV_RECORD_OK st2
            else nv_load_full ops capacity (nv_begin st2))"

section \<open>Replace\<close>

text \<open>\<open>program\<close>: one four-byte word of the target page.\<close>

definition nv_program :: "'h flash_ops \<Rightarrow> nat \<Rightarrow> nat \<Rightarrow> bytes \<Rightarrow> u16 \<Rightarrow> 'h nv_state \<Rightarrow>
    nv_record_result \<times> 'h nv_state" where
  "nv_program ops page offset word limit st =
     (case op_program ops page offset word limit (nv_hw st) of (w, h) \<Rightarrow>
        let st' = st\<lparr>nv_hw := h,
              nv_record_diagnostic := (nv_record_diagnostic st)\<lparr>nv_writer := Some w\<rparr>\<rparr>
        in if w \<noteq> FLASH_WRITE_OK then nv_set_fault NV_RECORD_WRITE_FAILED st'
           else (NV_RECORD_OK, st'))"

text \<open>The byte \<open>value\<close> of the phase-4 loop: header, then staged data, then erased filler.\<close>

definition nv_image_byte :: "u8 \<Rightarrow> 'h nv_state \<Rightarrow> nat \<Rightarrow> u8" where
  "nv_image_byte len st i =
     (if i < 12 then nv_header st ! i
      else if i < 12 + unat len then nv_record_stage st ! (i - 12) else 255)"

fun nv_program_words :: "'h flash_ops \<Rightarrow> nat \<Rightarrow> u8 \<Rightarrow> u16 \<Rightarrow> nat list \<Rightarrow> 'h nv_state \<Rightarrow>
    nv_record_result \<times> 'h nv_state" where
  "nv_program_words ops page len limit [] st = (NV_RECORD_OK, st)"
| "nv_program_words ops page len limit (position # rest) st =
     (case nv_program ops page position
         (map (\<lambda>i. nv_image_byte len st (position + i)) [0..<4]) limit st of (r, st') \<Rightarrow>
        if r \<noteq> NV_RECORD_OK then (r, st') else nv_program_words ops page len limit rest st')"

text \<open>\<open>for (position = 0; position < 12u+length; position += 4)\<close>\<close>

definition nv_positions :: "u8 \<Rightarrow> nat list" where
  "nv_positions len = map (\<lambda>k. 4 * k) [0..<(12 + unat len + 3) div 4]"

text \<open>Staging of the data, the header and the footer's checksum.\<close>

definition nv_prepare :: "bytes \<Rightarrow> u8 \<Rightarrow> 'h nv_state \<Rightarrow> 'h nv_state" where
  "nv_prepare data len st =
     (let stage = store_at 0 (take (unat len) data) (nv_record_stage st);
          header = magic @ [1, 0, len, 0] @ encode32 (nv_generation (nv_record_diagnostic st) + 1);
          crc = crc_update 0xffffffff header;
          crc = crc_update crc (take (unat len) stage);
          crc = crc_update crc (replicate (2028 - unat len) 255)
      in st\<lparr>nv_record_stage := stage, nv_header := header,
            nv_footer := encode32 (crc XOR 0xffffffff) @ drop 4 (nv_footer st)\<rparr>)"

text \<open>Phase 7: scan the written page and adopt it.\<close>

definition nv_verify :: "'h flash_ops \<Rightarrow> nat \<Rightarrow> u8 \<Rightarrow> 'h nv_state \<Rightarrow> nv_record_result \<times> 'h nv_state" where
  "nv_verify ops page len st =
     (case scan_page ops page False (nv_set_phase 7 st) of (r, st1) \<Rightarrow>
        if r \<noteq> NV_RECORD_OK then (nv_record_fault st1, st1)
        else if nv_pages (nv_record_diagnostic st1) ! page \<noteq> NV_PAGE_VALID \<or>
            nv_generations st1 ! page \<noteq> nv_generation (nv_record_diagnostic st1) + 1 \<or>
            nv_lengths st1 ! page \<noteq> len then nv_set_fault NV_RECORD_CORRUPT st1
        else
          let d = nv_record_diagnostic st1;
              d' = d\<lparr>nv_selected := page, nv_length := len,
                nv_generation := nv_generation d + 1, nv_phase := 8\<rparr>
          in nv_finish (if nv_recovered d then NV_RECORD_RECOVERED else NV_RECORD_OK)
               (st1\<lparr>nv_record_diagnostic := d'\<rparr>))"

text \<open>Phase 6: the commit marker.\<close>

definition nv_write_marker :: "'h flash_ops \<Rightarrow> nat \<Rightarrow> u8 \<Rightarrow> u16 \<Rightarrow> 'h nv_state \<Rightarrow>
    nv_record_result \<times> 'h nv_state" where
  "nv_write_marker ops page len limit st =
     (case nv_program ops page 2044 commit limit (nv_set_phase 6 st) of (r, st1) \<Rightarrow>
        if r \<noteq> NV_RECORD_OK then (nv_record_fault st1, st1) else nv_verify ops page len st1)"

text \<open>Phase 5: the checksum word.\<close>

definition nv_write_footer :: "'h flash_ops \<Rightarrow> nat \<Rightarrow> u8 \<Rightarrow> u16 \<Rightarrow> 'h nv_state \<Rightarrow>
    nv_record_result \<times> 'h nv_state" where
  "nv_write_footer ops page len limit st =
     (case nv_program ops page 2040 (take 4 (nv_footer st)) limit (nv_set_phase 5 st) of (r, st1) \<Rightarrow>
        if r \<noteq> NV_RECORD_OK then (nv_record_fault st1, st1)
        else nv_write_marker ops page len limit st1)"

text \<open>Phases 3 and 4: erase, then header and data words.\<close>

definition nv_write_page :: "'h flash_ops \<Rightarrow> nat \<Rightarrow> u8 \<Rightarrow> u16 \<Rightarrow> 'h nv_state \<Rightarrow>
    nv_record_result \<times> 'h nv_state" where
  "nv_write_page ops page len limit st =
     (let d = nv_record_diagnostic st;
          st0 = st\<lparr>nv_record_diagnostic := d\<lparr>nv_phase := 3, nv_erase_attempts :=
                  (nv_erase_attempts d)[page := Suc (nv_erase_attempts d ! page)]\<rparr>\<rparr>
      in case op_erase ops page limit (nv_hw st0) of (w, h) \<Rightarrow>
         let st1 = st0\<lparr>nv_hw := h,
               nv_record_diagnostic := (nv_record_diagnostic st0)\<lparr>nv_writer := Some w\<rparr>\<rparr>
         in if w \<noteq> FLASH_WRITE_OK then nv_set_fault NV_RECORD_WRITE_FAILED st1
         else case nv_program_words ops page len limit (nv_positions len) (nv_set_phase 4 st1) of (r2, st2) \<Rightarrow>
           if r2 \<noteq> NV_RECORD_OK then (nv_record_fault st2, st2)
           else nv_write_footer ops page len limit st2)"

definition nv_target :: "nv_record_status \<Rightarrow> nat" where
  "nv_target d = (if nv_selected d = 255 then 0 else nv_selected d XOR 1)"

text \<open>\<open>data\<close> is the caller's pointer with the bytes it addresses; \<open>None\<close> is \<open>NULL\<close>.\<close>

definition nv_record_replace :: "'h flash_ops \<Rightarrow> u16 \<Rightarrow> (u16 \<times> bytes) option \<Rightarrow> u8 \<Rightarrow> u16 \<Rightarrow> u8 \<Rightarrow>
    'h nv_state \<Rightarrow> nv_record_result \<times> 'h nv_state" where
  "nv_record_replace ops reserved_end data len poll_limit allow_recovery st =
     (if nv_record_fault st \<noteq> NV_RECORD_OK then (nv_record_fault st, st)
      else if data = None \<or> len = 0 \<or> NV_RECORD_MAX < unat len \<or> poll_limit = 0 \<or> 1 < allow_recovery
      then (NV_RECORD_INVALID_ARGUMENT, st)
      else if \<not> nv_caller reserved_end (fst (the data)) len then (NV_RECORD_BUFFER_OWNERSHIP, st)
      else case (case nv_resume st of (known, st1) \<Rightarrow>
                   if known then (NV_RECORD_OK, st1) else select_record ops st1) of (r, st1) \<Rightarrow>
        if r = NV_RECORD_RECOVERED \<and> allow_recovery = 0 then nv_finish NV_RECORD_RECOVERY_REQUIRED st1
        else if r \<noteq> NV_RECORD_OK \<and> r \<noteq> NV_RECORD_RECOVERED \<and> r \<noteq> NV_RECORD_EMPTY then nv_finish r st1
        else if nv_generation (nv_record_diagnostic st1) = 0xffffffff then
          nv_finish NV_RECORD_GENERATION_EXHAUSTED st1
        else
          let page = nv_target (nv_record_diagnostic st1) in
          if NV_RECORD_ERASE_LIMIT \<le> nv_erase_attempts (nv_record_diagnostic st1) ! page then
            nv_finish NV_RECORD_ERASE_LIMIT_REACHED st1
          else nv_write_page ops page len poll_limit (nv_prepare (snd (the data)) len st1))"

text \<open>The statics after reset, over the machine state \<open>h\<close>.\<close>

definition nv_boot :: "'h \<Rightarrow> 'h nv_state" where
  "nv_boot h = \<lparr>nv_record_fault = NV_RECORD_OK,
     nv_record_diagnostic = \<lparr>nv_generation = 0, nv_result = NV_RECORD_OK, nv_selected = 0, nv_length = 0,
       nv_phase = 0, nv_reader = Some FLASH_OK, nv_writer = Some FLASH_WRITE_OK, nv_recovered = False,
       nv_pages = [NV_PAGE_UNCHECKED, NV_PAGE_UNCHECKED], nv_erase_attempts = [0, 0]\<rparr>,
     nv_header = replicate 12 0, nv_footer = replicate 8 0, nv_record_stage = replicate NV_RECORD_MAX 0,
     nv_lengths = [0, 0], nv_generations = [0, 0], nv_hw = h\<rparr>"

end
