(* ===== verification/Nv_Journal.thy ===== *)
theory Nv_Journal
  imports Nv_Record
begin

text \<open>
  Correctness of the NV journal. A declarative reading of a flash page
  (\<open>page_class\<close>, \<open>page_gen\<close>, \<open>page_data\<close>) and of a page pair (\<open>journal\<close>) is the abstract
  specification; inside the interface locale \<open>nv_flash\<close> the scanning, selecting, loading
  and replacing code is proved to implement it, including what a torn write leaves behind.
\<close>

section \<open>Declarative reading of a page\<close>

definition page_erased :: "bytes \<Rightarrow> bool" where
  "page_erased p \<longleftrightarrow> (\<forall>b \<in> set p. b = 255)"

definition page_padding :: "bytes \<Rightarrow> bool" where
  "page_padding p \<longleftrightarrow> (\<exists>b \<in> set (take (2040 - (12 + unat (p ! 6))) (drop (12 + unat (p ! 6)) p)). b \<noteq> 255)"

definition page_gen :: "bytes \<Rightarrow> u32" where
  "page_gen p = decode32 (drop 8 p)"

definition page_crc :: "bytes \<Rightarrow> u32" where
  "page_crc p = crc_update 0xffffffff (take 2040 p) XOR 0xffffffff"

definition page_data :: "bytes \<Rightarrow> bytes" where
  "page_data p = take (unat (p ! 6)) (drop 12 p)"

definition page_class :: "bytes \<Rightarrow> nv_record_page_state" where
  "page_class p =
     (if page_erased p then NV_PAGE_EMPTY
      else if take 4 (drop 2044 p) \<noteq> commit then NV_PAGE_INCOMPLETE
      else if take 4 p \<noteq> magic then NV_PAGE_FORMAT
      else if p ! 4 \<noteq> 1 then NV_PAGE_UNSUPPORTED
      else if p ! 5 \<noteq> 0 \<or> p ! 7 \<noteq> 0 \<or> p ! 6 = 0 \<or> NV_RECORD_MAX < unat (p ! 6) \<or>
          page_padding p \<or> page_gen p = 0 then NV_PAGE_FORMAT
      else if decode32 (drop 2040 p) \<noteq> page_crc p then NV_PAGE_INTEGRITY
      else NV_PAGE_VALID)"

section \<open>The byte scan computes the declarative reading\<close>

definition fill :: "nat \<Rightarrow> 'a list \<Rightarrow> 'a list \<Rightarrow> 'a list" where
  "fill n xs ys = take n xs @ drop n ys"

lemma fill_0 [simp]: "fill 0 xs ys = ys"
  by (simp add: fill_def)

lemma fill_all: "length xs = length ys \<Longrightarrow> length ys \<le> n \<Longrightarrow> fill n xs ys = xs"
  by (simp add: fill_def)

lemma fill_step:
  assumes "n < length xs" and "n < length ys"
  shows "(fill n xs ys)[n := xs ! n] = fill (Suc n) xs ys"
  using assms
  by (simp add: fill_def list_update_append take_Suc_conv_app_nth Cons_nth_drop_Suc [symmetric])

text \<open>What the accumulator holds after the first \<open>n\<close> bytes of page \<open>p\<close>.\<close>

definition acc_at :: "bool \<Rightarrow> bytes \<Rightarrow> nat \<Rightarrow> u32 \<Rightarrow> bytes \<Rightarrow> bytes \<Rightarrow> bytes \<Rightarrow> scan_acc" where
  "acc_at capture p n crc hdr ftr stg = \<lparr>sc_crc = crc,
     sc_erased = (\<forall>i < n. p ! i = 255),
     sc_padding = (\<exists>i < n. i < 2040 \<and> 12 + unat (p ! 6) \<le> i \<and> p ! i \<noteq> 255),
     sc_header = fill (min n 12) (take 12 p) hdr,
     sc_footer = fill (n - 2040) (drop 2040 p) ftr,
     sc_stage = (if capture then fill (min (n - 12) NV_RECORD_MAX) (take NV_RECORD_MAX (drop 12 p)) stg
                 else stg)\<rparr>"

lemma acc_at_crc: "sc_crc (acc_at c p n crc hdr ftr stg) = crc"
  by (simp add: acc_at_def)

definition scan_lens :: "bytes \<Rightarrow> bytes \<Rightarrow> bytes \<Rightarrow> bytes \<Rightarrow> bool" where
  "scan_lens p hdr ftr stg \<longleftrightarrow>
     length p = 2048 \<and> length hdr = 12 \<and> length ftr = 8 \<and> length stg = NV_RECORD_MAX"

lemma scan_byte_acc_at:
  assumes n: "n < 2048" and wf: "scan_lens p hdr ftr stg"
  shows "scan_byte capture n (p ! n) (acc_at capture p n crc hdr ftr stg) =
         acc_at capture p (Suc n) crc hdr ftr stg"
proof -
  note lens = wf [unfolded scan_lens_def]
  have all: "(\<forall>i < Suc n. p ! i = 255) \<longleftrightarrow> (\<forall>i < n. p ! i = 255) \<and> p ! n = 255"
    by (auto simp: less_Suc_eq)
  have pad: "(\<exists>i < Suc n. i < 2040 \<and> 12 + unat (p ! 6) \<le> i \<and> p ! i \<noteq> 255) \<longleftrightarrow>
      (\<exists>i < n. i < 2040 \<and> 12 + unat (p ! 6) \<le> i \<and> p ! i \<noteq> 255) \<or>
      (n < 2040 \<and> 12 + unat (p ! 6) \<le> n \<and> p ! n \<noteq> 255)"
    by (auto simp: less_Suc_eq)
  consider "n < 12" | "12 \<le> n" "n < 140" | "140 \<le> n" "n < 2040" | "2040 \<le> n" by linarith
  then show ?thesis
  proof cases
    case 1
    have "(fill n (take 12 p) hdr)[n := p ! n] = fill (Suc n) (take 12 p) hdr"
      using fill_step [of n "take 12 p" hdr] 1 lens by simp
    with 1 show ?thesis by (auto simp: scan_byte_def acc_at_def all pad Let_def)
  next
    case 2
    define m where "m = n - 12"
    have m: "m < 128" "n = 12 + m" and md: "n - 12 = m" "Suc n - 12 = Suc m" and n12: "\<not> n < 12"
      using 2 by (auto simp: m_def)
    have hdr: "fill 12 (take 12 p) hdr = take 12 p" using lens by (simp add: fill_all)
    have stg: "(fill m (take 128 (drop 12 p)) stg)[m := p ! n] =
        fill (Suc m) (take 128 (drop 12 p)) stg"
      using fill_step [of m "take 128 (drop 12 p)" stg] m lens by simp
    have mins: "min n 12 = 12" "min (Suc n) 12 = 12" "min m 128 = m" "min (Suc m) 128 = Suc m"
      "n - 2040 = 0" "Suc n - 2040 = 0" "n < 2040" "12 \<le> n" "n < 12 + 128"
      using 2 m(1) by auto
    from stg show ?thesis
      by (cases "p ! n = 255"; cases capture)
        (simp_all only: scan_byte_def acc_at_def all pad Let_def hdr md mins n12,
         auto simp: hdr lens)
  next
    case 3
    have hdr: "fill 12 (take 12 p) hdr = take 12 p" using lens by (simp add: fill_all)
    have mins: "min n 12 = 12" "min (Suc n) 12 = 12" "min (n - 12) 128 = 128"
      "min (Suc n - 12) 128 = 128" "n - 2040 = 0" "Suc n - 2040 = 0" "n < 2040"
      and nn: "\<not> n < 12" "\<not> n < 12 + 128"
      using 3 by auto
    show ?thesis
      by (cases "p ! n = 255"; cases capture)
        (simp_all only: scan_byte_def acc_at_def all pad Let_def hdr mins nn,
         auto simp: hdr lens)
  next
    case 4
    define m where "m = n - 2040"
    have m: "m < 8" "n = 2040 + m" and md: "n - 2040 = m" "Suc n - 2040 = Suc m"
      using 4 n by (auto simp: m_def)
    have ftr: "(fill m (drop 2040 p) ftr)[m := p ! n] = fill (Suc m) (drop 2040 p) ftr"
      using fill_step [of m "drop 2040 p" ftr] m lens by simp
    have mins: "min n 12 = 12" "min (Suc n) 12 = 12" "min (n - 12) 128 = 128"
      "min (Suc n - 12) 128 = 128"
      and nn: "\<not> n < 12" "\<not> n < 2040"
      using 4 by auto
    from ftr show ?thesis
      by (cases "p ! n = 255"; cases capture)
        (simp_all only: scan_byte_def acc_at_def all pad Let_def md mins nn,
         auto simp: lens)
  qed
qed

lemma scan_bytes_acc_at:
  assumes "n + m \<le> 2048" and wf: "scan_lens p hdr ftr stg"
  shows "scan_bytes capture n (take m (drop n p)) (acc_at capture p n crc hdr ftr stg) =
         acc_at capture p (n + m) crc hdr ftr stg"
  using assms(1)
proof (induction m arbitrary: n)
  case (Suc m)
  then have "drop n p = p ! n # drop (Suc n) p"
    using wf by (simp add: Cons_nth_drop_Suc scan_lens_def)
  with Suc wf show ?case by (simp add: scan_byte_acc_at)
qed simp


text \<open>Chunk by chunk, the checksum covers the first 2040 bytes.\<close>

definition scan_init :: "bytes \<Rightarrow> bytes \<Rightarrow> bytes \<Rightarrow> scan_acc" where
  "scan_init hdr ftr stg = \<lparr>sc_crc = 0xffffffff, sc_erased = True, sc_padding = False,
     sc_header = hdr, sc_footer = ftr, sc_stage = stg\<rparr>"

lemma scan_init_acc_at: "scan_init hdr ftr stg = acc_at capture p 0 0xffffffff hdr ftr stg"
  by (simp add: scan_init_def acc_at_def)

definition scan_crc :: "bytes \<Rightarrow> nat \<Rightarrow> u32" where
  "scan_crc p n = crc_update 0xffffffff (take (min n 2040) p)"

lemma scan_crc_step:
  assumes "k < 64" and "length p = 2048"
  shows "crc_update (scan_crc p (32 * k))
      (take (if 32 * k < 2008 then 32 else 2040 - 32 * k) (take 32 (drop (32 * k) p))) =
    scan_crc p (32 * Suc k)"
proof (cases "32 * k < 2008")
  case True
  then have "min (32 * k) 2040 = 32 * k" and "min (32 * Suc k) 2040 = 32 * k + 32" by auto
  moreover have "take (32 * k) p @ take 32 (drop (32 * k) p) = take (32 * k + 32) p"
    by (simp only: take_add)
  ultimately show ?thesis using True by (simp only: scan_crc_def crc_update_append) simp
next
  case False
  with assms have "k = 63" by presburger
  then show ?thesis using take_add [of 2016 24 p]
    by (simp add: scan_crc_def crc_update_append)
qed

definition scan_final :: "bool \<Rightarrow> bytes \<Rightarrow> bytes \<Rightarrow> scan_acc" where
  "scan_final capture p stg = \<lparr>sc_crc = crc_update 0xffffffff (take 2040 p),
     sc_erased = page_erased p, sc_padding = page_padding p,
     sc_header = take 12 p, sc_footer = drop 2040 p,
     sc_stage = (if capture then take NV_RECORD_MAX (drop 12 p) else stg)\<rparr>"

lemma scan_final_acc_at:
  assumes "scan_lens p hdr ftr stg"
  shows "acc_at capture p 2048 (scan_crc p 2048) hdr ftr stg = scan_final capture p stg"
proof -
  note lens = assms [unfolded scan_lens_def]
  have e: "(\<forall>i < 2048. p ! i = 255) \<longleftrightarrow> page_erased p"
    using lens by (auto simp: page_erased_def set_conv_nth)
  have pd: "(\<exists>i < 2048. i < 2040 \<and> 12 + unat (p ! 6) \<le> i \<and> p ! i \<noteq> 255) \<longleftrightarrow> page_padding p"
  proof
    assume "\<exists>i < 2048. i < 2040 \<and> 12 + unat (p ! 6) \<le> i \<and> p ! i \<noteq> 255"
    then obtain i where i: "i < 2040" "12 + unat (p ! 6) \<le> i" "p ! i \<noteq> 255" by auto
    let ?j = "i - (12 + unat (p ! 6))" and ?t = "take (2040 - (12 + unat (p ! 6))) (drop (12 + unat (p ! 6)) p)"
    have "?j < length ?t" "?t ! ?j = p ! i" using i lens by auto
    then show "page_padding p" using i(3) unfolding page_padding_def by (metis nth_mem)
  next
    assume "page_padding p"
    then obtain j where "j < 2040 - (12 + unat (p ! 6))" "p ! (12 + unat (p ! 6) + j) \<noteq> 255"
      using lens by (auto simp: page_padding_def in_set_conv_nth)
    then show "\<exists>i < 2048. i < 2040 \<and> 12 + unat (p ! 6) \<le> i \<and> p ! i \<noteq> 255"
      by (intro exI [of _ "12 + unat (p ! 6) + j"]) auto
  qed
  show ?thesis
    using lens by (simp add: acc_at_def scan_final_def scan_crc_def e pd fill_all)
qed

lemma scan_state_final: "length p = 2048 \<Longrightarrow> scan_state (scan_final capture p stg) = page_class p"
  by (simp add: scan_state_def scan_final_def page_class_def page_gen_def page_crc_def
      decode32_def)


section \<open>The abstract journal: a decision on two page images\<close>

definition page_len :: "bytes \<Rightarrow> u8" where
  "page_len p = p ! 6"

text \<open>The selection result and the selected page (255 when none).\<close>

definition journal :: "(nat \<Rightarrow> bytes) \<Rightarrow> nv_record_result \<times> nat" where
  "journal pg =
     (let c0 = page_class (pg 0); c1 = page_class (pg 1); g0 = page_gen (pg 0); g1 = page_gen (pg 1);
          recovers = (\<lambda>c. c \<noteq> NV_PAGE_EMPTY)
      in if c0 = NV_PAGE_UNSUPPORTED \<or> c1 = NV_PAGE_UNSUPPORTED then (NV_RECORD_UNSUPPORTED, 255)
         else if c0 = NV_PAGE_VALID \<and> c1 = NV_PAGE_VALID then
           (if g0 < g1 then (if g1 - g0 = 1 then (NV_RECORD_OK, 1) else (NV_RECORD_CONFLICT, 255))
            else if g0 - g1 = 1 then (NV_RECORD_OK, 0) else (NV_RECORD_CONFLICT, 255))
         else if c0 = NV_PAGE_VALID then
           (if recovers c1 then NV_RECORD_RECOVERED else NV_RECORD_OK, 0)
         else if c1 = NV_PAGE_VALID then
           (if recovers c0 then NV_RECORD_RECOVERED else NV_RECORD_OK, 1)
         else if c0 = NV_PAGE_EMPTY \<and> c1 = NV_PAGE_EMPTY then (NV_RECORD_EMPTY, 255)
         else (NV_RECORD_CORRUPT, 255))"

definition readable :: "nv_record_result \<Rightarrow> bool" where
  "readable r \<longleftrightarrow> r = NV_RECORD_OK \<or> r = NV_RECORD_RECOVERED"

text \<open>The record a reader gets: generation and data.\<close>

definition journal_record :: "(nat \<Rightarrow> bytes) \<Rightarrow> (u32 \<times> bytes) option" where
  "journal_record pg =
     (case journal pg of (r, s) \<Rightarrow>
        if readable r then Some (page_gen (pg s), page_data (pg s)) else None)"

lemma page_class_valid_gen: "page_class p = NV_PAGE_VALID \<Longrightarrow> page_gen p \<noteq> 0"
  by (auto simp: page_class_def split: if_splits)

lemma page_class_valid_len:
  "page_class p = NV_PAGE_VALID \<Longrightarrow> page_len p \<noteq> 0 \<and> unat (page_len p) \<le> NV_RECORD_MAX"
  by (auto simp: page_class_def page_len_def split: if_splits)

lemma journal_selected:
  "journal pg = (r, s) \<Longrightarrow> readable r \<Longrightarrow> s < 2 \<and> page_class (pg s) = NV_PAGE_VALID"
  by (auto simp: journal_def readable_def Let_def split: if_splits)

lemma journal_unreadable: "journal pg = (r, s) \<Longrightarrow> \<not> readable r \<Longrightarrow> s = 255"
  by (auto simp: journal_def readable_def Let_def split: if_splits)

lemma journal_result: "journal pg = (r, s) \<Longrightarrow>
    r \<in> {NV_RECORD_OK, NV_RECORD_RECOVERED, NV_RECORD_EMPTY, NV_RECORD_CORRUPT,
         NV_RECORD_CONFLICT, NV_RECORD_UNSUPPORTED}"
  by (auto simp: journal_def Let_def split: if_splits)

section \<open>State well-formedness and the scanned state\<close>

definition nv_wf :: "'h nv_state \<Rightarrow> bool" where
  "nv_wf st \<longleftrightarrow> length (nv_header st) = 12 \<and> length (nv_footer st) = 8 \<and>
     length (nv_record_stage st) = NV_RECORD_MAX \<and> length (nv_lengths st) = 2 \<and>
     length (nv_generations st) = 2 \<and> length (nv_pages (nv_record_diagnostic st)) = 2 \<and>
     length (nv_erase_attempts (nv_record_diagnostic st)) = 2"

definition scanned :: "nat \<Rightarrow> bool \<Rightarrow> bytes \<Rightarrow> 'h \<Rightarrow> 'h nv_state \<Rightarrow> 'h nv_state" where
  "scanned p capture pg h st =
     (let d = nv_record_diagnostic st in
      st\<lparr>nv_hw := h, nv_header := take 12 pg, nv_footer := drop 2040 pg,
        nv_record_stage := (if capture then take NV_RECORD_MAX (drop 12 pg) else nv_record_stage st),
        nv_record_diagnostic := d\<lparr>nv_reader := Some FLASH_OK, nv_pages := (nv_pages d)[p := page_class pg]\<rparr>,
        nv_generations := (nv_generations st)[p := page_gen pg],
        nv_lengths := (nv_lengths st)[p := page_len pg]\<rparr>)"

lemma nv_wf_scanned: "nv_wf st \<Longrightarrow> length pg = 2048 \<Longrightarrow> nv_wf (scanned p c pg h st)"
  by (simp add: nv_wf_def scanned_def Let_def)

lemma nv_wf_simps [simp]:
  "nv_wf (nv_set_phase n st) = nv_wf st"
  "nv_wf st \<Longrightarrow> nv_wf (nv_begin st)"
  by (simp_all add: nv_wf_def nv_set_phase_def nv_begin_def nv_begin_status_def)

lemma nv_hw_simps [simp]:
  "nv_hw (nv_set_phase n st) = nv_hw st"
  "nv_hw (nv_begin st) = nv_hw st"
  "nv_hw (scanned p c pg h st) = h"
  "nv_record_fault (nv_set_phase n st) = nv_record_fault st"
  "nv_record_fault (nv_begin st) = nv_record_fault st"
  "nv_record_fault (scanned p c pg h st) = nv_record_fault st"
  by (simp_all add: nv_set_phase_def nv_begin_def scanned_def Let_def)

section \<open>Selection and its status\<close>

definition selected_status :: "nv_record_status \<Rightarrow> (nat \<Rightarrow> bytes) \<Rightarrow> nv_record_status" where
  "selected_status d pg =
     (let b = (nv_begin_status d)\<lparr>nv_reader := Some FLASH_OK,
                nv_pages := [page_class (pg 0), page_class (pg 1)]\<rparr>
      in case journal pg of (r, s) \<Rightarrow>
           if readable r then b\<lparr>nv_selected := s, nv_length := page_len (pg s),
             nv_generation := page_gen (pg s), nv_recovered := (r = NV_RECORD_RECOVERED)\<rparr>
           else b)"

text \<open>The decision code of \<open>select_record\<close> is the abstract \<open>journal\<close> decision.\<close>

lemma select_choose_spec:
  assumes "nv_record_diagnostic st = (nv_begin_status d)\<lparr>nv_reader := Some FLASH_OK,
      nv_pages := [page_class (pg 0), page_class (pg 1)]\<rparr>"
    and "nv_generations st = [page_gen (pg 0), page_gen (pg 1)]"
    and "nv_lengths st = [page_len (pg 0), page_len (pg 1)]"
  shows "select_choose st =
    (fst (journal pg), st\<lparr>nv_record_diagnostic := selected_status d pg\<rparr>)"
proof -
  have "(0::nat) XOR 1 = 1" "(1::nat) XOR 1 = 0" by simp_all
  note xors = this
  have st: "st\<lparr>nv_record_diagnostic := nv_record_diagnostic st\<rparr> = st" by simp
  show ?thesis
  proof (cases "page_class (pg 0) = NV_PAGE_VALID"; cases "page_class (pg 1) = NV_PAGE_VALID")
    assume v: "page_class (pg 0) = NV_PAGE_VALID" "page_class (pg 1) = NV_PAGE_VALID"
    with page_class_valid_gen [of "pg 0"] page_class_valid_gen [of "pg 1"] assms st show ?thesis
      by (cases "page_gen (pg 0) < page_gen (pg 1)")
        (auto simp: select_choose_def journal_def selected_status_def readable_def Let_def
          nv_begin_status_def)
  qed (use assms st in \<open>auto simp: select_choose_def journal_def selected_status_def readable_def
        Let_def nv_begin_status_def\<close>)
qed

lemma selected_status_simps [simp]:
  "nv_erase_attempts (selected_status d pg) = nv_erase_attempts d"
  "nv_phase (selected_status d pg) = 1"
  by (simp_all add: selected_status_def nv_begin_status_def Let_def split: prod.splits)

lemma selected_status_readable:
  assumes "journal pg = (r, s)" and "readable r"
  shows "nv_selected (selected_status d pg) = s" "nv_length (selected_status d pg) = page_len (pg s)"
    "nv_generation (selected_status d pg) = page_gen (pg s)"
    "nv_recovered (selected_status d pg) = (r = NV_RECORD_RECOVERED)"
  using assms by (simp_all add: selected_status_def)

lemma selected_status_empty:
  assumes "journal pg = (r, s)" and "\<not> readable r"
  shows "nv_selected (selected_status d pg) = 255" "nv_generation (selected_status d pg) = 0"
    "nv_recovered (selected_status d pg) = False"
  using assms by (simp_all add: selected_status_def nv_begin_status_def)

section \<open>The cached selection and the outcome of a load\<close>

definition cache_ok :: "(nat \<Rightarrow> bytes) \<Rightarrow> nv_record_status \<Rightarrow> bool" where
  "cache_ok pg d \<longleftrightarrow> (nv_known d \<longrightarrow> journal pg = (NV_RECORD_OK, nv_selected d) \<and>
     nv_length d = page_len (pg (nv_selected d)) \<and> nv_generation d = page_gen (pg (nv_selected d)))"

definition load_outcome :: "(nat \<Rightarrow> bytes) \<Rightarrow> u8 \<Rightarrow> nv_record_result \<times> bytes" where
  "load_outcome pg capacity =
     (case journal pg of (r, s) \<Rightarrow>
        if \<not> readable r then (r, [])
        else if capacity < page_len (pg s) then (NV_RECORD_NO_SPACE, [])
        else (r, page_data (pg s)))"

text \<open>What the diagnostic reports after a call that published a record.\<close>

definition reports :: "(nat \<Rightarrow> bytes) \<Rightarrow> nv_record_status \<Rightarrow> bool" where
  "reports pg d \<longleftrightarrow> (case journal pg of (r, s) \<Rightarrow> nv_selected d = s \<and>
     nv_generation d = page_gen (pg s) \<and> nv_length d = page_len (pg s))"

definition selection_of :: "(nat \<Rightarrow> bytes) \<Rightarrow> nv_record_status \<Rightarrow> bool" where
  "selection_of pg d \<longleftrightarrow> reports pg d \<and> nv_recovered d = (fst (journal pg) = NV_RECORD_RECOVERED)"

lemma selection_of_selected_status: "readable (fst (journal pg)) \<Longrightarrow> selection_of pg (selected_status d pg)"
  using selected_status_readable [of pg _ _ d]
  by (cases "journal pg") (simp add: selection_of_def reports_def)

text \<open>Publishing after the selected page was scanned again.\<close>

lemma publish_scanned:
  fixes h :: 'h and st st' :: "'h nv_state"
  assumes j: "journal pg = (jr, s)" "readable jr" and len: "length (pg s) = 2048"
    and wf: "nv_wf st" and sel: "selection_of pg (nv_record_diagnostic st)"
  defines "st2 \<equiv> scanned s True (pg s) h st"
  shows "nv_selection_holds s st2"
    and "nv_publish jr st2 = (r, out, st') \<Longrightarrow>
      r = jr \<and> out = page_data (pg s) \<and> nv_hw st' = h \<and> nv_record_fault st' = nv_record_fault st \<and>
      nv_wf st' \<and> cache_ok pg (nv_record_diagnostic st') \<and> reports pg (nv_record_diagnostic st') \<and>
      nv_erase_attempts (nv_record_diagnostic st') = nv_erase_attempts (nv_record_diagnostic st)"
proof -
  have s: "s < 2" "page_class (pg s) = NV_PAGE_VALID" using journal_selected [OF j] by auto
  have pl: "unat (pg s ! 6) \<le> NV_RECORD_MAX" using page_class_valid_len [OF s(2)] by (simp add: page_len_def)
  show "nv_selection_holds s st2"
    using wf s sel j by (simp add: st2_def nv_selection_holds_def scanned_def Let_def nv_wf_def
        selection_of_def reports_def)
  have wf2: "nv_wf st2" using nv_wf_scanned [OF wf len] by (simp add: st2_def)
  assume "nv_publish jr st2 = (r, out, st')"
  with wf2 s sel j pl show "r = jr \<and> out = page_data (pg s) \<and> nv_hw st' = h \<and>
      nv_record_fault st' = nv_record_fault st \<and>
      nv_wf st' \<and> cache_ok pg (nv_record_diagnostic st') \<and> reports pg (nv_record_diagnostic st') \<and>
      nv_erase_attempts (nv_record_diagnostic st') = nv_erase_attempts (nv_record_diagnostic st)"
    by (auto simp: st2_def nv_publish_def nv_finish_def nv_set_phase_def scanned_def Let_def
        page_data_def page_len_def selection_of_def reports_def cache_ok_def nv_known_def nv_wf_def
        min_def)
qed

section \<open>Scanning through the flash interface\<close>

context nv_flash
begin

lemma scan_chunks_spec:
  assumes "ok h" and "p < 2" and "k \<le> 64" and wf: "scan_lens (pages h p) hdr ftr stg"
    and "scan_chunks ops p c (map (\<lambda>k. 32 * k) [k..<64])
           (acc_at c (pages h p) (32 * k) (scan_crc (pages h p) (32 * k)) hdr ftr stg) h = (r, a, h')"
  shows "ok h' \<and> pages h' = pages h \<and> (r = FLASH_OK \<longrightarrow> a = scan_final c (pages h p) stg) \<and>
    (live h \<longrightarrow> r = FLASH_OK \<and> live h' \<and> fresh h' = fresh h)"
  using assms
proof (induction "64 - k" arbitrary: k h)
  case 0
  then show ?case by (auto simp: scan_final_acc_at)
next
  case (Suc n)
  then have k: "k < 64" by simp
  let ?P = "pages h p"
  obtain r1 chunk h1 where rd: "op_read ops p (32 * k) 32 h = (r1, chunk, h1)"
    by (cases "op_read ops p (32 * k) 32 h")
  note h1 = read_ok [OF Suc.prems(1) rd] read_pages [OF Suc.prems(1) rd]
  have lv: "live h \<longrightarrow> r1 = FLASH_OK \<and> live h1 \<and> fresh h1 = fresh h"
    using read_live [OF Suc.prems(1) _ Suc.prems(2) _ _ _ rd] k by simp
  show ?case
  proof (cases "r1 = FLASH_OK")
    case False
    with rd Suc.prems(5) k h1 lv show ?thesis
      by (simp add: upt_conv_Cons)
  next
    case True
    have chunk: "chunk = take 32 (drop (32 * k) ?P)"
      using read_data [OF Suc.prems(1,2)] rd True by blast
    have len: "length ?P = 2048" using wf Suc.prems(4) by (simp add: scan_lens_def)
    have step: "scan_bytes c (32 * k) chunk
        ((acc_at c ?P (32 * k) (scan_crc ?P (32 * k)) hdr ftr stg)\<lparr>sc_crc :=
          crc_update (scan_crc ?P (32 * k))
            (take (if 32 * k < 2008 then 32 else 2040 - 32 * k) chunk)\<rparr>) =
        acc_at c ?P (32 * Suc k) (scan_crc ?P (32 * Suc k)) hdr ftr stg"
    proof -
      have upd: "(acc_at c ?P m x hdr ftr stg)\<lparr>sc_crc := y\<rparr> = acc_at c ?P m y hdr ftr stg" for m x y
        by (simp add: acc_at_def)
      have "32 * k + 32 = 32 * Suc k" by simp
      then show ?thesis
        unfolding chunk upd scan_crc_step [OF k len]
        using scan_bytes_acc_at [of "32 * k" 32 ?P hdr ftr stg c] k Suc.prems(4)
        by (simp add: add.commute)
    qed
    have "scan_chunks ops p c (map (\<lambda>k. 32 * k) [Suc k..<64])
        (acc_at c (pages h1 p) (32 * Suc k) (scan_crc (pages h1 p) (32 * Suc k)) hdr ftr stg) h1 = (r, a, h')"
      using Suc.prems(5) k rd True h1(2) step
      by (simp add: upt_conv_Cons acc_at_crc)
    from Suc.hyps(1) [OF _ h1(1) Suc.prems(2) _ _ this] Suc.hyps(2) k Suc.prems(4) h1(2) lv
    show ?thesis by simp
  qed
qed

lemma scan_page_spec:
  assumes "ok (nv_hw st)" and "p < 2" and "nv_wf st" and "scan_page ops p c st = (r, st')"
  shows "ok (nv_hw st') \<and> pages (nv_hw st') = pages (nv_hw st) \<and>
    (if r = NV_RECORD_OK then st' = scanned p c (pages (nv_hw st) p) (nv_hw st') st
     else r = NV_RECORD_READ_FAILED \<and> nv_record_fault st' = NV_RECORD_READ_FAILED) \<and>
    (live (nv_hw st) \<longrightarrow> r = NV_RECORD_OK \<and> live (nv_hw st') \<and> fresh (nv_hw st') = fresh (nv_hw st))"
proof -
  let ?P = "pages (nv_hw st) p"
  obtain fr a h where sc: "scan_chunks ops p c scan_offsets
      (scan_init (nv_header st) (nv_footer st) (nv_record_stage st)) (nv_hw st) = (fr, a, h)"
    by (cases "scan_chunks ops p c scan_offsets
      (scan_init (nv_header st) (nv_footer st) (nv_record_stage st)) (nv_hw st)")
  have len: "length ?P = 2048" using page_len assms(1,2) by simp
  have lens: "scan_lens ?P (nv_header st) (nv_footer st) (nv_record_stage st)"
    using assms(3) len by (simp add: scan_lens_def nv_wf_def)
  have "scan_chunks ops p c (map (\<lambda>k. 32 * k) [0..<64])
      (acc_at c ?P (32 * 0) (scan_crc ?P (32 * 0)) (nv_header st) (nv_footer st) (nv_record_stage st))
      (nv_hw st) = (fr, a, h)"
    using sc scan_init_acc_at [of "nv_header st" "nv_footer st" "nv_record_stage st" c ?P]
    by (simp add: scan_offsets_def scan_crc_def crc_update_def)
  note spec = scan_chunks_spec [OF assms(1,2) _ lens this]
  show ?thesis
  proof (cases "fr = FLASH_OK")
    case True
    then have a: "a = scan_final c ?P (nv_record_stage st)" using spec by simp
    have "st' = scanned p c ?P h st \<and> r = NV_RECORD_OK"
      using assms(4) sc True a len scan_state_final [OF len, of c "nv_record_stage st"]
      by (auto simp: scan_page_def scan_init_def Let_def scanned_def scan_final_def
          page_gen_def page_len_def decode32_def)
    with spec True show ?thesis by simp
  next
    case False
    with spec assms(4) sc show ?thesis
      by (auto simp: scan_page_def scan_init_def Let_def nv_set_fault_def nv_finish_def)
  qed
qed


lemma select_record_spec:
  assumes "ok (nv_hw st)" and "nv_wf st" and "nv_record_diagnostic st = nv_begin_status d"
    and "select_record ops st = (r, st')"
  defines "pg \<equiv> pages (nv_hw st)"
  shows "ok (nv_hw st') \<and> pages (nv_hw st') = pg \<and>
    (if r = NV_RECORD_READ_FAILED then nv_record_fault st' = NV_RECORD_READ_FAILED
     else r = fst (journal pg) \<and> nv_record_diagnostic st' = selected_status d pg \<and> nv_wf st' \<and>
       nv_record_fault st' = nv_record_fault st) \<and>
    (live (nv_hw st) \<longrightarrow> r \<noteq> NV_RECORD_READ_FAILED \<and> live (nv_hw st') \<and>
       fresh (nv_hw st') = fresh (nv_hw st))"
proof -
  obtain r0 st0 where s0: "scan_page ops 0 False st = (r0, st0)"
    by (cases "scan_page ops 0 False st")
  note p0 = scan_page_spec [OF assms(1) _ assms(2) s0, simplified]
  show ?thesis
  proof (cases "r0 = NV_RECORD_OK")
    case False
    with s0 assms(4) p0 show ?thesis by (auto simp: select_record_def pg_def)
  next
    case True
    with p0 have st0: "st0 = scanned 0 False (pg 0) (nv_hw st0) st" by (simp add: pg_def)
    have len: "length (pg q) = 2048" if "q < 2" for q
      using page_len assms(1) that by (simp add: pg_def)
    have wf0: "nv_wf st0" by (subst st0) (simp add: nv_wf_scanned assms(2) len)
    obtain r1 st1 where s1: "scan_page ops 1 False st0 = (r1, st1)"
      by (cases "scan_page ops 1 False st0")
    note p1 = scan_page_spec [OF _ _ wf0 s1, simplified]
    show ?thesis
    proof (cases "r1 = NV_RECORD_OK")
      case False
      with s0 s1 True assms(4) p0 p1 show ?thesis by (auto simp: select_record_def pg_def)
    next
      case r1: True
      with p0 p1 have st1: "st1 = scanned 1 False (pg 1) (nv_hw st1) st0" by (simp add: pg_def)
      have wf1: "nv_wf st1" by (subst st1) (simp add: nv_wf_scanned wf0 len)
      obtain g0 g1 l0 l1 where gl: "nv_generations st = [g0, g1]" "nv_lengths st = [l0, l1]"
        using assms(2) by (auto simp: nv_wf_def length_Suc_conv numeral_2_eq_2)
      have "select_choose st1 = (fst (journal pg), st1\<lparr>nv_record_diagnostic := selected_status d pg\<rparr>)"
        by (rule select_choose_spec; subst st1; subst st0)
          (simp_all add: scanned_def gl assms(3) nv_begin_status_def)
      with s0 s1 True r1 assms(4)
      have r: "r = fst (journal pg)" "st' = st1\<lparr>nv_record_diagnostic := selected_status d pg\<rparr>"
        by (auto simp: select_record_def)
      have "nv_wf st'"
        using wf1 r(2) st1 st0 assms(2,3)
        by (simp add: nv_wf_def selected_status_def nv_begin_status_def Let_def split: prod.splits)
      moreover have "r \<noteq> NV_RECORD_READ_FAILED"
        using r(1) journal_result [of pg] by (cases "journal pg") auto
      moreover have "nv_record_fault st1 = nv_record_fault st"
        by (subst st1, subst st0) simp
      ultimately show ?thesis using p0 p1 True r1 r by (auto simp: pg_def)
    qed
  qed
qed


definition load_post :: "(nat \<Rightarrow> bytes) \<Rightarrow> u8 \<Rightarrow> 'h nv_state \<Rightarrow> nv_record_result \<Rightarrow> bytes \<Rightarrow>
    'h nv_state \<Rightarrow> bool" where
  "load_post pg capacity st r out st' \<longleftrightarrow>
     ok (nv_hw st') \<and> pages (nv_hw st') = pg \<and>
     (if r = NV_RECORD_READ_FAILED then nv_record_fault st' = NV_RECORD_READ_FAILED \<and> out = []
      else nv_record_fault st' = nv_record_fault st \<and> nv_wf st' \<and>
        cache_ok pg (nv_record_diagnostic st') \<and> (r, out) = load_outcome pg capacity \<and>
        nv_erase_attempts (nv_record_diagnostic st') = nv_erase_attempts (nv_record_diagnostic st) \<and>
        (readable r \<longrightarrow> reports pg (nv_record_diagnostic st'))) \<and>
     (live (nv_hw st) \<longrightarrow> r \<noteq> NV_RECORD_READ_FAILED \<and> live (nv_hw st') \<and>
        fresh (nv_hw st') = fresh (nv_hw st))"

lemma nv_load_full_spec:
  assumes "ok (nv_hw st)" and "nv_wf st" and "nv_record_diagnostic st = nv_begin_status d"
    and "nv_load_full ops capacity st = (r, out, st')"
  shows "load_post (pages (nv_hw st)) capacity st r out st'"
proof -
  let ?pg = "pages (nv_hw st)"
  obtain r1 st1 where s1: "select_record ops st = (r1, st1)" by (cases "select_record ops st")
  note p1 = select_record_spec [OF assms(1-3) s1]
  obtain jr s where j: "journal ?pg = (jr, s)" by (cases "journal ?pg")
  have nr: "jr \<noteq> NV_RECORD_READ_FAILED" using journal_result [OF j] by auto
  have att: "nv_erase_attempts (nv_record_diagnostic st) = nv_erase_attempts d"
    by (simp add: assms(3) nv_begin_status_def)
  consider (rf) "r1 = NV_RECORD_READ_FAILED" | (bad) "r1 = jr" "\<not> readable jr"
    | (space) "r1 = jr" "readable jr" "capacity < page_len (?pg s)"
    | (go) "r1 = jr" "readable jr" "\<not> capacity < page_len (?pg s)"
    using p1 j by fastforce
  then show ?thesis
  proof cases
    case rf
    with s1 assms(4) p1 show ?thesis
      by (auto simp: nv_load_full_def nv_quit_def nv_finish_def load_post_def)
  next
    case bad
    with s1 assms(4) p1 j nr att show ?thesis
      by (auto simp: nv_load_full_def nv_quit_def nv_finish_def load_post_def load_outcome_def
          readable_def cache_ok_def nv_known_def nv_wf_def)
  next
    case space
    with p1 nr have d1: "nv_record_diagnostic st1 = selected_status d ?pg" by auto
    from space s1 assms(4) have "(r, out, st') = nv_quit (nv_finish NV_RECORD_NO_SPACE st1)"
      by (auto simp: nv_load_full_def d1 selected_status_readable [OF j] readable_def)
    with space p1 j nr att show ?thesis
      by (auto simp: nv_quit_def nv_finish_def load_post_def load_outcome_def readable_def
          cache_ok_def nv_known_def nv_wf_def)
  next
    case go
    with p1 nr have d1: "nv_record_diagnostic st1 = selected_status d ?pg" and wf1: "nv_wf st1"
      by auto
    note sel = selected_status_readable [OF j go(2), of d]
    have s: "s < 2" using journal_selected [OF j go(2)] by auto
    obtain r2 st2 where s2: "scan_page ops s True (nv_set_phase 2 st1) = (r2, st2)"
      by (cases "scan_page ops s True (nv_set_phase 2 st1)")
    note p2 = scan_page_spec [OF _ s _ s2, simplified, OF _ wf1]
    show ?thesis
    proof (cases "r2 = NV_RECORD_OK")
      case False
      with go s1 s2 assms(4) p1 p2 show ?thesis
        by (auto simp: nv_load_full_def nv_quit_def d1 sel readable_def load_post_def)
    next
      case True
      then have st2: "st2 = scanned s True (?pg s) (nv_hw st2) (nv_set_phase 2 st1)" using p1 p2 by simp
      have so: "selection_of ?pg (nv_record_diagnostic (nv_set_phase 2 st1))"
        using selection_of_selected_status [of ?pg d] go j
        by (simp add: nv_set_phase_def d1 selection_of_def reports_def)
      note pub = publish_scanned [OF j go(2) page_len [OF assms(1) s] _ so, simplified, OF wf1,
          of "nv_hw st2", folded st2]
      have "nv_publish jr st2 = (r, out, st')"
        using go s1 s2 True pub(1) assms(4) by (auto simp: nv_load_full_def d1 sel readable_def)
      from pub(2) [OF this] show ?thesis
        using p1 p2 True go nr j att
        by (auto simp: load_post_def load_outcome_def d1 nv_set_phase_def)
    qed
  qed
qed


lemma resume_status:
  assumes "nv_resume st = (known, st1)"
  shows "nv_hw st1 = nv_hw st" "nv_record_fault st1 = nv_record_fault st"
    "nv_erase_attempts (nv_record_diagnostic st1) = nv_erase_attempts (nv_record_diagnostic st)"
    "nv_wf st \<Longrightarrow> nv_wf st1"
    "\<not> known \<Longrightarrow> nv_record_diagnostic st1 = nv_begin_status (nv_record_diagnostic st)"
    "known \<Longrightarrow> cache_ok pg (nv_record_diagnostic st) \<Longrightarrow>
      selection_of pg (nv_record_diagnostic st1) \<and> fst (journal pg) = NV_RECORD_OK"
  using assms
  by (auto simp: nv_resume_def Let_def nv_begin_def nv_begin_status_def nv_wf_def cache_ok_def
      selection_of_def reports_def split: if_splits)

text \<open>
  The public load, from any unfaulted state whose cached selection is still current: it
  returns what the abstract journal holds, or latches a read fault.
\<close>

lemma nv_record_load_spec:
  assumes "ok (nv_hw st)" and "nv_wf st" and "cache_ok (pages (nv_hw st)) (nv_record_diagnostic st)"
    and "nv_record_fault st = NV_RECORD_OK" and "capacity \<noteq> 0" and "nv_caller rend a capacity"
    and ld: "nv_record_load ops rend (Some a) capacity st = (r, out, st')"
  shows "load_post (pages (nv_hw st)) capacity st r out st'"
proof -
  let ?pg = "pages (nv_hw st)"
  obtain known st1 where rs: "nv_resume st = (known, st1)" by (cases "nv_resume st")
  note r1 = resume_status [OF rs]
  show ?thesis
  proof (cases known)
    case False
    with ld assms rs have "nv_load_full ops capacity st1 = (r, out, st')"
      by (simp add: nv_record_load_def)
    from nv_load_full_spec [OF _ _ r1(5) this] False assms(1,2) r1 show ?thesis
      by (simp add: load_post_def)
  next
    case True
    with r1(6) assms(3) have so: "selection_of ?pg (nv_record_diagnostic st1)"
      and jok: "fst (journal ?pg) = NV_RECORD_OK" by blast+
    then obtain s where j: "journal ?pg = (NV_RECORD_OK, s)" by (cases "journal ?pg") simp
    with so have d1: "nv_selected (nv_record_diagnostic st1) = s"
      "nv_length (nv_record_diagnostic st1) = page_len (?pg s)"
      by (simp_all add: selection_of_def reports_def)
    have rd: "readable NV_RECORD_OK" by (simp add: readable_def)
    have s: "s < 2" using journal_selected [OF j rd] by simp
    show ?thesis
    proof (cases "capacity < page_len (?pg s)")
      case True
      with ld assms rs \<open>known\<close> d1 r1 j rd show ?thesis
        by (auto simp: nv_record_load_def nv_quit_def nv_finish_def load_post_def load_outcome_def
            readable_def cache_ok_def nv_known_def nv_wf_def)
    next
      case False
      obtain r2 st2 where s2: "scan_page ops s True (nv_set_phase 2 st1) = (r2, st2)"
        by (cases "scan_page ops s True (nv_set_phase 2 st1)")
      note p2 = scan_page_spec [OF _ s _ s2, simplified, OF _ r1(4) [OF assms(2)], unfolded r1(1), OF assms(1)]
      show ?thesis
      proof (cases "r2 = NV_RECORD_OK")
        case bad: False
        with False ld assms rs \<open>known\<close> d1 s2 p2 show ?thesis
          by (auto simp: nv_record_load_def nv_quit_def load_post_def)
      next
        case ok2: True
        then have st2: "st2 = scanned s True (?pg s) (nv_hw st2) (nv_set_phase 2 st1)"
          using p2 r1(1) by simp
        have so2: "selection_of ?pg (nv_record_diagnostic (nv_set_phase 2 st1))"
          using so by (simp add: nv_set_phase_def selection_of_def reports_def split: prod.splits)
        note pub = publish_scanned [OF j rd page_len [OF assms(1) s] _ so2, simplified,
            OF r1(4) [OF assms(2)], of "nv_hw st2", folded st2]
        have "nv_publish NV_RECORD_OK st2 = (r, out, st')"
          using False ld assms rs \<open>known\<close> d1 s2 ok2 pub(1) by (auto simp: nv_record_load_def)
        from pub(2) [OF this] show ?thesis
          using p2 ok2 False j rd r1
          by (auto simp: load_post_def load_outcome_def nv_set_phase_def)
      qed
    qed
  qed
qed

end

end
