(* ===== verification/Nv_Commit.thy ===== *)
theory Nv_Commit
  imports Nv_Journal
begin

text \<open>
  \<open>nv_record_replace\<close> as an atomic commit: the page images its program steps pass through,
  how each of them is classified (nothing before the commit marker is readable), and the
  resulting journal after success, after a refused request and after any torn write.
\<close>

section \<open>Page images of a replacement\<close>

definition new_header :: "u32 \<Rightarrow> u8 \<Rightarrow> bytes" where
  "new_header g len = magic @ [1, 0, len, 0] @ encode32 g"

text \<open>The checksummed part: header, data, erased filler up to offset 2040.\<close>

definition new_body :: "u32 \<Rightarrow> bytes \<Rightarrow> bytes" where
  "new_body g data = new_header g (of_nat (length data)) @ data @ replicate (2028 - length data) 255"

definition new_page :: "u32 \<Rightarrow> bytes \<Rightarrow> bytes" where
  "new_page g data = new_body g data @
     encode32 (crc_update 0xffffffff (new_body g data) XOR 0xffffffff) @ commit"

definition record_data :: "bytes \<Rightarrow> bool" where
  "record_data data \<longleftrightarrow> data \<noteq> [] \<and> length data \<le> NV_RECORD_MAX"

lemma length_new_header [simp]: "length (new_header g len) = 12"
  by (simp add: new_header_def magic_def)

lemma length_new_body: "record_data data \<Longrightarrow> length (new_body g data) = 2040"
  by (simp add: new_body_def record_data_def)

lemma length_commit [simp]: "length commit = 4"
  by (simp add: commit_def)

lemma length_new_page: "record_data data \<Longrightarrow> length (new_page g data) = 2048"
  by (simp add: new_page_def length_new_body)

lemma new_header_nth:
  "new_header g len ! 4 = 1" "new_header g len ! 5 = 0" "new_header g len ! 6 = len"
  "new_header g len ! 7 = 0" "take 4 (new_header g len) = magic"
  "drop 8 (new_header g len) = encode32 g"
  by (simp_all add: new_header_def magic_def)

lemma new_page_fields:
  assumes "record_data data"
  shows "take 4 (new_page g data) = magic" "new_page g data ! 4 = 1" "new_page g data ! 5 = 0"
    "new_page g data ! 6 = of_nat (length data)" "new_page g data ! 7 = 0"
    "page_gen (new_page g data) = g" "take 4 (drop 2044 (new_page g data)) = commit"
    "take 2040 (new_page g data) = new_body g data"
    "decode32 (drop 2040 (new_page g data)) = page_crc (new_page g data)"
proof -
  note len = length_new_body [OF assms, of g]
  show "take 4 (new_page g data) = magic" "new_page g data ! 4 = 1" "new_page g data ! 5 = 0"
    "new_page g data ! 6 = of_nat (length data)" "new_page g data ! 7 = 0"
    by (simp_all add: new_page_def new_body_def nth_append new_header_nth)
  show "page_gen (new_page g data) = g"
    by (simp add: new_page_def new_body_def page_gen_def new_header_nth)
  show "take 4 (drop 2044 (new_page g data)) = commit" using len by (simp add: new_page_def)
  show body: "take 2040 (new_page g data) = new_body g data" using len by (simp add: new_page_def)
  show "decode32 (drop 2040 (new_page g data)) = page_crc (new_page g data)"
    unfolding page_crc_def body using len by (simp add: new_page_def)
qed

lemma unat_of_nat_len: "n \<le> NV_RECORD_MAX \<Longrightarrow> unat (of_nat n :: u8) = n"
  by (simp add: unat_of_nat)

lemma new_page_data: "record_data data \<Longrightarrow> page_data (new_page g data) = data"
proof -
  assume d: "record_data data"
  then have "unat (of_nat (length data) :: u8) = length data" by (simp add: record_data_def unat_of_nat_len)
  then show ?thesis unfolding page_data_def new_page_fields(4) [OF d]
    by (simp add: new_page_def new_body_def)
qed

lemma new_page_not_padded: "record_data data \<Longrightarrow> \<not> page_padding (new_page g data)"
proof -
  assume d: "record_data data"
  then have "unat (of_nat (length data) :: u8) = length data" by (simp add: record_data_def unat_of_nat_len)
  then show ?thesis using d unfolding page_padding_def new_page_fields(4) [OF d]
    by (simp add: new_page_def new_body_def record_data_def)
qed

lemma new_page_valid:
  assumes "record_data data" and "g \<noteq> 0"
  shows "page_class (new_page g data) = NV_PAGE_VALID"
proof -
  have "\<not> page_erased (new_page g data)"
    by (auto simp: page_erased_def new_page_def new_body_def new_header_def magic_def)
  moreover have "(of_nat (length data) :: u8) \<noteq> 0" "unat (of_nat (length data) :: u8) \<le> NV_RECORD_MAX"
    using assms(1) unat_of_nat_len [of "length data"] by (auto simp: record_data_def)
  ultimately show ?thesis
    using assms new_page_not_padded [OF assms(1)] by (simp add: page_class_def new_page_fields)
qed

text \<open>No commit marker, no record: such a page is empty or incomplete.\<close>

definition uncommitted :: "bytes \<Rightarrow> bool" where
  "uncommitted p \<longleftrightarrow> page_class p = NV_PAGE_EMPTY \<or> page_class p = NV_PAGE_INCOMPLETE"

lemma uncommittedI: "take 4 (drop 2044 p) \<noteq> commit \<Longrightarrow> uncommitted p"
  by (simp add: uncommitted_def page_class_def)

definition marker_erased :: "bytes \<Rightarrow> bool" where
  "marker_erased p \<longleftrightarrow> length p = 2048 \<and> drop 2044 p = replicate 4 255"

lemma erased_word_no_marker: "replicate 4 255 \<noteq> commit"
proof
  assume "replicate 4 255 = commit"
  then have "hd (replicate 4 255) = hd commit" by (rule arg_cong)
  then show False by (simp add: commit_def)
qed

lemma marker_erased_uncommitted: "marker_erased p \<Longrightarrow> uncommitted p"
  by (rule uncommittedI) (simp add: marker_erased_def erased_word_no_marker)

lemma marker_erased_store_at:
  "marker_erased p \<Longrightarrow> off + length w \<le> 2044 \<Longrightarrow> marker_erased (store_at off w p)"
  by (simp add: marker_erased_def drop_store_at)

lemma marker_erased_blank: "marker_erased (replicate 2048 255)"
  by (simp add: marker_erased_def)

text \<open>Writing only the marker of a complete page commits it or leaves it unreadable.\<close>

lemma store_at_marker:
  assumes "record_data data" and "length t = 4"
  shows "store_at 2044 t (new_page g data) =
    new_body g data @ encode32 (crc_update 0xffffffff (new_body g data) XOR 0xffffffff) @ t"
  using assms by (simp add: store_at_def new_page_def length_new_body)

lemma torn_marker:
  assumes "record_data data" and "length t = 4"
  shows "store_at 2044 t (new_page g data) = new_page g data \<or>
    uncommitted (store_at 2044 t (new_page g data))"
proof (cases "t = commit")
  case True
  then show ?thesis using store_at_marker [OF assms] by (simp add: new_page_def)
next
  case False
  have "take 4 (drop 2044 (store_at 2044 t (new_page g data))) = t"
    using assms by (simp add: store_at_marker length_new_body)
  with False show ?thesis using uncommittedI by metis
qed

section \<open>The journal after the target page changed\<close>

lemma xor_one: "s < 2 \<Longrightarrow> (s::nat) XOR 1 < 2 \<and> s XOR 1 \<noteq> s \<and> s XOR 1 = 1 - s"
  by (cases s) (auto simp: less_2_cases_iff)

lemma journal_writable_cases:
  assumes "journal pg = (r, s)" and "r \<in> {NV_RECORD_OK, NV_RECORD_RECOVERED, NV_RECORD_EMPTY}"
  obtains (empty) "r = NV_RECORD_EMPTY" "s = 255" "page_class (pg 0) = NV_PAGE_EMPTY"
      "page_class (pg 1) = NV_PAGE_EMPTY"
    | (zero) "readable r" "s = 0" "page_class (pg 0) = NV_PAGE_VALID"
      "page_class (pg 1) \<noteq> NV_PAGE_UNSUPPORTED"
    | (one) "readable r" "s = 1" "page_class (pg 1) = NV_PAGE_VALID"
      "page_class (pg 0) \<noteq> NV_PAGE_UNSUPPORTED"
  using assms by (auto simp: journal_def readable_def Let_def split: if_splits)

text \<open>An unreadable target page leaves the old record (or its absence) in force.\<close>

lemma journal_uncommitted:
  assumes j: "journal pg = (r, s)" and r: "r \<in> {NV_RECORD_OK, NV_RECORD_RECOVERED, NV_RECORD_EMPTY}"
    and t: "t = (if s = 255 then 0 else s XOR 1)" and "uncommitted p"
  shows "journal_record (pg(t := p)) = journal_record pg"
proof -
  have cls: "page_class p = NV_PAGE_EMPTY \<or> page_class p = NV_PAGE_INCOMPLETE"
    using assms(4) by (simp add: uncommitted_def)
  from j r show ?thesis
  proof (cases rule: journal_writable_cases)
    case empty
    with t have "fst (journal (pg(t := p))) \<in> {NV_RECORD_EMPTY, NV_RECORD_CORRUPT}"
      using cls by (auto simp: journal_def Let_def)
    with empty j show ?thesis
      by (cases "journal (pg(t := p))") (auto simp: journal_record_def readable_def)
  next
    case zero
    with t cls have "snd (journal (pg(t := p))) = 0 \<and> readable (fst (journal (pg(t := p))))"
      by (auto simp: journal_def readable_def Let_def)
    with zero j t show ?thesis
      by (cases "journal (pg(t := p))") (auto simp: journal_record_def)
  next
    case one
    with t cls have "snd (journal (pg(t := p))) = 1 \<and> readable (fst (journal (pg(t := p))))"
      by (auto simp: journal_def readable_def Let_def)
    with one j t show ?thesis
      by (cases "journal (pg(t := p))") (auto simp: journal_record_def)
  qed
qed

lemma word_less_succ: "g \<noteq> 0xffffffff \<Longrightarrow> g < (g :: u32) + 1"
  by uint_arith auto

text \<open>A committed successor becomes the journal's record.\<close>

lemma journal_committed:
  assumes j: "journal pg = (r, s)" and r: "r \<in> {NV_RECORD_OK, NV_RECORD_RECOVERED, NV_RECORD_EMPTY}"
    and t: "t = (if s = 255 then 0 else s XOR 1)" and g: "g = (if readable r then page_gen (pg s) else 0)"
    and "g \<noteq> 0xffffffff" and p: "page_class p = NV_PAGE_VALID" "page_gen p = g + 1"
  shows "journal (pg(t := p)) = (NV_RECORD_OK, t)"
proof -
  note lt = word_less_succ [OF assms(5)]
  from j r show ?thesis
  proof (cases rule: journal_writable_cases)
    case empty
    with t p show ?thesis by (simp add: journal_def Let_def)
  next
    case zero
    with t p g lt show ?thesis
      by (cases "page_class (pg 1) = NV_PAGE_VALID") (auto simp: journal_def Let_def)
  next
    case one
    with t p g lt show ?thesis
      by (cases "page_class (pg 0) = NV_PAGE_VALID") (auto simp: journal_def Let_def)
  qed
qed


lemma journal_cong: "(\<forall>q < 2. pg q = pg' q) \<Longrightarrow> journal pg = journal pg'"
  by (simp add: journal_def)

lemma journal_record_cong: "(\<forall>q < 2. pg q = pg' q) \<Longrightarrow> journal_record pg = journal_record pg'"
  using journal_cong [of pg pg'] journal_selected [of pg']
  by (auto simp: journal_record_def split: prod.splits)

section \<open>Programming the body\<close>

definition words_done :: "nat \<Rightarrow> bytes \<Rightarrow> bytes" where
  "words_done k B = take (4 * k) B @ replicate (2048 - 4 * k) 255"

lemma words_done_step:
  assumes "4 * k + 4 \<le> length B" and "length B \<le> 2048"
  shows "store_at (4 * k) (take 4 (drop (4 * k) B)) (words_done k B) = words_done (Suc k) B"
proof -
  have "take (4 * Suc k) B = take (4 * k) B @ take 4 (drop (4 * k) B)"
    using take_add [of "4 * k" 4 B] by (simp add: add.commute)
  moreover have "min (length B - 4 * k) 4 = 4" using assms by simp
  ultimately show ?thesis using assms by (simp add: store_at_def words_done_def)
qed

lemma words_done_marker: "4 * k \<le> 2044 \<Longrightarrow> 4 * k \<le> length B \<Longrightarrow> marker_erased (words_done k B)"
  by (simp add: words_done_def marker_erased_def)

lemma words_done_body:
  assumes "record_data data" and "12 + length data \<le> 4 * k" and "4 * k \<le> 2040"
  shows "words_done k (new_body g data) = new_body g data @ replicate 8 255"
proof -
  have "take (4 * k) (new_body g data) = new_header g (of_nat (length data)) @ data @
      replicate (4 * k - (12 + length data)) 255"
    using assms by (simp add: new_body_def record_data_def min_def)
  moreover have "replicate (4 * k - (12 + length data)) 255 @ replicate (2048 - 4 * k) (255 :: u8) =
      replicate (2028 - length data) 255 @ replicate 8 255"
    using assms by (simp add: replicate_add [symmetric])
  ultimately show ?thesis by (simp add: words_done_def new_body_def)
qed

text \<open>The state the phase-4 loop reads its bytes from.\<close>

definition staged :: "u32 \<Rightarrow> bytes \<Rightarrow> 'h nv_state \<Rightarrow> bool" where
  "staged g data st \<longleftrightarrow> nv_header st = new_header g (of_nat (length data)) \<and>
     take (length data) (nv_record_stage st) = data \<and>
     take 4 (nv_footer st) = encode32 (crc_update 0xffffffff (new_body g data) XOR 0xffffffff)"

lemma staged_byte:
  assumes "staged g data st" and "record_data data" and "i < 2040"
  shows "nv_image_byte (of_nat (length data)) st i = new_body g data ! i"
proof -
  have len: "unat (of_nat (length data) :: u8) = length data"
    using assms(2) by (simp add: record_data_def unat_of_nat_len)
  have "nv_record_stage st ! (i - 12) = data ! (i - 12)" if "12 \<le> i" "i < 12 + length data"
  proof -
    from that have "i - 12 < length data" by simp
    then have "take (length data) (nv_record_stage st) ! (i - 12) = nv_record_stage st ! (i - 12)" by simp
    then show ?thesis using assms(1) by (simp add: staged_def)
  qed
  then show ?thesis using assms len
    by (auto simp: nv_image_byte_def staged_def new_body_def nth_append record_data_def)
qed

lemma staged_word:
  assumes "staged g data st" and "record_data data" and "pos + 4 \<le> 2040"
  shows "map (\<lambda>i. nv_image_byte (of_nat (length data)) st (pos + i)) [0..<4] =
    take 4 (drop pos (new_body g data))"
  by (rule nth_equalityI) (use assms in \<open>simp_all add: staged_byte length_new_body\<close>)

text \<open>\<open>nv_prepare\<close> stages exactly the bytes of the new page.\<close>

lemma nv_prepare_staged:
  assumes "unat len \<le> length src" and "unat len \<le> NV_RECORD_MAX"
    and "length (nv_record_stage st) = NV_RECORD_MAX"
  defines "data \<equiv> take (unat len) src"
  shows "staged (nv_generation (nv_record_diagnostic st) + 1) data (nv_prepare src len st)"
proof -
  have len: "length data = unat len" using assms(1) by (simp add: data_def)
  then have lw: "(of_nat (length data) :: u8) = len" by simp
  have stage: "take (unat len) (store_at 0 data (nv_record_stage st)) = data"
    by (simp add: store_at_def len)
  show ?thesis
    by (simp add: staged_def nv_prepare_def Let_def new_header_def lw len stage data_def [symmetric]
        crc_update_append new_body_def)
qed

lemma nv_prepare_simps:
  "nv_hw (nv_prepare src len st) = nv_hw st" "nv_record_fault (nv_prepare src len st) = nv_record_fault st"
  "nv_record_diagnostic (nv_prepare src len st) = nv_record_diagnostic st"
  by (simp_all add: nv_prepare_def Let_def)

lemma nv_prepare_wf:
  assumes "nv_wf st" and "unat len \<le> length src" and "unat len \<le> NV_RECORD_MAX"
  shows "nv_wf (nv_prepare src len st)"
  using assms by (simp add: nv_prepare_def Let_def nv_wf_def magic_def min_def)

text \<open>The module invariant: usable flash state, and an honest cache while no fault is latched.\<close>

definition nv_invariant :: "('h \<Rightarrow> bool) \<Rightarrow> ('h \<Rightarrow> nat \<Rightarrow> bytes) \<Rightarrow> 'h nv_state \<Rightarrow> bool" where
  "nv_invariant ok pages st \<longleftrightarrow> ok (nv_hw st) \<and>
     nv_record_fault st \<in> {NV_RECORD_OK, NV_RECORD_READ_FAILED, NV_RECORD_WRITE_FAILED, NV_RECORD_CORRUPT} \<and>
     (nv_record_fault st = NV_RECORD_OK \<longrightarrow>
     nv_wf st \<and> cache_ok (pages (nv_hw st)) (nv_record_diagnostic st))"

text \<open>
  The contract of a replacement: the invariant survives; success has installed the data as
  the next generation, and the recovered result exactly when the record replaced was a recovered
  one; unless the call ended in the erase phase, the journal holds the old
  record or the new one.
\<close>

definition next_gen :: "(u32 \<times> bytes) option \<Rightarrow> u32" where
  "next_gen x = (case x of None \<Rightarrow> 1 | Some (g, _) \<Rightarrow> g + 1)"

definition replace_contract :: "('h \<Rightarrow> bool) \<Rightarrow> ('h \<Rightarrow> nat \<Rightarrow> bytes) \<Rightarrow> bytes \<Rightarrow> 'h nv_state \<Rightarrow> nv_record_result \<Rightarrow> 'h nv_state \<Rightarrow> bool" where
  "replace_contract ok pages data st r st' \<longleftrightarrow> nv_invariant ok pages st' \<and>
     (let old = journal_record (pages (nv_hw st)); new = journal_record (pages (nv_hw st')) in
      (readable r \<longrightarrow> new = Some (next_gen old, data) \<and> nv_record_fault st' = NV_RECORD_OK \<and>
         fst (journal (pages (nv_hw st'))) = NV_RECORD_OK \<and>
         (r = NV_RECORD_RECOVERED \<longleftrightarrow> fst (journal (pages (nv_hw st))) = NV_RECORD_RECOVERED) \<and>
         nv_generation (nv_record_diagnostic st') = next_gen old \<and>
         nv_length (nv_record_diagnostic st') = of_nat (length data)) \<and>
      (nv_phase (nv_record_diagnostic st') \<noteq> 3 \<longrightarrow> new = old \<or> new = Some (next_gen old, data)))"

definition replace_guard :: "u16 \<Rightarrow> u16 \<Rightarrow> u8 \<Rightarrow> u16 \<Rightarrow> u8 \<Rightarrow> 'h nv_state \<Rightarrow> bool" where
  "replace_guard rend a len l ar st \<longleftrightarrow> nv_record_fault st = NV_RECORD_OK \<and> len \<noteq> 0 \<and>
     unat len \<le> NV_RECORD_MAX \<and> l \<noteq> 0 \<and> ar \<le> 1 \<and> nv_caller rend a len"

context nv_flash
begin

definition others_kept :: "nat \<Rightarrow> 'h \<Rightarrow> 'h \<Rightarrow> bool" where
  "others_kept p h h' \<longleftrightarrow> (\<forall>q < 2. q \<noteq> p \<longrightarrow> pages h' q = pages h q)"

lemma others_kept_trans: "others_kept p a b \<Longrightarrow> others_kept p b c \<Longrightarrow> others_kept p a c"
  by (simp add: others_kept_def)

definition all_fresh :: "'h \<Rightarrow> nat \<Rightarrow> nat \<Rightarrow> bool" where
  "all_fresh h p n \<longleftrightarrow> (\<forall>off. n \<le> off \<longrightarrow> off mod 4 = 0 \<longrightarrow> off + 4 \<le> 2048 \<longrightarrow> fresh h p off)"

definition wrote :: "'h nv_state \<Rightarrow> 'h nv_state \<Rightarrow> bool" where
  "wrote st st' \<longleftrightarrow> (\<exists>h w. st' = st\<lparr>nv_hw := h,
     nv_record_diagnostic := (nv_record_diagnostic st)\<lparr>nv_writer := w\<rparr>\<rparr>)"

lemma wrote_simps:
  assumes "wrote st st'"
  shows "nv_record_fault st' = nv_record_fault st" "nv_wf st' = nv_wf st"
    "staged g data st' = staged g data st" "nv_footer st' = nv_footer st"
    "\<exists>w. nv_record_diagnostic st' = (nv_record_diagnostic st)\<lparr>nv_writer := w\<rparr>"
  using assms by (auto simp: wrote_def nv_wf_def staged_def)

lemma wrote_trans: "wrote a b \<Longrightarrow> wrote b c \<Longrightarrow> wrote a c"
  by (auto simp: wrote_def) (intro exI, rule refl)

lemma wrote_refl: "wrote st st"
  unfolding wrote_def
  by (intro exI [of _ "nv_hw st"] exI [of _ "nv_writer (nv_record_diagnostic st)"]) simp

lemma nv_program_spec:
  assumes "ok (nv_hw st)" and "p < 2" and "length w = 4" and "off + 4 \<le> 2048"
    and pr: "nv_program ops p off w l st = (r, st')"
  shows "ok (nv_hw st') \<and> others_kept p (nv_hw st) (nv_hw st') \<and>
    (if r = NV_RECORD_OK then wrote st st' \<and>
       pages (nv_hw st') p = store_at off w (pages (nv_hw st) p)
     else r = NV_RECORD_WRITE_FAILED \<and> nv_record_fault st' = NV_RECORD_WRITE_FAILED \<and>
       nv_phase (nv_record_diagnostic st') = nv_phase (nv_record_diagnostic st) \<and>
       (\<exists>t. length t = 4 \<and> pages (nv_hw st') p = store_at off t (pages (nv_hw st) p))) \<and>
    (live (nv_hw st) \<longrightarrow> all_fresh (nv_hw st) p off \<longrightarrow> off mod 4 = 0 \<longrightarrow> enough l \<longrightarrow>
       r = NV_RECORD_OK \<and> live (nv_hw st') \<and> all_fresh (nv_hw st') p (off + 4))"
proof -
  obtain wr h where w: "op_program ops p off w l (nv_hw st) = (wr, h)"
    by (cases "op_program ops p off w l (nv_hw st)")
  have st': "nv_hw st' = h"
    "wr = FLASH_WRITE_OK \<longrightarrow> r = NV_RECORD_OK \<and> wrote st st'"
    "wr \<noteq> FLASH_WRITE_OK \<longrightarrow> r = NV_RECORD_WRITE_FAILED \<and> nv_record_fault st' = NV_RECORD_WRITE_FAILED \<and>
       nv_phase (nv_record_diagnostic st') = nv_phase (nv_record_diagnostic st)"
    using pr w by (auto simp: nv_program_def wrote_def nv_set_fault_def nv_finish_def Let_def split: if_splits)
  have "others_kept p (nv_hw st) h"
    using program_other [OF assms(1) w assms(3)] by (auto simp: others_kept_def)
  moreover have "live (nv_hw st) \<longrightarrow> all_fresh (nv_hw st) p off \<longrightarrow> off mod 4 = 0 \<longrightarrow> enough l \<longrightarrow>
      wr = FLASH_WRITE_OK \<and> live h \<and> all_fresh h p (off + 4)"
    using program_live [OF assms(1) _ _ assms(2,3) _ assms(4) _ w] assms(4) by (auto simp: all_fresh_def)
  ultimately show ?thesis
    using program_ok [OF assms(1) w assms(3)] program_torn [OF assms(1) w assms(2-4)]
      program_data [OF assms(1) _ assms(2-4)] w st'
    by (cases "wr = FLASH_WRITE_OK") auto
qed


lemma nv_program_words_spec:
  assumes "ok (nv_hw st)" and "p < 2" and "record_data data" and "staged g data st"
    and "k \<le> n" and "4 * n \<le> 2040"
    and "pages (nv_hw st) p = words_done k (new_body g data)"
    and "nv_program_words ops p (of_nat (length data)) l (map (\<lambda>k. 4 * k) [k..<n]) st = (r, st')"
  shows "ok (nv_hw st') \<and> others_kept p (nv_hw st) (nv_hw st') \<and>
    (if r = NV_RECORD_OK then wrote st st' \<and> pages (nv_hw st') p = words_done n (new_body g data)
     else r = NV_RECORD_WRITE_FAILED \<and> nv_record_fault st' = NV_RECORD_WRITE_FAILED \<and>
       nv_phase (nv_record_diagnostic st') = nv_phase (nv_record_diagnostic st) \<and>
       marker_erased (pages (nv_hw st') p)) \<and>
    (live (nv_hw st) \<longrightarrow> all_fresh (nv_hw st) p (4 * k) \<longrightarrow> enough l \<longrightarrow>
       r = NV_RECORD_OK \<and> live (nv_hw st') \<and> all_fresh (nv_hw st') p (4 * n))"
  using assms
proof (induction "n - k" arbitrary: k st)
  case 0
  then have "st' = st" "r = NV_RECORD_OK" "k = n" by auto
  with "0.prems" show ?case by (auto simp: others_kept_def wrote_refl)
next
  case (Suc m)
  then have k: "k < n" by simp
  let ?w = "take 4 (drop (4 * k) (new_body g data))"
  have body: "length (new_body g data) = 2040" by (rule length_new_body [OF Suc.prems(3)])
  have bd: "4 * k + 4 \<le> 2040" using k Suc.prems(6) by simp
  obtain r1 st1 where pr: "nv_program ops p (4 * k) ?w l st = (r1, st1)"
    by (cases "nv_program ops p (4 * k) ?w l st")
  have w4: "length ?w = 4" using body bd by simp
  note p1 = nv_program_spec [OF Suc.prems(1,2) w4 _ pr]
  have run: "nv_program_words ops p (of_nat (length data)) l (map (\<lambda>k. 4 * k) [k..<n]) st =
      (if r1 \<noteq> NV_RECORD_OK then (r1, st1)
       else nv_program_words ops p (of_nat (length data)) l (map (\<lambda>k. 4 * k) [Suc k..<n]) st1)"
    using pr staged_word [OF Suc.prems(4,3) bd] k by (simp add: upt_conv_Cons)
  show ?case
  proof (cases "r1 = NV_RECORD_OK")
    case False
    with run Suc.prems(8) have "r = r1" "st' = st1" by auto
    moreover from False p1 bd obtain t where "length t = 4"
      "pages (nv_hw st1) p = store_at (4 * k) t (words_done k (new_body g data))"
      using Suc.prems(7) by auto
    then have "marker_erased (pages (nv_hw st1) p)"
      using words_done_marker [of k "new_body g data"] bd body by (simp add: marker_erased_store_at)
    ultimately show ?thesis using p1 bd False by auto
  next
    case True
    then have run1: "nv_program_words ops p (of_nat (length data)) l (map (\<lambda>k. 4 * k) [Suc k..<n]) st1 = (r, st')"
      using run Suc.prems(8) by simp
    have pg1: "pages (nv_hw st1) p = words_done (Suc k) (new_body g data)"
      using p1 True bd body words_done_step [of k "new_body g data"] Suc.prems(7) by simp
    have wr1: "wrote st st1" using p1 True bd by simp
    have stg1: "staged g data st1" using wrote_simps(3) [OF wr1] Suc.prems(4) by simp
    have ok1: "ok (nv_hw st1)" using p1 bd by simp
    have hyp: "m = n - Suc k" using Suc.hyps(2) k by simp
    have "Suc k \<le> n" using k by simp
    note ih = Suc.hyps(1) [OF hyp ok1 Suc.prems(2,3) stg1 this Suc.prems(6) pg1 run1]
    have ph: "nv_phase (nv_record_diagnostic st1) = nv_phase (nv_record_diagnostic st)"
      using wrote_simps(5) [OF wr1] by auto
    have lv: "live (nv_hw st) \<longrightarrow> all_fresh (nv_hw st) p (4 * k) \<longrightarrow> enough l \<longrightarrow>
        live (nv_hw st1) \<and> all_fresh (nv_hw st1) p (4 * Suc k)"
      using p1 bd by (simp add: add.commute)
    have "others_kept p (nv_hw st) (nv_hw st')"
      by (rule others_kept_trans [of p _ "nv_hw st1"]) (use ih p1 bd in simp_all)
    moreover note wrote_trans [OF wr1, of st']
    ultimately show ?thesis using ih lv ph
      by (cases "r = NV_RECORD_OK") (simp_all only: if_True if_False simp_thms, blast+)
  qed
qed


text \<open>
  The outcome of the write sequence on the target page: committed, not readable, or (only
  after a failed erase, phase 3) unknown.
\<close>

definition written :: "bool \<Rightarrow> nat \<Rightarrow> u32 \<Rightarrow> bytes \<Rightarrow> 'h nv_state \<Rightarrow> nv_record_result \<Rightarrow> 'h nv_state \<Rightarrow> bool" where
  "written L p g data st r st' \<longleftrightarrow> ok (nv_hw st') \<and> others_kept p (nv_hw st) (nv_hw st') \<and>
     (if r = (if nv_recovered (nv_record_diagnostic st) then NV_RECORD_RECOVERED else NV_RECORD_OK)
      then pages (nv_hw st') p = new_page g data \<and> nv_record_fault st' = nv_record_fault st \<and>
        nv_wf st' \<and> nv_selected (nv_record_diagnostic st') = p \<and>
        nv_length (nv_record_diagnostic st') = of_nat (length data) \<and>
        nv_generation (nv_record_diagnostic st') = g \<and> nv_result (nv_record_diagnostic st') = r
      else r \<in> {NV_RECORD_WRITE_FAILED, NV_RECORD_READ_FAILED} \<and> nv_record_fault st' = r \<and>
        (nv_phase (nv_record_diagnostic st') = 3 \<or> uncommitted (pages (nv_hw st') p) \<or>
         pages (nv_hw st') p = new_page g data)) \<and>
     (L \<longrightarrow>
        r = (if nv_recovered (nv_record_diagnostic st) then NV_RECORD_RECOVERED else NV_RECORD_OK) \<and>
        live (nv_hw st'))"

lemma nv_verify_spec:
  assumes "ok (nv_hw st)" and "p < 2" and "nv_wf st" and d: "record_data data"
    and g: "g = nv_generation (nv_record_diagnostic st) + 1" "g \<noteq> 0"
    and pg: "pages (nv_hw st) p = new_page g data"
    and "nv_verify ops p (of_nat (length data)) st = (r, st')" and "L \<longrightarrow> live (nv_hw st)"
  shows "written L p g data st r st'"
proof -
  obtain r1 st1 where s1: "scan_page ops p False (nv_set_phase 7 st) = (r1, st1)"
    by (cases "scan_page ops p False (nv_set_phase 7 st)")
  note p1 = scan_page_spec [OF _ assms(2) _ s1, simplified, OF assms(1,3)]
  show ?thesis
  proof (cases "r1 = NV_RECORD_OK")
    case False
    with s1 assms(8,9) p1 pg show ?thesis
      by (auto simp: nv_verify_def written_def others_kept_def)
  next
    case True
    then have st1: "st1 = scanned p False (new_page g data) (nv_hw st1) (nv_set_phase 7 st)"
      using p1 pg by simp
    have cls: "page_class (new_page g data) = NV_PAGE_VALID" by (rule new_page_valid [OF d g(2)])
    have "nv_wf st1" by (subst st1) (simp add: nv_wf_scanned assms(3) length_new_page [OF d])
    moreover have "nv_record_diagnostic st1 = (nv_record_diagnostic st)\<lparr>nv_phase := 7,
        nv_reader := Some FLASH_OK, nv_pages := (nv_pages (nv_record_diagnostic st))[p := NV_PAGE_VALID]\<rparr>"
      by (subst st1) (simp add: scanned_def nv_set_phase_def cls)
    moreover have "nv_generations st1 ! p = g" "nv_lengths st1 ! p = of_nat (length data)"
      using assms(2,3) new_page_fields [OF d, of g]
      by (subst st1, simp add: scanned_def nv_set_phase_def nv_wf_def page_len_def)+
    moreover have "nv_record_fault st1 = nv_record_fault st" by (subst st1) simp
    moreover have "length (nv_pages (nv_record_diagnostic st)) = 2" using assms(3) by (simp add: nv_wf_def)
    ultimately show ?thesis
      using s1 assms(2,8,9) p1 pg True g
      by (auto simp: nv_verify_def written_def others_kept_def nv_finish_def Let_def nv_wf_def)
  qed
qed


lemma written_wrote:
  assumes "written L p g data st1 r st'" and "others_kept p (nv_hw st) (nv_hw st1)"
    and "nv_recovered (nv_record_diagnostic st1) = nv_recovered (nv_record_diagnostic st)"
    and "nv_record_fault st1 = nv_record_fault st"
  shows "written L p g data st r st'"
proof -
  have "others_kept p (nv_hw st1) (nv_hw st')" using assms(1) by (simp add: written_def)
  then have "others_kept p (nv_hw st) (nv_hw st')" by (rule others_kept_trans [OF assms(2)])
  with assms(1) show ?thesis unfolding written_def assms(3,4) by blast
qed

lemma write_failed:
  assumes "ok (nv_hw st')" and "others_kept p (nv_hw st) (nv_hw st')"
    and "nv_record_fault st' = NV_RECORD_WRITE_FAILED"
    and "nv_phase (nv_record_diagnostic st') = 3 \<or> uncommitted (pages (nv_hw st') p) \<or>
      pages (nv_hw st') p = new_page g data"
    and "\<not> L"
  shows "written L p g data st NV_RECORD_WRITE_FAILED st'"
  using assms by (simp add: written_def)

text \<open>The page when header, data and checksum are in place but not the marker.\<close>

definition unmarked :: "u32 \<Rightarrow> bytes \<Rightarrow> bytes" where
  "unmarked g data = store_at 2044 (replicate 4 255) (new_page g data)"

lemma unmarked_marker: "record_data data \<Longrightarrow> marker_erased (unmarked g data)"
  by (simp add: unmarked_def marker_erased_def store_at_marker length_new_body)

lemma unmarked_store:
  assumes "record_data data" and "length t = 4"
  shows "store_at 2044 t (unmarked g data) = store_at 2044 t (new_page g data)"
  using assms by (simp add: unmarked_def store_at_marker) (simp add: store_at_def length_new_body)

lemma store_footer:
  assumes "record_data data"
  shows "store_at 2040 (encode32 (crc_update 0xffffffff (new_body g data) XOR 0xffffffff))
      (new_body g data @ replicate 8 255) = unmarked g data"
  using assms by (simp add: unmarked_def store_at_marker) (simp add: store_at_def length_new_body)

lemma set_phase_simps:
  "staged g data (nv_set_phase n st) = staged g data st" "nv_footer (nv_set_phase n st) = nv_footer st"
  "nv_recovered (nv_record_diagnostic (nv_set_phase n st)) = nv_recovered (nv_record_diagnostic st)"
  "nv_generation (nv_record_diagnostic (nv_set_phase n st)) = nv_generation (nv_record_diagnostic st)"
  by (simp_all add: nv_set_phase_def staged_def)

lemma wrote_written:
  assumes "wrote (nv_set_phase n st) st1" and "others_kept p (nv_hw st) (nv_hw st1)"
    and "written L p g data st1 r st'"
  shows "written L p g data st r st'"
  using written_wrote [OF assms(3,2)] wrote_simps(1,5) [OF assms(1)]
  by (auto simp: set_phase_simps)

lemma nv_write_marker_spec:
  assumes "ok (nv_hw st)" and p: "p < 2" and "nv_wf st" and d: "record_data data"
    and g: "g = nv_generation (nv_record_diagnostic st) + 1" "g \<noteq> 0" and "L \<longrightarrow> enough l"
    and pg: "pages (nv_hw st) p = unmarked g data" and fr: "L \<longrightarrow> live (nv_hw st) \<and> all_fresh (nv_hw st) p 2044"
    and run: "nv_write_marker ops p (of_nat (length data)) l st = (r, st')"
  shows "written L p g data st r st'"
proof -
  obtain r1 st1 where s1: "nv_program ops p 2044 commit l (nv_set_phase 6 st) = (r1, st1)"
    by (cases "nv_program ops p 2044 commit l (nv_set_phase 6 st)")
  note p1 = nv_program_spec [OF _ p length_commit _ s1, simplified, OF assms(1)]
  have lv: "L \<longrightarrow> r1 = NV_RECORD_OK \<and> live (nv_hw st1)" using p1 fr assms(7) by simp
  show ?thesis
  proof (cases "r1 = NV_RECORD_OK")
    case False
    then obtain t where "length t = 4" "pages (nv_hw st1) p = store_at 2044 t (new_page g data)"
      using p1 pg unmarked_store [OF d] by auto
    with torn_marker [OF d]
    have "pages (nv_hw st1) p = new_page g data \<or> uncommitted (pages (nv_hw st1) p)" by metis
    with False run s1 p1 lv show ?thesis
      using write_failed [of st1 p st g data] by (auto simp: nv_write_marker_def)
  next
    case True
    then have pg1: "pages (nv_hw st1) p = new_page g data"
      using p1 pg unmarked_store [OF d, of commit] store_at_marker [OF d, of commit g] by (simp add: new_page_def)
    have wr: "wrote (nv_set_phase 6 st) st1" using p1 True by simp
    have run1: "nv_verify ops p (of_nat (length data)) st1 = (r, st')"
      using run s1 True by (simp add: nv_write_marker_def)
    have g1: "g = nv_generation (nv_record_diagnostic st1) + 1"
      using wrote_simps(5) [OF wr] g by (auto simp: set_phase_simps)
    have "written L p g data st1 r st'"
      by (rule nv_verify_spec [OF _ p _ d g1 g(2) pg1 run1]) (use p1 assms(3) wrote_simps(2) [OF wr] lv in simp_all)
    with wr p1 lv show ?thesis by (intro wrote_written [OF wr]) simp_all
  qed
qed

lemma nv_write_footer_spec:
  assumes "ok (nv_hw st)" and p: "p < 2" and "nv_wf st" and d: "record_data data"
    and sg: "staged g data st"
    and g: "g = nv_generation (nv_record_diagnostic st) + 1" "g \<noteq> 0" and "L \<longrightarrow> enough l"
    and pg: "pages (nv_hw st) p = new_body g data @ replicate 8 255"
    and fr: "L \<longrightarrow> live (nv_hw st) \<and> all_fresh (nv_hw st) p 2040"
    and run: "nv_write_footer ops p (of_nat (length data)) l st = (r, st')"
  shows "written L p g data st r st'"
proof -
  let ?w = "take 4 (nv_footer st)"
  have w: "?w = encode32 (crc_update 0xffffffff (new_body g data) XOR 0xffffffff)" "length ?w = 4"
    using sg by (simp_all add: staged_def)
  obtain r1 st1 where s1: "nv_program ops p 2040 ?w l (nv_set_phase 5 st) = (r1, st1)"
    by (cases "nv_program ops p 2040 ?w l (nv_set_phase 5 st)")
  note p1 = nv_program_spec [OF _ p w(2) _ s1, simplified, OF assms(1)]
  have lv: "L \<longrightarrow> r1 = NV_RECORD_OK \<and> live (nv_hw st1) \<and> all_fresh (nv_hw st1) p 2044"
    using p1 fr assms(8) by simp
  show ?thesis
  proof (cases "r1 = NV_RECORD_OK")
    case False
    have "marker_erased (new_body g data @ replicate 8 255)"
      by (simp add: marker_erased_def length_new_body [OF d])
    then have "uncommitted (pages (nv_hw st1) p)"
      using False p1 pg by (auto intro!: marker_erased_uncommitted marker_erased_store_at)
    with False run s1 p1 lv show ?thesis
      using write_failed [of st1 p st g data] by (auto simp: nv_write_footer_def)
  next
    case True
    then have pg1: "pages (nv_hw st1) p = unmarked g data"
      using p1 pg w store_footer [OF d, of g] by simp
    have wr: "wrote (nv_set_phase 5 st) st1" using p1 True by simp
    have run1: "nv_write_marker ops p (of_nat (length data)) l st1 = (r, st')"
      using run s1 True by (simp add: nv_write_footer_def)
    have g1: "g = nv_generation (nv_record_diagnostic st1) + 1"
      using wrote_simps(5) [OF wr] g by (auto simp: set_phase_simps)
    have "written L p g data st1 r st'"
      by (rule nv_write_marker_spec [OF _ p _ d g1 g(2) assms(8) pg1 _ run1])
        (use p1 assms(3) wrote_simps(2) [OF wr] lv in simp_all)
    with wr p1 lv show ?thesis by (intro wrote_written [OF wr]) simp_all
  qed
qed


lemma nv_write_page_spec:
  assumes "ok (nv_hw st)" and p: "p < 2" and "nv_wf st" and d: "record_data data"
    and sg: "staged g data st" and g: "g = nv_generation (nv_record_diagnostic st) + 1" "g \<noteq> 0"
    and "L \<longrightarrow> enough l" and lv: "L \<longrightarrow> live (nv_hw st)"
    and run: "nv_write_page ops p (of_nat (length data)) l st = (r, st')"
  shows "written L p g data st r st'"
proof -
  let ?len = "of_nat (length data) :: u8" and ?d = "nv_record_diagnostic st"
  let ?B = "new_body g data" and ?n = "(12 + length data + 3) div 4"
  have ul: "unat ?len = length data" using d by (simp add: record_data_def unat_of_nat_len)
  have n: "12 + length data \<le> 4 * ?n" "4 * ?n \<le> 2040" using d by (auto simp: record_data_def)
  define st0 where "st0 = st\<lparr>nv_record_diagnostic := ?d\<lparr>nv_phase := 3, nv_erase_attempts :=
      (nv_erase_attempts ?d)[p := Suc (nv_erase_attempts ?d ! p)]\<rparr>\<rparr>"
  obtain w h where er: "op_erase ops p l (nv_hw st) = (w, h)"
    by (cases "op_erase ops p l (nv_hw st)")
  define st1 where "st1 = nv_set_phase 4 (st0\<lparr>nv_hw := h,
      nv_record_diagnostic := (nv_record_diagnostic st0)\<lparr>nv_writer := Some w\<rparr>\<rparr>)"
  have st1: "nv_hw st1 = h" "nv_record_fault st1 = nv_record_fault st" "nv_wf st1" "staged g data st1"
    "nv_recovered (nv_record_diagnostic st1) = nv_recovered ?d"
    "nv_generation (nv_record_diagnostic st1) = nv_generation ?d"
    using assms(3) sg by (simp_all add: st1_def st0_def nv_set_phase_def nv_wf_def staged_def)
  have eo: "ok h" "others_kept p (nv_hw st) h" "L \<longrightarrow> w = FLASH_WRITE_OK \<and> live h \<and> all_fresh h p (4 * 0)"
    using erase_ok [OF assms(1) er] erase_other [OF assms(1) er] lv
      erase_live [OF assms(1) _ p _ er] assms(8) by (auto simp: others_kept_def all_fresh_def)
  show ?thesis
  proof (cases "w = FLASH_WRITE_OK")
    case False
    from run er False have "r = NV_RECORD_WRITE_FAILED" "nv_hw st' = h"
      "nv_record_fault st' = NV_RECORD_WRITE_FAILED" "nv_phase (nv_record_diagnostic st') = 3"
      by (auto simp: nv_write_page_def Let_def nv_set_fault_def nv_finish_def)
    with eo False show ?thesis using write_failed [of st' p st g data L] by auto
  next
    case True
    have blank: "pages (nv_hw st1) p = words_done 0 ?B"
      using erase_data [OF assms(1) _ p] er True by (simp add: st1(1) words_done_def)
    obtain r2 st2 where s2: "nv_program_words ops p ?len l (map (\<lambda>k. 4 * k) [0..<?n]) st1 = (r2, st2)"
      by (cases "nv_program_words ops p ?len l (map (\<lambda>k. 4 * k) [0..<?n]) st1")
    have ok1: "ok (nv_hw st1)" using eo st1(1) by simp
    note p2 = nv_program_words_spec [OF ok1 p d st1(4) le0 n(2) blank s2]
    have run': "(r, st') = (if r2 \<noteq> NV_RECORD_OK then (nv_record_fault st2, st2)
        else nv_write_footer ops p ?len l st2)"
      using run er True s2
      by (simp add: nv_write_page_def Let_def st1_def st0_def nv_positions_def ul)
    have l2: "L \<longrightarrow> r2 = NV_RECORD_OK \<and> live (nv_hw st2) \<and> all_fresh (nv_hw st2) p (4 * ?n)"
      using p2 eo(3) assms(8) st1(1) by blast
    have ok2: "others_kept p (nv_hw st) (nv_hw st2)"
      using others_kept_trans [OF eo(2), of "nv_hw st2"] p2 st1(1) by simp
    show ?thesis
    proof (cases "r2 = NV_RECORD_OK")
      case False
      then show ?thesis
        using run' p2 l2 ok2 marker_erased_uncommitted [of "pages (nv_hw st2) p"] write_failed [of st2 p st g data L]
        by auto
    next
      case r2: True
      then have wr: "wrote st1 st2" and pg2: "pages (nv_hw st2) p = ?B @ replicate 8 255"
        using p2 words_done_body [OF d n] by simp_all
      have "L \<longrightarrow> live (nv_hw st2) \<and> all_fresh (nv_hw st2) p 2040"
        using l2 n(2) by (auto simp: all_fresh_def)
      moreover have "g = nv_generation (nv_record_diagnostic st2) + 1"
        using wrote_simps(5) [OF wr] g st1(6) by auto
      ultimately have "written L p g data st2 r st'"
        using nv_write_footer_spec [OF _ p _ d _ _ g(2) assms(8) pg2] p2 run' r2
          wrote_simps(2,3) [OF wr] st1(3,4) by simp
      then show ?thesis
        using written_wrote [OF _ ok2] wrote_simps(1,5) [OF wr] st1(2,5) by auto
    qed
  qed
qed


section \<open>Replace\<close>

abbreviation nv_inv :: "'h nv_state \<Rightarrow> bool" where
  "nv_inv \<equiv> nv_invariant ok pages"

text \<open>The selection a replacement starts from, cached or scanned.\<close>

definition nv_current :: "'h nv_state \<Rightarrow> nv_record_result \<times> 'h nv_state" where
  "nv_current st = (case nv_resume st of (known, st1) \<Rightarrow>
     if known then (NV_RECORD_OK, st1) else select_record ops st1)"

lemma nv_current_spec:
  assumes "nv_inv st" and "nv_record_fault st = NV_RECORD_OK" and "nv_current st = (r, st1)"
    and j: "journal (pages (nv_hw st)) = (jr, s)"
  shows "ok (nv_hw st1) \<and> pages (nv_hw st1) = pages (nv_hw st) \<and>
    (if r = NV_RECORD_READ_FAILED then nv_record_fault st1 = NV_RECORD_READ_FAILED
     else r = jr \<and> nv_wf st1 \<and> nv_record_fault st1 = NV_RECORD_OK \<and>
       nv_phase (nv_record_diagnostic st1) = 1 \<and>
       nv_erase_attempts (nv_record_diagnostic st1) = nv_erase_attempts (nv_record_diagnostic st) \<and>
       nv_selected (nv_record_diagnostic st1) = s \<and>
       nv_generation (nv_record_diagnostic st1) = (if readable jr then page_gen (pages (nv_hw st) s) else 0) \<and>
       nv_recovered (nv_record_diagnostic st1) = (jr = NV_RECORD_RECOVERED)) \<and>
    (live (nv_hw st) \<longrightarrow> r \<noteq> NV_RECORD_READ_FAILED \<and> live (nv_hw st1))"
proof -
  obtain known st0 where rs: "nv_resume st = (known, st0)" by (cases "nv_resume st")
  note r0 = resume_status [OF rs]
  have inv: "ok (nv_hw st)" "nv_wf st" "cache_ok (pages (nv_hw st)) (nv_record_diagnostic st)"
    using assms(1,2) by (simp_all add: nv_invariant_def)
  show ?thesis
  proof (cases known)
    case True
    with assms(3) rs have eq: "r = NV_RECORD_OK" "st1 = st0" by (simp_all add: nv_current_def)
    have sel: "selection_of (pages (nv_hw st)) (nv_record_diagnostic st0)" "jr = NV_RECORD_OK"
      using r0(6) [OF True inv(3)] j by simp_all
    have "nv_phase (nv_record_diagnostic st0) = 1"
      using rs by (auto simp: nv_resume_def Let_def nv_begin_def nv_begin_status_def split: if_splits)
    with eq sel r0 inv assms(2) j show ?thesis
      by (simp add: selection_of_def reports_def readable_def)
  next
    case False
    with assms(3) rs have sr: "select_record ops st0 = (r, st1)" by (simp add: nv_current_def)
    note sp = select_record_spec [OF _ _ r0(5) [OF False] sr, unfolded r0(1), OF inv(1) r0(4) [OF inv(2)]]
    have "jr \<noteq> NV_RECORD_READ_FAILED" using journal_result [OF j] by auto
    with sp r0 j assms(2) selected_status_readable [OF j] selected_status_empty [OF j] journal_unreadable [OF j]
    show ?thesis by (cases "readable jr") (auto simp: readable_def)
  qed
qed

abbreviation replace_post :: "bytes \<Rightarrow> 'h nv_state \<Rightarrow> nv_record_result \<Rightarrow> 'h nv_state \<Rightarrow> bool" where
  "replace_post \<equiv> replace_contract ok pages"

lemma replace_refused:
  assumes "nv_inv st'" and "pages (nv_hw st') = pages (nv_hw st)" and "\<not> readable r"
  shows "replace_post data st r st'"
  using assms by (simp add: replace_contract_def Let_def)

lemma nv_inv_finish:
  "ok (nv_hw st) \<Longrightarrow> nv_record_fault st = NV_RECORD_OK \<Longrightarrow> nv_wf st \<Longrightarrow> r \<noteq> NV_RECORD_OK \<Longrightarrow>
   nv_inv (snd (nv_finish r st))"
  by (simp add: nv_invariant_def nv_finish_def nv_wf_def cache_ok_def nv_known_def)

lemma written_replace_post:
  assumes w: "written L t g data st1 r st'" and pgs: "pages (nv_hw st1) = pages (nv_hw st)"
    and j: "journal (pages (nv_hw st)) = (jr, s)"
    and jr: "jr \<in> {NV_RECORD_OK, NV_RECORD_RECOVERED, NV_RECORD_EMPTY}"
    and t: "t = (if s = 255 then 0 else s XOR 1)" "t < 2" and d: "record_data data"
    and g0: "g0 = (if readable jr then page_gen (pages (nv_hw st) s) else 0)" "g0 \<noteq> 0xffffffff" "g = g0 + 1"
    and f: "nv_record_fault st1 = NV_RECORD_OK" and rcv: "nv_recovered (nv_record_diagnostic st1) = (jr = NV_RECORD_RECOVERED)"
  shows "replace_post data st r st'"
proof -
  let ?pg = "pages (nv_hw st)" and ?pg' = "pages (nv_hw st')"
  have gz: "g \<noteq> 0" using word_less_succ [OF g0(2)] g0(3) by auto
  define pg2 where "pg2 = ?pg(t := ?pg' t)"
  have upd: "\<forall>q < 2. ?pg' q = pg2 q"
    using w pgs by (auto simp: written_def others_kept_def pg2_def)
  have ng: "next_gen (journal_record ?pg) = g"
    using j g0 by (auto simp: next_gen_def journal_record_def)
  have new: "journal ?pg' = (NV_RECORD_OK, t) \<and> journal_record ?pg' = Some (g, data)"
    if "?pg' t = new_page g data"
  proof -
    have "journal ?pg' = (NV_RECORD_OK, t)"
      using journal_cong [of ?pg' pg2, OF upd] journal_committed [OF j jr t(1) g0(1,2) new_page_valid [OF d gz]]
        new_page_fields(6) [OF d, of g] g0(3) that by (simp add: pg2_def)
    then show ?thesis using that new_page_fields(6) [OF d, of g] new_page_data [OF d]
      by (simp add: journal_record_def readable_def)
  qed
  have old: "journal_record ?pg' = journal_record ?pg" if "uncommitted (?pg' t)"
    using journal_record_cong [of ?pg' pg2, OF upd] journal_uncommitted [OF j jr t(1) that] by (simp add: pg2_def)
  have pl: "page_len (new_page g data) = of_nat (length data)" "page_gen (new_page g data) = g"
    using new_page_fields [OF d, of g] by (simp_all add: page_len_def)
  show ?thesis
  proof (cases "r = (if nv_recovered (nv_record_diagnostic st1) then NV_RECORD_RECOVERED else NV_RECORD_OK)")
    case True
    with w have wr: "?pg' t = new_page g data" "nv_record_fault st' = NV_RECORD_OK" "nv_wf st'" "ok (nv_hw st')"
      "nv_selected (nv_record_diagnostic st') = t" "nv_length (nv_record_diagnostic st') = of_nat (length data)"
      "nv_generation (nv_record_diagnostic st') = g"
      using f by (simp_all add: written_def)
    then have "nv_inv st'" using new pl by (simp add: nv_invariant_def cache_ok_def)
    with wr new ng True rcv j show ?thesis by (simp add: replace_contract_def Let_def)
  next
    case False
    with w have fl: "r \<in> {NV_RECORD_WRITE_FAILED, NV_RECORD_READ_FAILED}" "nv_record_fault st' = r"
      "ok (nv_hw st')" "nv_phase (nv_record_diagnostic st') = 3 \<or> uncommitted (?pg' t) \<or> ?pg' t = new_page g data"
      unfolding written_def by (simp_all only: if_False) 
    then show ?thesis using old new ng
      by (auto simp: replace_contract_def Let_def nv_invariant_def readable_def)
  qed
qed


lemma nv_record_replace_guard:
  assumes "replace_guard rend a len l ar st"
  shows "nv_record_replace ops rend (Some (a, src)) len l ar st =
    (case nv_current st of (r, st1) \<Rightarrow>
        if r = NV_RECORD_RECOVERED \<and> ar = 0 then nv_finish NV_RECORD_RECOVERY_REQUIRED st1
        else if r \<noteq> NV_RECORD_OK \<and> r \<noteq> NV_RECORD_RECOVERED \<and> r \<noteq> NV_RECORD_EMPTY then nv_finish r st1
        else if nv_generation (nv_record_diagnostic st1) = 0xffffffff then
          nv_finish NV_RECORD_GENERATION_EXHAUSTED st1
        else if NV_RECORD_ERASE_LIMIT \<le> nv_erase_attempts (nv_record_diagnostic st1) ! nv_target (nv_record_diagnostic st1)
          then nv_finish NV_RECORD_ERASE_LIMIT_REACHED st1
        else nv_write_page ops (nv_target (nv_record_diagnostic st1)) len l (nv_prepare src len st1))"
proof -
  from assms have "nv_record_fault st = NV_RECORD_OK" "len \<noteq> 0" "\<not> NV_RECORD_MAX < unat len" "l \<noteq> 0"
    "\<not> 1 < ar" "nv_caller rend a len"
    by (simp_all add: replace_guard_def not_less)
  then show ?thesis unfolding nv_record_replace_def nv_current_def [symmetric]
    by (cases "nv_current st") (simp add: Let_def)
qed

lemma nv_record_replace_no_guard:
  assumes "nv_inv st" and "\<not> replace_guard rend a len l ar st"
    and "nv_record_replace ops rend (Some (a, src)) len l ar st = (r, st')"
  shows "st' = st \<and> \<not> readable r"
  using assms
  by (auto simp: nv_record_replace_def replace_guard_def nv_invariant_def readable_def not_less split: if_splits)

lemma replace_from_selection:
  assumes inv: "nv_inv st" and cur: "nv_current st = (r0, st1)" and gd: "replace_guard rend a len l ar st"
    and j: "journal (pages (nv_hw st)) = (jr, s)" and nf: "r0 \<noteq> NV_RECORD_READ_FAILED"
    and jr: "jr \<in> {NV_RECORD_OK, NV_RECORD_RECOVERED, NV_RECORD_EMPTY}" and src: "unat len \<le> length src"
    and g: "nv_generation (nv_record_diagnostic st1) \<noteq> 0xffffffff"
    and run: "nv_write_page ops (nv_target (nv_record_diagnostic st1)) len l (nv_prepare src len st1) = (r, st')"
  shows "replace_post (take (unat len) src) st r st' \<and>
    (live (nv_hw st) \<longrightarrow> enough l \<longrightarrow> readable r \<and> live (nv_hw st'))"
proof -
  let ?data = "take (unat len) src" and ?st2 = "nv_prepare src len st1" and ?d = "nv_record_diagnostic st1"
  have gd': "len \<noteq> 0" "unat len \<le> NV_RECORD_MAX" "l \<noteq> 0" "nv_record_fault st = NV_RECORD_OK"
    using gd by (simp_all add: replace_guard_def)
  note c = nv_current_spec [OF inv gd'(4) cur j]
  from c nf have c': "ok (nv_hw st1)" "pages (nv_hw st1) = pages (nv_hw st)" "nv_wf st1"
    "nv_record_fault st1 = NV_RECORD_OK" "nv_selected ?d = s"
    "nv_generation ?d = (if readable jr then page_gen (pages (nv_hw st) s) else 0)"
    "live (nv_hw st) \<longrightarrow> live (nv_hw ?st2)" "nv_recovered ?d = (jr = NV_RECORD_RECOVERED)"
    by (simp_all add: nv_prepare_simps)
  have len: "of_nat (length ?data) = len" "length ?data = unat len" using src by simp_all
  have d: "record_data ?data"
    using gd' len by (auto simp: record_data_def unat_eq_zero)
  have t: "nv_target ?d = (if s = 255 then 0 else s XOR 1)" by (simp add: nv_target_def c'(5))
  have t2: "nv_target ?d < 2"
    by (rule journal_writable_cases [OF j jr]) (simp_all add: t)
  have stg: "staged (nv_generation ?d + 1) ?data ?st2"
    using nv_prepare_staged [OF src gd'(2), of st1] c'(3) by (simp add: nv_wf_def)
  have gz: "nv_generation ?d + 1 \<noteq> 0" using word_less_succ [OF g] by auto
  have wf2: "nv_wf ?st2" by (rule nv_prepare_wf [OF c'(3) src gd'(2)])
  have "written (live (nv_hw st) \<and> enough l) (nv_target ?d) (nv_generation ?d + 1) ?data ?st2 r st'"
    using nv_write_page_spec [OF _ t2 wf2 d stg _ gz, of "live (nv_hw st) \<and> enough l" l r st'] run c'(1,7)
    by (simp only: len(1) nv_prepare_simps refl simp_thms) blast
  with written_replace_post [OF this _ j jr t t2 d c'(6) g refl] c'(2,4,8) show ?thesis
    by (auto simp: nv_prepare_simps written_def readable_def split: if_splits)
qed

text \<open>
  The public replace. In every case the module invariant survives; a reported success has
  installed the data as the next generation; and unless the erase itself failed, the
  journal afterwards holds the old record or the new one, whatever write was torn.
\<close>

lemma nv_record_replace_spec:
  assumes inv: "nv_inv st" and src: "unat len \<le> length src"
    and run: "nv_record_replace ops rend (Some (a, src)) len l ar st = (r, st')"
    and j: "journal (pages (nv_hw st)) = (jr, s)"
  shows "replace_post (take (unat len) src) st r st' \<and>
    (live (nv_hw st) \<longrightarrow> enough l \<longrightarrow> replace_guard rend a len l ar st \<longrightarrow>
      (jr \<in> {NV_RECORD_OK, NV_RECORD_EMPTY} \<or> jr = NV_RECORD_RECOVERED \<and> ar = 1) \<longrightarrow>
      next_gen (journal_record (pages (nv_hw st))) \<noteq> 0 \<longrightarrow>
      nv_erase_attempts (nv_record_diagnostic st) ! (if s = 255 then 0 else s XOR 1) < NV_RECORD_ERASE_LIMIT \<longrightarrow>
      readable r \<and> live (nv_hw st'))"
proof (cases "replace_guard rend a len l ar st")
  case False
  from nv_record_replace_no_guard [OF inv this run] show ?thesis
    using replace_refused [of st st] inv False by auto
next
  case True
  obtain r0 st1 where cur: "nv_current st = (r0, st1)" by (cases "nv_current st")
  have f: "nv_record_fault st = NV_RECORD_OK" using True by (simp add: replace_guard_def)
  note c = nv_current_spec [OF inv f cur j]
  have jnr: "jr \<noteq> NV_RECORD_READ_FAILED" using journal_result [OF j] by auto
  note un = nv_record_replace_guard [OF True, of src, unfolded cur prod.case]
  have refuse: ?thesis if "(r, st') = nv_finish x st1" "x \<noteq> NV_RECORD_OK" "x \<noteq> NV_RECORD_RECOVERED"
    "r0 \<noteq> NV_RECORD_READ_FAILED"
    "\<not> (jr \<in> {NV_RECORD_OK, NV_RECORD_EMPTY} \<or> jr = NV_RECORD_RECOVERED \<and> ar = 1) \<or>
     next_gen (journal_record (pages (nv_hw st))) = 0 \<or>
     \<not> nv_erase_attempts (nv_record_diagnostic st) ! (if s = 255 then 0 else s XOR 1) < NV_RECORD_ERASE_LIMIT" for x
  proof -
    have "nv_inv st'" using nv_inv_finish [of st1 x] c that by (metis snd_conv)
    moreover have "pages (nv_hw st') = pages (nv_hw st)" "r = x" using c that(1) by (simp_all add: nv_finish_def)
    ultimately show ?thesis using replace_refused [of st' st x] that by (auto simp: readable_def)
  qed
  consider (rf) "r0 = NV_RECORD_READ_FAILED"
    | (rec) "r0 = jr" "jr = NV_RECORD_RECOVERED" "ar = 0"
    | (bad) "r0 = jr" "jr \<notin> {NV_RECORD_OK, NV_RECORD_RECOVERED, NV_RECORD_EMPTY}"
    | (go) "r0 = jr" "jr \<in> {NV_RECORD_OK, NV_RECORD_RECOVERED, NV_RECORD_EMPTY}"
      "\<not> (jr = NV_RECORD_RECOVERED \<and> ar = 0)"
    using c by (auto split: if_splits)
  then show ?thesis
  proof cases
    case rf
    with run un have "(r, st') = nv_finish NV_RECORD_READ_FAILED st1" by simp
    with rf c show ?thesis
      using replace_refused [of st' st NV_RECORD_READ_FAILED]
      by (auto simp: nv_finish_def nv_invariant_def readable_def)
  next
    case rec
    with run un show ?thesis by (intro refuse [of NV_RECORD_RECOVERY_REQUIRED]) auto
  next
    case bad
    with run un show ?thesis by (intro refuse [of jr]) (use jnr in auto)
  next
    case go
    let ?d = "nv_record_diagnostic st1"
    have nr: "r0 \<noteq> NV_RECORD_READ_FAILED" using go by auto
    with c go have d: "nv_selected ?d = s" "nv_erase_attempts ?d = nv_erase_attempts (nv_record_diagnostic st)"
      "nv_generation ?d = (if readable jr then page_gen (pages (nv_hw st) s) else 0)" by auto
    have tgt: "nv_target ?d = (if s = 255 then 0 else s XOR 1)" by (simp add: nv_target_def d)
    show ?thesis
    proof (cases "nv_generation ?d = 0xffffffff")
      case exh: True
      then have "next_gen (journal_record (pages (nv_hw st))) = 0"
        using j d by (auto simp: next_gen_def journal_record_def split: if_splits)
      with exh go run un nr show ?thesis by (intro refuse [of NV_RECORD_GENERATION_EXHAUSTED]) auto
    next
      case gen: False
      show ?thesis
      proof (cases "NV_RECORD_ERASE_LIMIT \<le> nv_erase_attempts ?d ! nv_target ?d")
        case True
        with gen go run un nr d tgt show ?thesis
          by (intro refuse [of NV_RECORD_ERASE_LIMIT_REACHED]) auto
      next
        case False
        with gen go run un
        have "nv_write_page ops (nv_target ?d) len l (nv_prepare src len st1) = (r, st')" by auto
        from replace_from_selection [OF inv cur True j nr go(2) src gen this] show ?thesis by simp
      qed
    qed
  qed
qed

end

end
