(* ===== verification/Nv_Store.thy ===== *)
theory Nv_Store
  imports Nv_Commit
begin

text \<open>
  The journal as its only client sees it: load, replace and status (\<open>src/include/nv_record.h\<close>),
  with the record it holds as the abstract state. The contract is the locale \<open>nv_store\<close>; it
  follows from the flash contract, so every provider of \<open>nv_flash\<close> provides it.
\<close>

record 'n store_ops =
  so_load :: "u16 option \<Rightarrow> u8 \<Rightarrow> 'n \<Rightarrow> nv_record_result \<times> bytes \<times> 'n"
  so_replace :: "(u16 \<times> bytes) option \<Rightarrow> u8 \<Rightarrow> u16 \<Rightarrow> u8 \<Rightarrow> 'n \<Rightarrow> nv_record_result \<times> 'n"
  so_status :: "'n \<Rightarrow> nv_record_status"

definition nv_services :: "'h flash_ops \<Rightarrow> u16 \<Rightarrow> 'h nv_state store_ops" where
  "nv_services ops reserved_end = \<lparr>so_load = nv_record_load ops reserved_end,
     so_replace = nv_record_replace ops reserved_end, so_status = nv_record_diagnostic\<rparr>"

locale nv_store =
  fixes sops :: "'n store_ops"
    and sinv :: "'n \<Rightarrow> bool"
    and srec :: "'n \<Rightarrow> (u32 \<times> bytes) option"
  assumes load_keeps: "sinv n \<Longrightarrow> so_load sops a c n = (r, out, n') \<Longrightarrow> sinv n' \<and> srec n' = srec n \<and> length out \<le> 128"
    and load_record: "sinv n \<Longrightarrow> so_load sops a c n = (NV_RECORD_OK, out, n') \<Longrightarrow>
        srec n = Some (nv_generation (so_status sops n'), out) \<and> nv_generation (so_status sops n') \<noteq> 0 \<and>
        length out = unat (nv_length (so_status sops n')) \<and> length out \<le> 128"
    and load_empty: "sinv n \<Longrightarrow> so_load sops a c n = (NV_RECORD_EMPTY, out, n') \<Longrightarrow> srec n = None"
    and replace_keeps: "sinv n \<Longrightarrow> unat len \<le> length src \<Longrightarrow> so_replace sops (Some (x, src)) len l ar n = (r, n') \<Longrightarrow>
        sinv n' \<and> (nv_phase (so_status sops n') \<noteq> 3 \<longrightarrow>
          srec n' = srec n \<or> srec n' = Some (next_gen (srec n), take (unat len) src))"
    and replace_done: "sinv n \<Longrightarrow> unat len \<le> length src \<Longrightarrow> so_replace sops (Some (x, src)) len l ar n = (NV_RECORD_OK, n') \<Longrightarrow>
        srec n' = Some (next_gen (srec n), take (unat len) src) \<and>
        nv_generation (so_status sops n') = next_gen (srec n) \<and> next_gen (srec n) \<noteq> 0"

lemma journal_record_gen: "journal_record pg = Some (g, d) \<Longrightarrow> g \<noteq> 0"
  using journal_selected [of pg] page_class_valid_gen
  by (auto simp: journal_record_def split: prod.splits if_splits)

lemma load_outcome_record:
  assumes "load_outcome pg c = (r, out)" and "\<And>p. p < 2 \<Longrightarrow> length (pg p) = 2048"
  shows "readable r \<Longrightarrow> reports pg d \<Longrightarrow> journal_record pg = Some (nv_generation d, out) \<and> nv_generation d \<noteq> 0 \<and>
      length out = unat (nv_length d) \<and> length out \<le> 128"
    and "r = NV_RECORD_EMPTY \<Longrightarrow> journal_record pg = None"
proof -
  obtain jr s where j: "journal pg = (jr, s)" by fastforce
  show "r = NV_RECORD_EMPTY \<Longrightarrow> journal_record pg = None"
    using assms(1) j by (auto simp: load_outcome_def journal_record_def readable_def split: if_splits)
  assume r: "readable r" and d: "reports pg d"
  with assms(1) j have jr: "readable jr" "r = jr" "out = page_data (pg s)"
    by (auto simp: load_outcome_def readable_def split: if_splits)
  then have s: "s < 2" "page_class (pg s) = NV_PAGE_VALID" using journal_selected [OF j] by auto
  have "unat (page_len (pg s)) \<le> 128" using page_class_valid_len [OF s(2)] by simp
  moreover have "length (pg s) = 2048" by (rule assms(2) [OF s(1)])
  ultimately show "journal_record pg = Some (nv_generation d, out) \<and> nv_generation d \<noteq> 0 \<and>
      length out = unat (nv_length d) \<and> length out \<le> 128"
    using jr d j page_class_valid_gen [OF s(2)]
    by (simp add: journal_record_def reports_def page_data_def page_len_def)
qed

lemma load_outcome_length: "load_outcome pg c = (r, out) \<Longrightarrow> length out \<le> 128"
proof -
  assume lo: "load_outcome pg c = (r, out)"
  obtain jr s where j: "journal pg = (jr, s)" by fastforce
  show ?thesis
  proof (cases "out = []")
    case False
    with lo j have jr: "readable jr" "out = page_data (pg s)" by (auto simp: load_outcome_def split: if_splits)
    with journal_selected [OF j] have "page_class (pg s) = NV_PAGE_VALID" by auto
    with page_class_valid_len jr(2) show ?thesis by (fastforce simp: page_data_def page_len_def)
  qed simp
qed

context nv_flash
begin

lemma nv_load_store:
  assumes inv: "nv_inv st" and ld: "nv_record_load ops rend a c st = (r, out, st')"
  shows "nv_inv st' \<and> pages (nv_hw st') = pages (nv_hw st) \<and> length out \<le> 128 \<and>
    (r \<in> {NV_RECORD_OK, NV_RECORD_EMPTY} \<longrightarrow> (r, out) = load_outcome (pages (nv_hw st)) c \<and>
       (readable r \<longrightarrow> reports (pages (nv_hw st)) (nv_record_diagnostic st'))) \<and>
    (nv_record_fault st = NV_RECORD_OK \<longrightarrow> a \<noteq> None \<longrightarrow> c \<noteq> 0 \<longrightarrow> nv_caller rend (the a) c \<longrightarrow>
       r \<noteq> NV_RECORD_READ_FAILED \<longrightarrow> (r, out) = load_outcome (pages (nv_hw st)) c)"
proof (cases "nv_record_fault st = NV_RECORD_OK \<and> a \<noteq> None \<and> c \<noteq> 0 \<and> nv_caller rend (the a) c")
  case True
  then obtain x where a: "a = Some x" by blast
  have "load_post (pages (nv_hw st)) c st r out st'"
    by (rule nv_record_load_spec [of st c rend x r out st']) (use inv True ld a in \<open>simp_all add: nv_invariant_def\<close>)
  moreover have "length out \<le> 128" if "(r, out) = load_outcome (pages (nv_hw st)) c"
    using load_outcome_length [OF that [symmetric]] .
  ultimately show ?thesis using True by (auto simp: load_post_def nv_invariant_def split: if_splits)
next
  case False
  with inv ld show ?thesis by (auto simp: nv_record_load_def nv_quit_def nv_invariant_def split: if_splits)
qed

lemma nv_load_live:
  assumes "nv_inv st" and "nv_record_fault st = NV_RECORD_OK" and "c \<noteq> 0" and "nv_caller rend a c" and "live (nv_hw st)"
    and "nv_record_load ops rend (Some a) c st = (r, out, st')"
  shows "r \<noteq> NV_RECORD_READ_FAILED \<and> live (nv_hw st')"
  using nv_record_load_spec [of st c rend a r out st'] assms by (simp add: nv_invariant_def load_post_def)

end

sublocale nv_flash \<subseteq> store: nv_store "nv_services ops rend" "nv_invariant ok pages"
    "\<lambda>st. journal_record (pages (nv_hw st))" for rend
proof (unfold_locales, goal_cases)
  case 1
  then show ?case using nv_load_store by (auto simp: nv_services_def)
next
  case (2 n a c out n')
  have ld: "nv_record_load ops rend a c n = (NV_RECORD_OK, out, n')" using 2(2) by (simp add: nv_services_def)
  show ?case
    using load_outcome_record(1) [of "pages (nv_hw n)" c NV_RECORD_OK out "nv_record_diagnostic n'"]
      nv_load_store [OF 2(1) ld] page_len 2(1)
    by (auto simp: nv_services_def readable_def nv_invariant_def)
next
  case (3 n a c out n')
  have ld: "nv_record_load ops rend a c n = (NV_RECORD_EMPTY, out, n')" using 3(2) by (simp add: nv_services_def)
  show ?case
    using load_outcome_record(2) [of "pages (nv_hw n)" c NV_RECORD_EMPTY out]
      nv_load_store [OF 3(1) ld] page_len 3(1)
    by (auto simp: nv_services_def readable_def nv_invariant_def)
next
  case (4 n len src x l ar r n')
  obtain jr s where j: "journal (pages (nv_hw n)) = (jr, s)" by fastforce
  show ?case
    using nv_record_replace_spec [OF 4(1,2) _ j] 4(3)
    by (auto simp: nv_services_def replace_contract_def Let_def)
next
  case (5 n len src x l ar n')
  obtain jr s where j: "journal (pages (nv_hw n)) = (jr, s)" by fastforce
  show ?case
    using nv_record_replace_spec [OF 5(1,2) _ j] 5(3) journal_record_gen [of "pages (nv_hw n')"]
    by (auto simp: nv_services_def replace_contract_def Let_def readable_def)
qed

end
