(* ===== verification/Security_Counter.thy ===== *)
theory Security_Counter
  imports Nv_Store
begin

text \<open>
  The durable frame counters (\<open>src/src/security_counter.c\<close>): two 32-bit counters whose
  exclusive ceilings are written to the NV journal before any value below them is handed
  out, with an opaque payload in the same record. The journal is a \<open>store_ops\<close> argument.
\<close>

abbreviation (input) SECURITY_COUNTER_RANGE :: u32 where "SECURITY_COUNTER_RANGE \<equiv> 256"
abbreviation (input) SECURITY_COUNTER_PAYLOAD_MAX :: nat where "SECURITY_COUNTER_PAYLOAD_MAX \<equiv> 112"

datatype security_counter_result =
    SECURITY_COUNTER_OK | SECURITY_COUNTER_EMPTY | SECURITY_COUNTER_ARGUMENT
  | SECURITY_COUNTER_OWNERSHIP | SECURITY_COUNTER_STATE | SECURITY_COUNTER_FORMAT
  | SECURITY_COUNTER_VERSION | SECURITY_COUNTER_RECOVERY | SECURITY_COUNTER_NV
  | SECURITY_COUNTER_ROLLBACK | SECURITY_COUNTER_EXHAUSTED | SECURITY_COUNTER_SPACE
  | SECURITY_COUNTER_PENDING

datatype security_counter_state =
    SECURITY_COUNTER_COLD | SECURITY_COUNTER_UNPROVISIONED | SECURITY_COUNTER_READY
  | SECURITY_COUNTER_FAILED | SECURITY_COUNTER_BUSY

text \<open>The linker's addresses: the module's two buffers and the end of its private storage.\<close>

record counter_config =
  cc_reserved_end :: u16
  cc_blob :: u16
  cc_check :: u16

record 'n counter_state =
  sc_next :: "u32 list"
  sc_until :: "u32 list"
  sc_generation :: u32
  sc_state :: security_counter_state
  sc_result :: security_counter_result
  sc_nv_result :: nv_record_result
  sc_payload_length :: u8
  sc_blob :: bytes
  sc_store :: 'n

definition sc_caller :: "counter_config \<Rightarrow> u16 \<Rightarrow> u8 \<Rightarrow> bool" where
  "sc_caller cfg address count \<longleftrightarrow>
     cc_reserved_end cfg < address \<and> address < 0x1e00 \<and> ucast count \<le> 0x1e00 - address"

definition sc_finish :: "security_counter_result \<Rightarrow> 'n counter_state \<Rightarrow> security_counter_result \<times> 'n counter_state" where
  "sc_finish r st = (r, st\<lparr>sc_result := r\<rparr>)"

definition sc_fail :: "security_counter_result \<Rightarrow> 'n counter_state \<Rightarrow> security_counter_result \<times> 'n counter_state" where
  "sc_fail r st = sc_finish r (st\<lparr>sc_state := SECURITY_COUNTER_FAILED\<rparr>)"

definition sc_ready :: "'n counter_state \<Rightarrow> security_counter_result" where
  "sc_ready st = (case sc_state st of SECURITY_COUNTER_FAILED \<Rightarrow> sc_result st
     | SECURITY_COUNTER_READY \<Rightarrow> SECURITY_COUNTER_OK | _ \<Rightarrow> SECURITY_COUNTER_STATE)"

definition sc_floors :: "'n counter_state \<Rightarrow> 'n counter_state" where
  "sc_floors st = (let f = map (\<lambda>i. decode32 (drop (8 + 4 * i) (sc_blob st))) [0..<2]
     in st\<lparr>sc_next := f, sc_until := f\<rparr>)"

definition sc_record_length :: "u8 \<Rightarrow> u8" where
  "sc_record_length payload = 16 + payload"

text \<open>The record last committed must still be what the journal holds.\<close>

definition sc_current :: "counter_config \<Rightarrow> 'n store_ops \<Rightarrow> 'n counter_state \<Rightarrow>
    security_counter_result \<times> 'n counter_state" where
  "sc_current cfg sops st =
     (case so_load sops (Some (cc_check cfg)) 128 (sc_store st) of (r, check, n) \<Rightarrow>
      let st1 = st\<lparr>sc_store := n, sc_nv_result := r\<rparr>; d = so_status sops n
      in if sc_generation st1 = 0 then
           (if r = NV_RECORD_EMPTY then (SECURITY_COUNTER_OK, st1) else sc_fail SECURITY_COUNTER_ROLLBACK st1)
         else if r = NV_RECORD_RECOVERED then sc_fail SECURITY_COUNTER_RECOVERY st1
         else if r \<noteq> NV_RECORD_OK then sc_fail SECURITY_COUNTER_NV st1
         else if nv_generation d \<noteq> sc_generation st1 \<or>
             unat (nv_length d) \<noteq> 16 + unat (sc_payload_length st1) then sc_fail SECURITY_COUNTER_ROLLBACK st1
         else if take (16 + unat (sc_payload_length st1)) check \<noteq>
             take (16 + unat (sc_payload_length st1)) (sc_blob st1) then sc_fail SECURITY_COUNTER_ROLLBACK st1
         else (SECURITY_COUNTER_OK, st1))"

definition sc_commit :: "counter_config \<Rightarrow> 'n store_ops \<Rightarrow> u16 \<Rightarrow> 'n counter_state \<Rightarrow>
    security_counter_result \<times> 'n counter_state" where
  "sc_commit cfg sops poll_limit st =
     (let st0 = st\<lparr>sc_state := SECURITY_COUNTER_BUSY, sc_result := SECURITY_COUNTER_PENDING, sc_nv_result := NV_RECORD_PENDING\<rparr>
      in case so_replace sops (Some (cc_blob cfg, sc_blob st0)) (sc_record_length (sc_blob st0 ! 5)) poll_limit 0 (sc_store st0) of
        (r, n) \<Rightarrow>
        let st1 = st0\<lparr>sc_store := n, sc_nv_result := r\<rparr>; d = so_status sops n
        in if r \<noteq> NV_RECORD_OK then
             sc_fail (if r = NV_RECORD_RECOVERY_REQUIRED then SECURITY_COUNTER_RECOVERY else SECURITY_COUNTER_NV) st1
           else if nv_generation d \<noteq> sc_generation st1 + 1 then sc_fail SECURITY_COUNTER_ROLLBACK st1
           else sc_finish SECURITY_COUNTER_OK
             (st1\<lparr>sc_generation := nv_generation d, sc_payload_length := sc_blob st1 ! 5, sc_state := SECURITY_COUNTER_READY\<rparr>))"

definition sc_payload :: "bytes \<Rightarrow> u8 \<Rightarrow> 'n counter_state \<Rightarrow> 'n counter_state" where
  "sc_payload data len st =
     st\<lparr>sc_blob := store_at 16 (map (\<lambda>i. if i < unat len then data ! i else 0) [0..<SECURITY_COUNTER_PAYLOAD_MAX])
          ((sc_blob st)[5 := len])\<rparr>"

definition security_counter_open :: "counter_config \<Rightarrow> 'n store_ops \<Rightarrow> 'n counter_state \<Rightarrow>
    security_counter_result \<times> 'n counter_state" where
  "security_counter_open cfg sops st =
     (if sc_state st = SECURITY_COUNTER_FAILED then (sc_result st, st)
      else if sc_state st \<noteq> SECURITY_COUNTER_COLD then (SECURITY_COUNTER_STATE, st)
      else case so_load sops (Some (cc_blob cfg)) 128 (sc_store st) of (r, out, n) \<Rightarrow>
        let st1 = st\<lparr>sc_store := n, sc_nv_result := r, sc_blob := store_at 0 out (sc_blob st)\<rparr>;
            d = so_status sops n; blob = sc_blob st1
        in if r = NV_RECORD_EMPTY then sc_finish SECURITY_COUNTER_EMPTY (st1\<lparr>sc_state := SECURITY_COUNTER_UNPROVISIONED\<rparr>)
           else if r \<noteq> NV_RECORD_OK then
             sc_fail (if r = NV_RECORD_RECOVERED then SECURITY_COUNTER_RECOVERY else SECURITY_COUNTER_NV) st1
           else if nv_length d < 16 \<or> blob ! 0 \<noteq> 0x43 \<or> blob ! 1 \<noteq> 0x54 \<or> blob ! 2 \<noteq> 0x52 \<or> blob ! 3 \<noteq> 0x31 then
             sc_fail SECURITY_COUNTER_FORMAT st1
           else if blob ! 4 \<noteq> 1 then sc_fail SECURITY_COUNTER_VERSION st1
           else if SECURITY_COUNTER_PAYLOAD_MAX < unat (blob ! 5) \<or> unat (nv_length d) \<noteq> 16 + unat (blob ! 5) \<or>
               blob ! 6 \<noteq> 0 \<or> blob ! 7 \<noteq> 0 then sc_fail SECURITY_COUNTER_FORMAT st1
           else sc_finish SECURITY_COUNTER_OK
             ((sc_floors st1)\<lparr>sc_generation := nv_generation d, sc_payload_length := blob ! 5,
                sc_state := SECURITY_COUNTER_READY\<rparr>))"

text \<open>\<open>data\<close> is the caller's pointer with the bytes it addresses; \<open>None\<close> is \<open>NULL\<close>.\<close>

definition sc_stage :: "counter_config \<Rightarrow> (u16 \<times> bytes) option \<Rightarrow> u8 \<Rightarrow> u16 \<Rightarrow> 'n counter_state \<Rightarrow>
    security_counter_result \<times> 'n counter_state" where
  "sc_stage cfg data len poll_limit st =
     (if SECURITY_COUNTER_PAYLOAD_MAX < unat len \<or> (data = None \<and> len \<noteq> 0) \<or> poll_limit = 0
      then (SECURITY_COUNTER_ARGUMENT, st)
      else if len \<noteq> 0 \<and> \<not> sc_caller cfg (fst (the data)) len then (SECURITY_COUNTER_OWNERSHIP, st)
      else sc_finish SECURITY_COUNTER_OK
        ((sc_payload (case data of None \<Rightarrow> [] | Some (_, b) \<Rightarrow> b) len st)
          \<lparr>sc_payload_length := len, sc_state := SECURITY_COUNTER_READY\<rparr>))"

definition security_counter_create :: "counter_config \<Rightarrow> u32 \<Rightarrow> u32 \<Rightarrow> (u16 \<times> bytes) option \<Rightarrow> u8 \<Rightarrow> u16 \<Rightarrow>
    'n counter_state \<Rightarrow> security_counter_result \<times> 'n counter_state" where
  "security_counter_create cfg nwk_floor aps_floor data len poll_limit st =
     (if sc_state st = SECURITY_COUNTER_FAILED then (sc_result st, st)
      else if sc_state st \<noteq> SECURITY_COUNTER_UNPROVISIONED \<and>
          (sc_state st \<noteq> SECURITY_COUNTER_READY \<or> sc_generation st \<noteq> 0) then (SECURITY_COUNTER_STATE, st)
      else case sc_stage cfg data len poll_limit st of (r, st1) \<Rightarrow>
        if r \<noteq> SECURITY_COUNTER_OK then (r, st1)
        else (r, sc_floors (st1\<lparr>sc_blob := [0x43, 0x54, 0x52, 0x31, 1, sc_blob st1 ! 5, 0, 0] @
               encode32 nwk_floor @ encode32 aps_floor @ drop 16 (sc_blob st1)\<rparr>)))"

definition security_counter_restage :: "counter_config \<Rightarrow> (u16 \<times> bytes) option \<Rightarrow> u8 \<Rightarrow> 'n counter_state \<Rightarrow>
    security_counter_result \<times> 'n counter_state" where
  "security_counter_restage cfg data len st =
     (if sc_state st \<noteq> SECURITY_COUNTER_READY \<or> sc_generation st \<noteq> 0 then (SECURITY_COUNTER_STATE, st)
      else sc_stage cfg data len 1 st)"

text \<open>The refill: a new ceiling is committed before the first value below it is taken.\<close>

definition sc_refill :: "counter_config \<Rightarrow> 'n store_ops \<Rightarrow> nat \<Rightarrow> u16 \<Rightarrow> 'n counter_state \<Rightarrow>
    security_counter_result \<times> 'n counter_state" where
  "sc_refill cfg sops domain poll_limit st =
     (if sc_until st ! domain = 0xffffffff then sc_finish SECURITY_COUNTER_EXHAUSTED st
      else case sc_current cfg sops st of (r, st1) \<Rightarrow>
        if r \<noteq> SECURITY_COUNTER_OK then (r, st1)
        else let u = sc_until st1 ! domain;
                 end = (if u > 0xffffffff - SECURITY_COUNTER_RANGE then 0xffffffff else u + SECURITY_COUNTER_RANGE)
             in case sc_commit cfg sops poll_limit (st1\<lparr>sc_blob := store_at (8 + 4 * domain) (encode32 end) (sc_blob st1)\<rparr>) of
               (r2, st2) \<Rightarrow> if r2 \<noteq> SECURITY_COUNTER_OK then (r2, st2)
                 else (SECURITY_COUNTER_OK, st2\<lparr>sc_until := (sc_until st2)[domain := end]\<rparr>))"

text \<open>The middle component is the value stored through \<open>value\<close>.\<close>

definition security_counter_take :: "counter_config \<Rightarrow> 'n store_ops \<Rightarrow> nat \<Rightarrow> u16 option \<Rightarrow> u16 \<Rightarrow>
    'n counter_state \<Rightarrow> security_counter_result \<times> u32 option \<times> 'n counter_state" where
  "security_counter_take cfg sops domain value poll_limit st =
     (if sc_ready st \<noteq> SECURITY_COUNTER_OK then (sc_ready st, None, st)
      else if 1 < domain \<or> value = None \<or> poll_limit = 0 then (SECURITY_COUNTER_ARGUMENT, None, st)
      else if \<not> sc_caller cfg (the value) 4 then (SECURITY_COUNTER_OWNERSHIP, None, st)
      else case (if sc_next st ! domain = sc_until st ! domain then sc_refill cfg sops domain poll_limit st
                 else (SECURITY_COUNTER_OK, st)) of (r, st1) \<Rightarrow>
        if r \<noteq> SECURITY_COUNTER_OK then (r, None, st1)
        else let taken = sc_next st1 ! domain;
                 (r2, st2) = sc_finish SECURITY_COUNTER_OK (st1\<lparr>sc_next := (sc_next st1)[domain := taken + 1]\<rparr>)
             in (r2, Some taken, st2))"

definition security_counter_save :: "counter_config \<Rightarrow> 'n store_ops \<Rightarrow> (u16 \<times> bytes) option \<Rightarrow> u8 \<Rightarrow> u16 \<Rightarrow>
    'n counter_state \<Rightarrow> security_counter_result \<times> 'n counter_state" where
  "security_counter_save cfg sops data len poll_limit st =
     (if sc_ready st \<noteq> SECURITY_COUNTER_OK then (sc_ready st, st)
      else if SECURITY_COUNTER_PAYLOAD_MAX < unat len \<or> (data = None \<and> len \<noteq> 0) \<or> poll_limit = 0
        then (SECURITY_COUNTER_ARGUMENT, st)
      else if len \<noteq> 0 \<and> \<not> sc_caller cfg (fst (the data)) len then (SECURITY_COUNTER_OWNERSHIP, st)
      else case sc_current cfg sops st of (r, st1) \<Rightarrow>
        if r \<noteq> SECURITY_COUNTER_OK then (r, st1)
        else sc_commit cfg sops poll_limit (sc_payload (case data of None \<Rightarrow> [] | Some (_, b) \<Rightarrow> b) len st1))"

text \<open>The payload goes to \<open>data\<close> and its length to \<open>length\<close>.\<close>

definition security_counter_read :: "counter_config \<Rightarrow> u16 option \<Rightarrow> u8 \<Rightarrow> u16 option \<Rightarrow> 'n counter_state \<Rightarrow>
    security_counter_result \<times> (bytes \<times> u8) option \<times> 'n counter_state" where
  "security_counter_read cfg data capacity len st =
     (if sc_ready st \<noteq> SECURITY_COUNTER_OK then (sc_ready st, None, st)
      else if len = None \<or> (data = None \<and> capacity \<noteq> 0) then (SECURITY_COUNTER_ARGUMENT, None, st)
      else if \<not> sc_caller cfg (the len) 1 \<or> (capacity \<noteq> 0 \<and> \<not> sc_caller cfg (the data) capacity)
        then (SECURITY_COUNTER_OWNERSHIP, None, st)
      else if capacity < sc_payload_length st then (SECURITY_COUNTER_SPACE, None, st)
      else case sc_finish SECURITY_COUNTER_OK st of (r, st1) \<Rightarrow>
        (r, Some (take (unat (sc_payload_length st)) (drop 16 (sc_blob st)), sc_payload_length st), st1))"

text \<open>The statics after reset.\<close>

definition counter_boot :: "'n \<Rightarrow> 'n counter_state" where
  "counter_boot n = \<lparr>sc_next = [0, 0], sc_until = [0, 0], sc_generation = 0, sc_state = SECURITY_COUNTER_COLD,
     sc_result = SECURITY_COUNTER_OK, sc_nv_result = NV_RECORD_OK, sc_payload_length = 0, sc_blob = replicate 128 0,
     sc_store = n\<rparr>"

end
