(* ===== verification/Counter_Proof.thy ===== *)
theory Counter_Proof
  imports Security_Counter
begin

text \<open>
  No frame counter value is handed out twice, across any sequence of calls, failures and
  resets: a reservation discipline over the durable ceilings. Proved once over the contract
  \<open>nv_store\<close>.
\<close>

section \<open>Ceilings\<close>

definition ceiling :: "bytes \<Rightarrow> nat \<Rightarrow> u32" where
  "ceiling data d = decode32 (drop (8 + 4 * d) data)"

lemma decode32_take: "4 \<le> n \<Longrightarrow> decode32 (take n xs) = decode32 xs"
  by (simp add: decode32_def)

lemma ceiling_take: "16 \<le> n \<Longrightarrow> d < 2 \<Longrightarrow> ceiling (take n data) d = ceiling data d"
  by (auto simp: ceiling_def drop_take decode32_take)

lemma ceiling_prefix: "16 \<le> length out \<Longrightarrow> length out \<le> length b \<Longrightarrow> d < 2 \<Longrightarrow> ceiling (store_at 0 out b) d = ceiling out d"
  using ceiling_take [of 16 d "store_at 0 out b"] ceiling_take [of 16 d out] by (simp add: store_at_def)

lemma ceiling_store:
  assumes "length b = 128" "d < 2" "e < 2"
  shows "ceiling (store_at (8 + 4 * e) (encode32 v) b) d = (if d = e then v else ceiling b d)"
proof -
  consider "d = 0" "e = 0" | "d = 0" "e = 1" | "d = 1" "e = 0" | "d = 1" "e = 1" using assms by linarith
  then show ?thesis
  proof cases
    case 1 then show ?thesis using assms by (simp add: ceiling_def store_at_def)
  next
    case 2
    have "take 4 (drop 8 (store_at 12 (encode32 v) b)) = take 4 (drop 8 b)" using assms by (simp add: store_at_def drop_take)
    then show ?thesis using 2 decode32_take [of 4] by (simp add: ceiling_def) (metis order_refl)
  next
    case 3 then show ?thesis using assms by (simp add: ceiling_def store_at_def)
  next
    case 4 then show ?thesis using assms by (simp add: ceiling_def store_at_def)
  qed
qed

lemma ceiling_cong:
  assumes "16 \<le> length a" "16 \<le> length b" "d < 2" "\<And>i. 8 \<le> i \<Longrightarrow> i < 16 \<Longrightarrow> a ! i = b ! i"
  shows "ceiling a d = ceiling b d"
  using assms by (simp add: ceiling_def decode32_def)

section \<open>The invariant\<close>

text \<open>
  \<open>tr\<close> is the history of values handed out, with their domains. Every one of them is below
  the durable ceiling of its domain, and while the module is ready also below its cursor.
\<close>

definition durable_above :: "(u32 \<times> bytes) option \<Rightarrow> (nat \<times> u32) list \<Rightarrow> bool" where
  "durable_above x tr \<longleftrightarrow> (\<forall>(d, v) \<in> set tr. d < 2 \<and> (\<exists>g data. x = Some (g, data) \<and> v < ceiling data d))"

definition cursors_ok :: "'n counter_state \<Rightarrow> (nat \<times> u32) list \<Rightarrow> bool" where
  "cursors_ok st tr \<longleftrightarrow> unat (sc_blob st ! 5) \<le> 112 \<and> sc_payload_length st = sc_blob st ! 5 \<and>
     (\<forall>d < 2. sc_until st ! d = ceiling (sc_blob st) d \<and> sc_next st ! d \<le> sc_until st ! d \<and>
        (\<forall>v. (d, v) \<in> set tr \<longrightarrow> v < sc_next st ! d)) \<and>
     (sc_generation st = 0 \<longrightarrow> tr = [] \<and> sc_next st = sc_until st)"

definition committed :: "'n counter_state \<Rightarrow> u32 \<times> bytes" where
  "committed st = (sc_generation st, take (16 + unat (sc_payload_length st)) (sc_blob st))"

definition counter_shape :: "'n counter_state \<Rightarrow> bool" where
  "counter_shape st \<longleftrightarrow> length (sc_blob st) = 128 \<and> length (sc_next st) = 2 \<and> length (sc_until st) = 2"

definition counter_inv :: "('n \<Rightarrow> bool) \<Rightarrow> ('n \<Rightarrow> (u32 \<times> bytes) option) \<Rightarrow> 'n counter_state \<Rightarrow> (nat \<times> u32) list \<Rightarrow> bool" where
  "counter_inv sinv srec st tr \<longleftrightarrow>
     sinv (sc_store st) \<and> counter_shape st \<and> durable_above (srec (sc_store st)) tr \<and>
     (sc_state st = SECURITY_COUNTER_READY \<longrightarrow> cursors_ok st tr \<and>
        (sc_generation st \<noteq> 0 \<longrightarrow> srec (sc_store st) = Some (committed st))) \<and>
     (sc_state st \<in> {SECURITY_COUNTER_COLD, SECURITY_COUNTER_UNPROVISIONED} \<longrightarrow> sc_generation st = 0) \<and>
     (sc_state st = SECURITY_COUNTER_UNPROVISIONED \<longrightarrow> tr = []) \<and> sc_state st \<noteq> SECURITY_COUNTER_BUSY \<and>
     (sc_state st = SECURITY_COUNTER_FAILED \<longrightarrow> sc_result st \<noteq> SECURITY_COUNTER_OK)"

lemma durable_above_Nil [simp]: "durable_above x []"
  by (simp add: durable_above_def)

lemma durable_above_None: "durable_above None tr \<Longrightarrow> tr = []"
  by (auto simp: durable_above_def) (metis list.set_intros(1) neq_Nil_conv surj_pair)

text \<open>Every value below the cursors is below the ceilings of a record cut from the blob.\<close>

lemma durable_above_blob:
  assumes "durable_above x tr" and "\<And>d v. d < 2 \<Longrightarrow> (d, v) \<in> set tr \<Longrightarrow> v < ceiling b d" and "16 \<le> n"
  shows "durable_above (Some (g, take n b)) tr"
  using assms by (fastforce simp: durable_above_def ceiling_take)

lemma counter_invI_failed:
  "sinv (sc_store st) \<Longrightarrow> counter_shape st \<Longrightarrow> durable_above (srec (sc_store st)) tr \<Longrightarrow>
   sc_state st = SECURITY_COUNTER_FAILED \<and> sc_result st \<noteq> SECURITY_COUNTER_OK \<Longrightarrow> counter_inv sinv srec st tr"
  by (simp add: counter_inv_def)

lemma sc_fail_simps:
  "sc_fail x st = (r, st') \<Longrightarrow> r = x \<and> sc_state st' = SECURITY_COUNTER_FAILED \<and> sc_result st' = x \<and> sc_store st' = sc_store st \<and>
     sc_blob st' = sc_blob st \<and> sc_next st' = sc_next st \<and> sc_until st' = sc_until st"
  by (auto simp: sc_fail_def sc_finish_def)

lemma ucast_length_unat: "unat (sc_record_length b) = 16 + unat b" if "unat b \<le> 112"
proof -
  have "unat (16 + b) = unat (16 :: u8) + unat b" by (rule unat_plus_simple [THEN iffD1]) (use that in \<open>simp add: word_le_nat_alt unat_word_ariths\<close>)
  then show ?thesis by (simp add: sc_record_length_def)
qed

lemma ceiling_payload:
  assumes "length b = 128" "d < 2" "length p = 112"
  shows "ceiling (store_at 16 p (b[5 := x])) d = ceiling b d"
  by (rule ceiling_cong) (use assms in \<open>auto simp: nth_store_at\<close>)

text \<open>
  A call that failed in the erase phase has left an arbitrary page behind; \<open>settled\<close> says that
  did not happen, or that the journal still holds the record it held: the torn page does not
  pass for a record.
\<close>

definition settled :: "'n store_ops \<Rightarrow> ('n \<Rightarrow> (u32 \<times> bytes) option) \<Rightarrow> 'n counter_state \<Rightarrow> 'n counter_state \<Rightarrow> bool" where
  "settled sops srec st st' \<longleftrightarrow> nv_phase (so_status sops (sc_store st')) \<noteq> 3 \<or> srec (sc_store st') = srec (sc_store st)"

lemma counter_end_above:
  fixes u :: u32
  assumes "u \<noteq> 0xffffffff" and "e = (if u > 0xffffffff - 256 then 0xffffffff else u + 256)"
  shows "u < e"
proof (cases "u > 0xffffffff - 256")
  case True
  have "unat u < 2 ^ LENGTH(32)" by (rule unsigned_less)
  with True show ?thesis using assms by (simp add: word_less_nat_alt word_unat_eq_iff)
next
  case False
  then have "unat u + 256 < 2 ^ 32" by (simp add: word_less_nat_alt)
  then have "unat (u + 256) = unat u + 256" by (simp add: unat_word_ariths)
  with False assms(2) show ?thesis by (simp add: word_less_nat_alt)
qed

lemma word_succ_below:
  fixes x y :: u32
  assumes "x < y"
  shows "x < x + 1" "x + 1 \<le> y"
proof -
  have "unat y < 2 ^ LENGTH(32)" by (rule unsigned_less)
  with assms have "unat (x + 1) = unat x + 1" by (simp add: word_less_nat_alt unat_word_ariths)
  with assms show "x < x + 1" "x + 1 \<le> y" by (simp_all add: word_less_nat_alt word_le_nat_alt)
qed

lemma durable_above_mono:
  "durable_above x tr \<Longrightarrow> x' \<in> {x, Some (g, take n b)} \<Longrightarrow>
   (\<And>d v. d < 2 \<Longrightarrow> (d, v) \<in> set tr \<Longrightarrow> v < ceiling b d) \<Longrightarrow> 16 \<le> n \<Longrightarrow> durable_above x' tr"
  using durable_above_blob by fastforce

text \<open>
  Everything reachable from reset by calls, with the history of values handed out. A call that
  fails must have settled; one that succeeds is not restricted. A reset finds the record the
  journal held. Power lost inside a call is a call the chip lets fail from there on, then a reset.
\<close>

inductive counter_reach :: "counter_config \<Rightarrow> 'n store_ops \<Rightarrow> ('n \<Rightarrow> bool) \<Rightarrow> ('n \<Rightarrow> (u32 \<times> bytes) option) \<Rightarrow>
    'n counter_state \<Rightarrow> (nat \<times> u32) list \<Rightarrow> bool" for cfg sops sinv srec where
  Boot: "sinv n \<Longrightarrow> counter_reach cfg sops sinv srec (counter_boot n) []"
| Reset: "counter_reach cfg sops sinv srec st tr \<Longrightarrow> sinv n \<Longrightarrow> srec n = srec (sc_store st) \<Longrightarrow>
    counter_reach cfg sops sinv srec (counter_boot n) tr"
| Open: "counter_reach cfg sops sinv srec st tr \<Longrightarrow> security_counter_open cfg sops st = (r, st') \<Longrightarrow>
    counter_reach cfg sops sinv srec st' tr"
| Create: "counter_reach cfg sops sinv srec st tr \<Longrightarrow> security_counter_create cfg nf af data len l st = (r, st') \<Longrightarrow>
    counter_reach cfg sops sinv srec st' tr"
| Restage: "counter_reach cfg sops sinv srec st tr \<Longrightarrow> security_counter_restage cfg data len st = (r, st') \<Longrightarrow>
    counter_reach cfg sops sinv srec st' tr"
| Save: "counter_reach cfg sops sinv srec st tr \<Longrightarrow> security_counter_save cfg sops data len l st = (r, st') \<Longrightarrow>
    r = SECURITY_COUNTER_OK \<or> settled sops srec st st' \<Longrightarrow> counter_reach cfg sops sinv srec st' tr"
| Read: "counter_reach cfg sops sinv srec st tr \<Longrightarrow> security_counter_read cfg target c len st = (r, out, st') \<Longrightarrow>
    counter_reach cfg sops sinv srec st' tr"
| Take: "counter_reach cfg sops sinv srec st tr \<Longrightarrow> security_counter_take cfg sops d target l st = (r, x, st') \<Longrightarrow>
    r = SECURITY_COUNTER_OK \<or> settled sops srec st st' \<Longrightarrow>
    counter_reach cfg sops sinv srec st' (tr @ (case x of None \<Rightarrow> [] | Some v \<Rightarrow> [(d, v)]))"

definition taken_of :: "nat \<Rightarrow> (nat \<times> u32) list \<Rightarrow> u32 list" where
  "taken_of d tr = map snd (filter (\<lambda>(d', v). d' = d) tr)"

lemma taken_of_append [simp]: "taken_of d (a @ b) = taken_of d a @ taken_of d b"
  by (simp add: taken_of_def)

lemma set_taken_of: "v \<in> set (taken_of d tr) \<longleftrightarrow> (d, v) \<in> set tr"
  by (force simp: taken_of_def)

context nv_store
begin

lemma sc_current_spec:
  assumes "sinv (sc_store st)" and "sc_current cfg sops st = (r, st')"
  shows "sinv (sc_store st') \<and> srec (sc_store st') = srec (sc_store st) \<and> sc_blob st' = sc_blob st \<and>
    sc_next st' = sc_next st \<and> sc_until st' = sc_until st \<and>
    (if r = SECURITY_COUNTER_OK then st' = st\<lparr>sc_store := sc_store st', sc_nv_result := sc_nv_result st'\<rparr> \<and>
       (if sc_generation st = 0 then srec (sc_store st) = None
        else length (snd (the (srec (sc_store st)))) = 16 + unat (sc_payload_length st) \<and>
          srec (sc_store st) = Some (committed st))
     else sc_state st' = SECURITY_COUNTER_FAILED \<and> sc_result st' \<noteq> SECURITY_COUNTER_OK)"
proof -
  obtain r1 out n where ld: "so_load sops (Some (cc_check cfg)) 128 (sc_store st) = (r1, out, n)" using prod_cases3 by blast
  note k = load_keeps [OF assms(1) ld]
  have "r1 = NV_RECORD_OK \<Longrightarrow> srec (sc_store st) = Some (nv_generation (so_status sops n), out) \<and>
      length out = unat (nv_length (so_status sops n))"
    using load_record [OF assms(1)] ld by blast
  moreover have "r1 = NV_RECORD_EMPTY \<Longrightarrow> srec (sc_store st) = None" using load_empty [OF assms(1)] ld by blast
  ultimately show ?thesis using assms(2) k
    by (auto simp: sc_current_def ld Let_def committed_def dest!: sc_fail_simps split: if_splits)
qed

lemma sc_commit_spec:
  assumes inv: "sinv (sc_store st)" and b: "length (sc_blob st) = 128" "unat (sc_blob st ! 5) \<le> 112"
    and cm: "sc_commit cfg sops l st = (r, st')"
  shows "sinv (sc_store st') \<and> sc_blob st' = sc_blob st \<and> sc_next st' = sc_next st \<and> sc_until st' = sc_until st \<and>
    (let new = Some (next_gen (srec (sc_store st)), take (16 + unat (sc_blob st ! 5)) (sc_blob st)) in
     if r = SECURITY_COUNTER_OK then sc_state st' = SECURITY_COUNTER_READY \<and> sc_generation st' \<noteq> 0 \<and>
       srec (sc_store st') = new \<and> new = Some (committed st') \<and> sc_payload_length st' = sc_blob st' ! 5
     else sc_state st' = SECURITY_COUNTER_FAILED \<and> sc_result st' \<noteq> SECURITY_COUNTER_OK \<and>
       (nv_phase (so_status sops (sc_store st')) \<noteq> 3 \<longrightarrow> srec (sc_store st') \<in> {srec (sc_store st), new}))"
proof -
  let ?len = "sc_record_length (sc_blob st ! 5)"
  obtain r1 n where rp: "so_replace sops (Some (cc_blob cfg, sc_blob st)) ?len l 0 (sc_store st) = (r1, n)" by fastforce
  have len: "unat ?len = 16 + unat (sc_blob st ! 5)" by (rule ucast_length_unat [OF b(2)])
  have le: "unat ?len \<le> length (sc_blob st)" using len b by simp
  note k = replace_keeps [OF inv le rp, unfolded len]
  have "r1 = NV_RECORD_OK \<Longrightarrow> srec n = Some (next_gen (srec (sc_store st)), take (16 + unat (sc_blob st ! 5)) (sc_blob st)) \<and>
        nv_generation (so_status sops n) = next_gen (srec (sc_store st)) \<and> next_gen (srec (sc_store st)) \<noteq> 0"
    using replace_done [OF inv le] rp len by simp
  with cm k show ?thesis
    by (auto simp: sc_commit_def rp Let_def sc_finish_def committed_def dest!: sc_fail_simps split: if_splits)
qed

lemma open_inv:
  assumes inv: "counter_inv sinv srec st tr" and op: "security_counter_open cfg sops st = (r, st')"
  shows "counter_inv sinv srec st' tr"
proof (cases "sc_state st = SECURITY_COUNTER_COLD")
  case False
  with op have "st' = st" by (auto simp: security_counter_open_def split: if_splits)
  with inv show ?thesis by simp
next
  case True
  obtain r1 out n where ld: "so_load sops (Some (cc_blob cfg)) 128 (sc_store st) = (r1, out, n)" using prod_cases3 by blast
  define st1 where "st1 = st\<lparr>sc_store := n, sc_nv_result := r1, sc_blob := store_at 0 out (sc_blob st)\<rparr>"
  have si: "sinv (sc_store st)" and du: "durable_above (srec (sc_store st)) tr" and sh: "counter_shape st"
    and g: "sc_generation st = 0"
    using inv True by (simp_all add: counter_inv_def)
  note k = load_keeps [OF si ld]
  consider (empty) "r1 = NV_RECORD_EMPTY" "(r, st') = sc_finish SECURITY_COUNTER_EMPTY (st1\<lparr>sc_state := SECURITY_COUNTER_UNPROVISIONED\<rparr>)"
    | (bad) x where "sc_fail x st1 = (r, st')" "x \<noteq> SECURITY_COUNTER_OK"
    | (ok) "r1 = NV_RECORD_OK" "16 \<le> unat (nv_length (so_status sops n))" "unat (sc_blob st1 ! 5) \<le> 112"
      "unat (nv_length (so_status sops n)) = 16 + unat (sc_blob st1 ! 5)"
      "(r, st') = sc_finish SECURITY_COUNTER_OK ((sc_floors st1)\<lparr>sc_generation := nv_generation (so_status sops n),
         sc_payload_length := sc_blob st1 ! 5, sc_state := SECURITY_COUNTER_READY\<rparr>)"
    using op True unfolding security_counter_open_def ld Let_def prod.case st1_def [symmetric]
    by (auto simp: not_less split: if_splits)
  then show ?thesis
  proof cases
    case empty
    from load_empty [OF si] ld empty have "srec (sc_store st) = None" by blast
    with du have "tr = []" using durable_above_None by simp
    with empty k sh g show ?thesis
      by (auto simp: sc_finish_def counter_inv_def st1_def counter_shape_def store_at_def)
  next
    case bad
    then show ?thesis using k sh du
      by (intro counter_invI_failed) (auto simp: st1_def counter_shape_def dest!: sc_fail_simps)
  next
    case ok
    have rc: "srec (sc_store st) = Some (nv_generation (so_status sops n), out)" "nv_generation (so_status sops n) \<noteq> 0"
      "length out = unat (nv_length (so_status sops n))" "length out \<le> 128"
      using load_record [OF si] ld ok(1) by blast+
    have b1: "sc_blob st1 = store_at 0 out (sc_blob st)" "length (sc_blob st1) = 128" "take (length out) (sc_blob st1) = out"
      using sh rc(4) by (simp_all add: st1_def counter_shape_def store_at_def)
    have ce: "ceiling (sc_blob st1) d = ceiling out d" if "d < 2" for d
      using ceiling_take [OF _ that, of "length out" "sc_blob st1"] b1(3) rc(3) ok(2) by simp
    have st': "sc_blob st' = sc_blob st1" "sc_next st' = sc_until st'" "sc_generation st' = nv_generation (so_status sops n)"
      "sc_payload_length st' = sc_blob st1 ! 5" "sc_state st' = SECURITY_COUNTER_READY" "sc_store st' = n"
      "length (sc_until st') = 2" "\<And>d. d < 2 \<Longrightarrow> sc_until st' ! d = ceiling (sc_blob st1) d"
      using ok(5) by (simp_all add: sc_finish_def sc_floors_def st1_def Let_def ceiling_def)
    have "cursors_ok st' tr"
      using st' ok(3) ce du rc(1,2) by (fastforce simp: cursors_ok_def durable_above_def)
    moreover have "srec (sc_store st') = Some (committed st')"
      using st' k rc(1,3) ok(4) b1(3) by (simp add: committed_def)
    ultimately show ?thesis
      using k du st' b1(2) by (simp add: counter_inv_def counter_shape_def)
  qed
qed

lemma sc_stage_effect:
  assumes "sc_stage cfg data len l st = (r, st')" and "counter_shape st"
  shows "if r = SECURITY_COUNTER_OK then sc_state st' = SECURITY_COUNTER_READY \<and> counter_shape st' \<and>
      sc_store st' = sc_store st \<and> sc_next st' = sc_next st \<and> sc_until st' = sc_until st \<and>
      sc_generation st' = sc_generation st \<and> unat (sc_blob st' ! 5) \<le> 112 \<and> sc_payload_length st' = sc_blob st' ! 5 \<and>
      (\<forall>d < 2. ceiling (sc_blob st') d = ceiling (sc_blob st) d)
    else st' = st"
  using assms
  by (auto simp: sc_stage_def sc_finish_def sc_payload_def counter_shape_def ceiling_payload nth_store_at
      split: if_splits)

lemma restage_inv:
  assumes inv: "counter_inv sinv srec st tr" and op: "security_counter_restage cfg data len st = (r, st')"
  shows "counter_inv sinv srec st' tr"
proof (cases "sc_state st = SECURITY_COUNTER_READY \<and> sc_generation st = 0")
  case True
  with op have "sc_stage cfg data len 1 st = (r, st')" by (simp add: security_counter_restage_def)
  from sc_stage_effect [OF this] inv True show ?thesis
    by (auto simp: counter_inv_def cursors_ok_def split: if_splits)
next
  case False
  with op inv show ?thesis by (auto simp: security_counter_restage_def split: if_splits)
qed

lemma create_inv:
  assumes inv: "counter_inv sinv srec st tr" and op: "security_counter_create cfg nf af data len l st = (r, st')"
  shows "counter_inv sinv srec st' tr"
proof (cases "sc_state st = SECURITY_COUNTER_UNPROVISIONED \<or> sc_state st = SECURITY_COUNTER_READY \<and> sc_generation st = 0")
  case True
  have tr: "tr = []" "sc_generation st = 0" using inv True by (auto simp: counter_inv_def cursors_ok_def)
  obtain r1 st1 where sg: "sc_stage cfg data len l st = (r1, st1)" by fastforce
  note e = sc_stage_effect [OF sg]
  from True op sg consider "r1 \<noteq> SECURITY_COUNTER_OK" "st' = st1" | "r1 = SECURITY_COUNTER_OK"
    "st' = sc_floors (st1\<lparr>sc_blob := [0x43, 0x54, 0x52, 0x31, 1, sc_blob st1 ! 5, 0, 0] @
               encode32 nf @ encode32 af @ drop 16 (sc_blob st1)\<rparr>)"
    by (auto simp: security_counter_create_def split: if_splits)
  then show ?thesis
  proof cases
    case 1
    with e inv show ?thesis by (auto simp: counter_inv_def)
  next
    case 2
    with e inv tr show ?thesis
      by (auto simp: counter_inv_def cursors_ok_def counter_shape_def sc_floors_def Let_def ceiling_def less_2_cases_iff)
  qed
next
  case False
  with op inv show ?thesis by (auto simp: security_counter_create_def split: if_splits)
qed

lemma counter_inv_ready:
  assumes "counter_inv sinv srec st tr"
  shows "sc_ready st = SECURITY_COUNTER_OK \<longleftrightarrow> sc_state st = SECURITY_COUNTER_READY"
  using assms by (cases "sc_state st") (auto simp: sc_ready_def counter_inv_def)

lemma counter_inv_result:
  assumes "counter_inv sinv srec st tr" and "sc_state st = SECURITY_COUNTER_READY"
  shows "counter_inv sinv srec (st\<lparr>sc_result := r\<rparr>) tr"
  using assms by (auto simp: counter_inv_def counter_shape_def cursors_ok_def committed_def)

text \<open>A commit of a blob whose ceilings are above every value handed out.\<close>

lemma commit_inv:
  assumes si: "sinv (sc_store st)" and sh: "counter_shape st" and b5: "unat (sc_blob st ! 5) \<le> 112"
    and du: "durable_above (srec (sc_store st)) tr" and ab: "\<And>d v. d < 2 \<Longrightarrow> (d, v) \<in> set tr \<Longrightarrow> v < ceiling (sc_blob st) d"
    and cm: "sc_commit cfg sops l st = (r, st')"
    and ph: "r = SECURITY_COUNTER_OK \<or> nv_phase (so_status sops (sc_store st')) \<noteq> 3 \<or> srec (sc_store st') = srec (sc_store st)"
  shows "sinv (sc_store st') \<and> counter_shape st' \<and> durable_above (srec (sc_store st')) tr"
proof -
  have l: "length (sc_blob st) = 128" using sh by (simp add: counter_shape_def)
  note c = sc_commit_spec [OF si l b5 cm]
  have "srec (sc_store st') \<in> {srec (sc_store st),
      Some (next_gen (srec (sc_store st)), take (16 + unat (sc_blob st ! 5)) (sc_blob st))}"
    using c ph by (auto simp: Let_def split: if_splits)
  then have "durable_above (srec (sc_store st')) tr" by (rule durable_above_mono [OF du]) (use ab in simp_all)
  with c sh show ?thesis by (simp add: counter_shape_def)
qed

lemma save_inv:
  assumes inv: "counter_inv sinv srec st tr" and op: "security_counter_save cfg sops data len l st = (r, st')"
    and se: "r = SECURITY_COUNTER_OK \<or> settled sops srec st st'"
  shows "counter_inv sinv srec st' tr"
proof (cases "sc_state st = SECURITY_COUNTER_READY \<and> st' \<noteq> st")
  case False
  with inv op show ?thesis using counter_inv_ready [OF inv]
    by (auto simp: security_counter_save_def split: if_splits)
next
  case True
  obtain r1 st1 where cu: "sc_current cfg sops st = (r1, st1)" by fastforce
  have i: "sinv (sc_store st)" "counter_shape st" "durable_above (srec (sc_store st)) tr" "cursors_ok st tr"
    using inv True by (simp_all add: counter_inv_def)
  note k = sc_current_spec [OF i(1) cu]
  let ?d = "case data of None \<Rightarrow> [] | Some (_, b) \<Rightarrow> b"
  from True op cu have len: "unat len \<le> 112" and run: "(r, st') = (if r1 \<noteq> SECURITY_COUNTER_OK then (r1, st1)
      else sc_commit cfg sops l (sc_payload ?d len st1))"
    by (auto simp: security_counter_save_def not_less split: if_splits)
  show ?thesis
  proof (cases "r1 = SECURITY_COUNTER_OK")
    case False
    with run k i show ?thesis by (intro counter_invI_failed) (auto simp: counter_shape_def)
  next
    case ok: True
    let ?st2 = "sc_payload ?d len st1"
    have cm: "sc_commit cfg sops l ?st2 = (r, st')" using run ok by simp
    have b2: "length (sc_blob ?st2) = 128" "sc_blob ?st2 ! 5 = len" "\<And>d. d < 2 \<Longrightarrow> ceiling (sc_blob ?st2) d = ceiling (sc_blob st) d"
      "sc_store ?st2 = sc_store st1" "sc_next ?st2 = sc_next st" "sc_until ?st2 = sc_until st"
      using k i(2) by (simp_all add: sc_payload_def counter_shape_def ceiling_payload nth_store_at)
    have sh2: "counter_shape ?st2" using b2 i(2) by (simp add: counter_shape_def)
    have ab: "v < ceiling (sc_blob ?st2) d" if "d < 2" "(d, v) \<in> set tr" for d v
      using i(4) b2(3) that by (fastforce simp: cursors_ok_def)
    have c: "sinv (sc_store st') \<and> counter_shape st' \<and> durable_above (srec (sc_store st')) tr"
      by (rule commit_inv [OF _ sh2 _ _ ab cm]) (use k i b2 len se in \<open>auto simp: settled_def\<close>)
    note sp = sc_commit_spec [OF _ b2(1) _ cm, unfolded b2, OF _ len]
    have "sinv (sc_store st1)" using k by simp
    note sp = sp [OF this]
    show ?thesis
    proof (cases "r = SECURITY_COUNTER_OK")
      case True
      have "cursors_ok st' tr"
        using sp True i(4) b2(2,3) len by (auto simp: Let_def cursors_ok_def)
      with sp c True show ?thesis by (simp add: counter_inv_def Let_def)
    next
      case False
      with sp c show ?thesis by (intro counter_invI_failed) (simp_all add: Let_def)
    qed
  qed
qed

lemma read_inv:
  assumes "counter_inv sinv srec st tr" and "security_counter_read cfg data c len st = (r, o', st')"
  shows "counter_inv sinv srec st' tr"
  using assms counter_inv_ready [OF assms(1)] counter_inv_result [OF assms(1), of r]
  by (auto simp: security_counter_read_def sc_finish_def split: if_splits)

text \<open>A refill leaves the cursor strictly below a ceiling that is durable.\<close>

lemma refill_inv:
  assumes inv: "counter_inv sinv srec st tr" and rd: "sc_state st = SECURITY_COUNTER_READY"
    and d: "d < 2" and eq: "sc_next st ! d = sc_until st ! d"
    and run: "sc_refill cfg sops d l st = (r, st')" and se: "r = SECURITY_COUNTER_OK \<or> settled sops srec st st'"
  shows "counter_inv sinv srec st' tr \<and> (r = SECURITY_COUNTER_OK \<longrightarrow> sc_state st' = SECURITY_COUNTER_READY \<and>
    sc_generation st' \<noteq> 0 \<and> sc_next st' = sc_next st \<and> sc_next st' ! d < sc_until st' ! d)"
proof (cases "sc_until st ! d = 0xffffffff")
  case True
  with run counter_inv_result [OF inv rd] show ?thesis by (auto simp: sc_refill_def sc_finish_def)
next
  case nx: False
  obtain r1 st1 where cu: "sc_current cfg sops st = (r1, st1)" by fastforce
  have i: "sinv (sc_store st)" "counter_shape st" "durable_above (srec (sc_store st)) tr" "cursors_ok st tr"
    using inv rd by (simp_all add: counter_inv_def)
  note k = sc_current_spec [OF i(1) cu]
  define e where "e = (if sc_until st ! d > 0xffffffff - 256 then 0xffffffff else sc_until st ! d + 256)"
  have ue: "sc_until st ! d < e" by (rule counter_end_above [OF nx e_def])
  show ?thesis
  proof (cases "r1 = SECURITY_COUNTER_OK")
    case False
    with run nx cu have "st' = st1" "r = r1" by (auto simp: sc_refill_def)
    moreover have "counter_inv sinv srec st1 tr"
      using False k i by (intro counter_invI_failed) (simp_all add: counter_shape_def)
    ultimately show ?thesis using False by simp
  next
    case ok: True
    let ?st2 = "st1\<lparr>sc_blob := store_at (8 + 4 * d) (encode32 e) (sc_blob st1)\<rparr>"
    obtain r3 st3 where cm: "sc_commit cfg sops l ?st2 = (r3, st3)" by fastforce
    have un: "sc_until st1 = sc_until st" "sc_blob st1 = sc_blob st" using k by simp_all
    have run': "(r, st') = (if r3 \<noteq> SECURITY_COUNTER_OK then (r3, st3)
        else (SECURITY_COUNTER_OK, st3\<lparr>sc_until := (sc_until st3)[d := e]\<rparr>))"
      using run [unfolded sc_refill_def Let_def cu prod.case un(1), folded e_def] nx cm ok by simp
    have b2: "length (sc_blob ?st2) = 128" "sc_blob ?st2 ! 5 = sc_blob st ! 5"
      "\<And>x. x < 2 \<Longrightarrow> ceiling (sc_blob ?st2) x = (if x = d then e else ceiling (sc_blob st) x)"
      using i(2) d un ceiling_store [of "sc_blob st" _ d e] by (simp_all add: counter_shape_def nth_store_at)
    have b5: "unat (sc_blob ?st2 ! 5) \<le> 112" using i(4) by (simp only: b2(2) cursors_ok_def)
    have sh2: "counter_shape ?st2" using b2(1) i(2) k by (simp add: counter_shape_def)
    have ab: "v < ceiling (sc_blob ?st2) x" if "x < 2" "(x, v) \<in> set tr" for x v
      using i(4) b2(3) [OF that(1)] that ue eq by (fastforce simp: cursors_ok_def)
    have s1: "sinv (sc_store ?st2)" "durable_above (srec (sc_store ?st2)) tr" using k i(3) by simp_all
    have sto: "sc_store st' = sc_store st3" "r3 = SECURITY_COUNTER_OK \<longleftrightarrow> r = SECURITY_COUNTER_OK" using run' by (auto split: if_splits)
    have c: "sinv (sc_store st3) \<and> counter_shape st3 \<and> durable_above (srec (sc_store st3)) tr"
      by (rule commit_inv [OF s1(1) sh2 b5 s1(2) ab cm]) (use se k sto in \<open>auto simp: settled_def\<close>)
    note sp = sc_commit_spec [OF s1(1) b2(1) b5 cm]
    show ?thesis
    proof (cases "r3 = SECURITY_COUNTER_OK")
      case False
      with sp c run' show ?thesis using counter_invI_failed [of sinv st3 srec tr] by (auto simp: Let_def)
    next
      case True
      then have st': "st' = st3\<lparr>sc_until := (sc_until st3)[d := e]\<rparr>" "r = SECURITY_COUNTER_OK" using run' by simp_all
      have l2: "length (sc_until st) = 2" using i(2) by (simp add: counter_shape_def)
      have sp': "sc_blob st3 = sc_blob ?st2" "sc_next st3 = sc_next st" "sc_until st3 = sc_until st"
        "sc_state st3 = SECURITY_COUNTER_READY" "sc_generation st3 \<noteq> 0" "srec (sc_store st3) = Some (committed st3)"
        "sc_payload_length st3 = sc_blob st3 ! 5"
        using sp True k by (simp_all add: Let_def)
      have "cursors_ok st' tr"
        using i(4) st'(1) sp' b2(2,3) d ue eq l2 b5
        by (auto simp: cursors_ok_def nth_list_update intro: order.strict_implies_order)
      then show ?thesis using c st' sp' d l2 ue eq
        by (simp add: counter_inv_def counter_shape_def committed_def)
    qed
  qed
qed

lemma take_inv:
  assumes inv: "counter_inv sinv srec st tr" and op: "security_counter_take cfg sops d a l st = (r, x, st')"
    and se: "r = SECURITY_COUNTER_OK \<or> settled sops srec st st'"
  shows "counter_inv sinv srec st' (tr @ (case x of None \<Rightarrow> [] | Some v \<Rightarrow> [(d, v)])) \<and>
    (\<forall>v. x = Some v \<longrightarrow> (\<forall>v'. (d, v') \<in> set tr \<longrightarrow> v' < v) \<and> v \<noteq> 0xffffffff)"
proof -
  define go where "go = (sc_state st = SECURITY_COUNTER_READY \<and> d < 2 \<and> a \<noteq> None \<and> l \<noteq> 0 \<and> sc_caller cfg (the a) 4)"
  obtain r1 st1 where rf: "(if sc_next st ! d = sc_until st ! d then sc_refill cfg sops d l st else (SECURITY_COUNTER_OK, st)) = (r1, st1)"
    by fastforce
  consider "\<not> go" "st' = st" "x = None" | "go" "r1 \<noteq> SECURITY_COUNTER_OK" "st' = st1" "x = None" "r = r1"
    | "go" "r1 = SECURITY_COUNTER_OK" "st' = st1\<lparr>sc_next := (sc_next st1)[d := sc_next st1 ! d + 1], sc_result := SECURITY_COUNTER_OK\<rparr>"
      "x = Some (sc_next st1 ! d)"
    using op counter_inv_ready [OF inv] unfolding security_counter_take_def rf prod.case go_def
    by (auto simp: sc_finish_def Let_def split: if_splits)
  then show ?thesis
  proof cases
    case 1
    with inv show ?thesis by simp
  next
    case 2
    then have "sc_refill cfg sops d l st = (r1, st1)" "sc_next st ! d = sc_until st ! d" using rf by (auto split: if_splits)
    with refill_inv [OF inv _ _ _ this(1)] 2 se show ?thesis by (simp add: go_def)
  next
    case 3
    have d: "d < 2" and rd: "sc_state st = SECURITY_COUNTER_READY" using 3(1) by (simp_all add: go_def)
    have one: "counter_inv sinv srec st1 tr" "sc_state st1 = SECURITY_COUNTER_READY" "sc_generation st1 \<noteq> 0"
      "sc_next st1 ! d < sc_until st1 ! d"
      using refill_inv [OF inv rd d, of cfg l r1 st1] rf 3(2) inv rd d
      by (auto simp: counter_inv_def cursors_ok_def order.strict_iff_order split: if_splits)
    let ?v = "sc_next st1 ! d"
    have i: "sinv (sc_store st1)" "counter_shape st1" "durable_above (srec (sc_store st1)) tr" "cursors_ok st1 tr"
      "srec (sc_store st1) = Some (committed st1)"
      using one(1-3) unfolding counter_inv_def by blast+
    have w: "?v < ?v + 1" "?v + 1 \<le> sc_until st1 ! d" by (rule word_succ_below [OF one(4)])+
    have ce: "sc_until st1 ! d = ceiling (snd (committed st1)) d"
      using i(4) d by (simp add: cursors_ok_def committed_def ceiling_take)
    have "durable_above (srec (sc_store st1)) (tr @ [(d, ?v)])"
      using i(3,5) d one(4) ce by (cases "committed st1") (auto simp: durable_above_def)
    moreover have "cursors_ok st' (tr @ [(d, ?v)])"
      using i(2,4) d w 3(3) one(3) order.strict_trans [OF _ w(1)]
      by (auto simp: cursors_ok_def counter_shape_def nth_list_update)
    ultimately have "counter_inv sinv srec st' (tr @ [(d, ?v)])"
      using i one 3(3) by (simp add: counter_inv_def counter_shape_def committed_def)
    moreover have "?v \<noteq> 0xffffffff" using w(1) by (auto simp: word_less_nat_alt)
    moreover have "\<forall>v'. (d, v') \<in> set tr \<longrightarrow> v' < ?v" using i(4) d by (simp add: cursors_ok_def)
    ultimately show ?thesis using 3(4) by simp
  qed
qed

lemma boot_inv:
  "sinv n \<Longrightarrow> durable_above (srec n) tr \<Longrightarrow> counter_inv sinv srec (counter_boot n) tr"
  by (simp add: counter_inv_def counter_boot_def counter_shape_def)

lemma reach_inv:
  "counter_reach cfg sops sinv srec st tr \<Longrightarrow> counter_inv sinv srec st tr \<and>
     (\<forall>d. sorted_wrt (<) (taken_of d tr)) \<and> 0xffffffff \<notin> snd ` set tr"
proof (induction rule: counter_reach.induct)
  case (Boot n)
  then show ?case using boot_inv [of n "[]"] by (simp add: taken_of_def)
next
  case (Reset st tr n)
  then have "durable_above (srec n) tr" by (simp add: counter_inv_def)
  with Reset boot_inv show ?case by blast
next
  case (Take st tr d target l r x st')
  have i: "counter_inv sinv srec st tr" and so: "\<forall>d. sorted_wrt (<) (taken_of d tr)" and n: "0xffffffff \<notin> snd ` set tr"
    using Take.IH by blast+
  note t = take_inv [OF i Take.hyps(2,3)]
  show ?case
  proof (cases x)
    case (Some v)
    then have "sorted_wrt (<) (taken_of d' (tr @ [(d, v)]))" for d'
      using so t by (auto simp: sorted_wrt_append set_taken_of) (simp_all add: taken_of_def)
    with t Some n show ?thesis by auto
  qed (use t so n in simp)
qed (blast intro: open_inv create_inv restage_inv save_inv read_inv)+

end

end
