(* ===== verification/Flash_Live.thy ===== *)
theory Flash_Live
  imports Flash_Proof Counter_Proof
begin

text \<open>
  The flash services succeed on a chip in the state they check for, so they provide the
  contract \<open>nv_flash\<close> in full: the interpretation at the end carries the journal's lemmas
  over to the firmware's own reader, executor and writer.
\<close>

section \<open>What is assumed of an idle chip\<close>

text \<open>
  \<open>Q h\<close>: the chip is idle. Then the registers of the flash services read back as the
  register files \<open>R h\<close> and \<open>X h\<close> say and without side effect, hold the values the guards
  demand, take what is written to them, and a command finishes within an \<open>enough\<close> poll
  limit with the documented effect on the addressed page or word.
\<close>

definition guard_sfrs :: "u8 set" where
  "guard_sfrs = {SOC_IEN0, SOC_IEN1, SOC_IEN2, SOC_SLEEPCMD, SOC_CLKCONCMD, SOC_CLKCONSTA, SOC_DMAARM,
     SOC_DMAREQ, SOC_MEMCTR}"

definition flash_regs :: "u16 set" where
  "flash_regs = {FCTL, 0x6271, 0x6272, 0x624a, 0x6276, 0x6277}"

definition chip_accepts :: "(u8 \<Rightarrow> u8) \<Rightarrow> (u16 \<Rightarrow> u8) \<Rightarrow> bool" where
  "chip_accepts R X \<longleftrightarrow> R SOC_IEN0 = 0 \<and> R SOC_IEN1 = 0 \<and> R SOC_IEN2 = 0 \<and> R SOC_DMAARM = 0 \<and> R SOC_DMAREQ = 0 \<and>
     R SOC_SLEEPCMD AND 7 = 4 \<and> clock_ok (R SOC_CLKCONCMD) \<and> R SOC_CLKCONSTA = R SOC_CLKCONCMD \<and>
     X FCTL AND 0x0c = X FCTL \<and> X 0x624a = 0xa5 \<and> X 0x6276 = 0x44 \<and> X 0x6277 AND 7 = 7"

text \<open>\<open>regs_upd\<close>: the hardware is idle again and only the given registers changed.\<close>

definition regs_kept :: "('m \<Rightarrow> bool) \<Rightarrow> ('m \<Rightarrow> u8 \<Rightarrow> u8) \<Rightarrow> ('m \<Rightarrow> u16 \<Rightarrow> u8) \<Rightarrow> (u8 \<Rightarrow> u8) \<Rightarrow> (u16 \<Rightarrow> u8) \<Rightarrow> 'm \<Rightarrow> bool" where
  "regs_kept Q R X R0 X0 h \<longleftrightarrow> Q h \<and> (\<forall>a \<in> guard_sfrs. R h a = R0 a) \<and> (\<forall>a \<in> flash_regs. X h a = X0 a)"

definition flash_chip_idle :: "'m bus \<Rightarrow> ('m \<Rightarrow> nat \<Rightarrow> bytes) \<Rightarrow> ('m \<Rightarrow> u16) \<Rightarrow> ('m \<Rightarrow> bool) \<Rightarrow> ('m \<Rightarrow> u8 \<Rightarrow> u8) \<Rightarrow>
    ('m \<Rightarrow> u16 \<Rightarrow> u8) \<Rightarrow> (u16 \<Rightarrow> bool) \<Rightarrow> bool" where
  "flash_chip_idle bus F faddr Q R X enough \<longleftrightarrow>
     (\<forall>h a. Q h \<longrightarrow> a \<in> guard_sfrs \<longrightarrow> sfr_read bus a h = (R h a, h)) \<and>
     (\<forall>h a. Q h \<longrightarrow> a \<in> flash_regs \<longrightarrow> xread bus a h = (X h a, h)) \<and>
     (\<forall>h a. Q h \<longrightarrow> NV_WINDOW \<le> a \<longrightarrow> snd (xread bus a h) = h) \<and>
     (\<forall>h. Q h \<longrightarrow> chip_accepts (R h) (X h)) \<and>
     (\<forall>h v. Q h \<longrightarrow> regs_kept Q R X ((R h)(SOC_MEMCTR := v)) (X h) (sfr_write bus SOC_MEMCTR v h)) \<and>
     (\<forall>h v. Q h \<longrightarrow> regs_kept Q R X (R h) ((X h)(0x6271 := v)) (xwrite bus 0x6271 v h)) \<and>
     (\<forall>h v. Q h \<longrightarrow> regs_kept Q R X (R h) ((X h)(0x6272 := v)) (xwrite bus 0x6272 v h)) \<and>
     (\<forall>h operation w l p off. Q h \<longrightarrow> enough l \<longrightarrow> length w = 4 \<longrightarrow> p < 2 \<longrightarrow> off < 2048 \<longrightarrow> off mod 4 = 0 \<longrightarrow>
        faddr h = nv_target_word p off \<longrightarrow>
        (operation = FLASH_EXEC_PROGRAM \<longrightarrow> take 4 (drop off (F h p)) = [255, 255, 255, 255]) \<longrightarrow>
        (\<exists>h'. flash_exec_template bus (X h FCTL OR operation_code operation) w l h = (FLASH_EXEC_IDLE, h') \<and>
           regs_kept Q R X (R h) (X h) h' \<and>
           F h' p = (case operation of FLASH_EXEC_PROGRAM \<Rightarrow> store_at off w (F h p)
              | FLASH_EXEC_ERASE \<Rightarrow> replicate 2048 255))) \<and>
     (\<forall>l. enough l \<longrightarrow> l \<noteq> 0)"

lemma flash_chip_idleD:
  assumes "flash_chip_idle bus F faddr Q R X enough"
  shows "Q h \<Longrightarrow> a \<in> guard_sfrs \<Longrightarrow> sfr_read bus a h = (R h a, h)"
    and "Q h \<Longrightarrow> x \<in> flash_regs \<Longrightarrow> xread bus x h = (X h x, h)"
    and "Q h \<Longrightarrow> NV_WINDOW \<le> y \<Longrightarrow> snd (xread bus y h) = h"
    and "Q h \<Longrightarrow> chip_accepts (R h) (X h)"
    and "Q h \<Longrightarrow> regs_kept Q R X ((R h)(SOC_MEMCTR := v)) (X h) (sfr_write bus SOC_MEMCTR v h)"
    and "Q h \<Longrightarrow> regs_kept Q R X (R h) ((X h)(0x6271 := v)) (xwrite bus 0x6271 v h)"
    and "Q h \<Longrightarrow> regs_kept Q R X (R h) ((X h)(0x6272 := v)) (xwrite bus 0x6272 v h)"
    and "Q h \<Longrightarrow> enough l \<Longrightarrow> length w = 4 \<Longrightarrow> p < 2 \<Longrightarrow> off < 2048 \<Longrightarrow> off mod 4 = 0 \<Longrightarrow>
        faddr h = nv_target_word p off \<Longrightarrow>
        (operation = FLASH_EXEC_PROGRAM \<longrightarrow> take 4 (drop off (F h p)) = [255, 255, 255, 255]) \<Longrightarrow>
        (\<exists>h'. flash_exec_template bus (X h FCTL OR operation_code operation) w l h = (FLASH_EXEC_IDLE, h') \<and>
           regs_kept Q R X (R h) (X h) h' \<and>
           F h' p = (case operation of FLASH_EXEC_PROGRAM \<Rightarrow> store_at off w (F h p)
              | FLASH_EXEC_ERASE \<Rightarrow> replicate 2048 255))"
    and "enough l \<Longrightarrow> l \<noteq> 0"
  by (insert assms [unfolded flash_chip_idle_def]) (elim conjE, simp)+

section \<open>Reader\<close>

lemma quiet_sfr_reads:
  "flash_chip_idle bus F faddr Q R X enough \<Longrightarrow> Q h \<Longrightarrow> set as \<subseteq> guard_sfrs \<Longrightarrow>
   sfr_reads bus as h = (map (R h) as, h)"
  by (rule sfr_reads_quiet) (blast intro: flash_chip_idleD(1))

lemma quiet_xreads:
  "flash_chip_idle bus F faddr Q R X enough \<Longrightarrow> Q h \<Longrightarrow> set as \<subseteq> flash_regs \<Longrightarrow>
   xreads bus as h = (map (X h) as, h)"
  by (rule xreads_quiet) (blast intro: flash_chip_idleD(2))

lemma guard_sfrs_mem [simp]:
  "0xa8 \<in> guard_sfrs" "0xb8 \<in> guard_sfrs" "0x9a \<in> guard_sfrs" "0xbe \<in> guard_sfrs" "0xc6 \<in> guard_sfrs"
  "0x9e \<in> guard_sfrs" "0xd6 \<in> guard_sfrs" "0xd7 \<in> guard_sfrs" "0xc7 \<in> guard_sfrs"
  "0x6270 \<in> flash_regs" "0x6271 \<in> flash_regs" "0x6272 \<in> flash_regs" "0x624a \<in> flash_regs" "0x6276 \<in> flash_regs"
  "0x6277 \<in> flash_regs"
  by (simp_all add: guard_sfrs_def flash_regs_def)

lemma observe_live:
  assumes i: "flash_chip_idle bus F faddr Q R X enough" and q: "Q (flash_hw st)"
    and "saved_clock st = R (flash_hw st) SOC_CLKCONCMD" "saved_cache st = X (flash_hw st) FCTL"
    and "R (flash_hw st) SOC_MEMCTR = b"
  shows "observe bus b st = (FLASH_OK, st)"
  using flash_chip_idleD(4) [OF i q] assms(3-5) flash_chip_idleD(1) [OF i q] flash_chip_idleD(2) [OF i q]
  by (simp add: observe_def chip_accepts_def quiet_sfr_reads [OF i q] Let_def del: sfr_reads.simps)

lemma exec_idle_live:
  assumes i: "flash_chip_idle bus F faddr Q R X enough" and q: "Q (flash_hw st)"
    and "exec_clock st = R (flash_hw st) SOC_CLKCONCMD" "exec_cache st = X (flash_hw st) FCTL"
    and "R (flash_hw st) SOC_MEMCTR = b"
  shows "exec_idle bus b st = (True, st)"
  using flash_chip_idleD(4) [OF i q] assms(3-5) flash_chip_idleD(1) [OF i q] flash_chip_idleD(2) [OF i q]
  by (simp add: exec_idle_def chip_accepts_def quiet_sfr_reads [OF i q] Let_def del: sfr_reads.simps)

lemma window_address:
  assumes "p < 2" and "off + i < 2048"
  shows "NV_WINDOW \<le> NV_WINDOW + of_nat p * 2048 + of_nat off + (of_nat i :: u16)"
proof -
  have "NV_WINDOW + of_nat p * 2048 + of_nat off + of_nat i = (of_nat (0xe800 + p * 2048 + off + i) :: u16)" by simp
  moreover have "unat (of_nat (0xe800 + p * 2048 + off + i) :: u16) = 0xe800 + p * 2048 + off + i"
    using assms by (subst unat_of_nat) simp
  ultimately show ?thesis by (simp add: word_le_nat_alt)
qed

lemma window_quiet:
  assumes i: "flash_chip_idle bus F faddr Q R X enough" and q: "Q h"
  shows "\<forall>a \<in> set as. NV_WINDOW \<le> a \<Longrightarrow> snd (xreads bus as h) = h"
proof (induction as)
  case (Cons a as)
  obtain v h1 where x: "xread bus a h = (v, h1)" by fastforce
  with flash_chip_idleD(3) [OF i q, of a] Cons.prems have "h1 = h" by simp
  with Cons x show ?case by (simp add: split_beta)
qed simp

text \<open>The linker's addresses are outside what the services reserve, the template fits.\<close>

definition config_ok :: "flash_config \<Rightarrow> bool" where
  "config_ok cfg \<longleftrightarrow>
     cfg_flash_end cfg < cfg_check cfg \<and> unat (cfg_check cfg) + 32 \<le> 0x1e00 \<and>
     cfg_flash_end cfg < cfg_nv_chunk cfg \<and> unat (cfg_nv_chunk cfg) + 32 \<le> 0x1e00 \<and>
     cfg_exec_end cfg < cfg_write_word cfg \<and> cfg_write_word cfg \<le> 0x1dfc \<and>
     cfg_write_end cfg < cfg_nv_word cfg \<and> cfg_nv_word cfg \<le> 0x1dfc \<and>
     0 < cfg_template_size cfg \<and> cfg_template_size cfg \<le> 123 \<and> cfg_ram cfg \<le> 0x1e00 - 123"

text \<open>The hardware state the services start from: idle, with the XDATA window on a code bank.\<close>

definition ready :: "('m \<Rightarrow> bool) \<Rightarrow> ('m \<Rightarrow> u8 \<Rightarrow> u8) \<Rightarrow> 'm \<Rightarrow> bool" where
  "ready Q R h \<longleftrightarrow> Q h \<and> R h SOC_MEMCTR AND 0xf8 = 0"

lemma read_mapped_live:
  assumes i: "flash_chip_idle bus F faddr Q R X enough" and q: "Q (flash_hw st)"
    and sv: "saved_clock st = R (flash_hw st) SOC_CLKCONCMD" "saved_cache st = X (flash_hw st) FCTL"
    "saved_bank st = R (flash_hw st) SOC_MEMCTR"
    and p: "p < 2" "off + n \<le> 2048"
  shows "\<exists>d h. read_mapped bus p off n st = (FLASH_OK, d, st\<lparr>flash_hw := h\<rparr>) \<and>
    regs_kept Q R X (R (flash_hw st)) (X (flash_hw st)) h"
proof -
  let ?h = "flash_hw st" and ?b = "saved_bank st"
  let ?h1 = "sfr_write bus SOC_MEMCTR 7 ?h"
  let ?h2 = "sfr_write bus SOC_MEMCTR ?b ?h1"
  let ?as = "map (\<lambda>i. NV_WINDOW + of_nat p * 2048 + of_nat off + of_nat i) [0..<n] :: u16 list"
  have r1: "regs_kept Q R X ((R ?h)(SOC_MEMCTR := 7)) (X ?h) ?h1" by (rule flash_chip_idleD(5) [OF i q])
  then have q1: "Q ?h1" by (simp add: regs_kept_def)
  have r2: "regs_kept Q R X (R ?h) (X ?h) ?h2"
    using flash_chip_idleD(5) [OF i q1, of ?b] r1 sv(3) by (auto simp: regs_kept_def)
  obtain d where x: "xreads bus ?as ?h1 = (d, ?h1)"
    using window_quiet [OF i q1, of ?as] window_address [OF p(1)] p(2) by (cases "xreads bus ?as ?h1") auto
  have o1: "observe bus 7 (st\<lparr>flash_hw := ?h1\<rparr>) = (FLASH_OK, st\<lparr>flash_hw := ?h1\<rparr>)"
    by (rule observe_live [OF i]) (use q1 r1 sv in \<open>simp_all add: regs_kept_def\<close>)
  have o2: "observe bus ?b (st\<lparr>flash_hw := ?h2\<rparr>) = (FLASH_OK, st\<lparr>flash_hw := ?h2\<rparr>)"
    by (rule observe_live [OF i]) (use r2 sv in \<open>simp_all add: regs_kept_def\<close>)
  have "read_mapped bus p off n st = (FLASH_OK, d, st\<lparr>flash_hw := ?h2\<rparr>)"
    using o1 o2 x by (simp add: read_mapped_def Let_def)
  with r2 show ?thesis by blast
qed

lemma flash_nv_read_live:
  assumes i: "flash_chip_idle bus F faddr Q R X enough" and q: "ready Q R (flash_hw st)"
    and f: "flash_fault st = FLASH_OK" and a: "cfg_flash_end cfg < a" "unat a + 32 \<le> 0x1e00"
    and n: "0 < n" "n \<le> 32" and p: "p < 2" "off + n \<le> 2048"
  shows "\<exists>d h b c k. flash_nv_read cfg bus p off (Some a) n st =
      (FLASH_OK, d, st\<lparr>flash_hw := h, saved_bank := b, saved_clock := c, saved_cache := k\<rparr>) \<and>
    regs_kept Q R X (R (flash_hw st)) (X (flash_hw st)) h"
proof -
  let ?h = "flash_hw st"
  have q': "Q ?h" "R ?h SOC_MEMCTR AND 0xf8 = 0" using q by (simp_all add: ready_def)
  have acc: "chip_accepts (R ?h) (X ?h)" by (rule flash_chip_idleD(4) [OF i q'(1)])
  define st1 where "st1 = st\<lparr>saved_bank := R ?h SOC_MEMCTR, saved_clock := R ?h SOC_CLKCONCMD, saved_cache := X ?h FCTL\<rparr>"
  have sv: "flash_hw st1 = ?h" "saved_bank st1 = R ?h SOC_MEMCTR" "saved_clock st1 = R ?h SOC_CLKCONCMD" "saved_cache st1 = X ?h FCTL"
    "st1\<lparr>flash_hw := ?h\<rparr> = st1"
    using acc by (simp_all add: st1_def chip_accepts_def)
  have ob: "observe bus (R ?h SOC_MEMCTR) st1 = (FLASH_OK, st1)"
    by (rule observe_live [OF i]) (use q' sv in simp_all)
  obtain d h where m: "read_mapped bus p off n st1 = (FLASH_OK, d, st1\<lparr>flash_hw := h\<rparr>)"
    "regs_kept Q R X (R ?h) (X ?h) h"
    using read_mapped_live [OF i, of st1 p off n] q' sv p by auto
  have rds: "sfr_reads bus [SOC_MEMCTR, SOC_CLKCONCMD] ?h = ([R ?h SOC_MEMCTR, R ?h SOC_CLKCONCMD], ?h)"
    "xread bus FCTL ?h = (X ?h FCTL, ?h)"
    "xreads bus [0x624a, 0x6276, 0x6277] ?h = ([X ?h 0x624a, X ?h 0x6276, X ?h 0x6277], ?h)"
    using quiet_sfr_reads [OF i q'(1)] quiet_xreads [OF i q'(1), of "[0x624a, 0x6276, 0x6277]"]
      flash_chip_idleD(2) [OF i q'(1), of FCTL] by (simp_all del: sfr_reads.simps xreads.simps)
  have gd: "\<not> (FLASH_NV_PAGE_COUNT \<le> p \<or> FLASH_PAGE_SIZE \<le> off \<or> FLASH_PAGE_SIZE - off < n)"
    "\<not> (0x1e00 \<le> unat a \<or> 0x1e00 - unat a < n)" "\<not> (n = 0 \<or> FLASH_READ_MAX < n)" "\<not> a \<le> cfg_flash_end cfg"
    using a n p by auto
  have "flash_nv_read cfg bus p off (Some a) n st = (FLASH_OK, d, st1\<lparr>flash_hw := h\<rparr>)"
    using f gd q' acc sv m(1)
    by (simp add: flash_nv_read_def Let_def rds ob chip_accepts_def sv(5) flip: st1_def del: sfr_reads.simps xreads.simps)
  then show ?thesis using m(2) unfolding st1_def
    by (intro exI [of _ d] exI [of _ h] exI [of _ "R ?h SOC_MEMCTR"] exI [of _ "R ?h SOC_CLKCONCMD"]
        exI [of _ "X ?h FCTL"] conjI) simp_all
qed

section \<open>Executor\<close>

lemma address_written:
  assumes c: "flash_chip bus F bank faddr" and i: "flash_chip_idle bus F faddr Q R X enough" and q: "Q h"
  shows "\<exists>h'. xwrites bus [(0x6271, ucast t), (0x6272, ucast (drop_bit 8 t))] h = h' \<and>
    xreads bus [0x6271, 0x6272] h' = ([ucast t, ucast (drop_bit 8 t)], h') \<and> faddr h' = t \<and> F h' = F h \<and>
    Q h' \<and> (\<forall>a \<in> guard_sfrs. R h' a = R h a) \<and> (\<forall>a \<in> flash_regs - {0x6271, 0x6272}. X h' a = X h a)"
proof -
  let ?h1 = "xwrite bus 0x6271 (ucast t) h"
  let ?h2 = "xwrite bus 0x6272 (ucast (drop_bit 8 t)) ?h1"
  have r1: "regs_kept Q R X (R h) ((X h)(0x6271 := ucast t)) ?h1" by (rule flash_chip_idleD(6) [OF i q])
  then have q1: "Q ?h1" by (simp add: regs_kept_def)
  have r2: "regs_kept Q R X (R ?h1) ((X ?h1)(0x6272 := ucast (drop_bit 8 t))) ?h2" by (rule flash_chip_idleD(7) [OF i q1])
  then have q2: "Q ?h2" by (simp add: regs_kept_def)
  have x: "xreads bus [0x6271, 0x6272] ?h2 = ([ucast t, ucast (drop_bit 8 t)], ?h2)"
    using quiet_xreads [OF i q2, of "[0x6271, 0x6272]"] r1 r2 by (simp add: regs_kept_def del: xreads.simps)
  have "faddr ?h2 = t"
    using flash_chipD(12,13) [OF c, of ?h2] by (intro u16_bytes_eq) (simp_all add: x del: xreads.simps)
  with x q2 r1 r2 show ?thesis by (simp add: regs_kept_def flash_chipD(8,9) [OF c] del: xreads.simps)
qed

lemma exec_run_live:
  assumes c: "flash_chip bus F bank faddr" and i: "flash_chip_idle bus F faddr Q R X enough" and q: "Q (flash_hw st)"
    and sv: "exec_clock st = R (flash_hw st) SOC_CLKCONCMD" "exec_cache st = X (flash_hw st) FCTL"
    "exec_mapping st = R (flash_hw st) SOC_MEMCTR"
    and l: "enough l" and p: "p < 2" "off < 2048" "off mod 4 = 0" and w: "length w = 4 \<or> operation = FLASH_EXEC_ERASE"
    and er: "operation = FLASH_EXEC_PROGRAM \<longrightarrow> take 4 (drop off (F (flash_hw st) p)) = [255, 255, 255, 255]"
  shows "\<exists>h. exec_run bus operation p off w l st = (FLASH_EXEC_IDLE, st\<lparr>flash_hw := h\<rparr>) \<and> Q h \<and>
    (\<forall>a \<in> guard_sfrs. R h a = R (flash_hw st) a) \<and>
    F h p = (case operation of FLASH_EXEC_PROGRAM \<Rightarrow> store_at off w (F (flash_hw st) p)
              | FLASH_EXEC_ERASE \<Rightarrow> replicate 2048 255)"
proof -
  let ?h = "flash_hw st" and ?m = "exec_mapping st" and ?t = "nv_target_word p off"
  let ?w = "if operation = FLASH_EXEC_PROGRAM then w else [0, 0, 0, 0]"
  have i1: "exec_idle bus ?m st = (True, st)" by (rule exec_idle_live [OF i q sv(1,2)]) (simp add: sv)
  obtain h1 where h1: "xwrites bus [(0x6271, ucast ?t), (0x6272, ucast (drop_bit 8 ?t))] ?h = h1"
    "xreads bus [0x6271, 0x6272] h1 = ([ucast ?t, ucast (drop_bit 8 ?t)], h1)" "faddr h1 = ?t" "F h1 = F ?h" "Q h1"
    "\<forall>a \<in> guard_sfrs. R h1 a = R ?h a" "\<forall>a \<in> flash_regs - {0x6271, 0x6272}. X h1 a = X ?h a"
    using address_written [OF c i q, of ?t] by blast
  let ?h2 = "sfr_write bus SOC_MEMCTR (?m OR 8) h1"
  have r2: "regs_kept Q R X ((R h1)(SOC_MEMCTR := ?m OR 8)) (X h1) ?h2" by (rule flash_chip_idleD(5) [OF i h1(5)])
  then have q2: "Q ?h2" by (simp add: regs_kept_def)
  have s2: "sfr_read bus SOC_MEMCTR ?h2 = (?m OR 8, ?h2)"
    using flash_chip_idleD(1) [OF i q2, of SOC_MEMCTR] r2 by (simp add: regs_kept_def)
  have i2: "exec_idle bus (?m OR 8) (st\<lparr>flash_hw := ?h2\<rparr>) = (True, st\<lparr>flash_hw := ?h2\<rparr>)"
    by (rule exec_idle_live [OF i]) (use r2 h1 sv in \<open>simp_all add: regs_kept_def\<close>)
  have F2: "F ?h2 = F ?h" "faddr ?h2 = ?t" "X ?h2 FCTL = exec_cache st"
    using flash_chipD(6,7) [OF c] h1 r2 sv by (simp_all add: regs_kept_def)
  obtain h3 where h3: "flash_exec_template bus (exec_cache st OR operation_code operation) ?w l ?h2 = (FLASH_EXEC_IDLE, h3)"
    "regs_kept Q R X (R ?h2) (X ?h2) h3"
    "F h3 p = (case operation of FLASH_EXEC_PROGRAM \<Rightarrow> store_at off ?w (F ?h p) | FLASH_EXEC_ERASE \<Rightarrow> replicate 2048 255)"
    using flash_chip_idleD(8) [OF i q2 l _ p F2(2), of ?w operation] w er
    by (cases operation) (auto simp: F2)
  have i3: "exec_idle bus (?m OR 8) (st\<lparr>flash_hw := h3\<rparr>) = (True, st\<lparr>flash_hw := h3\<rparr>)"
    by (rule exec_idle_live [OF i]) (use r2 h1 h3 sv in \<open>simp_all add: regs_kept_def\<close>)
  let ?h4 = "sfr_write bus SOC_MEMCTR ?m h3"
  have q3: "Q h3" using h3 by (simp add: regs_kept_def)
  have r4: "regs_kept Q R X ((R h3)(SOC_MEMCTR := ?m)) (X h3) ?h4" by (rule flash_chip_idleD(5) [OF i q3])
  then have q4: "Q ?h4" by (simp add: regs_kept_def)
  have s4: "sfr_read bus SOC_MEMCTR ?h4 = (?m, ?h4)"
    using flash_chip_idleD(1) [OF i q4, of SOC_MEMCTR] r4 by (simp add: regs_kept_def)
  have "exec_run bus operation p off w l st = (FLASH_EXEC_IDLE, st\<lparr>flash_hw := ?h4\<rparr>)"
    unfolding exec_run_def Let_def nv_target_word_def [symmetric]
    by (simp add: i1 h1(1,2) s2 i2 h3(1) i3 s4 del: xwrites.simps xreads.simps)
  moreover have "\<forall>a \<in> guard_sfrs. R ?h4 a = R ?h a"
    using r4 h3(2) r2 h1(6) sv(3) by (auto simp: regs_kept_def)
  moreover have "F ?h4 p = (case operation of FLASH_EXEC_PROGRAM \<Rightarrow> store_at off w (F ?h p) | FLASH_EXEC_ERASE \<Rightarrow> replicate 2048 255)"
    using h3(3) flash_chipD(6) [OF c] by (cases operation) simp_all
  ultimately show ?thesis using q4 by blast
qed

lemma flash_exec_command_live:
  assumes c: "flash_chip bus F bank faddr" and i: "flash_chip_idle bus F faddr Q R X enough"
    and cfg: "config_ok cfg" and q: "ready Q R (flash_hw st)" and lt: "flash_exec_latch st = FLASH_EXEC_IDLE"
    and l: "enough l" and p: "p < 2" "off < 2048" "off mod 4 = 0" and w: "length w = 4 \<or> operation = FLASH_EXEC_ERASE"
    and o0: "operation = FLASH_EXEC_ERASE \<longrightarrow> off = 0"
    and er: "operation = FLASH_EXEC_PROGRAM \<longrightarrow> take 4 (drop off (F (flash_hw st) p)) = [255, 255, 255, 255]"
  shows "\<exists>h m ck ca. flash_exec_command cfg bus operation p off (Some (cfg_write_word cfg, w)) l st =
      (FLASH_EXEC_IDLE, st\<lparr>flash_hw := h, exec_mapping := m, exec_clock := ck, exec_cache := ca\<rparr>) \<and> ready Q R h \<and>
    F h p = (case operation of FLASH_EXEC_PROGRAM \<Rightarrow> store_at off w (F (flash_hw st) p)
              | FLASH_EXEC_ERASE \<Rightarrow> replicate 2048 255)"
proof -
  let ?h = "flash_hw st"
  have q': "Q ?h" "R ?h SOC_MEMCTR AND 0xf8 = 0" using q by (simp_all add: ready_def)
  have acc: "chip_accepts (R ?h) (X ?h)" by (rule flash_chip_idleD(4) [OF i q'(1)])
  define st1 where "st1 = st\<lparr>exec_mapping := R ?h SOC_MEMCTR, exec_clock := R ?h SOC_CLKCONCMD, exec_cache := X ?h FCTL\<rparr>"
  have sv: "flash_hw st1 = ?h" "exec_mapping st1 = R ?h SOC_MEMCTR" "exec_clock st1 = R ?h SOC_CLKCONCMD"
    "exec_cache st1 = X ?h FCTL" "st1\<lparr>flash_hw := ?h\<rparr> = st1"
    by (simp_all add: st1_def)
  have idle: "exec_idle bus (R ?h SOC_MEMCTR) st1 = (True, st1)"
    by (rule exec_idle_live [OF i]) (use q' sv in simp_all)
  obtain h where m: "exec_run bus operation p off w l st1 = (FLASH_EXEC_IDLE, st1\<lparr>flash_hw := h\<rparr>)" "Q h"
    "\<forall>a \<in> guard_sfrs. R h a = R ?h a"
    "F h p = (case operation of FLASH_EXEC_PROGRAM \<Rightarrow> store_at off w (F ?h p) | FLASH_EXEC_ERASE \<Rightarrow> replicate 2048 255)"
    using exec_run_live [OF c i, of st1 l p off w operation, unfolded sv(1)] q' sv(2-4) l p w er by blast
  have rds: "sfr_reads bus [SOC_MEMCTR, SOC_CLKCONCMD] ?h = ([R ?h SOC_MEMCTR, R ?h SOC_CLKCONCMD], ?h)"
    "xread bus FCTL ?h = (X ?h FCTL, ?h)"
    "xreads bus [0x624a, 0x6276, 0x6277] ?h = ([X ?h 0x624a, X ?h 0x6276, X ?h 0x6277], ?h)"
    using quiet_sfr_reads [OF i q'(1)] quiet_xreads [OF i q'(1), of "[0x624a, 0x6276, 0x6277]"]
      flash_chip_idleD(2) [OF i q'(1), of FCTL] by (simp_all del: sfr_reads.simps xreads.simps)
  have gd: "\<not> (FLASH_NV_PAGE_COUNT \<le> p \<or> l = 0 \<or> FLASH_PAGE_SIZE \<le> off \<or> off mod 4 \<noteq> 0 \<or>
          (operation = FLASH_EXEC_ERASE \<and> off \<noteq> 0))"
    "\<not> (0x1dfc < cfg_write_word cfg \<or> cfg_write_word cfg \<le> cfg_exec_end cfg)"
    "\<not> (cfg_template_size cfg = 0 \<or> 123 < cfg_template_size cfg \<or> 0x1e00 - 123 < cfg_ram cfg)"
    using p flash_chip_idleD(9) [OF i l] o0 cfg by (auto simp: config_ok_def)
  have "flash_exec_command cfg bus operation p off (Some (cfg_write_word cfg, w)) l st = (FLASH_EXEC_IDLE, st1\<lparr>flash_hw := h\<rparr>)"
    using lt gd q' acc m(1) sv(1-4)
    by (simp add: flash_exec_command_def Let_def rds idle chip_accepts_def sv(5) flip: st1_def del: sfr_reads.simps xreads.simps)
  moreover have "ready Q R h" using m(2,3) q' by (simp add: ready_def)
  ultimately show ?thesis using m(4) unfolding st1_def
    by (intro exI [of _ h] exI [of _ "R ?h SOC_MEMCTR"] exI [of _ "R ?h SOC_CLKCONCMD"] exI [of _ "X ?h FCTL"] conjI)
      simp_all
qed

section \<open>Writer\<close>

definition flash_live :: "flash_config \<Rightarrow> ('m \<Rightarrow> bool) \<Rightarrow> ('m \<Rightarrow> u8 \<Rightarrow> u8) \<Rightarrow> 'm flash_state \<Rightarrow> bool" where
  "flash_live cfg Q R st \<longleftrightarrow> config_ok cfg \<and> ready Q R (flash_hw st) \<and> flash_fault st = FLASH_OK \<and>
     flash_exec_latch st = FLASH_EXEC_IDLE \<and> flash_write_result st = FLASH_WRITE_OK"

definition word_fresh :: "('m \<Rightarrow> nat \<Rightarrow> bytes) \<Rightarrow> 'm flash_state \<Rightarrow> nat \<Rightarrow> nat \<Rightarrow> bool" where
  "word_fresh F st p off \<longleftrightarrow> flash_write_known st ! p \<and>
     flash_write_used st ! used_index p off AND used_mask off = 0 \<and>
     take 4 (drop off (F (flash_hw st) p)) = [255, 255, 255, 255]"

text \<open>A read on a live state: the data is right and nothing the writer keeps is lost.\<close>

definition read_kept :: "'m flash_state \<Rightarrow> 'm flash_state \<Rightarrow> bool" where
  "read_kept st st' \<longleftrightarrow> (\<exists>h b c k. st' = st\<lparr>flash_hw := h, saved_bank := b, saved_clock := c, saved_cache := k\<rparr>)"

lemma read_kept_simps:
  assumes "read_kept st st'"
  shows "flash_fault st' = flash_fault st" "flash_exec_latch st' = flash_exec_latch st"
    "flash_write_result st' = flash_write_result st" "flash_write_known st' = flash_write_known st"
    "flash_write_used st' = flash_write_used st"
  using assms by (auto simp: read_kept_def)

lemma read_kept_trans: "read_kept a b \<Longrightarrow> read_kept b c \<Longrightarrow> read_kept a c"
  unfolding read_kept_def by (elim exE) (simp, blast)

lemma flash_nv_read_good:
  assumes c: "flash_chip bus F bank faddr" and i: "flash_chip_idle bus F faddr Q R X enough" and q: "ready Q R (flash_hw st)"
    and f: "flash_fault st = FLASH_OK" and a: "cfg_flash_end cfg < a" "unat a + 32 \<le> 0x1e00"
    and n: "0 < n" "n \<le> 32" and p: "p < 2" "off + n \<le> 2048"
  shows "\<exists>st'. flash_nv_read cfg bus p off (Some a) n st = (FLASH_OK, take n (drop off (F (flash_hw st) p)), st') \<and>
    read_kept st st' \<and> ready Q R (flash_hw st') \<and> F (flash_hw st') = F (flash_hw st)"
proof -
  obtain d h b ck k where r: "flash_nv_read cfg bus p off (Some a) n st =
      (FLASH_OK, d, st\<lparr>flash_hw := h, saved_bank := b, saved_clock := ck, saved_cache := k\<rparr>)"
    "regs_kept Q R X (R (flash_hw st)) (X (flash_hw st)) h"
    using flash_nv_read_live [OF i q f a n p] by blast
  have "ready Q R h" using r(2) q by (simp add: ready_def regs_kept_def)
  with r flash_nv_read_spec [OF c r(1)] show ?thesis
    by (auto simp: read_kept_def)
qed

lemma verify_loop_live:
  assumes c: "flash_chip bus F bank faddr" and i: "flash_chip_idle bus F faddr Q R X enough" and cfg: "config_ok cfg"
    and n: "0 < n" "n \<le> 32" and p: "p < 2"
  shows "ready Q R (flash_hw st) \<Longrightarrow> flash_fault st = FLASH_OK \<Longrightarrow>
    \<forall>o' \<in> set ps. o' + n \<le> 2048 \<and> take n (drop o' (F (flash_hw st) p)) = e \<Longrightarrow>
    \<exists>st'. verify_loop cfg bus p n e ps st = (FLASH_WRITE_OK, st') \<and> read_kept st st' \<and> ready Q R (flash_hw st') \<and>
      F (flash_hw st') = F (flash_hw st)"
proof (induction ps arbitrary: st)
  case Nil
  have "st = st\<lparr>flash_hw := flash_hw st, saved_bank := saved_bank st, saved_clock := saved_clock st, saved_cache := saved_cache st\<rparr>"
    by simp
  then have "read_kept st st" unfolding read_kept_def by blast
  with Nil show ?case by auto
next
  case (Cons x ps)
  obtain st1 where 1: "flash_nv_read cfg bus p x (Some (cfg_check cfg)) n st = (FLASH_OK, e, st1)" "read_kept st st1"
    "ready Q R (flash_hw st1)" "F (flash_hw st1) = F (flash_hw st)"
    using flash_nv_read_good [OF c i Cons.prems(1,2) _ _ n p, of cfg "cfg_check cfg" x] Cons.prems(3) cfg
    by (auto simp: config_ok_def)
  obtain st2 where "verify_loop cfg bus p n e ps st1 = (FLASH_WRITE_OK, st2)" "read_kept st1 st2" "ready Q R (flash_hw st2)"
      "F (flash_hw st2) = F (flash_hw st1)"
    using Cons.IH [OF 1(3)] Cons.prems(2,3) 1(2,4) by (auto simp: read_kept_simps)
  with 1 show ?case using read_kept_trans [OF 1(2)] by auto
qed

lemma operate_run_live:
  assumes c: "flash_chip bus F bank faddr" and i: "flash_chip_idle bus F faddr Q R X enough" and cfg: "config_ok cfg"
    and q: "ready Q R (flash_hw st)" and f: "flash_fault st = FLASH_OK" "flash_exec_latch st = FLASH_EXEC_IDLE"
    and l: "enough l" and p: "p < 2" "off < 2048" "off mod 4 = 0" and w: "length w = 4 \<or> operation = FLASH_EXEC_ERASE"
    and o0: "operation = FLASH_EXEC_ERASE \<longrightarrow> off = 0"
    and er: "operation = FLASH_EXEC_PROGRAM \<longrightarrow> take 4 (drop off (F (flash_hw st) p)) = [255, 255, 255, 255]"
  shows "\<exists>st'. operate_run cfg bus operation p off w l st = (FLASH_WRITE_OK, st') \<and> flash_live cfg Q R st' \<and>
    (case operation of FLASH_EXEC_PROGRAM \<Rightarrow>
        flash_write_used st' = flash_write_used st \<and> flash_write_known st' = flash_write_known st
     | FLASH_EXEC_ERASE \<Rightarrow> flash_write_used st' = store_at (p * 64) (replicate 64 0) (flash_write_used st) \<and>
        flash_write_known st' = (flash_write_known st)[p := True])"
proof -
  let ?st0 = "st\<lparr>flash_write_phase := FLASH_WRITE_COMMAND\<rparr>"
  have off: "off + 4 \<le> 2048" using p by presburger
  have hw0: "flash_hw ?st0 = flash_hw st" "flash_exec_latch ?st0 = flash_exec_latch st" by simp_all
  obtain h m ck ca where x: "flash_exec_command cfg bus operation p off (Some (cfg_write_word cfg, w)) l ?st0 =
      (FLASH_EXEC_IDLE, ?st0\<lparr>flash_hw := h, exec_mapping := m, exec_clock := ck, exec_cache := ca\<rparr>)" "ready Q R h"
    "F h p = (case operation of FLASH_EXEC_PROGRAM \<Rightarrow> store_at off w (F (flash_hw st) p) | FLASH_EXEC_ERASE \<Rightarrow> replicate 2048 255)"
    using flash_exec_command_live [OF c i cfg _ _ l p w o0, of ?st0, unfolded hw0] q f er by blast
  define st1 where "st1 = ?st0\<lparr>flash_hw := h, exec_mapping := m, exec_clock := ck, exec_cache := ca,
      flash_write_phase := FLASH_WRITE_VERIFY\<rparr>"
  have st1: "flash_hw st1 = h" "flash_fault st1 = FLASH_OK" using f by (simp_all add: st1_def)
  let ?ps = "case operation of FLASH_EXEC_PROGRAM \<Rightarrow> [off] | FLASH_EXEC_ERASE \<Rightarrow> map (\<lambda>k. 32 * k) [0..<64]"
  let ?n = "case operation of FLASH_EXEC_PROGRAM \<Rightarrow> 4 | FLASH_EXEC_ERASE \<Rightarrow> 32"
  let ?e = "case operation of FLASH_EXEC_PROGRAM \<Rightarrow> w | FLASH_EXEC_ERASE \<Rightarrow> replicate 32 255"
  have len: "length (F (flash_hw st) p) = 2048" by (rule flash_chipD(1) [OF c p(1)])
  have match: "\<forall>o' \<in> set ?ps. o' + ?n \<le> 2048 \<and> take ?n (drop o' (F (flash_hw st1) p)) = ?e"
    using x(3) w off len store_at_same [of off "F (flash_hw st) p" w] st1(1)
    by (cases operation) auto
  have "ready Q R (flash_hw st1)" using x(2) st1(1) by simp
  from verify_loop_live [OF c i cfg _ _ p(1) this st1(2) match] obtain st2 where
    v: "verify_loop cfg bus p ?n ?e ?ps st1 = (FLASH_WRITE_OK, st2)" "read_kept st1 st2" "ready Q R (flash_hw st2)"
    by (cases operation) auto
  have k: "flash_fault st2 = FLASH_OK" "flash_exec_latch st2 = FLASH_EXEC_IDLE" "flash_write_known st2 = flash_write_known st"
    "flash_write_used st2 = flash_write_used st"
    using read_kept_simps [OF v(2)] f by (simp_all add: st1_def)
  have "operate_run cfg bus operation p off w l st =
      (FLASH_WRITE_OK, (case operation of FLASH_EXEC_PROGRAM \<Rightarrow> st2
             | FLASH_EXEC_ERASE \<Rightarrow> st2\<lparr>
                 flash_write_used := store_at (p * 64) (replicate 64 0) (flash_write_used st2),
                 flash_write_known := (flash_write_known st2)[p := True]\<rparr>)
           \<lparr>flash_write_phase := FLASH_WRITE_DONE, flash_write_result := FLASH_WRITE_OK\<rparr>)"
    using x(1) v(1) by (cases operation) (simp_all add: operate_run_def Let_def st1_def)
  with v(3) k cfg show ?thesis by (cases operation) (simp_all add: flash_live_def)
qed

lemma operate_live:
  assumes c: "flash_chip bus F bank faddr" and i: "flash_chip_idle bus F faddr Q R X enough"
    and lv: "flash_live cfg Q R st" and l: "enough l" and p: "p < 2" "off < 2048" "off mod 4 = 0"
    and w: "operation = FLASH_EXEC_PROGRAM \<longrightarrow> wd = Some (cfg_nv_word cfg, w) \<and> length w = 4 \<and> word_fresh F st p off"
    and o0: "operation = FLASH_EXEC_ERASE \<longrightarrow> off = 0"
  shows "\<exists>st'. operate cfg bus operation p off wd l st = (FLASH_WRITE_OK, st') \<and> flash_live cfg Q R st' \<and>
    (case operation of FLASH_EXEC_PROGRAM \<Rightarrow>
        flash_write_used st' = (flash_write_used st)[used_index p off :=
               flash_write_used st ! used_index p off OR used_mask off] \<and> flash_write_known st' = flash_write_known st
     | FLASH_EXEC_ERASE \<Rightarrow> flash_write_used st' = store_at (p * 64) (replicate 64 0) (flash_write_used st) \<and>
        flash_write_known st' = (flash_write_known st)[p := True])"
proof -
  let ?pr = "operation = FLASH_EXEC_PROGRAM"
  have lv': "config_ok cfg" "ready Q R (flash_hw st)" "flash_fault st = FLASH_OK" "flash_exec_latch st = FLASH_EXEC_IDLE"
    "flash_write_result st = FLASH_WRITE_OK"
    using lv by (simp_all add: flash_live_def)
  define st0 where "st0 = st\<lparr>flash_write_result := FLASH_WRITE_PENDING, flash_write_phase := FLASH_WRITE_PREFLIGHT\<rparr>"
  have st0: "flash_hw st0 = flash_hw st" "flash_fault st0 = FLASH_OK" "flash_exec_latch st0 = FLASH_EXEC_IDLE"
    "flash_write_known st0 = flash_write_known st" "flash_write_used st0 = flash_write_used st"
    using lv' by (simp_all add: st0_def)
  have q0: "ready Q R (flash_hw st0)" using lv' st0 by simp
  let ?n = "if ?pr then 4 else 1 :: nat"
  have "off + 4 \<le> 2048" using p by presburger
  then have off: "0 < ?n" "?n \<le> 32" "off + ?n \<le> 2048" by simp_all
  obtain st1 where 1: "flash_nv_read cfg bus p off (Some (cfg_check cfg)) ?n st0 =
      (FLASH_OK, take ?n (drop off (F (flash_hw st) p)), st1)" "read_kept st0 st1" "ready Q R (flash_hw st1)"
      "F (flash_hw st1) = F (flash_hw st)"
    using flash_nv_read_good [OF c i q0 st0(2) _ _ off(1,2) p(1) off(3), of cfg "cfg_check cfg"] lv'(1) st0(1)
    by (auto simp: config_ok_def)
  note k1 = read_kept_simps [OF 1(2), unfolded st0]
  define st2 where "st2 = (if ?pr then st1\<lparr>flash_write_used := (flash_write_used st1)[used_index p off :=
               flash_write_used st1 ! used_index p off OR used_mask off]\<rparr>
           else st1\<lparr>flash_write_known := (flash_write_known st1)[p := False]\<rparr>)"
  define w' where "w' = (case wd of None \<Rightarrow> [] | Some (_, w) \<Rightarrow> take 4 w)"
  have st2: "flash_hw st2 = flash_hw st1" "flash_fault st2 = FLASH_OK" "flash_exec_latch st2 = FLASH_EXEC_IDLE"
    using k1 by (simp_all add: st2_def)
  have w': "length w' = 4 \<or> operation = FLASH_EXEC_ERASE" using w by (cases operation) (auto simp: w'_def)
  have er: "?pr \<longrightarrow> take 4 (drop off (F (flash_hw st2) p)) = [255, 255, 255, 255]"
    using w st2(1) 1(4) by (simp add: word_fresh_def)
  have q2: "ready Q R (flash_hw st2)" using st2(1) 1(3) by simp
  obtain st' where r: "operate_run cfg bus operation p off w' l st2 = (FLASH_WRITE_OK, st')" "flash_live cfg Q R st'"
    "case operation of FLASH_EXEC_PROGRAM \<Rightarrow>
        flash_write_used st' = flash_write_used st2 \<and> flash_write_known st' = flash_write_known st2
     | FLASH_EXEC_ERASE \<Rightarrow> flash_write_used st' = store_at (p * 64) (replicate 64 0) (flash_write_used st2) \<and>
        flash_write_known st' = (flash_write_known st2)[p := True]"
    using operate_run_live [OF c i lv'(1) q2 st2(2,3) l p w' o0 er] by blast
  have gd: "\<not> (l = 0 \<or> (?pr \<and> wd = None))" "\<not> (FLASH_NV_PAGE_COUNT \<le> p \<or> FLASH_PAGE_SIZE \<le> off \<or> off mod 4 \<noteq> 0)"
    "\<not> (?pr \<and> 0x1dfc < fst (the wd))" "\<not> (?pr \<and> fst (the wd) \<le> cfg_write_end cfg)"
    "\<not> (?pr \<and> \<not> flash_write_known st ! p)" "\<not> (?pr \<and> flash_write_used st ! used_index p off AND used_mask off \<noteq> 0)"
    "\<not> (?pr \<and> take ?n (drop off (F (flash_hw st) p)) \<noteq> [255, 255, 255, 255])"
    using flash_chip_idleD(9) [OF i l] p w lv'(1) by (auto simp: config_ok_def word_fresh_def)
  have "operate cfg bus operation p off wd l st = (FLASH_WRITE_OK, st')"
    unfolding operate_def Let_def st0_def [symmetric] 1 prod.case st2_def [symmetric] w'_def [symmetric]
    by (simp only: gd lv'(5) r(1) if_False simp_thms)
  with r(2,3) k1 show ?thesis by (cases operation) (auto simp: st2_def)
qed

lemma used_other:
  assumes "o' mod 4 = 0" "off mod 4 = 0" "o' \<noteq> off" "o' div 32 = off div 32"
  shows "used_mask off AND used_mask o' = 0"
proof -
  have "off div 4 mod 8 \<noteq> o' div 4 mod 8"
  proof
    assume eq: "off div 4 mod 8 = o' div 4 mod 8"
    have "off div 4 div 8 = o' div 4 div 8" using assms(4) by (simp add: div_mult2_eq [symmetric])
    with eq have "off div 4 = o' div 4" by (metis div_mult_mod_eq)
    with assms(1-3) show False by (metis div_mult_mod_eq)
  qed
  then show ?thesis unfolding used_mask_def by (intro bit_word_eqI) (auto simp: bit_simps)
qed

lemma word_fresh_program:
  assumes wf: "writer_wf st" and p: "p < 2" and off: "off mod 4 = 0" "off + 4 \<le> 2048"
    and len: "length (F (flash_hw st) p) = 2048" and t: "length t = 4" "F (flash_hw st') p = store_at off t (F (flash_hw st) p)"
    and u: "flash_write_used st' = (flash_write_used st)[used_index p off :=
               flash_write_used st ! used_index p off OR used_mask off]" "flash_write_known st' = flash_write_known st"
    and o': "o' mod 4 = 0" "o' + 4 \<le> 2048" "o' \<noteq> off" and fr: "word_fresh F st p o'"
  shows "word_fresh F st' p o'"
proof -
  have sep: "o' + 4 \<le> off \<or> off + 4 \<le> o'" using o' off(1) by presburger
  have ix: "used_index p off < length (flash_write_used st)" "used_index p o' = used_index p off \<Longrightarrow> o' div 32 = off div 32"
    using p off o' wf by (auto simp: used_index_def writer_wf_def)
  have "flash_write_used st' ! used_index p o' AND used_mask o' = 0"
  proof (cases "used_index p o' = used_index p off")
    case True
    with ix(2) used_other [OF o'(1) off(1) o'(3)] have "used_mask off AND used_mask o' = 0" by simp
    with True fr ix(1) u(1) show ?thesis by (simp add: word_fresh_def and.commute bit.conj_disj_distrib)
  next
    case False
    with fr u(1) show ?thesis by (simp add: word_fresh_def)
  qed
  moreover have "take 4 (drop o' (store_at off t (F (flash_hw st) p))) = take 4 (drop o' (F (flash_hw st) p))"
    using sep t(1) len off o' by (intro nth_equalityI) (auto simp: nth_store_at)
  ultimately show ?thesis using fr t(2) u(2) by (simp add: word_fresh_def)
qed

lemma replicate_4: "replicate 4 x = [x, x, x, x]"
  by (simp add: numeral_eq_Suc)

lemma word_fresh_erase:
  assumes wf: "writer_wf st" and p: "p < 2" and pg: "F (flash_hw st') p = replicate 2048 255"
    and u: "flash_write_used st' = store_at (p * 64) (replicate 64 0) (flash_write_used st)"
    "flash_write_known st' = (flash_write_known st)[p := True]" and o': "o' + 4 \<le> 2048"
  shows "word_fresh F st' p o'"
proof -
  have ix: "p * 64 \<le> used_index p o'" "used_index p o' < p * 64 + 64" using o' by (auto simp: used_index_def)
  have "flash_write_used st' ! used_index p o' = 0"
    using ix p wf u(1) by (subst u(1)) (simp add: nth_store_at writer_wf_def)
  moreover have "take 4 (drop o' (replicate 2048 (255::u8))) = replicate 4 255"
    using o' by (simp only: drop_replicate take_replicate) simp
  then have "take 4 (drop o' (replicate 2048 (255::u8))) = [255, 255, 255, 255]" by (simp only: replicate_4)
  ultimately show ?thesis using pg u(2) p wf by (simp add: word_fresh_def writer_wf_def)
qed

section \<open>The flash services provide the journal's contract\<close>

definition flash_ok :: "'m bus \<Rightarrow> ('m \<Rightarrow> nat \<Rightarrow> bytes) \<Rightarrow> ('m \<Rightarrow> u8) \<Rightarrow> ('m \<Rightarrow> u16) \<Rightarrow> 'm flash_state \<Rightarrow> bool" where
  "flash_ok bus F bank faddr st \<longleftrightarrow> flash_chip bus F bank faddr \<and> writer_wf st"

definition flash_usable :: "flash_config \<Rightarrow> 'm bus \<Rightarrow> ('m \<Rightarrow> nat \<Rightarrow> bytes) \<Rightarrow> ('m \<Rightarrow> u16) \<Rightarrow> ('m \<Rightarrow> bool) \<Rightarrow>
    ('m \<Rightarrow> u8 \<Rightarrow> u8) \<Rightarrow> ('m \<Rightarrow> u16 \<Rightarrow> u8) \<Rightarrow> (u16 \<Rightarrow> bool) \<Rightarrow> 'm flash_state \<Rightarrow> bool" where
  "flash_usable cfg bus F faddr Q R X enough st \<longleftrightarrow>
     flash_chip_idle bus F faddr Q R X enough \<and> flash_live cfg Q R st"

lemmas flash_defs = flash_services_def flash_nv_program_def flash_nv_erase_def flash_ok_def flash_usable_def

lemma services_read_live:
  assumes "flash_ok bus F bank faddr h" "flash_usable cfg bus F faddr Q R X enough h" "p < 2" "0 < n" "n \<le> 32" "off + n \<le> 2048"
    "op_read (flash_services cfg bus) p off n h = (r, d, h')"
  shows "r = FLASH_OK \<and> flash_usable cfg bus F faddr Q R X enough h' \<and> word_fresh F h' = word_fresh F h"
proof -
  obtain st' where "flash_nv_read cfg bus p off (Some (cfg_nv_chunk cfg)) n h = (FLASH_OK, take n (drop off (F (flash_hw h) p)), st')"
    "read_kept h st'" "ready Q R (flash_hw st')" "F (flash_hw st') = F (flash_hw h)"
    using flash_nv_read_good [of bus F bank faddr Q R X enough h cfg "cfg_nv_chunk cfg" n p off] assms(1-6)
    by (auto simp: flash_defs flash_live_def config_ok_def)
  with assms(2,7) show ?thesis
    by (auto simp: flash_defs flash_live_def word_fresh_def read_kept_simps fun_eq_iff)
qed

lemma services_program_live:
  assumes ok: "flash_ok bus F bank faddr h" and lv: "flash_usable cfg bus F faddr Q R X enough h" and "word_fresh F h p off"
    "p < 2" "length w = 4" "off mod 4 = 0" "off + 4 \<le> 2048" "enough l"
    and run: "op_program (flash_services cfg bus) p off w l h = (wr, h')"
  shows "wr = FLASH_WRITE_OK \<and> flash_usable cfg bus F faddr Q R X enough h' \<and>
    (\<forall>o'. o' mod 4 = 0 \<longrightarrow> o' + 4 \<le> 2048 \<longrightarrow> o' \<noteq> off \<longrightarrow> word_fresh F h p o' \<longrightarrow> word_fresh F h' p o')"
proof -
  have c: "flash_chip bus F bank faddr" "writer_wf h" and i: "flash_chip_idle bus F faddr Q R X enough" "flash_live cfg Q R h"
    using ok lv by (simp_all add: flash_defs)
  have run': "operate cfg bus FLASH_EXEC_PROGRAM p off (Some (cfg_nv_word cfg, w)) l h = (wr, h')"
    using run by (simp add: flash_defs)
  have "\<exists>st'. operate cfg bus FLASH_EXEC_PROGRAM p off (Some (cfg_nv_word cfg, w)) l h = (FLASH_WRITE_OK, st') \<and>
      flash_live cfg Q R st' \<and> flash_write_used st' = (flash_write_used h)[used_index p off :=
               flash_write_used h ! used_index p off OR used_mask off] \<and> flash_write_known st' = flash_write_known h"
    using operate_live [OF c(1) i assms(8,4) _ assms(6), of FLASH_EXEC_PROGRAM "Some (cfg_nv_word cfg, w)" w] assms(3,5,7)
    by simp
  then have r: "wr = FLASH_WRITE_OK" "flash_live cfg Q R h'" "flash_write_used h' = (flash_write_used h)[used_index p off :=
               flash_write_used h ! used_index p off OR used_mask off]" "flash_write_known h' = flash_write_known h"
    using run' by auto
  have "F (flash_hw h') p = store_at off w (F (flash_hw h) p)"
    using operate_spec [OF c, of FLASH_EXEC_PROGRAM "Some (cfg_nv_word cfg, w)" "cfg_nv_word cfg" w, OF _ run'] assms(5) r(1)
    by (simp add: writer_effect_def)
  from word_fresh_program [where F = F, OF c(2) assms(4,6,7) flash_chipD(1) [OF c(1) assms(4)] assms(5) this r(3,4)] r i
  show ?thesis by (auto simp: flash_defs)
qed

lemma services_erase_live:
  assumes ok: "flash_ok bus F bank faddr h" and lv: "flash_usable cfg bus F faddr Q R X enough h" and "p < 2" "enough l"
    and run: "op_erase (flash_services cfg bus) p l h = (wr, h')"
  shows "wr = FLASH_WRITE_OK \<and> flash_usable cfg bus F faddr Q R X enough h' \<and>
    (\<forall>o'. o' mod 4 = 0 \<longrightarrow> o' + 4 \<le> 2048 \<longrightarrow> word_fresh F h' p o')"
proof -
  have c: "flash_chip bus F bank faddr" "writer_wf h" and i: "flash_chip_idle bus F faddr Q R X enough" "flash_live cfg Q R h"
    using ok lv by (simp_all add: flash_defs)
  have run': "operate cfg bus FLASH_EXEC_ERASE p 0 None l h = (wr, h')" using run by (simp add: flash_defs)
  have "\<exists>st'. operate cfg bus FLASH_EXEC_ERASE p 0 None l h = (FLASH_WRITE_OK, st') \<and> flash_live cfg Q R st' \<and>
      flash_write_used st' = store_at (p * 64) (replicate 64 0) (flash_write_used h) \<and>
      flash_write_known st' = (flash_write_known h)[p := True]"
    using operate_live [OF c(1) i assms(4,3), of 0 FLASH_EXEC_ERASE None "[]"] by simp
  then have r: "wr = FLASH_WRITE_OK" "flash_live cfg Q R h'"
    "flash_write_used h' = store_at (p * 64) (replicate 64 0) (flash_write_used h)"
    "flash_write_known h' = (flash_write_known h)[p := True]"
    using run' by auto
  have "F (flash_hw h') p = replicate 2048 255"
    using operate_spec [OF c, of FLASH_EXEC_ERASE None undefined "[]", OF _ run'] r(1) by (simp add: writer_effect_def)
  from word_fresh_erase [where F = F, OF c(2) assms(3) this r(3,4)] r i show ?thesis by (auto simp: flash_defs)
qed

lemma services_program_effect:
  assumes "flash_ok bus F bank faddr h" "op_program (flash_services cfg bus) p off w l h = (wr, h')" "length w = 4"
  shows "writer_effect FLASH_EXEC_PROGRAM p off w (F (flash_hw h)) wr (F (flash_hw h'))" "flash_ok bus F bank faddr h'"
  using operate_spec [of bus F bank faddr h FLASH_EXEC_PROGRAM "Some (cfg_nv_word cfg, w)" "cfg_nv_word cfg" w cfg p off l wr h'] assms
  by (simp_all add: flash_defs)

lemma services_erase_effect:
  assumes "flash_ok bus F bank faddr h" "op_erase (flash_services cfg bus) p l h = (wr, h')"
  shows "writer_effect FLASH_EXEC_ERASE p 0 [] (F (flash_hw h)) wr (F (flash_hw h'))" "flash_ok bus F bank faddr h'"
  using operate_spec [of bus F bank faddr h FLASH_EXEC_ERASE None undefined "[]" cfg p 0 l wr h'] assms
  by (simp_all add: flash_defs)

lemma services_read_effect:
  assumes "flash_ok bus F bank faddr h" "op_read (flash_services cfg bus) p off n h = (r, d, h')"
  shows "F (flash_hw h') = F (flash_hw h)" "flash_ok bus F bank faddr h'"
    "r = FLASH_OK \<Longrightarrow> d = take n (drop off (F (flash_hw h) p))"
  using flash_nv_read_spec [of bus F bank faddr cfg p off "Some (cfg_nv_chunk cfg)" n h r d h'] assms
  by (simp_all add: flash_defs writer_wf_def reader_frame_def)

interpretation fl: nv_flash "flash_services cfg bus" "\<lambda>st. F (flash_hw st)" "flash_ok bus F bank faddr"
    "flash_usable cfg bus F faddr Q R X enough" "word_fresh F" enough
  for cfg :: flash_config and bus :: "'m bus" and F :: "'m \<Rightarrow> nat \<Rightarrow> bytes" and bank :: "'m \<Rightarrow> u8"
    and faddr :: "'m \<Rightarrow> u16" and Q :: "'m \<Rightarrow> bool" and R :: "'m \<Rightarrow> u8 \<Rightarrow> u8" and X :: "'m \<Rightarrow> u16 \<Rightarrow> u8"
    and enough :: "u16 \<Rightarrow> bool"
proof (unfold_locales, goal_cases)
  case (1 h p)
  then show ?case using flash_chipD(1) by (auto simp: flash_ok_def)
next
  case 2
  then show ?case by (rule services_read_effect(2))
next
  case 3
  then show ?case by (rule services_read_effect(1))
next
  case 4
  from services_read_effect(3) [OF 4(1,3) refl] show ?case .
next
  case 5
  then show ?case by (rule services_read_live)
next
  case 6
  then show ?case by (rule services_program_effect(2))
next
  case 7
  from services_program_effect(1) [OF 7(1-3)] 7(4,5) show ?case by (simp add: writer_effect_def)
next
  case 8
  from services_program_effect(1) [OF 8(1,2,4)] 8(3,5) show ?case by (simp add: writer_effect_def)
next
  case 9
  from services_program_effect(1) [OF 9(1,2,4)] 9(4) show ?case by (simp add: writer_effect_def)
next
  case 10
  then show ?case by (rule services_program_live)
next
  case 11
  then show ?case by (rule services_erase_effect(2))
next
  case 12
  from services_erase_effect(1) [OF 12(1,2)] 12(3,4) show ?case by (simp add: writer_effect_def)
next
  case 13
  from services_erase_effect(1) [OF 13(1,2)] show ?case by (simp add: writer_effect_def)
next
  case 14
  then show ?case by (rule services_erase_live)
qed

end
