(* ===== verification/Flash_Sim.thy ===== *)
theory Flash_Sim
  imports Flash_Live
begin

text \<open>
  A concrete chip: a flash array with the controller registers the services use, a command
  being busy for one read of \<open>FCTL\<close>. It satisfies \<open>flash_chip\<close> and \<open>flash_chip_idle\<close>, so the
  assumptions on the hardware are consistent and the theorems about the flash services can
  be applied to a concrete machine.
\<close>

record sim =
  sim_mem :: "nat \<Rightarrow> nat \<Rightarrow> u8"
  sim_bank :: u8
  sim_ctl :: u8
  sim_busy :: bool
  sim_addr :: u16
  sim_count :: nat

definition sim_page :: "u16 \<Rightarrow> nat" where "sim_page a = (unat a - 64000) div 512"
definition sim_offset :: "u16 \<Rightarrow> nat" where "sim_offset a = (unat a - 64000) mod 512 * 4"

definition sim_sfr :: "sim \<Rightarrow> u8 \<Rightarrow> u8" where
  "sim_sfr h a = (if a = SOC_MEMCTR then sim_bank h else if a = SOC_SLEEPCMD then 4 else 0)"

definition sim_reg :: "sim \<Rightarrow> u16 \<Rightarrow> u8" where
  "sim_reg h a =
     (if a = FCTL then sim_ctl h AND 0x0c else if a = 0x6271 then ucast (sim_addr h)
      else if a = 0x6272 then ucast (drop_bit 8 (sim_addr h)) else if a = 0x624a then 0xa5
      else if a = 0x6276 then 0x44 else if a = 0x6277 then 7
      else if NV_WINDOW \<le> a \<and> sim_bank h = 7 then sim_mem h (unat (a - NV_WINDOW) div 2048) (unat (a - NV_WINDOW) mod 2048)
      else 0)"

definition sim_xread :: "u16 \<Rightarrow> sim \<Rightarrow> u8 \<times> sim" where
  "sim_xread a h = (if a = FCTL \<and> sim_busy h then (sim_ctl h OR 0x80, h\<lparr>sim_busy := False\<rparr>) else (sim_reg h a, h))"

definition sim_store :: "u8 \<Rightarrow> sim \<Rightarrow> sim" where
  "sim_store v h = (let p = sim_page (sim_addr h); q = sim_offset (sim_addr h) + sim_count h mod 4 in
     h\<lparr>sim_mem := (sim_mem h)(p := (sim_mem h p)(q := v)), sim_count := Suc (sim_count h)\<rparr>)"

definition sim_xwrite :: "u16 \<Rightarrow> u8 \<Rightarrow> sim \<Rightarrow> sim" where
  "sim_xwrite a v h =
     (if a = FCTL then h\<lparr>sim_ctl := v, sim_busy := True, sim_count := 0,
        sim_mem := (if v AND 1 \<noteq> 0 then (sim_mem h)(sim_page (sim_addr h) := (\<lambda>_. 255)) else sim_mem h)\<rparr>
      else if a = 0x6271 then h\<lparr>sim_addr := word_cat (ucast (drop_bit 8 (sim_addr h)) :: u8) v\<rparr>
      else if a = 0x6272 then h\<lparr>sim_addr := word_cat v (ucast (sim_addr h) :: u8)\<rparr>
      else if a = 0x6273 then sim_store v h else h)"

definition sim_bus :: "sim bus" where
  "sim_bus = \<lparr>sfr_read = (\<lambda>a h. (sim_sfr h a, h)),
     sfr_write = (\<lambda>a v h. if a = SOC_MEMCTR then h\<lparr>sim_bank := v\<rparr> else h),
     xread = sim_xread, xwrite = sim_xwrite\<rparr>"

definition sim_flash :: "sim \<Rightarrow> nat \<Rightarrow> bytes" where
  "sim_flash h p = map (sim_mem h p) [0..<2048]"

section \<open>Safety laws\<close>

lemma sim_bus_simps [simp]:
  "sfr_read sim_bus a h = (sim_sfr h a, h)"
  "sfr_write sim_bus a v h = (if a = SOC_MEMCTR then h\<lparr>sim_bank := v\<rparr> else h)"
  "xread sim_bus x h = sim_xread x h" "xwrite sim_bus x v h = sim_xwrite x v h"
  by (simp_all add: sim_bus_def)

lemma sim_xread_keeps [simp]:
  "sim_mem (snd (sim_xread a h)) = sim_mem h" "sim_addr (snd (sim_xread a h)) = sim_addr h"
  "sim_bank (snd (sim_xread a h)) = sim_bank h" "sim_count (snd (sim_xread a h)) = sim_count h"
  "sim_ctl (snd (sim_xread a h)) = sim_ctl h"
  by (simp_all add: sim_xread_def)

lemma sim_window:
  assumes "sim_bank h = 7" "p < 2" "off < 2048"
  shows "sim_xread (NV_WINDOW + of_nat p * 2048 + of_nat off) h = (sim_mem h p off, h)"
proof -
  let ?a = "NV_WINDOW + of_nat p * 2048 + of_nat off :: u16"
  have eq: "?a = of_nat (0xe800 + (p * 2048 + off))" "?a - NV_WINDOW = of_nat (p * 2048 + off)" by simp_all
  have u: "unat (of_nat n :: u16) = n" if "n < 0xf800" for n using that by (subst unat_of_nat) simp
  have u: "unat ?a = 0xe800 + (p * 2048 + off)" "unat (?a - NV_WINDOW) = p * 2048 + off"
    using assms(2,3) u [of "0xe800 + (p * 2048 + off)"] u [of "p * 2048 + off"] by (simp_all only: eq) simp_all
  have "x < 0xe800 \<Longrightarrow> ?a \<noteq> x" for x :: u16 using u(1) by (auto simp: word_less_nat_alt)
  then have ne: "?a \<noteq> FCTL" "?a \<noteq> 0x6271" "?a \<noteq> 0x6272" "?a \<noteq> 0x624a" "?a \<noteq> 0x6276" "?a \<noteq> 0x6277" by (simp_all (no_asm_simp))
  have "NV_WINDOW \<le> ?a" using u(1) by (simp add: word_le_nat_alt)
  moreover have "(p * 2048 + off) div 2048 = p" "(p * 2048 + off) mod 2048 = off" using assms(3) by simp_all
  ultimately show ?thesis unfolding sim_xread_def sim_reg_def u(2) using ne assms(1) by (simp only: if_True if_False simp_thms refl)
qed

lemma template_poll_keeps:
  assumes "\<And>a h. f (snd (xread bus a h)) = f h"
  shows "f (snd (template_poll bus l h)) = f h"
  using assms
proof (induction bus l h rule: template_poll.induct)
  case (1 bus l h)
  obtain v h1 where x: "xread bus FCTL h = (v, h1)" by fastforce
  have k: "f h1 = f h" using 1(2) [of FCTL h] x by simp
  have "l - 1 \<noteq> 0 \<Longrightarrow> v AND 0x83 \<noteq> 0 \<Longrightarrow> f (snd (template_poll bus (l - 1) h1)) = f h1"
    using 1(1) [OF x [symmetric] _ _ 1(2)] by blast
  with k show ?case by (subst template_poll.simps) (simp add: x)
qed

lemma sim_stores:
  "sim_addr (xwrites sim_bus (map (Pair 0x6273) w) h) = sim_addr h"
  "q \<noteq> sim_page (sim_addr h) \<Longrightarrow> sim_mem (xwrites sim_bus (map (Pair 0x6273) w) h) q = sim_mem h q"
  "(i < sim_offset (sim_addr h) \<or> sim_offset (sim_addr h) + 4 \<le> i) \<Longrightarrow>
     sim_mem (xwrites sim_bus (map (Pair 0x6273) w) h) q i = sim_mem h q i"
proof (induction w arbitrary: h)
  case (Cons v w)
  { case 1 show ?case using Cons.IH(1) [of "sim_store v h"] by (simp add: sim_xwrite_def sim_store_def Let_def) }
  { case 2 then show ?case using Cons.IH(2) [of "sim_store v h"] by (simp add: sim_xwrite_def sim_store_def Let_def) }
  { case 3
    have "sim_mem (sim_store v h) q i = sim_mem h q i"
      using 3 mod_less_divisor [of 4 "sim_count h"] by (auto simp: sim_store_def Let_def)
    with 3 show ?case using Cons.IH(3) [of "sim_store v h"] by (simp add: sim_xwrite_def) (simp add: sim_store_def Let_def) }
qed simp_all

lemma sim_target:
  assumes "p < 2" "off < 2048" "off mod 4 = 0"
  shows "sim_page (nv_target_word p off) = p" "sim_offset (nv_target_word p off) = off"
proof -
  have "unat (nv_target_word p off) = 64000 + (p * 512 + off div 4)"
    unfolding nv_target_word_def using assms by (subst unat_of_nat) simp
  moreover have "(p * 512 + off div 4) div 512 = p" "(p * 512 + off div 4) mod 512 * 4 = off"
    using assms by (auto simp: div_mult2_eq [symmetric])
  ultimately show "sim_page (nv_target_word p off) = p" "sim_offset (nv_target_word p off) = off"
    by (simp_all add: sim_page_def sim_offset_def)
qed

lemma sim_template_mem:
  obtains h1 where "sim_mem h1 = sim_mem (sim_xwrite FCTL c h)" "sim_addr h1 = sim_addr h"
    "sim_mem (snd (flash_exec_template sim_bus c w l h)) \<in> {sim_mem h1, sim_mem (xwrites sim_bus (map (Pair 0x6273) w) h1)}"
proof -
  let ?h0 = "sim_xwrite FCTL c h"
  obtain r h1 where x: "sim_xread FCTL ?h0 = (r, h1)" by fastforce
  have k: "sim_mem h1 = sim_mem ?h0" "sim_addr h1 = sim_addr h"
    using sim_xread_keeps(1,2) [of FCTL ?h0] unfolding x by (simp_all) (simp add: sim_xwrite_def)
  have p: "sim_mem (snd (template_poll sim_bus l g)) = sim_mem g" for g
    by (rule template_poll_keeps) simp
  have "sim_mem (snd (flash_exec_template sim_bus c w l h)) \<in> {sim_mem h1, sim_mem (xwrites sim_bus (map (Pair 0x6273) w) h1)}"
    unfolding flash_exec_template_def using p x
    by (auto simp: Let_def split: prod.split option.split simp del: template_poll.simps) (metis snd_conv)+
  with k that show thesis by blast
qed

lemma sim_flash_eqI: "sim_mem h p = sim_mem h' p \<Longrightarrow> sim_flash h p = sim_flash h' p"
  by (simp add: sim_flash_def)

lemma sim_flash_store:
  assumes "\<And>i. i < 2048 \<Longrightarrow> i < off \<or> off + 4 \<le> i \<Longrightarrow> sim_mem h' p i = sim_mem h p i" "off + 4 \<le> 2048"
  shows "sim_flash h' p = store_at off (map (sim_mem h' p) [off..<off + 4]) (sim_flash h p)"
  by (rule nth_equalityI) (use assms in \<open>auto simp: sim_flash_def nth_store_at\<close>)

lemma sim_chip: "flash_chip sim_bus sim_flash sim_bank sim_addr"
proof -
  have tpl: "sim_flash (snd (flash_exec_template sim_bus c w l h)) q = sim_flash h q"
    if "sim_addr h = nv_target_word p off" "p < 2" "off < 2048" "off mod 4 = 0" "q \<noteq> p" for c w l h p off q
  proof -
    obtain h1 where h1: "sim_mem h1 = sim_mem (sim_xwrite FCTL c h)" "sim_addr h1 = sim_addr h"
      "sim_mem (snd (flash_exec_template sim_bus c w l h)) \<in> {sim_mem h1, sim_mem (xwrites sim_bus (map (Pair 0x6273) w) h1)}"
      by (rule sim_template_mem)
    have "sim_mem h1 q = sim_mem h q" using h1(1) that sim_target [OF that(2-4)] by (simp add: sim_xwrite_def)
    moreover have "sim_mem (xwrites sim_bus (map (Pair 0x6273) w) h1) q = sim_mem h1 q"
      by (rule sim_stores(2)) (use h1(2) that sim_target [OF that(2-4)] in simp)
    ultimately show ?thesis using h1(3) by (auto intro!: sim_flash_eqI)
  qed
  have prg: "\<exists>t. length t = 4 \<and> sim_flash (snd (flash_exec_template sim_bus c w l h)) p = store_at off t (sim_flash h p)"
    if "sim_addr h = nv_target_word p off" "p < 2" "off < 2048" "off mod 4 = 0" "c AND 3 = 2" for c w l h p off
  proof -
    have c1: "c AND 1 = 0"
    proof -
      have "bit c 0 = bit (c AND 3) 0" by (simp add: bit_simps)
      with that(5) have "\<not> bit c 0" by (simp add: bit_0)
      then show ?thesis by (intro bit_word_eqI) (auto simp: bit_simps intro: gr0I)
    qed
    obtain h1 where h1: "sim_mem h1 = sim_mem (sim_xwrite FCTL c h)" "sim_addr h1 = sim_addr h"
      "sim_mem (snd (flash_exec_template sim_bus c w l h)) \<in> {sim_mem h1, sim_mem (xwrites sim_bus (map (Pair 0x6273) w) h1)}"
      by (rule sim_template_mem)
    let ?h' = "snd (flash_exec_template sim_bus c w l h)"
    have "sim_mem ?h' p i = sim_mem h p i" if "i < off \<or> off + 4 \<le> i" for i
      using h1 c1 sim_stores(3) [of i h1 w p] that sim_target [OF \<open>p < 2\<close> \<open>off < 2048\<close> \<open>off mod 4 = 0\<close>]
        \<open>sim_addr h = nv_target_word p off\<close> by (auto simp: sim_xwrite_def)
    moreover have "off + 4 \<le> 2048" using that by presburger
    ultimately have "sim_flash ?h' p = store_at off (map (sim_mem ?h' p) [off..<off + 4]) (sim_flash h p)"
      by (intro sim_flash_store) auto
    then show ?thesis by (intro exI [of _ "map (sim_mem ?h' p) [off..<off + 4]"]) simp
  qed
  have rd: "sim_flash (snd (sim_xread a h)) = sim_flash h" for a h by (simp add: sim_flash_def fun_eq_iff)
  have ad: "sim_flash (sim_xwrite 0x6271 v h) = sim_flash h" "sim_flash (sim_xwrite 0x6272 v h) = sim_flash h" for v h
    by (simp_all add: sim_flash_def sim_xwrite_def fun_eq_iff)
  have adr: "xreads sim_bus [0x6271, 0x6272] h = ([ucast (sim_addr h), ucast (drop_bit 8 (sim_addr h))], h)" for h
    by (simp add: sim_xread_def sim_reg_def)
  have wr: "sim_flash (sfr_write sim_bus a v h) = sim_flash h" "sim_addr (sfr_write sim_bus a v h) = sim_addr h" for a v h
    by (simp_all add: sim_flash_def fun_eq_iff)
  have win: "fst (sim_xread (NV_WINDOW + of_nat p * 2048 + of_nat off) h) = sim_flash h p ! off"
    if "sim_bank h = 7" "p < 2" "off < 2048" for p off h
    using sim_window [OF that] that(3) by (simp add: sim_flash_def)
  show ?thesis unfolding flash_chip_def
    by (intro conjI allI impI; (rule tpl prg; assumption | simp only: rd ad wr adr win sim_bus_simps sim_xread_keeps snd_conv fst_conv | simp add: sim_flash_def))
      (simp_all add: sim_flash_def sim_sfr_def fun_eq_iff)
qed

section \<open>Idle laws\<close>

definition sim_idle :: "sim \<Rightarrow> bool" where "sim_idle h \<longleftrightarrow> \<not> sim_busy h"

lemma sim_program_word:
  assumes w: "length w = 4" and c: "sim_count h = 0"
  shows "map (sim_mem (xwrites sim_bus (map (Pair 0x6273) w) h) (sim_page (sim_addr h)))
    [sim_offset (sim_addr h)..<sim_offset (sim_addr h) + 4] = w"
proof -
  obtain a b c' d where w: "w = [a, b, c', d]" using w by (auto simp: numeral_eq_Suc length_Suc_conv)
  show ?thesis using c by (simp add: w sim_xwrite_def sim_store_def Let_def upt_rec)
qed

lemma word_cat_low: "(ucast (word_cat (a :: u8) (b :: u8) :: u16) :: u8) = b"
  by (rule bit_word_eqI) (simp add: bit_simps)

lemma word_cat_high: "(ucast (drop_bit 8 (word_cat (a :: u8) (b :: u8) :: u16)) :: u8) = a"
  by (rule bit_word_eqI) (simp add: bit_simps)

lemma sim_xwrites_keep:
  "sim_busy (xwrites sim_bus (map (Pair 0x6273) w) h) = sim_busy h \<and> sim_bank (xwrites sim_bus (map (Pair 0x6273) w) h) = sim_bank h \<and>
   sim_ctl (xwrites sim_bus (map (Pair 0x6273) w) h) = sim_ctl h"
  by (induction w arbitrary: h) (simp_all add: sim_xwrite_def sim_store_def Let_def)

lemma command_readback: "(((x :: u8) AND 0x0c OR operation_code operation) OR 0x80) XOR (x AND 0x0c OR operation_code operation) = 0x80"
  by (cases operation; rule bit_word_eqI) (auto simp: operation_code_def bit_simps numeral_eq_Suc less_Suc_eq)

lemma command_cache: "((x :: u8) AND 0x0c OR operation_code operation) AND 0x0c = x AND 0x0c"
  by (cases operation; rule bit_word_eqI) (auto simp: operation_code_def bit_simps numeral_eq_Suc less_Suc_eq)

lemma cache_clear: "((x :: u8) AND 0x0c) AND 0x83 = 0" "((x :: u8) AND 0x0c) AND 0x20 = 0"
  by (simp_all add: and.assoc)

lemma command_op:
  "((x :: u8) AND 0x0c OR operation_code operation) AND 2 \<noteq> 0 \<longleftrightarrow> operation = FLASH_EXEC_PROGRAM"
  "((x :: u8) AND 0x0c OR operation_code operation) AND 1 \<noteq> 0 \<longleftrightarrow> operation = FLASH_EXEC_ERASE"
  by (cases operation; simp add: operation_code_def bit.conj_disj_distrib2 and.assoc)+

lemmas command_bits = command_readback command_cache cache_clear command_op

lemma sim_template_idle:
  assumes c_def: "c = sim_ctl h AND 0x0c OR operation_code operation"
    and h1_def: "h1 = (sim_xwrite FCTL c h)\<lparr>sim_busy := False\<rparr>"
  shows "flash_exec_template sim_bus c w l h = (FLASH_EXEC_IDLE,
    if operation = FLASH_EXEC_PROGRAM then xwrites sim_bus (map (Pair 0x6273) w) h1 else h1)"
proof -
  have x: "sim_xread FCTL (sim_xwrite FCTL c h) = (c OR 0x80, h1)"
    by (simp add: sim_xread_def h1_def sim_xwrite_def)
  let ?h2 = "if operation = FLASH_EXEC_PROGRAM then xwrites sim_bus (map (Pair 0x6273) w) h1 else h1"
  have k: "sim_busy ?h2 = False" "sim_ctl ?h2 = c"
    using sim_xwrites_keep [of w h1] by (simp_all add: h1_def sim_xwrite_def)
  have "sim_xread FCTL ?h2 = (c AND 0x0c, ?h2)" by (simp only: sim_xread_def k sim_reg_def) simp
  then have p: "template_poll sim_bus l ?h2 = (Some (c AND 0x0c), ?h2)"
    by (subst template_poll.simps) (simp add: c_def command_bits)
  have cb: "(c OR 0x80) XOR c = 0x80" "(c AND 0x0c) AND 0x20 = 0" "c AND 2 \<noteq> 0 \<longleftrightarrow> operation = FLASH_EXEC_PROGRAM"
    by (simp_all add: c_def command_bits)
  show ?thesis unfolding flash_exec_template_def Let_def sim_bus_simps x prod.case
    by (simp add: cb p del: template_poll.simps)
qed

lemma sim_regs_kept:
  assumes "sim_idle h'" "sim_ctl h' AND 0x0c = sim_ctl h AND 0x0c" "sim_addr h' = sim_addr h" "sim_bank h' = sim_bank h"
  shows "regs_kept sim_idle sim_sfr sim_reg (sim_sfr h) (sim_reg h) h'"
  using assms by (auto simp: regs_kept_def guard_sfrs_def flash_regs_def sim_sfr_def sim_reg_def)

lemma sim_template_law:
  assumes "sim_idle h" and w: "length w = 4" and p: "p < 2" "off < 2048" "off mod 4 = 0"
    and a: "sim_addr h = nv_target_word p off"
  shows "\<exists>h'. flash_exec_template sim_bus (sim_reg h FCTL OR operation_code operation) w l h = (FLASH_EXEC_IDLE, h') \<and>
     regs_kept sim_idle sim_sfr sim_reg (sim_sfr h) (sim_reg h) h' \<and>
     sim_flash h' p = (case operation of FLASH_EXEC_PROGRAM \<Rightarrow> store_at off w (sim_flash h p)
        | FLASH_EXEC_ERASE \<Rightarrow> replicate 2048 255)"
proof -
  let ?c = "sim_ctl h AND 0x0c OR operation_code operation"
  define h1 where "h1 = (sim_xwrite FCTL ?c h)\<lparr>sim_busy := False\<rparr>"
  define h2 where "h2 = (if operation = FLASH_EXEC_PROGRAM then xwrites sim_bus (map (Pair 0x6273) w) h1 else h1)"
  have reg: "sim_reg h FCTL = sim_ctl h AND 0x0c" by (simp add: sim_reg_def)
  have t: "flash_exec_template sim_bus ?c w l h = (FLASH_EXEC_IDLE, h2)"
    using sim_template_idle [OF refl h1_def] by (simp add: h2_def)
  have h1: "sim_busy h1 = False" "sim_ctl h1 = ?c" "sim_addr h1 = sim_addr h" "sim_bank h1 = sim_bank h" "sim_count h1 = 0"
    "sim_mem h1 = (if operation = FLASH_EXEC_ERASE then (sim_mem h)(p := (\<lambda>_. 255)) else sim_mem h)"
    using a sim_target [OF p] by (simp_all add: h1_def sim_xwrite_def command_bits)
  have "regs_kept sim_idle sim_sfr sim_reg (sim_sfr h) (sim_reg h) h2"
    using sim_xwrites_keep [of w h1] sim_stores(1) [of w h1] h1
    by (intro sim_regs_kept) (simp_all add: h2_def sim_idle_def command_bits)
  moreover have "sim_flash h2 p = (case operation of FLASH_EXEC_PROGRAM \<Rightarrow> store_at off w (sim_flash h p)
        | FLASH_EXEC_ERASE \<Rightarrow> replicate 2048 255)"
  proof (cases operation)
    case FLASH_EXEC_PROGRAM
    have o4: "off + 4 \<le> 2048" using p by presburger
    have "sim_flash h2 p = store_at off (map (sim_mem h2 p) [off..<off + 4]) (sim_flash h p)"
      using sim_stores(3) [of _ h1 w p] h1 FLASH_EXEC_PROGRAM sim_target [OF p] a o4
      by (intro sim_flash_store) (auto simp: h2_def)
    moreover have "map (sim_mem h2 p) [off..<off + 4] = w"
      using sim_program_word [OF w h1(5)] h1(3) a sim_target [OF p] FLASH_EXEC_PROGRAM by (simp add: h2_def)
    ultimately show ?thesis using FLASH_EXEC_PROGRAM by simp
  next
    case FLASH_EXEC_ERASE
    then show ?thesis using h1(6) by (simp add: h2_def sim_flash_def map_replicate_const)
  qed
  ultimately show ?thesis using t reg by auto
qed

lemma sim_chip_idle: "flash_chip_idle sim_bus sim_flash sim_addr sim_idle sim_sfr sim_reg (\<lambda>l. l \<noteq> 0)"
proof -
  have bank: "regs_kept sim_idle sim_sfr sim_reg ((sim_sfr h)(SOC_MEMCTR := v)) (sim_reg h) (h\<lparr>sim_bank := v\<rparr>)" if "sim_idle h" for h v
    using that by (auto simp: regs_kept_def guard_sfrs_def flash_regs_def sim_sfr_def sim_reg_def sim_idle_def)
  have addr: "regs_kept sim_idle sim_sfr sim_reg (sim_sfr h) ((sim_reg h)(x := v)) (sim_xwrite x v h)"
    if "sim_idle h" "x = 0x6271 \<or> x = 0x6272" for h v x
    using that by (auto simp: regs_kept_def guard_sfrs_def flash_regs_def sim_sfr_def sim_reg_def sim_idle_def sim_xwrite_def
        word_cat_low word_cat_high)
  have acc: "chip_accepts (sim_sfr h) (sim_reg h)" for h
    by (simp add: chip_accepts_def sim_sfr_def sim_reg_def clock_ok_def and.assoc)
  have rd: "sim_xread a h = (sim_reg h a, h)" if "sim_idle h" for a h
    using that by (simp add: sim_xread_def sim_idle_def)
  show ?thesis unfolding flash_chip_idle_def
    by (intro conjI allI impI) (simp_all add: rd acc addr bank sim_template_law)
qed

section \<open>A machine after reset, its NV pages erased\<close>

definition sim_blank :: sim where
  "sim_blank = \<lparr>sim_mem = (\<lambda>_ _. 255), sim_bank = 0, sim_ctl = 0, sim_busy = False, sim_addr = 0, sim_count = 0\<rparr>"

definition sim_config :: flash_config where
  "sim_config = \<lparr>cfg_flash_end = 0x100, cfg_write_end = 0x200, cfg_exec_end = 0x180, cfg_ram = 0x40,
     cfg_template_size = 100, cfg_check = 0x190, cfg_write_word = 0x1b0, cfg_nv_chunk = 0x300, cfg_nv_word = 0x320\<rparr>"

lemma sim_blank_pages: "sim_flash sim_blank p = replicate 2048 255"
  by (simp add: sim_flash_def sim_blank_def map_replicate_const)

lemma sim_boot_ok: "flash_ok sim_bus sim_flash sim_bank sim_addr (flash_boot sim_blank)"
  by (simp add: flash_ok_def sim_chip writer_wf_def flash_boot_def)

lemma sim_boot_usable:
  "flash_usable sim_config sim_bus sim_flash sim_addr sim_idle sim_sfr sim_reg (\<lambda>l. l \<noteq> 0) (flash_boot sim_blank)"
  by (simp add: flash_usable_def sim_chip_idle flash_live_def config_ok_def sim_config_def ready_def flash_boot_def
      sim_idle_def sim_blank_def sim_sfr_def)

definition sim_nv :: "sim flash_state nv_state" where "sim_nv = nv_boot (flash_boot sim_blank)"

lemma nv_boot_invariant: "ok h \<Longrightarrow> nv_invariant ok pages (nv_boot h)"
  by (simp add: nv_invariant_def nv_boot_def nv_wf_def cache_ok_def nv_known_def)

lemma journal_blank: "pg 0 = replicate 2048 255 \<Longrightarrow> pg 1 = replicate 2048 255 \<Longrightarrow> journal pg = (NV_RECORD_EMPTY, 255)"
  by (simp add: journal_def page_class_def page_erased_def)

lemma sim_nv_invariant: "nv_invariant (flash_ok sim_bus sim_flash sim_bank sim_addr) (\<lambda>s. sim_flash (flash_hw s)) sim_nv"
  unfolding sim_nv_def by (rule nv_boot_invariant) (rule sim_boot_ok)

lemma sim_nv_simps:
  "nv_hw sim_nv = flash_boot sim_blank" "flash_hw (flash_boot sim_blank) = sim_blank"
  "nv_record_fault sim_nv = NV_RECORD_OK" "nv_erase_attempts (nv_record_diagnostic sim_nv) = [0, 0]"
  by (simp_all add: sim_nv_def nv_boot_def flash_boot_def)

lemma sim_nv_journal: "journal (sim_flash sim_blank) = (NV_RECORD_EMPTY, 255)" "journal_record (sim_flash sim_blank) = None"
  by (simp_all add: journal_blank sim_blank_pages journal_record_def readable_def)

end
