(* ===== verification/Codec.thy ===== *)
theory Codec
  imports Prelude
begin

text \<open>
  The contract of a frame codec, and what it gives its clients. A frame is a header and an
  opaque payload; the NWK, APS and ZCL codecs of \<open>src/src/*_frame.c\<close> each provide the
  contract, and carrying one frame as the payload of another gives it again.
\<close>

locale frame_codec =
  fixes dec :: "bytes \<Rightarrow> ('h \<times> bytes) option"
    and enc :: "'h \<Rightarrow> bytes \<Rightarrow> bytes option"
    and canonical :: "'h \<Rightarrow> bool"
  assumes decode_encode: "canonical h \<Longrightarrow> enc h p = Some b \<Longrightarrow> dec b = Some (h, p)"
    and decode_canonical: "dec b = Some (h, p) \<Longrightarrow> canonical h"
    and decode_encodable: "dec b = Some (h, p) \<Longrightarrow> \<exists>b'. enc h p = Some b' \<and> length b' = length b"
begin

text \<open>Distinct frames have distinct encodings.\<close>

lemma encode_inject:
  "canonical h \<Longrightarrow> canonical h' \<Longrightarrow> enc h p = Some b \<Longrightarrow> enc h' p' = Some b \<Longrightarrow> h = h' \<and> p = p'"
  using decode_encode [of h p b] decode_encode [of h' p' b] by simp

text \<open>Re-encoding a received frame loses nothing.\<close>

lemma reencode: "dec b = Some (h, p) \<Longrightarrow> \<exists>b'. enc h p = Some b' \<and> dec b' = Some (h, p) \<and> length b' = length b"
  using decode_encodable [of b h p] decode_canonical [of b h p] decode_encode by blast

end

text \<open>A frame inside a frame.\<close>

definition stack_dec :: "(bytes \<Rightarrow> ('h \<times> bytes) option) \<Rightarrow> (bytes \<Rightarrow> ('g \<times> bytes) option) \<Rightarrow> bytes \<Rightarrow> (('h \<times> 'g) \<times> bytes) option" where
  "stack_dec dec1 dec2 b = (case dec1 b of None \<Rightarrow> None | Some (h, p) \<Rightarrow>
     (case dec2 p of None \<Rightarrow> None | Some (g, q) \<Rightarrow> Some ((h, g), q)))"

definition stack_enc :: "('h \<Rightarrow> bytes \<Rightarrow> bytes option) \<Rightarrow> ('g \<Rightarrow> bytes \<Rightarrow> bytes option) \<Rightarrow> 'h \<times> 'g \<Rightarrow> bytes \<Rightarrow> bytes option" where
  "stack_enc enc1 enc2 hg q = (case enc2 (snd hg) q of None \<Rightarrow> None | Some p \<Rightarrow> enc1 (fst hg) p)"

locale codec_stack = outer: frame_codec dec1 enc1 can1 + inner: frame_codec dec2 enc2 can2
  for dec1 :: "bytes \<Rightarrow> ('h \<times> bytes) option" and enc1 can1
    and dec2 :: "bytes \<Rightarrow> ('g \<times> bytes) option" and enc2 can2 +
  assumes outer_length: "enc1 h p = Some b \<Longrightarrow> length p' = length p \<Longrightarrow> \<exists>b'. enc1 h p' = Some b' \<and> length b' = length b"

sublocale codec_stack \<subseteq> frame_codec "stack_dec dec1 dec2" "stack_enc enc1 enc2" "\<lambda>hg. can1 (fst hg) \<and> can2 (snd hg)"
proof (unfold_locales, goal_cases)
  case (1 h p b)
  then show ?case
    using outer.decode_encode inner.decode_encode by (fastforce simp: stack_dec_def stack_enc_def split: option.splits)
next
  case (2 b h p)
  then show ?case
    using outer.decode_canonical inner.decode_canonical by (fastforce simp: stack_dec_def split: option.splits)
next
  case (3 b hg q)
  then obtain p where d: "dec1 b = Some (fst hg, p)" "dec2 p = Some (snd hg, q)"
    by (auto simp: stack_dec_def split: option.splits)
  obtain p' where p': "enc2 (snd hg) q = Some p'" "length p' = length p" using inner.decode_encodable [OF d(2)] by blast
  obtain b1 where "enc1 (fst hg) p = Some b1" "length b1 = length b" using outer.decode_encodable [OF d(1)] by blast
  with outer_length [of _ _ _ p'] p' show ?case by (fastforce simp: stack_enc_def)
qed

end
