(* ===== verification/Mac_Frame.thy ===== *)
theory Mac_Frame
  imports Codec
begin

text \<open>
  The IEEE 802.15.4 MAC frame codec (\<open>src/src/mac_frame.c\<close>): command payloads, beacon
  fields, the header with its addressing modes, and whole frames. Buffers are byte lists as
  long as the C length argument; \<open>None\<close> is a \<open>NULL\<close> pointer, an output pointer is the flag
  that it is not \<open>NULL\<close>. A result is \<open>Inl\<close> the error code, with no output written, or
  \<open>Inr\<close> the output.
\<close>

abbreviation (input) MAC_FRAME_MAX_BODY :: nat where "MAC_FRAME_MAX_BODY \<equiv> 125"
abbreviation (input) MAC_COMMAND_MAX_PAYLOAD :: nat where "MAC_COMMAND_MAX_PAYLOAD \<equiv> 4"
abbreviation (input) MAC_BEACON_MAX_PAYLOAD :: nat where "MAC_BEACON_MAX_PAYLOAD \<equiv> 52"
abbreviation (input) MAC_BEACON_MAX_PENDING :: nat where "MAC_BEACON_MAX_PENDING \<equiv> 7"
abbreviation (input) MAC_RX_IEEE2006 :: u8 where "MAC_RX_IEEE2006 \<equiv> 0"
abbreviation (input) MAC_RX_R22_ASSOCIATION_RESPONSE :: u8 where "MAC_RX_R22_ASSOCIATION_RESPONSE \<equiv> 1"

abbreviation (input) MAC_FRAME_BEACON :: u8 where "MAC_FRAME_BEACON \<equiv> 0"
abbreviation (input) MAC_FRAME_DATA :: u8 where "MAC_FRAME_DATA \<equiv> 1"
abbreviation (input) MAC_FRAME_ACK :: u8 where "MAC_FRAME_ACK \<equiv> 2"
abbreviation (input) MAC_FRAME_COMMAND :: u8 where "MAC_FRAME_COMMAND \<equiv> 3"
abbreviation (input) MAC_ADDRESS_NONE :: u8 where "MAC_ADDRESS_NONE \<equiv> 0"
abbreviation (input) MAC_ADDRESS_SHORT :: u8 where "MAC_ADDRESS_SHORT \<equiv> 2"
abbreviation (input) MAC_ADDRESS_EXTENDED :: u8 where "MAC_ADDRESS_EXTENDED \<equiv> 3"

abbreviation (input) MAC_FLAG_SECURITY :: u8 where "MAC_FLAG_SECURITY \<equiv> 0x08"
abbreviation (input) MAC_FLAG_PENDING :: u8 where "MAC_FLAG_PENDING \<equiv> 0x10"
abbreviation (input) MAC_FLAG_ACK_REQUEST :: u8 where "MAC_FLAG_ACK_REQUEST \<equiv> 0x20"
abbreviation (input) MAC_FLAG_PAN_COMPRESSION :: u8 where "MAC_FLAG_PAN_COMPRESSION \<equiv> 0x40"

abbreviation (input) MAC_COMMAND_ASSOCIATION_REQUEST :: u8 where "MAC_COMMAND_ASSOCIATION_REQUEST \<equiv> 1"
abbreviation (input) MAC_COMMAND_ASSOCIATION_RESPONSE :: u8 where "MAC_COMMAND_ASSOCIATION_RESPONSE \<equiv> 2"
abbreviation (input) MAC_COMMAND_DISASSOCIATION :: u8 where "MAC_COMMAND_DISASSOCIATION \<equiv> 3"
abbreviation (input) MAC_COMMAND_DATA_REQUEST :: u8 where "MAC_COMMAND_DATA_REQUEST \<equiv> 4"
abbreviation (input) MAC_COMMAND_BEACON_REQUEST :: u8 where "MAC_COMMAND_BEACON_REQUEST \<equiv> 7"

abbreviation (input) MAC_ASSOCIATION_SUCCESS :: u8 where "MAC_ASSOCIATION_SUCCESS \<equiv> 0"
abbreviation (input) MAC_ASSOCIATION_PAN_ACCESS_DENIED :: u8 where "MAC_ASSOCIATION_PAN_ACCESS_DENIED \<equiv> 2"
abbreviation (input) MAC_DISASSOCIATION_COORDINATOR_REQUEST :: u8 where "MAC_DISASSOCIATION_COORDINATOR_REQUEST \<equiv> 1"
abbreviation (input) MAC_DISASSOCIATION_DEVICE_REQUEST :: u8 where "MAC_DISASSOCIATION_DEVICE_REQUEST \<equiv> 2"

datatype mac_codec_result =
    MAC_CODEC_OK | MAC_CODEC_INVALID_ARGUMENT | MAC_CODEC_TRUNCATED | MAC_CODEC_TOO_LONG
  | MAC_CODEC_BUFFER_TOO_SMALL | MAC_CODEC_UNSUPPORTED_TYPE | MAC_CODEC_UNSUPPORTED_VERSION
  | MAC_CODEC_UNSUPPORTED_SECURITY | MAC_CODEC_UNSUPPORTED_ADDRESSING | MAC_CODEC_INVALID_HEADER
  | MAC_CODEC_UNSUPPORTED_COMMAND | MAC_CODEC_INVALID_COMMAND | MAC_CODEC_UNSUPPORTED_BEACON
  | MAC_CODEC_INVALID_BEACON

record mac_command =
  mc_identifier :: u8
  mc_capability :: u8
  mc_short_address :: u16
  mc_status :: u8
  mc_reason :: u8

record mac_beacon_info =
  mb_superframe_specification :: u16
  mb_gts_permit :: u8
  mb_short_count :: nat
  mb_extended_count :: nat
  mb_short_offset :: nat
  mb_extended_offset :: nat
  mb_payload_offset :: nat
  mb_payload_length :: nat

record mac_header =
  mac_type :: u8
  mac_version :: u8
  mac_flags :: u8
  mac_sequence :: u8
  mac_destination_mode :: u8
  mac_source_mode :: u8
  mac_destination_pan :: u16
  mac_source_pan :: u16
  mac_destination :: bytes
  mac_source :: bytes

record mac_frame_info =
  mfi_header :: mac_header
  mfi_payload_offset :: nat
  mfi_payload_length :: nat

section \<open>Command payloads\<close>

definition command_size :: "u8 \<Rightarrow> nat" where
  "command_size identifier =
     (if identifier = MAC_COMMAND_ASSOCIATION_REQUEST \<or> identifier = MAC_COMMAND_DISASSOCIATION then 2
      else if identifier = MAC_COMMAND_ASSOCIATION_RESPONSE then 4
      else if identifier = MAC_COMMAND_DATA_REQUEST \<or> identifier = MAC_COMMAND_BEACON_REQUEST then 1
      else 0)"

definition command_policy :: "mac_command \<Rightarrow> mac_codec_result" where
  "command_policy c =
     (if mc_identifier c = MAC_COMMAND_ASSOCIATION_REQUEST then
        if mc_capability c AND 0x30 \<noteq> 0 then MAC_CODEC_INVALID_COMMAND else MAC_CODEC_OK
      else if mc_identifier c = MAC_COMMAND_ASSOCIATION_RESPONSE then
        if mc_status c > MAC_ASSOCIATION_PAN_ACCESS_DENIED
           \<or> (mc_status c = MAC_ASSOCIATION_SUCCESS \<and> mc_short_address c = 0xffff)
           \<or> (mc_status c \<noteq> MAC_ASSOCIATION_SUCCESS \<and> mc_short_address c \<noteq> 0xffff)
        then MAC_CODEC_INVALID_COMMAND else MAC_CODEC_OK
      else if mc_identifier c = MAC_COMMAND_DISASSOCIATION then
        if mc_reason c \<noteq> MAC_DISASSOCIATION_COORDINATOR_REQUEST \<and> mc_reason c \<noteq> MAC_DISASSOCIATION_DEVICE_REQUEST
        then MAC_CODEC_INVALID_COMMAND else MAC_CODEC_OK
      else if mc_identifier c = MAC_COMMAND_DATA_REQUEST \<or> mc_identifier c = MAC_COMMAND_BEACON_REQUEST then MAC_CODEC_OK
      else MAC_CODEC_UNSUPPORTED_COMMAND)"

text \<open>The zeroed candidate with the fields of its identifier filled in.\<close>

definition command_read :: "bytes \<Rightarrow> mac_command" where
  "command_read payload =
     (let c = \<lparr>mc_identifier = payload ! 0, mc_capability = 0, mc_short_address = 0, mc_status = 0, mc_reason = 0\<rparr> in
      if payload ! 0 = MAC_COMMAND_ASSOCIATION_REQUEST then c\<lparr>mc_capability := payload ! 1\<rparr>
      else if payload ! 0 = MAC_COMMAND_ASSOCIATION_RESPONSE
        then c\<lparr>mc_short_address := read_le16 (drop 1 payload), mc_status := payload ! 3\<rparr>
      else if payload ! 0 = MAC_COMMAND_DISASSOCIATION then c\<lparr>mc_reason := payload ! 1\<rparr>
      else c)"

definition mac_command_decode :: "bytes option \<Rightarrow> bool \<Rightarrow> mac_codec_result + mac_command" where
  "mac_command_decode payload result =
     (case payload of None \<Rightarrow> Inl MAC_CODEC_INVALID_ARGUMENT | Some p \<Rightarrow>
      if \<not> result then Inl MAC_CODEC_INVALID_ARGUMENT
      else if MAC_COMMAND_MAX_PAYLOAD < length p then Inl MAC_CODEC_TOO_LONG
      else if length p = 0 then Inl MAC_CODEC_TRUNCATED
      else let size = command_size (p ! 0) in
      if size = 0 then Inl MAC_CODEC_UNSUPPORTED_COMMAND
      else if length p < size then Inl MAC_CODEC_TRUNCATED
      else if length p \<noteq> size then Inl MAC_CODEC_INVALID_COMMAND
      else let candidate = command_read p; status = command_policy candidate in
      if status \<noteq> MAC_CODEC_OK then Inl status else Inr candidate)"

definition mac_command_encode :: "mac_command option \<Rightarrow> bool \<Rightarrow> nat \<Rightarrow> bool \<Rightarrow> mac_codec_result + bytes" where
  "mac_command_encode command payload capacity out_length =
     (case command of None \<Rightarrow> Inl MAC_CODEC_INVALID_ARGUMENT | Some c \<Rightarrow>
      if \<not> payload \<or> \<not> out_length then Inl MAC_CODEC_INVALID_ARGUMENT
      else let status = command_policy c in
      if status \<noteq> MAC_CODEC_OK then Inl status
      else if capacity < command_size (mc_identifier c) then Inl MAC_CODEC_BUFFER_TOO_SMALL
      else Inr (mc_identifier c #
        (if mc_identifier c = MAC_COMMAND_ASSOCIATION_REQUEST then [mc_capability c]
         else if mc_identifier c = MAC_COMMAND_ASSOCIATION_RESPONSE then write_le16 (mc_short_address c) @ [mc_status c]
         else if mc_identifier c = MAC_COMMAND_DISASSOCIATION then [mc_reason c]
         else [])))"

section \<open>Beacon payloads\<close>

definition beacon_fields :: "bytes \<Rightarrow> mac_codec_result + mac_beacon_info" where
  "beacon_fields p =
     (if 4 + 8 * MAC_BEACON_MAX_PENDING + MAC_BEACON_MAX_PAYLOAD < length p then Inl MAC_CODEC_TOO_LONG
      else if length p < 4 then Inl MAC_CODEC_TRUNCATED
      else if p ! 1 AND 0x20 \<noteq> 0 \<or> p ! 2 AND 0x78 \<noteq> 0 then Inl MAC_CODEC_INVALID_BEACON
      else if p ! 2 AND 7 \<noteq> 0 then Inl MAC_CODEC_UNSUPPORTED_BEACON
      else if p ! 3 AND 0x88 \<noteq> 0 then Inl MAC_CODEC_INVALID_BEACON
      else let short_count = unat (p ! 3 AND 7); extended_count = unat (drop_bit 4 (p ! 3) AND 7);
               extended_offset = 4 + 2 * short_count; payload_offset = extended_offset + 8 * extended_count in
      if MAC_BEACON_MAX_PENDING < short_count + extended_count then Inl MAC_CODEC_INVALID_BEACON
      else if length p < payload_offset then Inl MAC_CODEC_TRUNCATED
      else if payload_offset + MAC_BEACON_MAX_PAYLOAD < length p then Inl MAC_CODEC_TOO_LONG
      else if list_ex (\<lambda>k. read_le16 (drop (4 + 2 * k) p) = 0xffff) [0..<short_count] then Inl MAC_CODEC_INVALID_BEACON
      else Inr \<lparr>mb_superframe_specification = read_le16 p, mb_gts_permit = drop_bit 7 (p ! 2),
                mb_short_count = short_count, mb_extended_count = extended_count, mb_short_offset = 4,
                mb_extended_offset = extended_offset, mb_payload_offset = payload_offset,
                mb_payload_length = length p - payload_offset\<rparr>)"

text \<open>The status alone, as the frame codec calls it with a \<open>NULL\<close> result.\<close>

definition beacon_status :: "bytes \<Rightarrow> mac_codec_result" where
  "beacon_status p = (case beacon_fields p of Inl status \<Rightarrow> status | Inr _ \<Rightarrow> MAC_CODEC_OK)"

definition mac_beacon_decode :: "bytes option \<Rightarrow> bool \<Rightarrow> mac_codec_result + mac_beacon_info" where
  "mac_beacon_decode payload result =
     (case payload of None \<Rightarrow> Inl MAC_CODEC_INVALID_ARGUMENT
      | Some p \<Rightarrow> if result then beacon_fields p else Inl MAC_CODEC_INVALID_ARGUMENT)"

section \<open>Headers\<close>

definition mac_address_size :: "u8 \<Rightarrow> nat" where
  "mac_address_size mode = (if mode = MAC_ADDRESS_NONE then 0 else if mode = MAC_ADDRESS_SHORT then 2 else 8)"

text \<open>The sizes of the destination, of the source and of the whole header.\<close>

definition mac_header_shape :: "mac_header \<Rightarrow> mac_codec_result + (nat \<times> nat \<times> nat)" where
  "mac_header_shape h =
     (if mac_version h > 1 \<or> ((mac_type h = MAC_FRAME_BEACON \<or> mac_type h = MAC_FRAME_ACK \<or> mac_type h = MAC_FRAME_COMMAND)
         \<and> mac_version h \<noteq> 0) then Inl MAC_CODEC_UNSUPPORTED_VERSION
      else if mac_flags h AND MAC_FLAG_SECURITY \<noteq> 0 then Inl MAC_CODEC_UNSUPPORTED_SECURITY
      else if mac_flags h AND NOT (MAC_FLAG_PENDING OR MAC_FLAG_ACK_REQUEST OR MAC_FLAG_PAN_COMPRESSION) \<noteq> 0
        then Inl MAC_CODEC_INVALID_HEADER
      else if mac_type h = MAC_FRAME_BEACON then
        if mac_destination_mode h \<noteq> MAC_ADDRESS_NONE \<or>
           (mac_source_mode h \<noteq> MAC_ADDRESS_SHORT \<and> mac_source_mode h \<noteq> MAC_ADDRESS_EXTENDED)
          then Inl MAC_CODEC_UNSUPPORTED_ADDRESSING
        else if mac_flags h AND (MAC_FLAG_ACK_REQUEST OR MAC_FLAG_PAN_COMPRESSION) \<noteq> 0 then Inl MAC_CODEC_INVALID_HEADER
        else let src_size = (if mac_source_mode h = MAC_ADDRESS_SHORT then 2 else 8) in
          Inr (0, src_size, 5 + src_size)
      else if mac_type h = MAC_FRAME_ACK then
        if mac_destination_mode h \<noteq> MAC_ADDRESS_NONE \<or> mac_source_mode h \<noteq> MAC_ADDRESS_NONE \<or>
           mac_flags h AND (MAC_FLAG_ACK_REQUEST OR MAC_FLAG_PAN_COMPRESSION) \<noteq> 0 then Inl MAC_CODEC_INVALID_HEADER
        else Inr (0, 0, 3)
      else if mac_type h \<noteq> MAC_FRAME_DATA \<and> mac_type h \<noteq> MAC_FRAME_COMMAND then Inl MAC_CODEC_UNSUPPORTED_TYPE
      else if mac_destination_mode h > MAC_ADDRESS_EXTENDED \<or> mac_destination_mode h = 1 \<or>
              mac_source_mode h > MAC_ADDRESS_EXTENDED \<or> mac_source_mode h = 1 then Inl MAC_CODEC_UNSUPPORTED_ADDRESSING
      else if (mac_destination_mode h = MAC_ADDRESS_NONE \<or> mac_source_mode h = MAC_ADDRESS_NONE) \<and>
              (mac_type h = MAC_FRAME_DATA \<or> mac_flags h AND MAC_FLAG_PAN_COMPRESSION \<noteq> 0 \<or>
               mac_destination_mode h = mac_source_mode h) then Inl MAC_CODEC_UNSUPPORTED_ADDRESSING
      else let dst_size = mac_address_size (mac_destination_mode h); src_size = mac_address_size (mac_source_mode h) in
        Inr (dst_size, src_size, 3 + dst_size + src_size + (if dst_size \<noteq> 0 then 2 else 0) +
             (if src_size \<noteq> 0 \<and> mac_flags h AND MAC_FLAG_PAN_COMPRESSION = 0 then 2 else 0)))"

definition address_policy :: "mac_header \<Rightarrow> mac_codec_result" where
  "address_policy h =
     (if mac_type h = MAC_FRAME_ACK then MAC_CODEC_OK
      else if mac_flags h AND MAC_FLAG_PAN_COMPRESSION \<noteq> 0 \<and> mac_source_pan h \<noteq> mac_destination_pan h then MAC_CODEC_INVALID_HEADER
      else if mac_source_mode h = MAC_ADDRESS_SHORT \<and> read_le16 (mac_source h) = 0xffff then MAC_CODEC_INVALID_HEADER
      else if mac_type h = MAC_FRAME_BEACON \<and> (mac_source_pan h = 0xffff \<or>
              (mac_source_mode h = MAC_ADDRESS_SHORT \<and> read_le16 (mac_source h) = 0xfffe)) then MAC_CODEC_INVALID_HEADER
      else if mac_flags h AND MAC_FLAG_ACK_REQUEST \<noteq> 0 \<and> mac_destination_mode h = MAC_ADDRESS_SHORT \<and>
              read_le16 (mac_destination h) = 0xffff then MAC_CODEC_INVALID_HEADER
      else MAC_CODEC_OK)"

text \<open>Mode 0 is legacy reception, 1 transmission, 2 reception of an R22 association response.\<close>

definition command_header_policy :: "mac_header \<Rightarrow> bytes \<Rightarrow> u8 \<Rightarrow> mac_codec_result" where
  "command_header_policy h payload mode =
     (let compressed = mac_flags h AND MAC_FLAG_PAN_COMPRESSION \<noteq> 0 in
      if length payload = 0 then MAC_CODEC_TRUNCATED
      else (case mac_command_decode (Some payload) True of Inl status \<Rightarrow> status | Inr command \<Rightarrow>
        if mode = 1 \<and> mac_flags h AND MAC_FLAG_PENDING \<noteq> 0 then MAC_CODEC_INVALID_HEADER
        else if mc_identifier command = MAC_COMMAND_BEACON_REQUEST then
          if mac_destination_mode h \<noteq> MAC_ADDRESS_SHORT \<or> mac_source_mode h \<noteq> MAC_ADDRESS_NONE \<or>
             mac_destination_pan h \<noteq> 0xffff \<or> read_le16 (mac_destination h) \<noteq> 0xffff \<or>
             mac_flags h AND MAC_FLAG_ACK_REQUEST \<noteq> 0 then MAC_CODEC_INVALID_HEADER else MAC_CODEC_OK
        else if mac_flags h AND MAC_FLAG_ACK_REQUEST = 0 \<or>
             (mac_destination_mode h = MAC_ADDRESS_SHORT \<and> read_le16 (mac_destination h) \<ge> 0xfffe) \<or>
             (mac_source_mode h = MAC_ADDRESS_SHORT \<and> read_le16 (mac_source h) \<ge> 0xfffe) then MAC_CODEC_INVALID_HEADER
        else if mc_identifier command = MAC_COMMAND_DATA_REQUEST then
          if mac_source_mode h = MAC_ADDRESS_NONE \<or> compressed \<noteq> (mac_destination_mode h \<noteq> MAC_ADDRESS_NONE)
            then MAC_CODEC_INVALID_HEADER else MAC_CODEC_OK
        else if mac_source_mode h \<noteq> MAC_ADDRESS_EXTENDED \<or> mac_destination_mode h = MAC_ADDRESS_NONE
          then MAC_CODEC_INVALID_HEADER
        else if mc_identifier command = MAC_COMMAND_ASSOCIATION_REQUEST then
          if compressed \<or> mac_source_pan h \<noteq> 0xffff then MAC_CODEC_INVALID_HEADER else MAC_CODEC_OK
        else if (mc_identifier command = MAC_COMMAND_ASSOCIATION_RESPONSE \<and> mac_destination_mode h \<noteq> MAC_ADDRESS_EXTENDED) \<or>
             (\<not> compressed \<and> \<not> (mode = 2 \<and> mc_identifier command = MAC_COMMAND_ASSOCIATION_RESPONSE))
          then MAC_CODEC_INVALID_HEADER
        else MAC_CODEC_OK))"

section \<open>Frames\<close>

definition mac_read_control :: "bytes \<Rightarrow> mac_header" where
  "mac_read_control b =
     \<lparr>mac_type = b ! 0 AND 0x07, mac_version = drop_bit 4 (b ! 1) AND 0x03, mac_flags = b ! 0 AND 0xf8,
      mac_sequence = b ! 2, mac_destination_mode = drop_bit 2 (b ! 1) AND 0x03,
      mac_source_mode = drop_bit 6 (b ! 1) AND 0x03, mac_destination_pan = 0, mac_source_pan = 0,
      mac_destination = replicate 8 0, mac_source = replicate 8 0\<rparr>"

text \<open>\<open>memcpy\<close> of an address into the zeroed eight bytes.\<close>

definition mac_copy_address :: "nat \<Rightarrow> bytes \<Rightarrow> bytes" where
  "mac_copy_address n b = take n b @ replicate (8 - n) 0"

definition mac_read_destination :: "mac_header \<Rightarrow> nat \<Rightarrow> bytes \<Rightarrow> mac_header" where
  "mac_read_destination h dst_size b =
     (if dst_size \<noteq> 0
      then h\<lparr>mac_destination_pan := read_le16 (drop 3 b), mac_destination := mac_copy_address dst_size (drop 5 b)\<rparr>
      else h)"

definition mac_read_source :: "mac_header \<Rightarrow> nat \<Rightarrow> nat \<Rightarrow> bytes \<Rightarrow> mac_header" where
  "mac_read_source h position src_size b =
     (if src_size \<noteq> 0 then
        if mac_flags h AND MAC_FLAG_PAN_COMPRESSION \<noteq> 0
        then h\<lparr>mac_source_pan := mac_destination_pan h, mac_source := mac_copy_address src_size (drop position b)\<rparr>
        else h\<lparr>mac_source_pan := read_le16 (drop position b), mac_source := mac_copy_address src_size (drop (position + 2) b)\<rparr>
      else h)"

definition mac_frame_decode_profile :: "bytes option \<Rightarrow> bool \<Rightarrow> u8 \<Rightarrow> mac_codec_result + mac_frame_info" where
  "mac_frame_decode_profile body result profile =
     (case body of None \<Rightarrow> Inl MAC_CODEC_INVALID_ARGUMENT | Some b \<Rightarrow>
      if \<not> result \<or> profile > MAC_RX_R22_ASSOCIATION_RESPONSE then Inl MAC_CODEC_INVALID_ARGUMENT
      else if MAC_FRAME_MAX_BODY < length b then Inl MAC_CODEC_TOO_LONG
      else if length b < 3 then Inl MAC_CODEC_TRUNCATED
      else if b ! 1 AND 0x03 \<noteq> 0 then Inl MAC_CODEC_INVALID_HEADER
      else (case mac_header_shape (mac_read_control b) of Inl status \<Rightarrow> Inl status
        | Inr (dst_size, src_size, header_size) \<Rightarrow>
        if length b < header_size then Inl MAC_CODEC_TRUNCATED
        else if mac_type (mac_read_control b) = MAC_FRAME_ACK \<and> length b \<noteq> header_size then Inl MAC_CODEC_INVALID_HEADER
        else let h1 = mac_read_destination (mac_read_control b) dst_size b;
                 position = (if dst_size \<noteq> 0 then 5 + dst_size else 3);
                 h = mac_read_source h1 position src_size b;
                 status = address_policy h in
        if status \<noteq> MAC_CODEC_OK then Inl status
        else let status = (if mac_type h = MAC_FRAME_COMMAND
               then command_header_policy h (drop header_size b) (push_bit 1 profile) else MAC_CODEC_OK) in
        if status \<noteq> MAC_CODEC_OK then Inl status
        else let status = (if mac_type h = MAC_FRAME_BEACON then beacon_status (drop header_size b) else MAC_CODEC_OK) in
        if status \<noteq> MAC_CODEC_OK then Inl status
        else Inr \<lparr>mfi_header = h, mfi_payload_offset = header_size, mfi_payload_length = length b - header_size\<rparr>))"

definition mac_frame_decode :: "bytes option \<Rightarrow> bool \<Rightarrow> mac_codec_result + mac_frame_info" where
  "mac_frame_decode body result = mac_frame_decode_profile body result MAC_RX_IEEE2006"

definition mac_emit_frame :: "mac_header \<Rightarrow> bytes \<Rightarrow> nat \<Rightarrow> nat \<Rightarrow> bytes" where
  "mac_emit_frame h payload dst_size src_size =
     [mac_type h OR mac_flags h,
      push_bit 2 (mac_destination_mode h) OR push_bit 4 (mac_version h) OR push_bit 6 (mac_source_mode h), mac_sequence h] @
     (if dst_size \<noteq> 0 then write_le16 (mac_destination_pan h) @ take dst_size (mac_destination h) else []) @
     (if src_size \<noteq> 0
      then (if mac_flags h AND MAC_FLAG_PAN_COMPRESSION = 0 then write_le16 (mac_source_pan h) else []) @ take src_size (mac_source h)
      else []) @ payload"

definition mac_frame_encode :: "mac_header option \<Rightarrow> bytes option \<Rightarrow> nat \<Rightarrow> bool \<Rightarrow> nat \<Rightarrow> bool \<Rightarrow> mac_codec_result + bytes" where
  "mac_frame_encode header payload payload_length body capacity out_length =
     (case header of None \<Rightarrow> Inl MAC_CODEC_INVALID_ARGUMENT | Some h \<Rightarrow>
      if \<not> body \<or> \<not> out_length \<or> (payload = None \<and> payload_length \<noteq> 0) then Inl MAC_CODEC_INVALID_ARGUMENT
      else (case mac_header_shape h of Inl status \<Rightarrow> Inl status
        | Inr (dst_size, src_size, header_size) \<Rightarrow>
        let status = address_policy h; data = take payload_length (case payload of None \<Rightarrow> [] | Some p \<Rightarrow> p) in
        if status \<noteq> MAC_CODEC_OK then Inl status
        else if mac_type h = MAC_FRAME_ACK \<and> payload_length \<noteq> 0 then Inl MAC_CODEC_INVALID_HEADER
        else if MAC_FRAME_MAX_BODY - header_size < payload_length then Inl MAC_CODEC_TOO_LONG
        else let status = (if mac_type h = MAC_FRAME_COMMAND then command_header_policy h data 1 else MAC_CODEC_OK) in
        if status \<noteq> MAC_CODEC_OK then Inl status
        else let status = (if mac_type h = MAC_FRAME_BEACON then beacon_status data else MAC_CODEC_OK) in
        if status \<noteq> MAC_CODEC_OK then Inl status
        else if capacity < header_size + payload_length then Inl MAC_CODEC_BUFFER_TOO_SMALL
        else Inr (mac_emit_frame h data dst_size src_size)))"

section \<open>Round trip\<close>

text \<open>Headers as the decoder produces them: absent fields are zero.\<close>

definition mac_canonical :: "mac_header \<Rightarrow> bool" where
  "mac_canonical h \<longleftrightarrow> length (mac_destination h) = 8 \<and> length (mac_source h) = 8 \<and>
     mac_copy_address (mac_address_size (mac_destination_mode h)) (mac_destination h) = mac_destination h \<and>
     mac_copy_address (mac_address_size (mac_source_mode h)) (mac_source h) = mac_source h \<and>
     (mac_destination_mode h = MAC_ADDRESS_NONE \<longrightarrow> mac_destination_pan h = 0) \<and>
     (mac_source_mode h = MAC_ADDRESS_NONE \<longrightarrow> mac_source_pan h = 0)"

lemma word_le3: "\<not> x > 3 \<Longrightarrow> (x :: u8) = 0 \<or> x = 1 \<or> x = 2 \<or> x = 3"
  by (simp add: word_less_nat_alt word_unat_eq_iff not_less) presburger

lemma word_le1: "\<not> x > 1 \<Longrightarrow> (x :: u8) = 0 \<or> x = 1"
  by (simp add: word_less_nat_alt word_unat_eq_iff not_less le_Suc_eq)

text \<open>What a header with a shape satisfies.\<close>

lemma mac_shape_fields:
  assumes "mac_header_shape h = Inr (d, s, n)"
  shows "mac_type h = 0 \<or> mac_type h = 1 \<or> mac_type h = 2 \<or> mac_type h = 3" "mac_version h = 0 \<or> mac_version h = 1"
    "mac_flags h AND NOT 0x70 = 0" "mac_destination_mode h = 0 \<or> mac_destination_mode h = 2 \<or> mac_destination_mode h = 3"
    "mac_source_mode h = 0 \<or> mac_source_mode h = 2 \<or> mac_source_mode h = 3"
    "d = mac_address_size (mac_destination_mode h)" "s = mac_address_size (mac_source_mode h)"
    "n = 3 + (if d \<noteq> 0 then 2 + d else 0) + (if s \<noteq> 0 then s + (if mac_flags h AND 0x40 = 0 then 2 else 0) else 0)"
    "mac_type h = 1 \<longrightarrow> d \<noteq> 0 \<and> s \<noteq> 0"
proof -
  have comp: "mac_flags h AND 0x60 = 0 \<Longrightarrow> mac_flags h AND 0x40 = 0"
  proof -
    have "mac_flags h AND 0x40 = (mac_flags h AND 0x60) AND 0x40" by (simp add: and.assoc)
    then show "mac_flags h AND 0x60 = 0 \<Longrightarrow> mac_flags h AND 0x40 = 0" by simp
  qed
  have v: "\<not> mac_version h > 1" and m: "mac_type h = 1 \<or> mac_type h = 3 \<Longrightarrow>
      \<not> mac_destination_mode h > 3 \<and> mac_destination_mode h \<noteq> 1 \<and> \<not> mac_source_mode h > 3 \<and> mac_source_mode h \<noteq> 1"
    using assms by (auto simp: mac_header_shape_def Let_def split: if_splits)
  show t: "mac_type h = 0 \<or> mac_type h = 1 \<or> mac_type h = 2 \<or> mac_type h = 3" and "mac_flags h AND NOT 0x70 = 0"
    using assms by (auto simp: mac_header_shape_def Let_def split: if_splits)
  show "mac_version h = 0 \<or> mac_version h = 1" using word_le1 [OF v] .
  show "mac_destination_mode h = 0 \<or> mac_destination_mode h = 2 \<or> mac_destination_mode h = 3"
    using t m word_le3 [of "mac_destination_mode h"] assms by (auto simp: mac_header_shape_def Let_def split: if_splits)
  show "mac_source_mode h = 0 \<or> mac_source_mode h = 2 \<or> mac_source_mode h = 3"
    using t m word_le3 [of "mac_source_mode h"] assms by (auto simp: mac_header_shape_def Let_def split: if_splits)
  show ds: "d = mac_address_size (mac_destination_mode h)" "s = mac_address_size (mac_source_mode h)"
    using assms by (auto simp: mac_header_shape_def mac_address_size_def Let_def split: if_splits)
  show "n = 3 + (if d \<noteq> 0 then 2 + d else 0) + (if s \<noteq> 0 then s + (if mac_flags h AND 0x40 = 0 then 2 else 0) else 0)"
    using assms comp by (auto simp: mac_header_shape_def Let_def split: if_splits)
  show "mac_type h = 1 \<longrightarrow> d \<noteq> 0 \<and> s \<noteq> 0"
    using assms unfolding ds by (auto simp: mac_header_shape_def mac_address_size_def Let_def split: if_splits)
qed

lemma mac_control_bytes:
  fixes t f d v s :: u8
  assumes "t = 0 \<or> t = 1 \<or> t = 2 \<or> t = 3" "f AND NOT 0x70 = 0" "d = 0 \<or> d = 2 \<or> d = 3" "v = 0 \<or> v = 1" "s = 0 \<or> s = 2 \<or> s = 3"
  shows "(t OR f) AND 7 = t" "(t OR f) AND 0xf8 = f"
    "(push_bit 2 d OR push_bit 4 v OR push_bit 6 s) AND 3 = 0"
    "drop_bit 2 (push_bit 2 d OR push_bit 4 v OR push_bit 6 s) AND 3 = d"
    "drop_bit 4 (push_bit 2 d OR push_bit 4 v OR push_bit 6 s) AND 3 = v"
    "drop_bit 6 (push_bit 2 d OR push_bit 4 v OR push_bit 6 s) AND 3 = s"
proof -
  have "f AND (0x70 OR NOT 0x70) = (f AND 0x70) OR (f AND NOT 0x70)" by (rule bit.conj_disj_distrib)
  then obtain g where f: "f = g AND 0x70" using assms(2) by auto
  show "(t OR f) AND 7 = t" "(t OR f) AND 0xf8 = f"
    unfolding f using assms(1) by (auto simp: bit.conj_disj_distrib2 and.assoc)
qed (use assms(3-5) in \<open>auto simp: drop_bit_eq_div push_bit_eq_mult\<close>)

lemma mac_shape_cong:
  "mac_header_shape (h\<lparr>mac_destination_pan := dp, mac_source_pan := sp, mac_destination := da, mac_source := sa\<rparr>) = mac_header_shape h"
  by (cases h) (simp only: mac_header_shape_def mac_header.simps)

lemma mac_emit_simps:
  assumes "mac_canonical h" "d = mac_address_size (mac_destination_mode h)" "s = mac_address_size (mac_source_mode h)"
    "b = mac_emit_frame h p d s"
    "n = 3 + (if d \<noteq> 0 then 2 + d else 0) + (if s \<noteq> 0 then s + (if mac_flags h AND 0x40 = 0 then 2 else 0) else 0)"
  shows "length b = n + length p" "drop n b = p"
  using assms by (auto simp: mac_emit_frame_def mac_canonical_def mac_address_size_def write_le16_def)

lemma mac_copy_append: "length (take k a) = k \<Longrightarrow> mac_copy_address k (take k a @ r) = mac_copy_address k a"
  by (simp add: mac_copy_address_def)

lemma mac_read_emit:
  assumes shape: "mac_header_shape h = Inr (d, s, n)" and can: "mac_canonical h" and pol: "address_policy h = MAC_CODEC_OK"
    and b: "b = mac_emit_frame h p d s"
  shows "b ! 1 AND 3 = 0"
    "mac_read_control b = h\<lparr>mac_destination_pan := 0, mac_source_pan := 0, mac_destination := replicate 8 0, mac_source := replicate 8 0\<rparr>"
    "mac_read_source (mac_read_destination (mac_read_control b) d b) (if d \<noteq> 0 then 5 + d else 3) s b = h"
proof -
  note f = mac_shape_fields [OF shape]
  note c = mac_control_bytes [OF f(1) f(3) f(4) f(2) f(5)]
  show 1: "b ! 1 AND 3 = 0" unfolding b using c(3) by (simp add: mac_emit_frame_def)
  show ctl: "mac_read_control b = h\<lparr>mac_destination_pan := 0, mac_source_pan := 0,
      mac_destination := replicate 8 0, mac_source := replicate 8 0\<rparr>"
    unfolding b using c by (cases h) (simp add: mac_read_control_def mac_emit_frame_def)
  have l: "length (take d (mac_destination h)) = d" "length (take s (mac_source h)) = s"
    using can f(6,7) by (auto simp: mac_canonical_def mac_address_size_def)
  have z: "d = 0 \<longleftrightarrow> mac_destination_mode h = 0" "s = 0 \<longleftrightarrow> mac_source_mode h = 0"
    unfolding f(6,7) by (auto simp: mac_address_size_def)
  have ca: "mac_copy_address d (mac_destination h) = mac_destination h" "mac_copy_address s (mac_source h) = mac_source h"
    and zero: "d = 0 \<Longrightarrow> mac_destination h = replicate 8 0 \<and> mac_destination_pan h = 0"
      "s = 0 \<Longrightarrow> mac_source h = replicate 8 0 \<and> mac_source_pan h = 0"
    using can f(6,7) z by (auto simp: mac_canonical_def mac_copy_address_def)
  have drop5: "d \<noteq> 0 \<Longrightarrow> \<exists>r. drop 5 b = take d (mac_destination h) @ r" "d \<noteq> 0 \<Longrightarrow> read_le16 (drop 3 b) = mac_destination_pan h"
    unfolding b by (simp_all add: mac_emit_frame_def write_le16_def)
  let ?q = "if d \<noteq> 0 then 5 + d else 3"
  have src: "s \<noteq> 0 \<Longrightarrow> drop ?q b = (if mac_flags h AND 0x40 = 0 then write_le16 (mac_source_pan h) else []) @ take s (mac_source h) @ p"
  proof (cases "d = 0")
    case False
    have "drop (5 + d) b = drop d (drop 5 b)" by (simp add: add.commute)
    moreover assume "s \<noteq> 0"
    then have "drop 5 b = take d (mac_destination h) @ (if mac_flags h AND 0x40 = 0 then write_le16 (mac_source_pan h) else []) @ take s (mac_source h) @ p"
      unfolding b using False by (simp add: mac_emit_frame_def write_le16_def)
    ultimately show ?thesis using l(1) False by simp
  qed (simp add: b mac_emit_frame_def)
  have dst: "mac_read_destination (mac_read_control b) d b = h\<lparr>mac_source_pan := 0, mac_source := replicate 8 0\<rparr>"
    using drop5 zero(1) ca(1) mac_copy_append [OF l(1)] unfolding ctl
    by (cases h) (auto simp: mac_read_destination_def)
  have comp: "mac_flags h AND 0x40 \<noteq> 0 \<Longrightarrow> s \<noteq> 0 \<Longrightarrow> mac_source_pan h = mac_destination_pan h"
    using pol shape by (auto simp: address_policy_def mac_header_shape_def Let_def split: if_splits)
  define q where "q = ?q"
  note src = src [folded q_def]
  have "drop (q + 2) b = take s (mac_source h) @ p" if "s \<noteq> 0" "mac_flags h AND 0x40 = 0"
  proof -
    have "drop (q + 2) b = drop 2 (drop q b)" by (simp add: add.commute)
    then show ?thesis using src that by (simp add: write_le16_def)
  qed
  then have "mac_read_source (mac_read_destination (mac_read_control b) d b) q s b = h"
    using comp zero(2) ca(2) mac_copy_append [OF l(2)] src unfolding dst
    by (cases h) (auto simp: mac_read_source_def)
  then show "mac_read_source (mac_read_destination (mac_read_control b) d b) ?q s b = h" by (simp only: q_def)
qed

text \<open>A command header that may be sent may be received.\<close>

lemma command_policy_tx_rx:
  "command_header_policy h p 1 = MAC_CODEC_OK \<Longrightarrow> command_header_policy h p 0 = MAC_CODEC_OK"
proof -
  have "command_header_policy h p 1 = MAC_CODEC_INVALID_HEADER \<or> command_header_policy h p 1 = command_header_policy h p 0"
  proof (cases "mac_flags h AND MAC_FLAG_PENDING = 0")
    case True
    then have "command_header_policy h p 1 = command_header_policy h p 0"
      unfolding command_header_policy_def by (simp split del: if_split cong: if_cong sum.case_cong)
    then show ?thesis ..
  next
    case False
    then show ?thesis
      by (cases "mac_command_decode (Some p) True"; cases "p = []") (simp_all add: command_header_policy_def Let_def split del: if_split)
  qed
  then show "command_header_policy h p 1 = MAC_CODEC_OK \<Longrightarrow> command_header_policy h p 0 = MAC_CODEC_OK" by auto
qed

lemma mac_encode_decode:
  assumes "mac_canonical h" "mac_frame_encode (Some h) (Some p) (length p) True cap True = Inr b"
  shows "\<exists>n. mac_frame_decode (Some b) True = Inr \<lparr>mfi_header = h, mfi_payload_offset = n, mfi_payload_length = length p\<rparr> \<and>
    drop n b = p \<and> length b = n + length p"
proof -
  obtain d s n where shape: "mac_header_shape h = Inr (d, s, n)"
    using assms(2) by (auto simp: mac_frame_encode_def split: sum.splits)
  note run = assms(2) [unfolded mac_frame_encode_def Let_def option.case shape sum.case prod.case]
  have e: "address_policy h = MAC_CODEC_OK" "mac_type h = 2 \<Longrightarrow> p = []" "length p \<le> 125 - n"
    "mac_type h = 3 \<Longrightarrow> command_header_policy h p 1 = MAC_CODEC_OK"
    "mac_type h = 0 \<Longrightarrow> beacon_status p = MAC_CODEC_OK" "b = mac_emit_frame h p d s"
    using run by (auto split: if_splits)
  note f = mac_shape_fields [OF shape]
  have n: "n \<le> 23" "3 \<le> n" using f(6-8) by (auto simp: mac_address_size_def)
  note em = mac_emit_simps [OF assms(1) f(6,7) e(6) f(8)]
  note rd = mac_read_emit [OF shape assms(1) e(1) e(6)]
  have sh: "mac_header_shape (mac_read_control b) = Inr (d, s, n)" unfolding rd(2) mac_shape_cong by (rule shape)
  have ty: "mac_type (mac_read_control b) = mac_type h" unfolding rd(2) by simp
  show ?thesis
    using e(1,2,3,5) em n rd(1,3) command_policy_tx_rx [OF e(4)]
    unfolding mac_frame_decode_def mac_frame_decode_profile_def Let_def
    by (intro exI [of _ n]) (auto simp: sh ty)
qed

text \<open>Decoded headers are canonical, and the decoder's checks hold of them.\<close>

lemma mac_copy_length: "k \<le> 8 \<Longrightarrow> k \<le> length b \<Longrightarrow> length (mac_copy_address k b) = 8"
  "k \<le> length b \<Longrightarrow> mac_copy_address k (mac_copy_address k b) = mac_copy_address k b"
  by (auto simp: mac_copy_address_def)

lemma mac_read_fields:
  assumes "d = mac_address_size (mac_destination_mode c)" "s = mac_address_size (mac_source_mode c)"
    and c: "mac_destination c = replicate 8 0" "mac_source c = replicate 8 0" "mac_destination_pan c = 0" "mac_source_pan c = 0"
    and len: "3 + (if d \<noteq> 0 then 2 + d else 0) + (if s \<noteq> 0 then s + (if mac_flags c AND 0x40 = 0 then 2 else 0) else 0) \<le> length b"
    and h: "h = mac_read_source (mac_read_destination c d b) (if d \<noteq> 0 then 5 + d else 3) s b"
  shows "mac_canonical h" "\<exists>dp sp da sa. h = c\<lparr>mac_destination_pan := dp, mac_source_pan := sp, mac_destination := da, mac_source := sa\<rparr>"
proof -
  have k: "d \<le> 8" "s \<le> 8" "d = 0 \<longleftrightarrow> mac_destination_mode c = 0" "s = 0 \<longleftrightarrow> mac_source_mode c = 0"
    unfolding assms(1,2) by (auto simp: mac_address_size_def)
  have z: "mac_copy_address k (replicate 8 0) = replicate 8 0" if "k \<le> 8" for k
    using that replicate_add [of k "8 - k" "0 :: u8"] by (simp add: mac_copy_address_def min_def)
  have mac_none: "mac_address_size 0 = 0" by (simp add: mac_address_size_def)
  show "\<exists>dp sp da sa. h = c\<lparr>mac_destination_pan := dp, mac_source_pan := sp, mac_destination := da, mac_source := sa\<rparr>"
    unfolding h by (cases c) (auto simp: mac_read_source_def mac_read_destination_def)
  show "mac_canonical h"
    using k z len c mac_copy_length unfolding h
    by (auto simp: mac_read_source_def mac_read_destination_def mac_canonical_def mac_none assms(1,2) [symmetric])
qed

lemma mac_decode_facts:
  assumes "mac_frame_decode (Some b) True = Inr i"
  shows "mac_canonical (mfi_header i)" "address_policy (mfi_header i) = MAC_CODEC_OK"
    "length b \<le> 125" "mfi_payload_length i = length b - mfi_payload_offset i" "mfi_payload_offset i \<le> length b"
    "\<exists>d s. mac_header_shape (mfi_header i) = Inr (d, s, mfi_payload_offset i)"
proof -
  obtain d s n where shape: "mac_header_shape (mac_read_control b) = Inr (d, s, n)"
    using assms by (auto simp: mac_frame_decode_def mac_frame_decode_profile_def split: sum.splits if_splits)
  note run = assms [unfolded mac_frame_decode_def mac_frame_decode_profile_def Let_def option.case shape sum.case prod.case]
  note f = mac_shape_fields [OF shape]
  have i: "mfi_header i = mac_read_source (mac_read_destination (mac_read_control b) d b) (if d \<noteq> 0 then 5 + d else 3) s b"
    "mfi_payload_offset i = n" "mfi_payload_length i = length b - n" "n \<le> length b" "length b \<le> 125"
    "address_policy (mfi_header i) = MAC_CODEC_OK"
    using run by (auto split: if_splits)
  have "mac_canonical (mfi_header i) \<and> (\<exists>dp sp da sa. mfi_header i = (mac_read_control b)\<lparr>mac_destination_pan := dp,
      mac_source_pan := sp, mac_destination := da, mac_source := sa\<rparr>)"
    using mac_read_fields [OF f(6,7) _ _ _ _ _ i(1)] i(4) f(8) by (simp add: mac_read_control_def)
  then show "mac_canonical (mfi_header i)" "\<exists>d s. mac_header_shape (mfi_header i) = Inr (d, s, mfi_payload_offset i)"
    using shape i(2) by (auto simp: mac_shape_cong)
  show "address_policy (mfi_header i) = MAC_CODEC_OK" "length b \<le> 125"
    "mfi_payload_length i = length b - mfi_payload_offset i" "mfi_payload_offset i \<le> length b"
    using i by simp_all
qed

section \<open>Data frames as a codec\<close>

text \<open>The upper layers exchange data frames only; a received command may carry the pending
  flag, which the encoder refuses, so the contract below is that of data frames.\<close>

definition mac_view_dec :: "bytes \<Rightarrow> (mac_header \<times> bytes) option" where
  "mac_view_dec b = (case mac_frame_decode (Some b) True of Inl _ \<Rightarrow> None
     | Inr i \<Rightarrow> if mac_type (mfi_header i) = MAC_FRAME_DATA
         then Some (mfi_header i, take (mfi_payload_length i) (drop (mfi_payload_offset i) b)) else None)"

definition mac_view_enc :: "mac_header \<Rightarrow> bytes \<Rightarrow> bytes option" where
  "mac_view_enc h p = (if mac_type h = MAC_FRAME_DATA then
     (case mac_frame_encode (Some h) (Some p) (length p) True 125 True of Inl _ \<Rightarrow> None | Inr b \<Rightarrow> Some b) else None)"

lemma mac_view_enc_eq:
  "mac_view_enc h p = Some b \<longleftrightarrow> mac_type h = MAC_FRAME_DATA \<and> address_policy h = MAC_CODEC_OK \<and>
     (\<exists>d s n. mac_header_shape h = Inr (d, s, n) \<and> n + length p \<le> 125 \<and> b = mac_emit_frame h p d s)"
proof (cases "mac_header_shape h")
  case (Inr r)
  obtain d s n where r: "r = (d, s, n)" by (cases r)
  have "n \<le> 125" using mac_shape_fields(6-8) [OF Inr [unfolded r]] by (auto simp: mac_address_size_def)
  then show ?thesis using Inr r by (auto simp: mac_view_enc_def mac_frame_encode_def Let_def split: if_splits)
qed (simp add: mac_view_enc_def mac_frame_encode_def)

lemma mac_view_dec_eq:
  "mac_view_dec b = Some (h, p) \<longleftrightarrow> (\<exists>i. mac_frame_decode (Some b) True = Inr i \<and> mac_type h = MAC_FRAME_DATA \<and>
     h = mfi_header i \<and> p = take (mfi_payload_length i) (drop (mfi_payload_offset i) b))"
  unfolding mac_view_dec_def by (cases "mac_frame_decode (Some b) True") (simp_all, blast)

interpretation mac: frame_codec mac_view_dec mac_view_enc mac_canonical
proof (unfold_locales, goal_cases)
  case (1 h p b)
  have t: "mac_type h = 1" using 1(2) unfolding mac_view_enc_eq by blast
  then have "mac_frame_encode (Some h) (Some p) (length p) True 125 True = Inr b"
    using 1(2) by (cases "mac_frame_encode (Some h) (Some p) (length p) True 125 True") (simp_all add: mac_view_enc_def)
  from mac_encode_decode [OF 1(1) this] obtain n where
    "mac_frame_decode (Some b) True = Inr \<lparr>mfi_header = h, mfi_payload_offset = n, mfi_payload_length = length p\<rparr>" "drop n b = p"
    by blast
  then show ?case unfolding mac_view_dec_def by (simp add: t)
next
  case (2 b h p)
  then show ?case using mac_decode_facts(1) [of b] unfolding mac_view_dec_eq by blast
next
  case (3 b h p)
  then obtain i where i: "mac_frame_decode (Some b) True = Inr i" "h = mfi_header i" "mac_type h = 1"
    "p = take (mfi_payload_length i) (drop (mfi_payload_offset i) b)"
    unfolding mac_view_dec_eq by blast
  note f = mac_decode_facts [OF i(1), folded i(2)]
  obtain d s where sh: "mac_header_shape h = Inr (d, s, mfi_payload_offset i)" using f(6) by blast
  have "length p = mfi_payload_length i" using f(4) i(4) by simp
  then have "length (mac_emit_frame h p d s) = length b" "mfi_payload_offset i + length p \<le> 125"
    using mac_emit_simps(1) [OF f(1) mac_shape_fields(6,7) [OF sh] refl mac_shape_fields(8) [OF sh], of p] f(3-5) by simp_all
  then show ?case unfolding mac_view_enc_eq using f(2) i(3) sh by blast
qed

section \<open>Command payload round trip\<close>

text \<open>Commands as the decoder produces them: the fields of other identifiers are zero.\<close>

definition command_canonical :: "mac_command \<Rightarrow> bool" where
  "command_canonical c \<longleftrightarrow>
     (mc_identifier c \<noteq> MAC_COMMAND_ASSOCIATION_REQUEST \<longrightarrow> mc_capability c = 0) \<and>
     (mc_identifier c \<noteq> MAC_COMMAND_ASSOCIATION_RESPONSE \<longrightarrow> mc_short_address c = 0 \<and> mc_status c = 0) \<and>
     (mc_identifier c \<noteq> MAC_COMMAND_DISASSOCIATION \<longrightarrow> mc_reason c = 0)"

lemma command_encode_decode:
  assumes "command_canonical c" "mac_command_encode (Some c) True cap True = Inr p"
  shows "mac_command_decode (Some p) True = Inr c"
proof -
  note e = assms(2) [unfolded mac_command_encode_def Let_def option.case]
  have pol: "command_policy c = MAC_CODEC_OK" using e by (auto split: if_splits)
  then have id: "mc_identifier c \<in> {1, 2, 3, 4, 7}" by (auto simp: command_policy_def split: if_splits)
  have size: "length p = command_size (mc_identifier c)" "p \<noteq> []" "p ! 0 = mc_identifier c" "length p \<le> 4"
    using e id by (auto simp: command_size_def split: if_splits)
  have "command_read p = c"
    using e id assms(1) by (cases c) (auto simp: command_read_def command_canonical_def write_le16_def Let_def split: if_splits)
  then show ?thesis using size pol id by (auto simp: mac_command_decode_def Let_def command_size_def)
qed

lemma command_decode_encode:
  assumes "mac_command_decode (Some p) True = Inr c"
  shows "mac_command_encode (Some c) True 4 True = Inr p \<and> command_canonical c"
proof -
  note d = assms [unfolded mac_command_decode_def Let_def option.case]
  have c: "c = command_read p" "command_policy c = MAC_CODEC_OK" "length p = command_size (p ! 0)" "length p \<le> 4" "p \<noteq> []"
    using d by (auto split: if_splits)
  then have id: "mc_identifier c = p ! 0" "p ! 0 \<in> {1, 2, 3, 4, 7}"
    by (auto simp: command_read_def command_size_def Let_def split: if_splits)
  have can: "command_canonical c" unfolding c(1) by (simp add: command_read_def command_canonical_def Let_def)
  have p1: "length p = Suc 0 \<Longrightarrow> p = [p ! 0]" "length p = 2 \<Longrightarrow> p = [p ! 0, p ! 1]" "length p = 4 \<Longrightarrow> p = [p ! 0, p ! 1, p ! 2, p ! 3]"
    by (auto intro!: nth_equalityI simp: less_Suc_eq numeral_eq_Suc)
  have w: "write_le16 (read_le16 (drop 1 p)) = [p ! 1, p ! 2]" if "length p = 4"
    by (subst p1(3) [OF that]) (simp add: write_read_le16)
  have "mac_command_encode (Some c) True 4 True = Inr p"
    using id c p1 w
    by (elim insertE emptyE) (simp_all add: mac_command_encode_def command_read_def Let_def command_size_def)
  then show ?thesis using can ..
qed

end
