(* ===== verification/Nwk_Frame.thy ===== *)
theory Nwk_Frame
  imports Codec
begin

text \<open>
  The NWK data frame codec (\<open>src/src/nwk_frame.c\<close>). Buffers are byte lists as long as the C
  length argument; \<open>None\<close> is a \<open>NULL\<close> pointer, an output pointer is the flag that it is not
  \<open>NULL\<close>. A result is \<open>Inl\<close> the error code, with no output written, or \<open>Inr\<close> the output.
\<close>

abbreviation (input) NWK_FRAME_MAX_BODY :: nat where "NWK_FRAME_MAX_BODY \<equiv> 116"
abbreviation (input) NWK_FRAME_MIN_HEADER :: nat where "NWK_FRAME_MIN_HEADER \<equiv> 8"
abbreviation (input) NWK_FLAG_MULTICAST :: u16 where "NWK_FLAG_MULTICAST \<equiv> 0x0100"
abbreviation (input) NWK_FLAG_SECURITY :: u16 where "NWK_FLAG_SECURITY \<equiv> 0x0200"
abbreviation (input) NWK_FLAG_SOURCE_ROUTE :: u16 where "NWK_FLAG_SOURCE_ROUTE \<equiv> 0x0400"
abbreviation (input) NWK_FLAG_DESTINATION_IEEE :: u16 where "NWK_FLAG_DESTINATION_IEEE \<equiv> 0x0800"
abbreviation (input) NWK_FLAG_SOURCE_IEEE :: u16 where "NWK_FLAG_SOURCE_IEEE \<equiv> 0x1000"
abbreviation (input) NWK_FLAG_END_DEVICE_INITIATOR :: u16 where "NWK_FLAG_END_DEVICE_INITIATOR \<equiv> 0x2000"

datatype nwk_codec_result =
    NWK_CODEC_OK | NWK_CODEC_INVALID_ARGUMENT | NWK_CODEC_TRUNCATED | NWK_CODEC_TOO_LONG
  | NWK_CODEC_BUFFER_TOO_SMALL | NWK_CODEC_UNSUPPORTED_TYPE | NWK_CODEC_UNSUPPORTED_VERSION
  | NWK_CODEC_UNSUPPORTED_SECURITY | NWK_CODEC_UNSUPPORTED_LAYOUT | NWK_CODEC_INVALID_HEADER

record nwk_header =
  nwk_type :: u8
  nwk_version :: u8
  nwk_discover_route :: u8
  nwk_flags :: u16
  nwk_destination :: u16
  nwk_source :: u16
  nwk_radius :: u8
  nwk_sequence :: u8
  nwk_destination_ieee :: bytes
  nwk_source_ieee :: bytes

record nwk_frame_info =
  nfi_header :: nwk_header
  nfi_payload_offset :: nat
  nfi_payload_length :: nat

definition nwk_header_size :: "u16 \<Rightarrow> nat" where
  "nwk_header_size flags = NWK_FRAME_MIN_HEADER + (if flags AND NWK_FLAG_DESTINATION_IEEE \<noteq> 0 then 8 else 0) +
     (if flags AND NWK_FLAG_SOURCE_IEEE \<noteq> 0 then 8 else 0)"

definition nwk_header_shape :: "nwk_header \<Rightarrow> nwk_codec_result + nat" where
  "nwk_header_shape h =
     (if nwk_type h \<noteq> 0 then Inl NWK_CODEC_UNSUPPORTED_TYPE
      else if nwk_version h \<noteq> 2 then Inl NWK_CODEC_UNSUPPORTED_VERSION
      else if nwk_flags h AND NWK_FLAG_SECURITY \<noteq> 0 then Inl NWK_CODEC_UNSUPPORTED_SECURITY
      else if nwk_flags h AND (NWK_FLAG_MULTICAST OR NWK_FLAG_SOURCE_ROUTE) \<noteq> 0 then Inl NWK_CODEC_UNSUPPORTED_LAYOUT
      else if nwk_flags h AND NOT (NWK_FLAG_DESTINATION_IEEE OR NWK_FLAG_SOURCE_IEEE OR NWK_FLAG_END_DEVICE_INITIATOR) \<noteq> 0
        then Inl NWK_CODEC_INVALID_HEADER
      else if nwk_discover_route h > 1 \<or> nwk_source h \<ge> 0xfff8 then Inl NWK_CODEC_INVALID_HEADER
      else if nwk_destination h \<ge> 0xfff8 \<and> (nwk_destination h < 0xfffb \<or> nwk_destination h = 0xfffe \<or>
          nwk_discover_route h \<noteq> 0 \<or> nwk_flags h AND NWK_FLAG_DESTINATION_IEEE \<noteq> 0) then Inl NWK_CODEC_INVALID_HEADER
      else Inr (nwk_header_size (nwk_flags h)))"

text \<open>The header as read from the frame control word and the fixed part of the body.\<close>

definition nwk_read_header :: "bytes \<Rightarrow> nwk_header" where
  "nwk_read_header b =
     (let control = read_le16 b; destination = read_le16 (drop 2 b);
          route = ucast (drop_bit 6 control AND 3)
      in \<lparr>nwk_type = ucast (control AND 3), nwk_version = ucast (drop_bit 2 control AND 15),
          nwk_discover_route = (if route = 2 \<and> destination < 0xfff8 then 1 else route),
          nwk_flags = control AND 0xff00, nwk_destination = destination, nwk_source = read_le16 (drop 4 b),
          nwk_radius = b ! 6, nwk_sequence = b ! 7,
          nwk_destination_ieee = replicate 8 0, nwk_source_ieee = replicate 8 0\<rparr>)"

definition nwk_frame_decode :: "bytes option \<Rightarrow> bool \<Rightarrow> nwk_codec_result + nwk_frame_info" where
  "nwk_frame_decode body result =
     (case body of None \<Rightarrow> Inl NWK_CODEC_INVALID_ARGUMENT | Some b \<Rightarrow>
      if \<not> result then Inl NWK_CODEC_INVALID_ARGUMENT
      else if NWK_FRAME_MAX_BODY < length b then Inl NWK_CODEC_TOO_LONG
      else if length b < NWK_FRAME_MIN_HEADER then Inl NWK_CODEC_TRUNCATED
      else let h = nwk_read_header b in
      (case nwk_header_shape h of Inl e \<Rightarrow> Inl e | Inr sz \<Rightarrow>
        if length b < sz then Inl NWK_CODEC_TRUNCATED
        else let dst = nwk_flags h AND NWK_FLAG_DESTINATION_IEEE \<noteq> 0;
                 src = nwk_flags h AND NWK_FLAG_SOURCE_IEEE \<noteq> 0;
                 position = NWK_FRAME_MIN_HEADER + (if dst then 8 else 0)
             in Inr \<lparr>nfi_header = h\<lparr>
                      nwk_destination_ieee := (if dst then take 8 (drop NWK_FRAME_MIN_HEADER b) else nwk_destination_ieee h),
                      nwk_source_ieee := (if src then take 8 (drop position b) else nwk_source_ieee h)\<rparr>,
                    nfi_payload_offset = sz, nfi_payload_length = length b - sz\<rparr>))"

definition nwk_emit_frame :: "nwk_header \<Rightarrow> bytes \<Rightarrow> bytes" where
  "nwk_emit_frame h payload =
     [nwk_type h OR push_bit 2 (nwk_version h) OR push_bit 6 (nwk_discover_route h), ucast (drop_bit 8 (nwk_flags h))] @
     write_le16 (nwk_destination h) @ write_le16 (nwk_source h) @ [nwk_radius h, nwk_sequence h] @
     (if nwk_flags h AND NWK_FLAG_DESTINATION_IEEE \<noteq> 0 then take 8 (nwk_destination_ieee h) else []) @
     (if nwk_flags h AND NWK_FLAG_SOURCE_IEEE \<noteq> 0 then take 8 (nwk_source_ieee h) else []) @ payload"

definition nwk_frame_encode :: "nwk_header option \<Rightarrow> bytes option \<Rightarrow> nat \<Rightarrow> bool \<Rightarrow> nat \<Rightarrow> bool \<Rightarrow> nwk_codec_result + bytes" where
  "nwk_frame_encode header payload payload_length body capacity out_length =
     (case header of None \<Rightarrow> Inl NWK_CODEC_INVALID_ARGUMENT | Some h \<Rightarrow>
      if \<not> body \<or> \<not> out_length \<or> (payload = None \<and> payload_length \<noteq> 0) then Inl NWK_CODEC_INVALID_ARGUMENT
      else (case nwk_header_shape h of Inl e \<Rightarrow> Inl e | Inr sz \<Rightarrow>
        if NWK_FRAME_MAX_BODY - sz < payload_length then Inl NWK_CODEC_TOO_LONG
        else if capacity < sz + payload_length then Inl NWK_CODEC_BUFFER_TOO_SMALL
        else Inr (nwk_emit_frame h (take payload_length (case payload of None \<Rightarrow> [] | Some p \<Rightarrow> p)))))"

section \<open>Round trip\<close>

definition nwk_view_dec :: "bytes \<Rightarrow> (nwk_header \<times> bytes) option" where
  "nwk_view_dec b = (case nwk_frame_decode (Some b) True of Inl _ \<Rightarrow> None
     | Inr i \<Rightarrow> Some (nfi_header i, take (nfi_payload_length i) (drop (nfi_payload_offset i) b)))"

definition nwk_view_enc :: "nwk_header \<Rightarrow> bytes \<Rightarrow> bytes option" where
  "nwk_view_enc h p = (case nwk_frame_encode (Some h) (Some p) (length p) True 116 True of Inl _ \<Rightarrow> None | Inr b \<Rightarrow> Some b)"

text \<open>Headers as the decoder produces them: absent IEEE addresses are zero.\<close>

definition nwk_canonical :: "nwk_header \<Rightarrow> bool" where
  "nwk_canonical h \<longleftrightarrow> length (nwk_destination_ieee h) = 8 \<and> length (nwk_source_ieee h) = 8 \<and>
     (nwk_flags h AND NWK_FLAG_DESTINATION_IEEE = 0 \<longrightarrow> nwk_destination_ieee h = replicate 8 0) \<and>
     (nwk_flags h AND NWK_FLAG_SOURCE_IEEE = 0 \<longrightarrow> nwk_source_ieee h = replicate 8 0)"

lemma flags_mask:
  fixes f :: u16
  assumes "f AND NOT (0x0800 OR 0x1000 OR 0x2000) = 0"
  shows "f AND 0x3800 = f"
proof -
  have "f AND (0x3800 OR NOT 0x3800) = (f AND 0x3800) OR (f AND NOT 0x3800)" by (rule bit.conj_disj_distrib)
  then show ?thesis using assms by simp
qed

lemma shape_fields:
  assumes "nwk_header_shape h = Inr n"
  shows "nwk_type h = 0" "nwk_version h = 2" "nwk_flags h AND 0x3800 = nwk_flags h" "nwk_discover_route h \<in> {0, 1}"
    "nwk_destination h \<ge> 0xfff8 \<longrightarrow> nwk_discover_route h = 0" "n = nwk_header_size (nwk_flags h)"
proof -
  show "nwk_type h = 0" "nwk_version h = 2" "nwk_destination h \<ge> 0xfff8 \<longrightarrow> nwk_discover_route h = 0"
    "n = nwk_header_size (nwk_flags h)"
    using assms by (auto simp: nwk_header_shape_def split: if_splits)
  show "nwk_flags h AND 0x3800 = nwk_flags h"
    using assms by (intro flags_mask) (auto simp: nwk_header_shape_def split: if_splits)
  have "\<not> nwk_discover_route h > 1" using assms by (auto simp: nwk_header_shape_def split: if_splits)
  then show "nwk_discover_route h \<in> {0, 1}" by (simp add: word_less_nat_alt word_unat_eq_iff not_less le_Suc_eq)
qed

lemma nwk_shape_ieee [simp]:
  "nwk_header_shape (h\<lparr>nwk_destination_ieee := d, nwk_source_ieee := s\<rparr>) = nwk_header_shape h"
  by (cases h) (simp only: nwk_header_shape_def nwk_header.simps)

lemma flags_high_byte:
  fixes f :: u16
  assumes "f AND 0x3800 = f"
  shows "f AND 0xff00 = f" "f AND 3 = 0" "drop_bit 2 f AND 15 = 0" "drop_bit 6 f AND 3 = 0"
proof -
  have "(f AND 0x3800) AND 0xff00 = f AND 0x3800" "(f AND 0x3800) AND 3 = 0" by (simp_all add: and.assoc)
  then show "f AND 0xff00 = f" "f AND 3 = 0" unfolding assms .
  have "drop_bit 2 (f AND 0x3800) AND 15 = 0" "drop_bit 6 (f AND 0x3800) AND 3 = 0"
    by (simp_all only: drop_bit_and and.assoc) (simp_all add: drop_bit_eq_div)
  then show "drop_bit 2 f AND 15 = 0" "drop_bit 6 f AND 3 = 0" using assms by simp_all
qed

text \<open>The control word splits back into the fields a valid header was packed from.\<close>

lemma control_fields:
  fixes f :: u16 and r :: u8
  assumes "f AND 0x3800 = f" "r \<in> {0, 1}"
    and c: "c = read_le16 ((0 OR push_bit 2 2 OR push_bit 6 r) # ucast (drop_bit 8 f) # xs)"
  shows "c AND 3 = 0" "drop_bit 2 c AND 15 = 2" "drop_bit 6 c AND 3 = ucast r" "c AND 0xff00 = f"
proof -
  note f = flags_high_byte [OF assms(1)]
  have "c = ucast (push_bit 2 2 OR push_bit 6 r) OR f" unfolding c by (simp add: read_le16_split f)
  then show "c AND 3 = 0" "drop_bit 2 c AND 15 = 2" "drop_bit 6 c AND 3 = ucast r" "c AND 0xff00 = f"
    using assms(2) by (auto simp: bit.conj_disj_distrib2 f push_bit_eq_mult)
qed

lemma nwk_encode_eq:
  "nwk_view_enc h p = Some b \<longleftrightarrow> (\<exists>n. nwk_header_shape h = Inr n \<and> length p + n \<le> 116 \<and> b = nwk_emit_frame h p)"
  using shape_fields(6) [of h]
  by (fastforce simp: nwk_view_enc_def nwk_frame_encode_def nwk_header_size_def split: sum.splits if_splits)

lemma nwk_decode_eq:
  "nwk_view_dec b = Some (h, p) \<longleftrightarrow> 8 \<le> length b \<and> length b \<le> 116 \<and>
     (\<exists>n. nwk_header_shape (nwk_read_header b) = Inr n \<and> n \<le> length b \<and> p = drop n b \<and>
       h = (let g = nwk_read_header b; f = nwk_flags g in g\<lparr>
         nwk_destination_ieee := (if f AND NWK_FLAG_DESTINATION_IEEE \<noteq> 0 then take 8 (drop 8 b) else nwk_destination_ieee g),
         nwk_source_ieee := (if f AND NWK_FLAG_SOURCE_IEEE \<noteq> 0
           then take 8 (drop (8 + (if f AND NWK_FLAG_DESTINATION_IEEE \<noteq> 0 then 8 else 0)) b) else nwk_source_ieee g)\<rparr>))"
  by (auto simp: nwk_view_dec_def nwk_frame_decode_def Let_def split: sum.splits if_splits)

lemma nwk_read_emit:
  assumes "nwk_header_shape h = Inr n"
  shows "nwk_read_header (nwk_emit_frame h p) = h\<lparr>nwk_destination_ieee := replicate 8 0, nwk_source_ieee := replicate 8 0\<rparr>"
proof -
  note f = shape_fields [OF assms]
  note c = control_fields [OF f(3,4) refl]
  show ?thesis using f(1,2,4) c
    by (cases h) (auto simp: nwk_read_header_def nwk_emit_frame_def Let_def write_le16_def)
qed

lemma nwk_emit_length:
  "nwk_canonical h \<Longrightarrow> length (nwk_emit_frame h p) = nwk_header_size (nwk_flags h) + length p"
  by (auto simp: nwk_emit_frame_def nwk_canonical_def nwk_header_size_def)

lemma nwk_emit_drop:
  "nwk_canonical h \<Longrightarrow> drop (nwk_header_size (nwk_flags h)) (nwk_emit_frame h p) = p"
  "nwk_canonical h \<Longrightarrow> nwk_flags h AND NWK_FLAG_DESTINATION_IEEE \<noteq> 0 \<Longrightarrow> take 8 (drop 8 (nwk_emit_frame h p)) = nwk_destination_ieee h"
  "nwk_canonical h \<Longrightarrow> nwk_flags h AND NWK_FLAG_SOURCE_IEEE \<noteq> 0 \<Longrightarrow>
    take 8 (drop (8 + (if nwk_flags h AND NWK_FLAG_DESTINATION_IEEE \<noteq> 0 then 8 else 0)) (nwk_emit_frame h p)) = nwk_source_ieee h"
  by (auto simp: nwk_emit_frame_def nwk_canonical_def nwk_header_size_def write_le16_def)

interpretation nwk: frame_codec nwk_view_dec nwk_view_enc nwk_canonical
proof (unfold_locales, goal_cases)
  case (1 h p b)
  then obtain n where n: "nwk_header_shape h = Inr n" "length p + n \<le> 116" "b = nwk_emit_frame h p"
    unfolding nwk_encode_eq by blast
  note r = nwk_read_emit [OF n(1), of p]
  have sz: "n = nwk_header_size (nwk_flags h)" using shape_fields(6) [OF n(1)] .
  then have "8 \<le> n" by (simp add: nwk_header_size_def)
  moreover have "h\<lparr>nwk_destination_ieee := (if nwk_flags h AND 0x800 \<noteq> 0 then nwk_destination_ieee h else replicate 8 0),
      nwk_source_ieee := (if nwk_flags h AND 0x1000 \<noteq> 0 then nwk_source_ieee h else replicate 8 0)\<rparr> = h"
    using 1(1) by (cases h) (auto simp: nwk_canonical_def)
  ultimately show ?case using n r sz nwk_emit_length [OF 1(1), of p] nwk_emit_drop [OF 1(1), of p]
    by (simp add: nwk_decode_eq Let_def cong: if_cong)
next
  case (2 b h p)
  then show ?case
    by (auto simp: nwk_decode_eq Let_def nwk_canonical_def nwk_read_header_def nwk_header_size_def
        dest!: shape_fields(6))
next
  case (3 b h p)
  have can: "nwk_canonical h" using 3
    by (auto simp: nwk_decode_eq Let_def nwk_canonical_def nwk_read_header_def nwk_header_size_def
        dest!: shape_fields(6))
  obtain n where n: "nwk_header_shape h = Inr n" "n \<le> length b" "p = drop n b" "length b \<le> 116"
    using 3 by (auto simp: nwk_decode_eq Let_def)
  then show ?case using nwk_emit_length [OF can, of p] shape_fields(6) [OF n(1)] by (auto simp: nwk_encode_eq)
qed

end
