(* ===== verification/Aps_Frame.thy ===== *)
theory Aps_Frame
  imports Codec
begin

text \<open>
  The APS data frame codec (\<open>src/src/aps_frame.c\<close>), with the conventions of the NWK codec:
  a result is \<open>Inl\<close> the error code, with no output written, or \<open>Inr\<close> the output.
\<close>

abbreviation (input) APS_FRAME_MAX_BODY :: nat where "APS_FRAME_MAX_BODY \<equiv> 108"
abbreviation (input) APS_FRAME_HEADER_SIZE :: nat where "APS_FRAME_HEADER_SIZE \<equiv> 8"
abbreviation (input) APS_DELIVERY_UNICAST :: u8 where "APS_DELIVERY_UNICAST \<equiv> 0"
abbreviation (input) APS_DELIVERY_GROUP :: u8 where "APS_DELIVERY_GROUP \<equiv> 3"
abbreviation (input) APS_FLAG_ACK_FORMAT :: u8 where "APS_FLAG_ACK_FORMAT \<equiv> 0x10"
abbreviation (input) APS_FLAG_SECURITY :: u8 where "APS_FLAG_SECURITY \<equiv> 0x20"
abbreviation (input) APS_FLAG_ACK_REQUEST :: u8 where "APS_FLAG_ACK_REQUEST \<equiv> 0x40"
abbreviation (input) APS_FLAG_EXTENDED_HEADER :: u8 where "APS_FLAG_EXTENDED_HEADER \<equiv> 0x80"

datatype aps_codec_result =
    APS_CODEC_OK | APS_CODEC_INVALID_ARGUMENT | APS_CODEC_TRUNCATED | APS_CODEC_TOO_LONG
  | APS_CODEC_BUFFER_TOO_SMALL | APS_CODEC_UNSUPPORTED_TYPE | APS_CODEC_UNSUPPORTED_DELIVERY
  | APS_CODEC_UNSUPPORTED_SECURITY | APS_CODEC_UNSUPPORTED_LAYOUT | APS_CODEC_INVALID_HEADER

record aps_header =
  aps_type :: u8
  aps_delivery_mode :: u8
  aps_flags :: u8
  aps_destination_endpoint :: u8
  aps_cluster_id :: u16
  aps_profile_id :: u16
  aps_source_endpoint :: u8
  aps_counter :: u8

record aps_frame_info =
  afi_header :: aps_header
  afi_payload_offset :: nat
  afi_payload_length :: nat

definition aps_validate_header :: "aps_header \<Rightarrow> aps_codec_result" where
  "aps_validate_header h =
     (if aps_type h \<noteq> 0 then APS_CODEC_UNSUPPORTED_TYPE
      else if aps_flags h AND APS_FLAG_SECURITY \<noteq> 0 then APS_CODEC_UNSUPPORTED_SECURITY
      else if aps_flags h AND (APS_FLAG_ACK_FORMAT OR APS_FLAG_EXTENDED_HEADER) \<noteq> 0 then APS_CODEC_UNSUPPORTED_LAYOUT
      else if aps_flags h AND NOT APS_FLAG_ACK_REQUEST \<noteq> 0 then APS_CODEC_INVALID_HEADER
      else if aps_delivery_mode h = 1 \<or> aps_delivery_mode h > APS_DELIVERY_GROUP then APS_CODEC_INVALID_HEADER
      else if aps_delivery_mode h \<noteq> APS_DELIVERY_UNICAST then APS_CODEC_UNSUPPORTED_DELIVERY
      else if aps_source_endpoint h = 0xff then APS_CODEC_INVALID_HEADER
      else APS_CODEC_OK)"

definition aps_read_header :: "bytes \<Rightarrow> aps_header" where
  "aps_read_header b =
     \<lparr>aps_type = b ! 0 AND 3, aps_delivery_mode = drop_bit 2 (b ! 0) AND 3, aps_flags = b ! 0 AND 0xf0,
      aps_destination_endpoint = b ! 1, aps_cluster_id = read_le16 (drop 2 b), aps_profile_id = read_le16 (drop 4 b),
      aps_source_endpoint = b ! 6, aps_counter = b ! 7\<rparr>"

definition aps_frame_decode :: "bytes option \<Rightarrow> bool \<Rightarrow> aps_codec_result + aps_frame_info" where
  "aps_frame_decode body result =
     (case body of None \<Rightarrow> Inl APS_CODEC_INVALID_ARGUMENT | Some b \<Rightarrow>
      if \<not> result then Inl APS_CODEC_INVALID_ARGUMENT
      else if APS_FRAME_MAX_BODY < length b then Inl APS_CODEC_TOO_LONG
      else if length b = 0 then Inl APS_CODEC_TRUNCATED
      else if b ! 0 AND 3 \<noteq> 0 then Inl APS_CODEC_UNSUPPORTED_TYPE
      else if length b < APS_FRAME_HEADER_SIZE then Inl APS_CODEC_TRUNCATED
      else let h = aps_read_header b; status = aps_validate_header h in
      if status \<noteq> APS_CODEC_OK then Inl status
      else Inr \<lparr>afi_header = h, afi_payload_offset = APS_FRAME_HEADER_SIZE,
                 afi_payload_length = length b - APS_FRAME_HEADER_SIZE\<rparr>)"

definition aps_emit_frame :: "aps_header \<Rightarrow> bytes \<Rightarrow> bytes" where
  "aps_emit_frame h payload =
     [aps_type h OR push_bit 2 (aps_delivery_mode h) OR aps_flags h, aps_destination_endpoint h] @
     write_le16 (aps_cluster_id h) @ write_le16 (aps_profile_id h) @ [aps_source_endpoint h, aps_counter h] @ payload"

definition aps_frame_encode :: "aps_header option \<Rightarrow> bytes option \<Rightarrow> nat \<Rightarrow> bool \<Rightarrow> nat \<Rightarrow> bool \<Rightarrow> aps_codec_result + bytes" where
  "aps_frame_encode header payload payload_length body capacity out_length =
     (case header of None \<Rightarrow> Inl APS_CODEC_INVALID_ARGUMENT | Some h \<Rightarrow>
      if \<not> body \<or> \<not> out_length \<or> (payload = None \<and> payload_length \<noteq> 0) then Inl APS_CODEC_INVALID_ARGUMENT
      else let status = aps_validate_header h in
      if status \<noteq> APS_CODEC_OK then Inl status
      else if APS_FRAME_MAX_BODY - APS_FRAME_HEADER_SIZE < payload_length then Inl APS_CODEC_TOO_LONG
      else if capacity < APS_FRAME_HEADER_SIZE + payload_length then Inl APS_CODEC_BUFFER_TOO_SMALL
      else Inr (aps_emit_frame h (take payload_length (case payload of None \<Rightarrow> [] | Some p \<Rightarrow> p))))"

section \<open>Round trip\<close>

definition aps_view_dec :: "bytes \<Rightarrow> (aps_header \<times> bytes) option" where
  "aps_view_dec b = (case aps_frame_decode (Some b) True of Inl _ \<Rightarrow> None
     | Inr i \<Rightarrow> Some (afi_header i, take (afi_payload_length i) (drop (afi_payload_offset i) b)))"

definition aps_view_enc :: "aps_header \<Rightarrow> bytes \<Rightarrow> bytes option" where
  "aps_view_enc h p = (case aps_frame_encode (Some h) (Some p) (length p) True 108 True of Inl _ \<Rightarrow> None | Inr b \<Rightarrow> Some b)"

lemma aps_valid_fields:
  assumes "aps_validate_header h = APS_CODEC_OK"
  shows "aps_type h = 0" "aps_delivery_mode h = 0" "aps_flags h = 0 \<or> aps_flags h = 0x40"
proof -
  show "aps_type h = 0" "aps_delivery_mode h = 0"
    using assms by (auto simp: aps_validate_header_def split: if_splits)
  let ?f = "aps_flags h"
  have "?f = ?f AND (0x40 OR NOT 0x40)" by simp
  also have "\<dots> = (?f AND 0x40) OR (?f AND NOT 0x40)" by (rule bit.conj_disj_distrib)
  finally have f: "?f = ?f AND 0x40" using assms by (auto simp: aps_validate_header_def split: if_splits)
  show "?f = 0 \<or> ?f = 0x40" using f and_exp_cases [of ?f 6] by auto
qed

lemma aps_encode_eq:
  "aps_view_enc h p = Some b \<longleftrightarrow> aps_validate_header h = APS_CODEC_OK \<and> length p \<le> 100 \<and> b = aps_emit_frame h p"
  by (auto simp: aps_view_enc_def aps_frame_encode_def Let_def split: if_splits)

lemma aps_decode_eq:
  "aps_view_dec b = Some (h, p) \<longleftrightarrow> 8 \<le> length b \<and> length b \<le> 108 \<and> h = aps_read_header b \<and>
     aps_validate_header h = APS_CODEC_OK \<and> p = drop 8 b"
proof -
  have "aps_type (aps_read_header b) = 0" if "aps_validate_header (aps_read_header b) = APS_CODEC_OK"
    using aps_valid_fields(1) [OF that] .
  then show ?thesis
    by (auto simp: aps_view_dec_def aps_frame_decode_def Let_def aps_read_header_def split: if_splits)
qed

lemma aps_read_emit: "aps_validate_header h = APS_CODEC_OK \<Longrightarrow> aps_read_header (aps_emit_frame h p) = h"
  using aps_valid_fields [of h]
  by (cases h) (auto simp: aps_read_header_def aps_emit_frame_def write_le16_def)

text \<open>Every header the codec accepts is recovered: no canonicity is needed.\<close>

interpretation aps: frame_codec aps_view_dec aps_view_enc "\<lambda>_. True"
proof (unfold_locales, goal_cases)
  case (1 h p b)
  then have e: "aps_validate_header h = APS_CODEC_OK" "length p \<le> 100" "b = aps_emit_frame h p" by (simp_all add: aps_encode_eq)
  moreover have "length b = 8 + length p" "drop 8 b = p" unfolding e by (simp_all add: aps_emit_frame_def write_le16_def)
  ultimately show ?case using aps_read_emit [OF e(1), of p] by (simp add: aps_decode_eq)
next
  case (3 b h p)
  then show ?case by (auto simp: aps_decode_eq aps_encode_eq aps_emit_frame_def)
qed simp

end
