(* ===== verification/Zcl_Frame.thy ===== *)
theory Zcl_Frame
  imports Codec
begin

text \<open>
  The ZCL frame codec (\<open>src/src/zcl_frame.c\<close>) and the attribute value codec
  (\<open>src/src/zcl_value.c\<close>). Buffers are byte lists as long as the C length argument;
  \<open>None\<close> is a \<open>NULL\<close> pointer, an output pointer is the flag that it is not \<open>NULL\<close>. A result
  is \<open>Inl\<close> the error code, with no output written, or \<open>Inr\<close> the output.
\<close>

abbreviation (input) ZCL_FRAME_MAX_BODY :: nat where "ZCL_FRAME_MAX_BODY \<equiv> 100"
abbreviation (input) ZCL_FLAG_MANUFACTURER_SPECIFIC :: u8 where "ZCL_FLAG_MANUFACTURER_SPECIFIC \<equiv> 0x04"

datatype zcl_codec_result =
    ZCL_CODEC_OK | ZCL_CODEC_INVALID_ARGUMENT | ZCL_CODEC_TRUNCATED | ZCL_CODEC_TOO_LONG
  | ZCL_CODEC_BUFFER_TOO_SMALL | ZCL_CODEC_UNSUPPORTED_FRAME_TYPE | ZCL_CODEC_UNSUPPORTED_DATA_TYPE
  | ZCL_CODEC_UNSUPPORTED_LAYOUT | ZCL_CODEC_INVALID_HEADER | ZCL_CODEC_INVALID_VALUE
  | ZCL_CODEC_INVALID_TABLE | ZCL_CODEC_UNSUPPORTED_COMMAND | ZCL_CODEC_UNSUPPORTED_CONTEXT
  | ZCL_CODEC_UNSUPPORTED_NO_RESPONSE

record zcl_header =
  zcl_type :: u8
  zcl_flags :: u8
  zcl_manufacturer_code :: u16
  zcl_sequence :: u8
  zcl_command_id :: u8

record zcl_frame_info =
  zfi_header :: zcl_header
  zfi_ignored_control_bits :: u8
  zfi_payload_offset :: nat
  zfi_payload_length :: nat

definition zcl_header_size :: "u8 \<Rightarrow> nat" where
  "zcl_header_size flags = (if flags AND ZCL_FLAG_MANUFACTURER_SPECIFIC \<noteq> 0 then 5 else 3)"

definition zcl_frame_decode :: "bytes option \<Rightarrow> bool \<Rightarrow> zcl_codec_result + zcl_frame_info" where
  "zcl_frame_decode body result =
     (case body of None \<Rightarrow> Inl ZCL_CODEC_INVALID_ARGUMENT | Some b \<Rightarrow>
      if \<not> result then Inl ZCL_CODEC_INVALID_ARGUMENT
      else if ZCL_FRAME_MAX_BODY < length b then Inl ZCL_CODEC_TOO_LONG
      else if length b = 0 then Inl ZCL_CODEC_TRUNCATED
      else if b ! 0 AND 3 > 1 then Inl ZCL_CODEC_UNSUPPORTED_FRAME_TYPE
      else if b ! 0 AND ZCL_FLAG_MANUFACTURER_SPECIFIC \<noteq> 0 \<and> b ! 0 AND 0xe0 \<noteq> 0 then Inl ZCL_CODEC_UNSUPPORTED_LAYOUT
      else let size = zcl_header_size (b ! 0) in
      if length b < size then Inl ZCL_CODEC_TRUNCATED
      else let manufacturer = (b ! 0 AND 0x1c) AND ZCL_FLAG_MANUFACTURER_SPECIFIC \<noteq> 0;
               position = (if manufacturer then 3 else 1)
           in Inr \<lparr>zfi_header = \<lparr>zcl_type = b ! 0 AND 3, zcl_flags = b ! 0 AND 0x1c,
                    zcl_manufacturer_code = (if manufacturer then read_le16 (drop 1 b) else 0),
                    zcl_sequence = b ! position, zcl_command_id = b ! (position + 1)\<rparr>,
                  zfi_ignored_control_bits = b ! 0 AND 0xe0,
                  zfi_payload_offset = size, zfi_payload_length = length b - size\<rparr>)"

text \<open>\<open>header\<close>, payload pointer and length, whether \<open>body\<close> and \<open>length\<close> are given, capacity.\<close>

definition zcl_frame_encode :: "zcl_header option \<Rightarrow> bytes option \<Rightarrow> nat \<Rightarrow> bool \<Rightarrow> nat \<Rightarrow> bool \<Rightarrow> zcl_codec_result + bytes" where
  "zcl_frame_encode header payload payload_length body capacity out_length =
     (case header of None \<Rightarrow> Inl ZCL_CODEC_INVALID_ARGUMENT | Some h \<Rightarrow>
      if \<not> body \<or> \<not> out_length \<or> (payload = None \<and> payload_length \<noteq> 0) then Inl ZCL_CODEC_INVALID_ARGUMENT
      else if zcl_type h > 1 then Inl ZCL_CODEC_UNSUPPORTED_FRAME_TYPE
      else if zcl_flags h AND NOT 0x1c \<noteq> 0 then Inl ZCL_CODEC_INVALID_HEADER
      else let size = zcl_header_size (zcl_flags h) in
      if ZCL_FRAME_MAX_BODY - size < payload_length then Inl ZCL_CODEC_TOO_LONG
      else if capacity < size + payload_length then Inl ZCL_CODEC_BUFFER_TOO_SMALL
      else Inr ([zcl_type h OR zcl_flags h] @
             (if zcl_flags h AND ZCL_FLAG_MANUFACTURER_SPECIFIC \<noteq> 0 then write_le16 (zcl_manufacturer_code h) else []) @
             [zcl_sequence h, zcl_command_id h] @ take payload_length (case payload of None \<Rightarrow> [] | Some p \<Rightarrow> p)))"

section \<open>Frame round trip\<close>

definition zcl_view_dec :: "bytes \<Rightarrow> (zcl_header \<times> bytes) option" where
  "zcl_view_dec b = (case zcl_frame_decode (Some b) True of Inl _ \<Rightarrow> None
     | Inr i \<Rightarrow> Some (zfi_header i, take (zfi_payload_length i) (drop (zfi_payload_offset i) b)))"

definition zcl_view_enc :: "zcl_header \<Rightarrow> bytes \<Rightarrow> bytes option" where
  "zcl_view_enc h p = (case zcl_frame_encode (Some h) (Some p) (length p) True 100 True of Inl _ \<Rightarrow> None | Inr b \<Rightarrow> Some b)"

text \<open>Headers as the decoder produces them: no manufacturer code without its flag.\<close>

definition zcl_canonical :: "zcl_header \<Rightarrow> bool" where
  "zcl_canonical h \<longleftrightarrow> (zcl_flags h AND ZCL_FLAG_MANUFACTURER_SPECIFIC = 0 \<longrightarrow> zcl_manufacturer_code h = 0)"

lemma zcl_control_split:
  fixes t f :: u8
  assumes "\<not> t > 1" "f AND NOT 0x1c = 0"
  shows "(t OR f) AND 3 = t" "(t OR f) AND 0x1c = f" "(t OR f) AND 4 = f AND 4" "(t OR f) AND 0xe0 = 0"
proof -
  have t: "t = 0 \<or> t = 1" using assms(1) by (simp add: word_le_nat_alt word_unat_eq_iff not_less le_Suc_eq)
  have "f = f AND 0x1c"
  proof -
    have "f = f AND (0x1c OR NOT 0x1c)" by simp
    also have "\<dots> = (f AND 0x1c) OR (f AND NOT 0x1c)" by (rule bit.conj_disj_distrib)
    finally show ?thesis using assms(2) by simp
  qed
  then obtain g where f: "f = g AND 0x1c" by blast
  show "(t OR f) AND 3 = t" "(t OR f) AND 0x1c = f" "(t OR f) AND 4 = f AND 4" "(t OR f) AND 0xe0 = 0"
    unfolding f using t by (auto simp: bit.conj_disj_distrib2 and.assoc)
qed

lemma zcl_encode_eq:
  "zcl_view_enc h p = Some b \<longleftrightarrow> \<not> zcl_type h > 1 \<and> zcl_flags h AND NOT 0x1c = 0 \<and>
     length p + zcl_header_size (zcl_flags h) \<le> 100 \<and>
     b = [zcl_type h OR zcl_flags h] @
       (if zcl_flags h AND ZCL_FLAG_MANUFACTURER_SPECIFIC \<noteq> 0 then write_le16 (zcl_manufacturer_code h) else []) @
       [zcl_sequence h, zcl_command_id h] @ p"
  by (auto simp: zcl_view_enc_def zcl_frame_encode_def Let_def zcl_header_size_def split: if_splits)

lemma zcl_decode_eq:
  "zcl_view_dec b = Some (h, p) \<longleftrightarrow> length b \<le> 100 \<and> b \<noteq> [] \<and> \<not> b ! 0 AND 3 > 1 \<and>
     \<not> (b ! 0 AND 4 \<noteq> 0 \<and> b ! 0 AND 0xe0 \<noteq> 0) \<and> zcl_header_size (b ! 0) \<le> length b \<and>
     h = \<lparr>zcl_type = b ! 0 AND 3, zcl_flags = b ! 0 AND 0x1c,
          zcl_manufacturer_code = (if b ! 0 AND 4 \<noteq> 0 then read_le16 (drop 1 b) else 0),
          zcl_sequence = b ! (zcl_header_size (b ! 0) - 2), zcl_command_id = b ! (zcl_header_size (b ! 0) - 1)\<rparr> \<and>
     p = drop (zcl_header_size (b ! 0)) b"
  by (auto simp: zcl_view_dec_def zcl_frame_decode_def Let_def zcl_header_size_def and.assoc numeral_2_eq_2 split: if_splits)

interpretation zcl: frame_codec zcl_view_dec zcl_view_enc zcl_canonical
proof (unfold_locales, goal_cases)
  case (1 h p b)
  have e: "\<not> zcl_type h > 1" "zcl_flags h AND NOT 0x1c = 0" "length p + zcl_header_size (zcl_flags h) \<le> 100"
    "b = [zcl_type h OR zcl_flags h] @
       (if zcl_flags h AND ZCL_FLAG_MANUFACTURER_SPECIFIC \<noteq> 0 then write_le16 (zcl_manufacturer_code h) else []) @
       [zcl_sequence h, zcl_command_id h] @ p"
    using 1(2) unfolding zcl_encode_eq by blast+
  note c = zcl_control_split [OF e(1,2)]
  have sz: "zcl_header_size (zcl_type h OR zcl_flags h) = zcl_header_size (zcl_flags h)" by (simp add: zcl_header_size_def c)
  show ?case
  proof (cases "zcl_flags h AND 4 = 0")
    case True
    with e 1(1) c sz show ?thesis
      by (cases h) (simp add: zcl_decode_eq zcl_header_size_def zcl_canonical_def)
  next
    case False
    then have b: "b = [zcl_type h OR zcl_flags h] @ write_le16 (zcl_manufacturer_code h) @ [zcl_sequence h, zcl_command_id h] @ p"
      "zcl_header_size (zcl_flags h) = 5" using e by (simp_all add: zcl_header_size_def)
    show ?thesis using e(1-3) 1(1) c False sz b(2) unfolding b(1)
      by (cases h) (simp add: zcl_decode_eq write_le16_def)
  qed
next
  case (2 b h p)
  then show ?case by (auto simp: zcl_decode_eq zcl_canonical_def and.assoc)
next
  case (3 b h p)
  then have "zcl_flags h = b ! 0 AND 0x1c" "zcl_type h = b ! 0 AND 3" "\<not> b ! 0 AND 3 > 1" "zcl_header_size (b ! 0) \<le> length b"
    "length b \<le> 100" "p = drop (zcl_header_size (b ! 0)) b"
    by (simp_all add: zcl_decode_eq)
  moreover from this have "zcl_header_size (zcl_flags h) = zcl_header_size (b ! 0)" by (simp add: zcl_header_size_def and.assoc)
  ultimately show ?case unfolding zcl_encode_eq
    by (auto simp: and.assoc zcl_header_size_def split: if_splits)
qed

text \<open>The codec calls of the clients, seen through the contract.\<close>

lemma zcl_decode_view:
  "zcl_frame_decode (Some b) True = Inr i \<Longrightarrow>
     zcl_view_dec b = Some (zfi_header i, take (zfi_payload_length i) (drop (zfi_payload_offset i) b))"
  by (simp add: zcl_view_dec_def)

lemma zcl_decode_offset:
  assumes "zcl_frame_decode (Some b) True = Inr i"
  shows "zfi_payload_offset i = zcl_header_size (zcl_flags (zfi_header i))" "zfi_payload_offset i + zfi_payload_length i = length b"
    "length b \<le> 100"
  using assms by (auto simp: zcl_frame_decode_def Let_def zcl_header_size_def and.assoc split: if_splits)

lemma zcl_encode_view:
  assumes "zcl_frame_encode (Some h) (Some p) (length p) True cap True = Inr b"
  shows "zcl_view_enc h p = Some b" "length b \<le> cap" "length b = zcl_header_size (zcl_flags h) + length p"
  using assms by (auto simp: zcl_view_enc_def zcl_frame_encode_def Let_def zcl_header_size_def split: if_splits)

lemma zcl_encode_cap: "zcl_frame_encode h p n True cap True = Inr b \<Longrightarrow> length b \<le> cap"
  by (auto simp: zcl_frame_encode_def Let_def zcl_header_size_def split: option.splits if_splits)

lemma zcl_encode_total:
  assumes "zcl_type h \<le> 1" "zcl_flags h AND NOT 0x1c = 0" "zcl_header_size (zcl_flags h) + length p \<le> 100"
    "zcl_header_size (zcl_flags h) + length p \<le> cap"
  shows "\<exists>b. zcl_frame_encode (Some h) (Some p) (length p) True cap True = Inr b"
  using assms by (auto simp: zcl_frame_encode_def Let_def zcl_header_size_def split: if_splits)

lemma zcl_decode_fields:
  assumes "zcl_frame_decode (Some b) True = Inr i"
  shows "zcl_type (zfi_header i) \<le> 1" "zcl_flags (zfi_header i) AND NOT 0x1c = 0" "zcl_canonical (zfi_header i)"
proof -
  note v = zcl_decode_view [OF assms]
  show "zcl_canonical (zfi_header i)" using zcl.decode_canonical [OF v] .
  from zcl.decode_encodable [OF v] show "zcl_type (zfi_header i) \<le> 1" "zcl_flags (zfi_header i) AND NOT 0x1c = 0"
    unfolding zcl_encode_eq linorder_not_less by blast+
qed

end
