(* ===== verification/Frame_Stack.thy ===== *)
theory Frame_Stack
  imports Mac_Frame Nwk_Frame Aps_Frame Zcl_Frame
begin

text \<open>
  The layered packet: a ZCL frame in an APS frame in an NWK frame in a MAC data frame, each
  codec of \<open>src/src/*_frame.c\<close> applied to the payload of the one below. Each stacking is an
  interpretation of \<^term>\<open>codec_stack\<close>, so the whole packet codec has the laws of one codec.
\<close>

definition aps_zcl_dec :: "bytes \<Rightarrow> ((aps_header \<times> zcl_header) \<times> bytes) option" where
  "aps_zcl_dec = stack_dec aps_view_dec zcl_view_dec"

definition aps_zcl_enc :: "aps_header \<times> zcl_header \<Rightarrow> bytes \<Rightarrow> bytes option" where
  "aps_zcl_enc = stack_enc aps_view_enc zcl_view_enc"

definition nwk_packet_dec :: "bytes \<Rightarrow> ((nwk_header \<times> aps_header \<times> zcl_header) \<times> bytes) option" where
  "nwk_packet_dec = stack_dec nwk_view_dec aps_zcl_dec"

definition nwk_packet_enc :: "nwk_header \<times> aps_header \<times> zcl_header \<Rightarrow> bytes \<Rightarrow> bytes option" where
  "nwk_packet_enc = stack_enc nwk_view_enc aps_zcl_enc"

definition mac_packet_dec :: "bytes \<Rightarrow> ((mac_header \<times> nwk_header \<times> aps_header \<times> zcl_header) \<times> bytes) option" where
  "mac_packet_dec = stack_dec mac_view_dec nwk_packet_dec"

definition mac_packet_enc :: "mac_header \<times> nwk_header \<times> aps_header \<times> zcl_header \<Rightarrow> bytes \<Rightarrow> bytes option" where
  "mac_packet_enc = stack_enc mac_view_enc nwk_packet_enc"

text \<open>The length of an encoding depends on that of the payload only.\<close>

lemma mac_enc_length: "mac_view_enc h p = Some b \<Longrightarrow> length p' = length p \<Longrightarrow> \<exists>b'. mac_view_enc h p' = Some b' \<and> length b' = length b"
proof -
  assume "mac_view_enc h p = Some b" and l: "length p' = length p"
  then obtain d s n where e: "mac_type h = 1" "address_policy h = MAC_CODEC_OK" "mac_header_shape h = Inr (d, s, n)"
    "n + length p \<le> 125" "b = mac_emit_frame h p d s" by (auto simp: mac_view_enc_eq)
  moreover have "length (mac_emit_frame h p' d s) = length (mac_emit_frame h p d s)" using l by (simp add: mac_emit_frame_def)
  ultimately show ?thesis using l by (auto simp: mac_view_enc_eq)
qed

lemma nwk_enc_length: "nwk_view_enc h p = Some b \<Longrightarrow> length p' = length p \<Longrightarrow> \<exists>b'. nwk_view_enc h p' = Some b' \<and> length b' = length b"
  by (auto simp: nwk_encode_eq nwk_emit_frame_def)

lemma aps_enc_length: "aps_view_enc h p = Some b \<Longrightarrow> length p' = length p \<Longrightarrow> \<exists>b'. aps_view_enc h p' = Some b' \<and> length b' = length b"
  by (auto simp: aps_encode_eq aps_emit_frame_def)

interpretation aps_zcl: codec_stack aps_view_dec aps_view_enc "\<lambda>_. True" zcl_view_dec zcl_view_enc zcl_canonical
  rewrites "stack_dec aps_view_dec zcl_view_dec = aps_zcl_dec" and "stack_enc aps_view_enc zcl_view_enc = aps_zcl_enc"
  by (unfold_locales, rule aps_enc_length) (simp_all add: aps_zcl_dec_def aps_zcl_enc_def)

interpretation nwk_packet: codec_stack nwk_view_dec nwk_view_enc nwk_canonical aps_zcl_dec aps_zcl_enc "\<lambda>hg. True \<and> zcl_canonical (snd hg)"
  rewrites "stack_dec nwk_view_dec aps_zcl_dec = nwk_packet_dec" and "stack_enc nwk_view_enc aps_zcl_enc = nwk_packet_enc"
  by (unfold_locales, rule nwk_enc_length) (simp_all add: nwk_packet_dec_def nwk_packet_enc_def)

interpretation mac_packet: codec_stack mac_view_dec mac_view_enc mac_canonical nwk_packet_dec nwk_packet_enc
    "\<lambda>hg. nwk_canonical (fst hg) \<and> True \<and> zcl_canonical (snd (snd hg))"
  rewrites "stack_dec mac_view_dec nwk_packet_dec = mac_packet_dec" and "stack_enc mac_view_enc nwk_packet_enc = mac_packet_enc"
  by (unfold_locales, rule mac_enc_length) (simp_all add: mac_packet_dec_def mac_packet_enc_def)

section \<open>Properties of the packet codec\<close>

text \<open>A concrete packet: a Read Attributes request for attribute 0x0004.\<close>

definition sample_mac :: mac_header where
  "sample_mac = \<lparr>mac_type = 1, mac_version = 0, mac_flags = 0x60, mac_sequence = 7, mac_destination_mode = 2, mac_source_mode = 2,
     mac_destination_pan = 0x1234, mac_source_pan = 0x1234, mac_destination = [0, 0, 0, 0, 0, 0, 0, 0],
     mac_source = [0xcd, 0xab, 0, 0, 0, 0, 0, 0]\<rparr>"

definition sample_nwk :: nwk_header where
  "sample_nwk = \<lparr>nwk_type = 0, nwk_version = 2, nwk_discover_route = 0, nwk_flags = 0x1000, nwk_destination = 0, nwk_source = 0xabcd,
     nwk_radius = 30, nwk_sequence = 1, nwk_destination_ieee = replicate 8 0, nwk_source_ieee = [1, 2, 3, 4, 5, 6, 7, 8]\<rparr>"

definition sample_aps :: aps_header where
  "sample_aps = \<lparr>aps_type = 0, aps_delivery_mode = 0, aps_flags = 0x40, aps_destination_endpoint = 1, aps_cluster_id = 0,
     aps_profile_id = 0x104, aps_source_endpoint = 1, aps_counter = 9\<rparr>"

definition sample_zcl :: zcl_header where
  "sample_zcl = \<lparr>zcl_type = 0, zcl_flags = 0x10, zcl_manufacturer_code = 0, zcl_sequence = 5, zcl_command_id = 0\<rparr>"

definition sample_packet :: bytes where
  "sample_packet = [0x61, 0x88, 7, 0x34, 0x12, 0, 0, 0xcd, 0xab, 8, 0x10, 0, 0, 0xcd, 0xab, 30, 1, 1, 2, 3, 4, 5, 6, 7, 8,
     0x40, 1, 0, 0, 4, 1, 1, 9, 0x10, 5, 0, 4, 0]"

lemmas sample_defs = sample_mac_def sample_nwk_def sample_aps_def sample_zcl_def sample_packet_def

lemma sample_encodes: "mac_packet_enc (sample_mac, sample_nwk, sample_aps, sample_zcl) [4, 0] = Some sample_packet"
  by code_simp

lemma sample_canonical: "mac_canonical sample_mac" "nwk_canonical sample_nwk" "zcl_canonical sample_zcl"
  by code_simp+

text \<open>C5. A packet survives the wire: what the four encoders build (ZCL in APS in NWK in a MAC data frame)
  the four decoders take apart into the same headers and payload, for every header in the form
  the decoders produce.\<close>

theorem packet_roundtrip:
  assumes "mac_canonical m" "nwk_canonical n" "zcl_canonical z" "mac_packet_enc (m, n, a, z) payload = Some body"
  shows "mac_packet_dec body = Some ((m, n, a, z), payload)"
  using mac_packet.decode_encode [of "(m, n, a, z)" payload body] assms by simp

theorem packet_roundtrip_witness: "mac_packet_dec sample_packet = Some ((sample_mac, sample_nwk, sample_aps, sample_zcl), [4, 0])"
  by (rule packet_roundtrip [OF sample_canonical sample_encodes])

text \<open>C6. Every accepted packet can be sent on: its headers and payload encode again to a body of the same
  length, which decodes to the same headers and payload.\<close>

theorem packet_reencode:
  assumes "mac_packet_dec body = Some (headers, payload)"
  shows "\<exists>body'. mac_packet_enc headers payload = Some body' \<and> mac_packet_dec body' = Some (headers, payload) \<and> length body' = length body"
  using mac_packet.reencode [OF assms] .

theorem packet_reencode_witness:
  "\<exists>body'. mac_packet_enc (sample_mac, sample_nwk, sample_aps, sample_zcl) [4, 0] = Some body' \<and>
     mac_packet_dec body' = Some ((sample_mac, sample_nwk, sample_aps, sample_zcl), [4, 0]) \<and> length body' = length sample_packet"
proof -
  have "mac_packet_dec sample_packet = Some ((sample_mac, sample_nwk, sample_aps, sample_zcl), [4, 0])"
    using mac_packet.decode_encode [OF _ sample_encodes] sample_canonical by simp
  then show ?thesis by (rule packet_reencode)
qed

text \<open>C7. Every MAC frame the encoder builds, of any type, is accepted by the decoder with the same header
  and payload.\<close>

theorem mac_frame_roundtrip:
  assumes "mac_canonical h" "mac_frame_encode (Some h) (Some p) (length p) True cap True = Inr body"
  shows "\<exists>n. mac_frame_decode (Some body) True = Inr \<lparr>mfi_header = h, mfi_payload_offset = n, mfi_payload_length = length p\<rparr> \<and>
    drop n body = p \<and> length body = n + length p"
  using mac_encode_decode [OF assms] .

theorem mac_frame_roundtrip_witness:
  "\<exists>n. mac_frame_decode (Some [0x03, 0x08, 1, 0xff, 0xff, 0xff, 0xff, 7]) True =
      Inr \<lparr>mfi_header = \<lparr>mac_type = 3, mac_version = 0, mac_flags = 0, mac_sequence = 1, mac_destination_mode = 2, mac_source_mode = 0,
        mac_destination_pan = 0xffff, mac_source_pan = 0, mac_destination = [0xff, 0xff, 0, 0, 0, 0, 0, 0], mac_source = replicate 8 0\<rparr>,
        mfi_payload_offset = n, mfi_payload_length = length [7 :: u8]\<rparr> \<and>
    drop n [0x03, 0x08, 1, 0xff, 0xff, 0xff, 0xff, 7 :: u8] = [7] \<and> length [0x03, 0x08, 1, 0xff, 0xff, 0xff, 0xff, 7 :: u8] = n + length [7 :: u8]"
  by (rule mac_frame_roundtrip [where cap = 125]) code_simp+

text \<open>C8. MAC command payloads: the bytes and the decoded command determine each other.\<close>

theorem mac_command_roundtrip:
  "mac_command_decode (Some p) True = Inr c \<longleftrightarrow> command_canonical c \<and> mac_command_encode (Some c) True 4 True = Inr p"
  using command_encode_decode command_decode_encode by blast

end
