(* ===== verification/Zcl_Value.thy ===== *)
theory Zcl_Value
  imports Zcl_Frame
begin

text \<open>The attribute value codec (\<open>src/src/zcl_value.c\<close>): fixed-width values, booleans and strings.\<close>

abbreviation (input) KIND_RAW :: u8 where "KIND_RAW \<equiv> 0"
abbreviation (input) KIND_UNSIGNED :: u8 where "KIND_UNSIGNED \<equiv> 0x10"
abbreviation (input) KIND_SIGNED :: u8 where "KIND_SIGNED \<equiv> 0x20"
abbreviation (input) KIND_BOOLEAN :: u8 where "KIND_BOOLEAN \<equiv> 0x30"
abbreviation (input) KIND_STRING :: u8 where "KIND_STRING \<equiv> 0x40"
abbreviation (input) SHAPE_UNSUPPORTED :: u8 where "SHAPE_UNSUPPORTED \<equiv> 0xff"

record zcl_value =
  zv_type :: u8
  zv_string_non_value :: u8
  zv_data :: "bytes option"
  zv_data_length :: nat

record zcl_value_info =
  zi_type :: u8
  zi_data_offset :: nat
  zi_data_length :: nat
  zi_encoded_length :: nat
  zi_non_value_pattern :: bool

definition value_shape :: "u8 \<Rightarrow> u8" where
  "value_shape type =
     (if type = 0 then KIND_RAW
      else if (0x08 \<le> type \<and> type \<le> 0x0f) \<or> (0x18 \<le> type \<and> type \<le> 0x2f) then
        (let kind = (if 0x28 \<le> type then KIND_SIGNED else if 0x20 \<le> type then KIND_UNSIGNED else KIND_RAW)
         in kind OR ((type AND 7) + 1))
      else if type = 0x10 then KIND_BOOLEAN OR 1
      else if type = 0x30 \<or> type = 0x31 then KIND_UNSIGNED OR (type - 0x30 + 1)
      else if type = 0x41 \<or> type = 0x42 then KIND_STRING
      else SHAPE_UNSUPPORTED)"

definition zcl_value_type_supported :: "u8 \<Rightarrow> bool" where
  "zcl_value_type_supported type \<longleftrightarrow> value_shape type \<noteq> SHAPE_UNSUPPORTED"

text \<open>The loop runs from the most significant octet down.\<close>

fun non_value_loop :: "bool \<Rightarrow> u8 \<Rightarrow> bytes \<Rightarrow> nat \<Rightarrow> bool" where
  "non_value_loop sign expected data 0 = True"
| "non_value_loop sign expected data (Suc width) =
     (data ! width = expected \<and> non_value_loop sign (if sign then 0 else expected) data width)"

definition non_value_pattern :: "u8 \<Rightarrow> bytes \<Rightarrow> nat \<Rightarrow> bool" where
  "non_value_pattern kind data width \<longleftrightarrow>
     kind \<noteq> KIND_RAW \<and> non_value_loop (kind = KIND_SIGNED) (if kind = KIND_SIGNED then 0x80 else 0xff) data width"

definition shape_width :: "u8 \<Rightarrow> nat" where "shape_width shape = unat (shape AND 0x0f)"
definition shape_kind :: "u8 \<Rightarrow> u8" where "shape_kind shape = shape AND 0xf0"

definition boolean_octet :: "u8 \<Rightarrow> bool" where
  "boolean_octet b \<longleftrightarrow> b = 0 \<or> b = 1 \<or> b = 0xff"

definition zcl_value_decode :: "u8 \<Rightarrow> bytes option \<Rightarrow> bool \<Rightarrow> zcl_codec_result + zcl_value_info" where
  "zcl_value_decode type body result =
     (case body of None \<Rightarrow> Inl ZCL_CODEC_INVALID_ARGUMENT | Some b \<Rightarrow>
      if \<not> result then Inl ZCL_CODEC_INVALID_ARGUMENT
      else let shape = value_shape type in
      if shape = SHAPE_UNSUPPORTED then Inl ZCL_CODEC_UNSUPPORTED_DATA_TYPE
      else let kind = shape_kind shape; string = (kind = KIND_STRING) in
      if string \<and> length b = 0 then Inl ZCL_CODEC_TRUNCATED
      else let offset = (if string then 1 else 0); empty = (string \<and> b ! 0 = 0xff);
               width = (if string then (if empty then 0 else unat (b ! 0)) else shape_width shape)
      in if length b < offset + width then Inl ZCL_CODEC_TRUNCATED
      else if kind = KIND_BOOLEAN \<and> \<not> boolean_octet (b ! 0) then Inl ZCL_CODEC_INVALID_VALUE
      else Inr \<lparr>zi_type = type, zi_data_offset = offset, zi_data_length = width, zi_encoded_length = offset + width,
                zi_non_value_pattern = (if string then empty else non_value_pattern kind b width)\<rparr>)"

definition zcl_value_encode :: "zcl_value option \<Rightarrow> bool \<Rightarrow> nat \<Rightarrow> bool \<Rightarrow> zcl_codec_result + bytes" where
  "zcl_value_encode value body capacity out_length =
     (case value of None \<Rightarrow> Inl ZCL_CODEC_INVALID_ARGUMENT | Some v \<Rightarrow>
      if \<not> body \<or> \<not> out_length then Inl ZCL_CODEC_INVALID_ARGUMENT
      else if zv_data v = None \<and> zv_data_length v \<noteq> 0 then Inl ZCL_CODEC_INVALID_ARGUMENT
      else let shape = value_shape (zv_type v); data = (case zv_data v of None \<Rightarrow> [] | Some d \<Rightarrow> d); n = zv_data_length v in
      if shape = SHAPE_UNSUPPORTED then Inl ZCL_CODEC_UNSUPPORTED_DATA_TYPE
      else let kind = shape_kind shape; width = shape_width shape; snv = zv_string_non_value v in
      if kind = KIND_STRING then
        (if 1 < snv \<or> (snv \<noteq> 0 \<and> n \<noteq> 0) then Inl ZCL_CODEC_INVALID_VALUE
         else if 254 < n then Inl ZCL_CODEC_TOO_LONG
         else if capacity < 1 + n then Inl ZCL_CODEC_BUFFER_TOO_SMALL
         else Inr ((if snv \<noteq> 0 then 0xff else of_nat n) # take n data))
      else if snv \<noteq> 0 \<or> n \<noteq> width then Inl ZCL_CODEC_INVALID_VALUE
      else if kind = KIND_BOOLEAN \<and> \<not> boolean_octet (data ! 0) then Inl ZCL_CODEC_INVALID_VALUE
      else if capacity < width then Inl ZCL_CODEC_BUFFER_TOO_SMALL
      else Inr (take n data))"

section \<open>Non-value patterns\<close>

lemma non_value_loop_eq: "non_value_loop s e data w \<longleftrightarrow> (\<forall>i < w. data ! i = (if s \<and> i + 1 < w then 0 else e))"
  by (induction w arbitrary: e) (cases s, auto simp: All_less_Suc)


lemma all_nth_replicate: "n \<le> length b \<Longrightarrow> (\<forall>j < n. b ! j = c) \<longleftrightarrow> take n b = replicate n c"
  by (induction n) (auto simp: All_less_Suc take_Suc_conv_app_nth replicate_append_same [symmetric])

lemma boolean_width:
  assumes "shape_kind (value_shape t) = KIND_BOOLEAN"
  shows "shape_width (value_shape t) = 1"
proof -
  have "t AND 7 \<le> 7" by (rule word_and_le1)
  then have "unat (t AND 7) < 8" by (simp add: word_le_nat_alt)
  then have "unat (t AND 7) \<in> {0, 1, 2, 3, 4, 5, 6, 7}" by auto
  then have x: "t AND 7 \<in> {0, 1, 2, 3, 4, 5, 6, 7}" by (simp add: word_unat_eq_iff)
  have "(k OR (t AND 7) + 1) AND 0xf0 = k" if "k \<in> {KIND_RAW, KIND_UNSIGNED, KIND_SIGNED}" for k
    using x that by auto
  note k = this [of KIND_RAW] this [of KIND_UNSIGNED] this [of KIND_SIGNED]
  show ?thesis
  proof (cases "(0x08 \<le> t \<and> t \<le> 0x0f) \<or> (0x18 \<le> t \<and> t \<le> 0x2f)")
    case True
    then have "value_shape t \<in> {0, KIND_RAW OR (t AND 7) + 1, KIND_UNSIGNED OR (t AND 7) + 1, KIND_SIGNED OR (t AND 7) + 1}"
      unfolding value_shape_def Let_def by (simp only: if_True split: if_split) blast
    with assms k show ?thesis by (auto simp only: shape_kind_def insert_iff empty_iff simp_thms) simp_all
  next
    case False
    with assms show ?thesis unfolding value_shape_def shape_kind_def shape_width_def
      by (simp only: if_False split: if_splits) auto
  qed
qed

lemma value_non_value_pattern:
  assumes "zcl_value_decode t (Some b) True = Inr i" and "shape_kind (value_shape t) \<noteq> KIND_STRING"
  shows "zi_non_value_pattern i \<longleftrightarrow> shape_kind (value_shape t) \<noteq> KIND_RAW \<and>
    (let d = take (zi_data_length i) b in
     if shape_kind (value_shape t) = KIND_SIGNED
     then d = replicate (zi_data_length i - 1) 0 @ (if zi_data_length i = 0 then [] else [0x80])
     else d = replicate (zi_data_length i) 0xff)"
proof -
  let ?w = "zi_data_length i" and ?k = "shape_kind (value_shape t)"
  have i: "zi_non_value_pattern i = non_value_pattern ?k b ?w" "?w \<le> length b"
    using assms by (auto simp: zcl_value_decode_def Let_def split: if_splits)
  have s: "(\<forall>j < ?w. b ! j = (if j + 1 < ?w then 0 else 0x80)) \<longleftrightarrow>
      take ?w b = replicate (?w - 1) 0 @ (if ?w = 0 then [] else [0x80])"
  proof (cases ?w)
    case (Suc m)
    with i(2) show ?thesis using all_nth_replicate [of m b 0]
      by (simp add: All_less_Suc take_Suc_conv_app_nth conj_commute)
  qed simp
  have u: "(\<forall>j < ?w. b ! j = 0xff) \<longleftrightarrow> take ?w b = replicate ?w 0xff" by (rule all_nth_replicate [OF i(2)])
  show ?thesis using s u unfolding i(1) non_value_pattern_def non_value_loop_eq Let_def
    by (cases "?k = KIND_SIGNED") simp_all
qed

section \<open>Round trips\<close>

lemma value_decode_encode:
  assumes e: "zcl_value_encode (Some v) True cap True = Inr b" and d: "zv_data v = Some data" "zv_data_length v \<le> length data"
  shows "\<exists>i. zcl_value_decode (zv_type v) (Some (b @ rest)) True = Inr i \<and>
    take (zi_data_length i) (drop (zi_data_offset i) (b @ rest)) = take (zv_data_length v) data \<and>
    zi_encoded_length i = length b \<and> length b \<le> cap \<and>
    (shape_kind (value_shape (zv_type v)) = KIND_STRING \<longrightarrow> zi_non_value_pattern i = (zv_string_non_value v \<noteq> 0))"
proof (cases "shape_kind (value_shape (zv_type v)) = KIND_STRING")
  case True
  let ?n = "zv_data_length v"
  have n: "?n \<le> 254" "zv_string_non_value v \<noteq> 0 \<longrightarrow> ?n = 0" "1 + ?n \<le> cap"
    "b = (if zv_string_non_value v \<noteq> 0 then 0xff else of_nat ?n) # take ?n data"
    using e True d by (auto simp: zcl_value_encode_def Let_def split: if_splits)
  have u: "unat (of_nat ?n :: u8) = ?n" using n(1) by (simp add: unat_of_nat)
  then have ff: "(of_nat ?n :: u8) \<noteq> 0xff" using n(1) by (auto simp: word_unat_eq_iff)
  show ?thesis using True n d e u ff
    by (cases "zv_string_non_value v = 0") (auto simp: zcl_value_decode_def zcl_value_encode_def Let_def split: if_splits)
next
  case False
  then show ?thesis using e d boolean_width [of "zv_type v"]
    by (auto simp: zcl_value_decode_def zcl_value_encode_def Let_def min_def nth_append split: if_splits)
qed

lemma value_encode_decode:
  assumes dc: "zcl_value_decode t (Some b) True = Inr i" and cap: "zi_encoded_length i \<le> cap"
  defines "string \<equiv> shape_kind (value_shape t) = KIND_STRING"
  shows "zcl_value_encode (Some \<lparr>zv_type = t, zv_string_non_value = (if string \<and> zi_non_value_pattern i then 1 else 0),
      zv_data = Some (take (zi_data_length i) (drop (zi_data_offset i) b)), zv_data_length = zi_data_length i\<rparr>) True cap True =
    Inr (take (zi_encoded_length i) b)"
proof (cases "shape_kind (value_shape t) = KIND_STRING")
  case True
  then obtain x xs where b: "b = x # xs" using dc by (cases b) (auto simp: zcl_value_decode_def Let_def split: if_splits)
  have "unat x \<le> 254" if "x \<noteq> 0xff"
  proof -
    have "unat x < 2 ^ LENGTH(8)" by (rule unsigned_less)
    with that show ?thesis by (simp add: word_unat_eq_iff)
  qed
  with True dc cap b show ?thesis
    by (auto simp: zcl_value_decode_def zcl_value_encode_def Let_def string_def split: if_splits)
next
  case False
  with dc cap boolean_width [of t] show ?thesis
    by (auto simp: zcl_value_decode_def zcl_value_encode_def Let_def string_def split: if_splits)
qed

text \<open>C9. A decoded attribute value encodes again to the very octets it came from, non-value strings
  included.\<close>

theorem zcl_value_reencode:
  assumes "zcl_value_decode t (Some b) True = Inr i" and "zi_encoded_length i \<le> cap"
  shows "zcl_value_encode (Some \<lparr>zv_type = t,
      zv_string_non_value = (if shape_kind (value_shape t) = KIND_STRING \<and> zi_non_value_pattern i then 1 else 0),
      zv_data = Some (take (zi_data_length i) (drop (zi_data_offset i) b)), zv_data_length = zi_data_length i\<rparr>) True cap True =
    Inr (take (zi_encoded_length i) b)"
  using value_encode_decode [OF assms] .

theorem zcl_value_reencode_witness:
  "zcl_value_encode (Some \<lparr>zv_type = 0x42, zv_string_non_value = 1, zv_data = Some [], zv_data_length = 0\<rparr>) True 10 True = Inr [0xff]"
proof -
  have d: "zcl_value_decode 0x42 (Some [0xff, 1, 2]) True = Inr \<lparr>zi_type = 0x42, zi_data_offset = 1, zi_data_length = 0, zi_encoded_length = 1,
      zi_non_value_pattern = True\<rparr>" by code_simp
  have "shape_kind (value_shape 0x42) = KIND_STRING" by code_simp
  with zcl_value_reencode [OF d, of 10] show ?thesis by simp
qed

end
