(* ===== verification/Zcl_Attributes.thy ===== *)
theory Zcl_Attributes
  imports Zcl_Value
begin

text \<open>
  Attribute tables and the Read Attributes command (\<open>src/src/zcl_attributes.c\<close>), and the
  read-only Basic cluster (\<open>src/src/zcl_basic.c\<close>). An attribute table is the list behind the
  C pointer, of which the first \<open>count\<close> entries belong to the table; a stack buffer and its
  fill index are the list of the bytes written so far. The lemmas show what the table check
  establishes, that the response never outgrows the budget, and what a response carries.
\<close>

abbreviation (input) ZCL_ATTRIBUTE_MAX_COUNT :: nat where "ZCL_ATTRIBUTE_MAX_COUNT \<equiv> 16"
abbreviation (input) ZCL_ATTRIBUTE_SERVER :: u8 where "ZCL_ATTRIBUTE_SERVER \<equiv> 0"
abbreviation (input) ZCL_ATTRIBUTE_CLIENT :: u8 where "ZCL_ATTRIBUTE_CLIENT \<equiv> 1"
abbreviation (input) ZCL_FRAME_GLOBAL :: u8 where "ZCL_FRAME_GLOBAL \<equiv> 0"
abbreviation (input) ZCL_FRAME_CLUSTER_SPECIFIC :: u8 where "ZCL_FRAME_CLUSTER_SPECIFIC \<equiv> 1"
abbreviation (input) ZCL_FLAG_SERVER_TO_CLIENT :: u8 where "ZCL_FLAG_SERVER_TO_CLIENT \<equiv> 0x08"
abbreviation (input) ZCL_FLAG_DISABLE_DEFAULT_RESPONSE :: u8 where "ZCL_FLAG_DISABLE_DEFAULT_RESPONSE \<equiv> 0x10"
abbreviation (input) ZCL_COMMAND_READ_ATTRIBUTES :: u8 where "ZCL_COMMAND_READ_ATTRIBUTES \<equiv> 0x00"
abbreviation (input) ZCL_COMMAND_READ_ATTRIBUTES_RESPONSE :: u8 where "ZCL_COMMAND_READ_ATTRIBUTES_RESPONSE \<equiv> 0x01"
abbreviation (input) ZCL_COMMAND_DEFAULT_RESPONSE :: u8 where "ZCL_COMMAND_DEFAULT_RESPONSE \<equiv> 0x0b"
abbreviation (input) ZCL_STATUS_SUCCESS :: u8 where "ZCL_STATUS_SUCCESS \<equiv> 0x00"
abbreviation (input) ZCL_STATUS_NOT_AUTHORIZED :: u8 where "ZCL_STATUS_NOT_AUTHORIZED \<equiv> 0x7e"
abbreviation (input) ZCL_STATUS_MALFORMED_COMMAND :: u8 where "ZCL_STATUS_MALFORMED_COMMAND \<equiv> 0x80"
abbreviation (input) ZCL_STATUS_UNSUPPORTED_ATTRIBUTE :: u8 where "ZCL_STATUS_UNSUPPORTED_ATTRIBUTE \<equiv> 0x86"
abbreviation (input) ZCL_STATUS_INSUFFICIENT_SPACE :: u8 where "ZCL_STATUS_INSUFFICIENT_SPACE \<equiv> 0x89"

record zcl_attribute =
  attr_id :: u16
  attr_readable :: u8
  attr_value :: zcl_value

record zcl_attribute_set =
  set_attributes :: "zcl_attribute list option"
  set_count :: nat
  set_side :: u8
  set_manufacturer_specific :: u8
  set_manufacturer_code :: u16

record zcl_read_info =
  ri_length :: nat
  ri_command_id :: u8
  ri_requested_count :: nat
  ri_returned_count :: nat

text \<open>The entries of a table.\<close>

definition set_table :: "zcl_attribute_set \<Rightarrow> zcl_attribute list" where
  "set_table s = take (set_count s) (case set_attributes s of None \<Rightarrow> [] | Some l \<Rightarrow> l)"

section \<open>The table check\<close>

definition attr_entry_bad :: "zcl_attribute_set \<Rightarrow> zcl_attribute list \<Rightarrow> nat \<Rightarrow> bool" where
  "attr_entry_bad s l i =
     (let current = l ! i; id = attr_id current in
      attr_readable current > 1 \<or>
      (set_manufacturer_specific s = 0 \<and> ((id \<ge> 0x5000 \<and> id < 0xf000) \<or> id = 0xffff)) \<or>
      list_ex (\<lambda>j. id = attr_id (l ! j)) [0..<i])"

definition zcl_attr_set_check :: "zcl_attribute_set option \<Rightarrow> zcl_codec_result" where
  "zcl_attr_set_check aset =
     (case aset of None \<Rightarrow> ZCL_CODEC_INVALID_ARGUMENT | Some s \<Rightarrow>
      if set_count s > ZCL_ATTRIBUTE_MAX_COUNT \<or> set_side s > ZCL_ATTRIBUTE_CLIENT \<or> set_manufacturer_specific s > 1 \<or>
         (set_attributes s = None \<and> set_count s \<noteq> 0) then ZCL_CODEC_INVALID_TABLE
      else if list_ex (attr_entry_bad s (case set_attributes s of None \<Rightarrow> [] | Some l \<Rightarrow> l)) [0..<set_count s]
      then ZCL_CODEC_INVALID_TABLE
      else ZCL_CODEC_OK)"

section \<open>Read Attributes\<close>

definition zcl_flag_byte :: "bool \<Rightarrow> u8" where "zcl_flag_byte b = (if b then 1 else 0)"

text \<open>The search loop: the first entry with the identifier.\<close>

fun find_attribute :: "zcl_attribute list \<Rightarrow> u16 \<Rightarrow> zcl_attribute option" where
  "find_attribute [] i = None"
| "find_attribute (a # l) i = (if attr_id a \<noteq> i then find_attribute l i else Some a)"

text \<open>One response record, given the space that remains.\<close>

definition read_record :: "zcl_attribute list \<Rightarrow> nat \<Rightarrow> u16 \<Rightarrow> zcl_codec_result + bytes" where
  "read_record l remaining i =
     (let failed = (\<lambda>status. Inr (write_le16 i @ [status])) in
      case find_attribute l i of None \<Rightarrow> failed ZCL_STATUS_UNSUPPORTED_ATTRIBUTE
      | Some a \<Rightarrow>
        if attr_readable a = 0 then failed ZCL_STATUS_NOT_AUTHORIZED
        else (case zcl_value_encode (Some (attr_value a)) True (if remaining \<ge> 4 then remaining - 4 else 0) True of
            Inl status \<Rightarrow> if status = ZCL_CODEC_BUFFER_TOO_SMALL then failed ZCL_STATUS_INSUFFICIENT_SPACE else Inl status
          | Inr encoded \<Rightarrow>
            if remaining < 4 then failed ZCL_STATUS_INSUFFICIENT_SPACE
            else Inr (write_le16 i @ [ZCL_STATUS_SUCCESS, zv_type (attr_value a)] @ encoded)))"

text \<open>The record loop: \<open>room\<close> is the budget less the header, \<open>payload\<close> the bytes written.\<close>

fun read_records :: "zcl_attribute list \<Rightarrow> nat \<Rightarrow> bytes \<Rightarrow> bytes \<Rightarrow> nat \<Rightarrow> zcl_codec_result + (bytes \<times> nat)" where
  "read_records l room (lo # hi # ids) payload returned =
     (let remaining = room - length payload in
      if remaining < 3 then Inr (payload, returned)
      else (case read_record l remaining (read_le16 [lo, hi]) of Inl status \<Rightarrow> Inl status
        | Inr rec \<Rightarrow> read_records l room ids (payload @ rec) (returned + 1)))"
| "read_records l room ids payload returned = Inr (payload, returned)"

definition zcl_reply_flags :: "u8 \<Rightarrow> u8" where
  "zcl_reply_flags flags = (flags XOR ZCL_FLAG_SERVER_TO_CLIENT) OR ZCL_FLAG_DISABLE_DEFAULT_RESPONSE"

definition zcl_budget :: "nat \<Rightarrow> nat" where
  "zcl_budget capacity = (if capacity < ZCL_FRAME_MAX_BODY then capacity else ZCL_FRAME_MAX_BODY)"

definition zcl_context_matches :: "zcl_attribute_set \<Rightarrow> zcl_header \<Rightarrow> bool" where
  "zcl_context_matches s h \<longleftrightarrow>
     zcl_flag_byte (zcl_flags h AND ZCL_FLAG_MANUFACTURER_SPECIFIC \<noteq> 0) = set_manufacturer_specific s \<and>
     (set_manufacturer_specific s = 0 \<or> zcl_manufacturer_code h = set_manufacturer_code s)"

definition read_malformed :: "zcl_frame_info \<Rightarrow> bool" where
  "read_malformed frame \<longleftrightarrow> zfi_payload_length frame = 0 \<or> odd (zfi_payload_length frame)"

definition zcl_read_attrs_unicast ::
    "zcl_attribute_set option \<Rightarrow> bytes option \<Rightarrow> bool \<Rightarrow> nat \<Rightarrow> bool \<Rightarrow> zcl_codec_result + (zcl_read_info \<times> bytes)" where
  "zcl_read_attrs_unicast aset request response capacity info =
     (case aset of None \<Rightarrow> Inl ZCL_CODEC_INVALID_ARGUMENT | Some s \<Rightarrow>
      (case request of None \<Rightarrow> Inl ZCL_CODEC_INVALID_ARGUMENT | Some req \<Rightarrow>
      if \<not> response \<or> \<not> info then Inl ZCL_CODEC_INVALID_ARGUMENT
      else let status = zcl_attr_set_check aset in
      if status \<noteq> ZCL_CODEC_OK then Inl status
      else (case zcl_frame_decode request True of Inl status \<Rightarrow> Inl status | Inr frame \<Rightarrow>
        let h = zfi_header frame in
        if zcl_type h \<noteq> ZCL_FRAME_GLOBAL \<or> zcl_command_id h \<noteq> ZCL_COMMAND_READ_ATTRIBUTES then Inl ZCL_CODEC_UNSUPPORTED_COMMAND
        else if zcl_flag_byte (zcl_flags h AND ZCL_FLAG_SERVER_TO_CLIENT \<noteq> 0) \<noteq> set_side s \<or> \<not> zcl_context_matches s h
          then Inl ZCL_CODEC_UNSUPPORTED_CONTEXT
        else let header_size = zfi_payload_offset frame; budget = zcl_budget capacity;
                 ids = take (zfi_payload_length frame) (drop (zfi_payload_offset frame) req);
                 built = (if read_malformed frame
                   then Inr (ZCL_COMMAND_DEFAULT_RESPONSE, [ZCL_COMMAND_READ_ATTRIBUTES, ZCL_STATUS_MALFORMED_COMMAND], 0, 0)
                   else if budget < header_size + 3 then Inl ZCL_CODEC_BUFFER_TOO_SMALL
                   else map_sum id (\<lambda>(payload, returned).
                     (ZCL_COMMAND_READ_ATTRIBUTES_RESPONSE, payload, zfi_payload_length frame div 2, returned))
                     (read_records (set_table s) (budget - header_size) ids [] 0))
             in (case built of Inl status \<Rightarrow> Inl status | Inr (command, payload, requested, returned) \<Rightarrow>
               let reply = h\<lparr>zcl_flags := zcl_reply_flags (zcl_flags h), zcl_command_id := command\<rparr> in
               (case zcl_frame_encode (Some reply) (Some payload) (length payload) True capacity True of
                 Inl status \<Rightarrow> Inl status
               | Inr bytes \<Rightarrow> Inr (\<lparr>ri_length = length bytes, ri_command_id = command,
                   ri_requested_count = requested, ri_returned_count = returned\<rparr>, bytes))))))"

section \<open>The Basic cluster\<close>

record zcl_basic_text =
  bt_data :: "bytes option"
  bt_length :: nat

record zcl_basic_config =
  bc_manufacturer :: zcl_basic_text
  bc_model :: zcl_basic_text
  bc_software :: zcl_basic_text
  bc_power_source :: u8

record zcl_basic =
  basic_set :: zcl_attribute_set
  basic_strings :: bytes
  basic_scalars :: bytes

definition basic_ids :: "u16 list" where "basic_ids = [0x0000, 0x0004, 0x0005, 0x0007, 0x4000, 0xfffd]"
definition basic_types :: "u8 list" where "basic_types = [0x20, 0x42, 0x42, 0x30, 0x42, 0x21]"

text \<open>\<open>memcpy\<close> into the zeroed string store; the three regions start at 0, 32 and 64.\<close>

definition basic_region :: "nat \<Rightarrow> zcl_basic_text \<Rightarrow> bytes" where
  "basic_region room text =
     (let data = (case bt_data text of None \<Rightarrow> [] | Some d \<Rightarrow> take (bt_length text) d) in data @ replicate (room - length data) 0)"

text \<open>An entry whose value points into a store at an offset.\<close>

definition basic_attribute :: "nat \<Rightarrow> bytes \<Rightarrow> nat \<Rightarrow> nat \<Rightarrow> zcl_attribute" where
  "basic_attribute i store offset n =
     \<lparr>attr_id = basic_ids ! i, attr_readable = 1,
      attr_value = \<lparr>zv_type = basic_types ! i, zv_string_non_value = 0, zv_data = Some (drop offset store), zv_data_length = n\<rparr>\<rparr>"

definition zcl_basic_init :: "bool \<Rightarrow> zcl_basic_config option \<Rightarrow> zcl_codec_result + zcl_basic" where
  "zcl_basic_init model config =
     (case config of None \<Rightarrow> Inl ZCL_CODEC_INVALID_ARGUMENT | Some c \<Rightarrow>
      let unbacked = (\<lambda>t. bt_data t = None \<and> bt_length t \<noteq> 0) in
      if \<not> model then Inl ZCL_CODEC_INVALID_ARGUMENT
      else if unbacked (bc_manufacturer c) \<or> unbacked (bc_model c) \<or> unbacked (bc_software c) then Inl ZCL_CODEC_INVALID_ARGUMENT
      else if bt_length (bc_manufacturer c) > 32 \<or> bt_length (bc_model c) > 32 \<or> bt_length (bc_software c) > 16 \<or>
              bc_power_source c AND 0x7f > 6 then Inl ZCL_CODEC_INVALID_VALUE
      else let scalars = [8, bc_power_source c, 3, 0];
               strings = basic_region 32 (bc_manufacturer c) @ basic_region 32 (bc_model c) @ basic_region 16 (bc_software c);
               attributes = [basic_attribute 0 scalars 0 1, basic_attribute 1 strings 0 (bt_length (bc_manufacturer c)),
                 basic_attribute 2 strings 32 (bt_length (bc_model c)), basic_attribute 3 scalars 1 1,
                 basic_attribute 4 strings 64 (bt_length (bc_software c)), basic_attribute 5 scalars 2 2]
           in Inr \<lparr>basic_set = \<lparr>set_attributes = Some attributes, set_count = 6, set_side = ZCL_ATTRIBUTE_SERVER,
                     set_manufacturer_specific = 0, set_manufacturer_code = 0\<rparr>,
                   basic_strings = strings, basic_scalars = scalars\<rparr>)"

section \<open>What the table check establishes\<close>

lemma attr_set_check_eq:
  assumes "case set_attributes s of None \<Rightarrow> True | Some l \<Rightarrow> set_count s \<le> length l"
  shows "zcl_attr_set_check (Some s) = ZCL_CODEC_OK \<longleftrightarrow>
    set_count s \<le> ZCL_ATTRIBUTE_MAX_COUNT \<and> \<not> set_side s > 1 \<and> \<not> set_manufacturer_specific s > 1 \<and>
    (set_attributes s = None \<longrightarrow> set_count s = 0) \<and> distinct (map attr_id (set_table s)) \<and>
    (\<forall>a \<in> set (set_table s). \<not> attr_readable a > 1 \<and>
      (set_manufacturer_specific s = 0 \<longrightarrow> \<not> (0x5000 \<le> attr_id a \<and> attr_id a < 0xf000) \<and> attr_id a \<noteq> 0xffff))"
proof -
  define l where "l = (case set_attributes s of None \<Rightarrow> [] | Some l \<Rightarrow> l)"
  define n where "n = set_count s"
  have t: "set_table s = take n l" by (simp add: set_table_def l_def n_def)
  show ?thesis
  proof (cases "set_attributes s = None \<and> n \<noteq> 0")
    case False
    then have len: "n \<le> length l" using assms by (auto simp: l_def n_def split: option.splits)
    have d: "distinct (map attr_id (take n l)) \<longleftrightarrow> (\<forall>i < n. \<forall>j < i. attr_id (l ! i) \<noteq> attr_id (l ! j))"
    proof -
      have "distinct (map attr_id (take n l)) \<longleftrightarrow> (\<forall>i < n. \<forall>j < n. i \<noteq> j \<longrightarrow> attr_id (l ! i) \<noteq> attr_id (l ! j))"
        using len by (simp add: distinct_conv_nth min_def)
      also have "\<dots> \<longleftrightarrow> (\<forall>i < n. \<forall>j < i. attr_id (l ! i) \<noteq> attr_id (l ! j))"
        by (metis less_trans linorder_neqE_nat order_less_irrefl)
      finally show ?thesis .
    qed
    have e: "(\<forall>a \<in> set (take n l). P a) \<longleftrightarrow> (\<forall>i < n. P (l ! i))" for P
      using len by (auto simp: in_set_conv_nth all_set_conv_all_nth)
    have bad: "list_ex (attr_entry_bad s l) [0..<n] \<longleftrightarrow> \<not> ((\<forall>i < n. \<forall>j < i. attr_id (l ! i) \<noteq> attr_id (l ! j)) \<and>
       (\<forall>i < n. \<not> attr_readable (l ! i) > 1 \<and>
      (set_manufacturer_specific s = 0 \<longrightarrow> \<not> (0x5000 \<le> attr_id (l ! i) \<and> attr_id (l ! i) < 0xf000) \<and> attr_id (l ! i) \<noteq> 0xffff)))"
      unfolding list_ex_upt attr_entry_bad_def Let_def by blast
    have "zcl_attr_set_check (Some s) = ZCL_CODEC_OK \<longleftrightarrow> \<not> (n > 16 \<or> set_side s > 1 \<or> set_manufacturer_specific s > 1) \<and>
        \<not> list_ex (attr_entry_bad s l) [0..<n]"
      using False by (auto simp: zcl_attr_set_check_def l_def n_def)
    then show ?thesis using False unfolding bad t d e n_def [symmetric] linorder_not_less [symmetric] by blast
  qed (simp add: zcl_attr_set_check_def n_def)
qed

lemma find_attribute_SomeD: "find_attribute l i = Some a \<Longrightarrow> a \<in> set l \<and> attr_id a = i"
  by (induction l) (auto split: if_splits)

lemma find_attribute_None: "find_attribute l i = None \<longleftrightarrow> i \<notin> attr_id ` set l"
  by (induction l) auto

lemma find_attribute_distinct: "distinct (map attr_id l) \<Longrightarrow> a \<in> set l \<Longrightarrow> find_attribute l (attr_id a) = Some a"
  by (induction l) auto

section \<open>Responses\<close>

lemma value_encode_length: "zcl_value_encode v True cap True = Inr b \<Longrightarrow> length b \<le> cap"
  by (auto simp: zcl_value_encode_def Let_def split: option.splits if_splits)

text \<open>The record an attribute is answered with when there is room for it: its value, or the status that
  explains its absence. (A value that has no encoding makes the whole call fail.)\<close>

definition full_record :: "zcl_attribute list \<Rightarrow> u16 \<Rightarrow> bytes" where
  "full_record l i = write_le16 i @
     (case find_attribute l i of None \<Rightarrow> [ZCL_STATUS_UNSUPPORTED_ATTRIBUTE]
      | Some a \<Rightarrow> if attr_readable a = 0 then [ZCL_STATUS_NOT_AUTHORIZED]
          else (case zcl_value_encode (Some (attr_value a)) True 255 True of Inl _ \<Rightarrow> []
            | Inr v \<Rightarrow> [ZCL_STATUS_SUCCESS, zv_type (attr_value a)] @ v))"

text \<open>The insufficient-space status stands for a record exactly when the record is longer than the room left.\<close>

definition record_in :: "zcl_attribute list \<Rightarrow> nat \<Rightarrow> u16 \<Rightarrow> bytes" where
  "record_in l room i = (if length (full_record l i) \<le> room then full_record l i else write_le16 i @ [ZCL_STATUS_INSUFFICIENT_SPACE])"

text \<open>The records of a response: one per identifier, in order, while three octets are left for a status.\<close>

fun reply_records :: "zcl_attribute list \<Rightarrow> nat \<Rightarrow> u16 list \<Rightarrow> bytes list" where
  "reply_records l room [] = []"
| "reply_records l room (i # ids) =
     (if room < 3 then [] else record_in l room i # reply_records l (room - length (record_in l room i)) ids)"

fun wire_ids :: "bytes \<Rightarrow> u16 list" where
  "wire_ids (lo # hi # r) = read_le16 [lo, hi] # wire_ids r"
| "wire_ids r = []"

text \<open>Reading always answers when the values of the readable attributes are encodable.\<close>

definition encodable_values :: "zcl_attribute list \<Rightarrow> bool" where
  "encodable_values l \<longleftrightarrow> (\<forall>a \<in> set l. attr_readable a \<noteq> 0 \<longrightarrow> (\<exists>v. zcl_value_encode (Some (attr_value a)) True 255 True = Inr v))"

lemma value_encode_capacity:
  assumes e: "zcl_value_encode (Some x) True cap True = Inr b"
    and d: "case zv_data x of None \<Rightarrow> True | Some d \<Rightarrow> zv_data_length x \<le> length d"
  shows "zcl_value_encode (Some x) True c True = (if c < length b then Inl ZCL_CODEC_BUFFER_TOO_SMALL else Inr b)"
proof (cases "shape_kind (value_shape (zv_type x)) = KIND_STRING")
  case True
  show ?thesis using e d True
    by (cases "zv_data x") (auto simp: zcl_value_encode_def Let_def split: if_splits)
next
  case False
  show ?thesis using e d False
    by (cases "zv_data x") (auto simp: zcl_value_encode_def Let_def split: if_splits)
qed

text \<open>The values of a table lie within the buffers they point to.\<close>

definition backed_values :: "zcl_attribute list \<Rightarrow> bool" where
  "backed_values l \<longleftrightarrow>
     (\<forall>a \<in> set l. case zv_data (attr_value a) of None \<Rightarrow> True | Some d \<Rightarrow> zv_data_length (attr_value a) \<le> length d)"

text \<open>No encoding is longer than 255 octets, so the capacity only decides between it and too small.\<close>

lemma value_encode_at:
  assumes "case zv_data x of None \<Rightarrow> True | Some d \<Rightarrow> zv_data_length x \<le> length d"
  shows "zcl_value_encode (Some x) True c True = (case zcl_value_encode (Some x) True 255 True of Inl e \<Rightarrow> Inl e
      | Inr b \<Rightarrow> if c < length b then Inl ZCL_CODEC_BUFFER_TOO_SMALL else Inr b)"
    "zcl_value_encode (Some x) True 255 True \<noteq> Inl ZCL_CODEC_BUFFER_TOO_SMALL"
proof -
  have w255: "\<not> 255 < shape_width t" for t
  proof -
    have "shape_width t < 256" using unsigned_less [of "t AND 0x0f"] by (simp add: shape_width_def)
    then show ?thesis by linarith
  qed
  show n: "zcl_value_encode (Some x) True 255 True \<noteq> Inl ZCL_CODEC_BUFFER_TOO_SMALL"
    using w255 by (auto simp: zcl_value_encode_def Let_def)
  show "zcl_value_encode (Some x) True c True = (case zcl_value_encode (Some x) True 255 True of Inl e \<Rightarrow> Inl e
      | Inr b \<Rightarrow> if c < length b then Inl ZCL_CODEC_BUFFER_TOO_SMALL else Inr b)"
  proof (cases "zcl_value_encode (Some x) True 255 True")
    case (Inl e)
    then show ?thesis using n w255 by (auto simp: zcl_value_encode_def Let_def split: if_splits)
  next
    case (Inr b)
    from value_encode_capacity [OF this assms] Inr show ?thesis by simp
  qed
qed

lemma read_record_eq:
  assumes "backed_values l" "3 \<le> room"
  shows "case read_record l room i of Inl _ \<Rightarrow> \<not> encodable_values l | Inr r \<Rightarrow> r = record_in l room i"
proof (cases "find_attribute l i")
  case (Some a)
  have a: "a \<in> set l" using find_attribute_SomeD [OF Some] by simp
  then have bk: "case zv_data (attr_value a) of None \<Rightarrow> True | Some d \<Rightarrow> zv_data_length (attr_value a) \<le> length d"
    using assms(1) by (simp add: backed_values_def)
  note at = value_encode_at [OF bk]
  show ?thesis
  proof (cases "attr_readable a = 0")
    case False
    show ?thesis
    proof (cases "zcl_value_encode (Some (attr_value a)) True 255 True")
      case (Inl e)
      have "\<not> encodable_values l" using a False Inl unfolding encodable_values_def by force
      then show ?thesis using Some False at(2) by (simp add: read_record_def Let_def at(1) [unfolded Inl sum.case] Inl)
    next
      case (Inr v)
      have len: "length v \<le> 255" using value_encode_length [OF Inr] .
      show ?thesis using Some False assms(2) len
        by (auto simp: read_record_def record_in_def full_record_def Let_def at(1) [unfolded Inr sum.case])
    qed
  qed (use Some assms(2) in \<open>simp add: read_record_def record_in_def full_record_def Let_def\<close>)
qed (use assms(2) in \<open>simp add: read_record_def record_in_def full_record_def Let_def\<close>)

lemma record_in_length: "3 \<le> room \<Longrightarrow> length (record_in l room i) \<le> room"
  by (simp add: record_in_def)

lemma reply_records_length: "length (concat (reply_records l room ids)) \<le> room"
proof (induction l room ids rule: reply_records.induct)
  case (2 l room i ids)
  then show ?case using record_in_length [of room l i] by (cases "room < 3") auto
qed simp

text \<open>With encodable values every record has at least its status, and all are sent when they fit.\<close>

lemma full_record_length:
  assumes "encodable_values l"
  shows "3 \<le> length (full_record l i)"
proof (cases "find_attribute l i")
  case (Some a)
  from find_attribute_SomeD [OF this] assms have "attr_readable a \<noteq> 0 \<Longrightarrow> \<exists>v. zcl_value_encode (Some (attr_value a)) True 255 True = Inr v"
    by (simp add: encodable_values_def)
  then show ?thesis using Some by (auto simp: full_record_def)
qed (simp add: full_record_def)

lemma reply_records_full:
  "encodable_values l \<Longrightarrow> length (concat (map (full_record l) ids)) \<le> room \<Longrightarrow> reply_records l room ids = map (full_record l) ids"
proof (induction l room ids rule: reply_records.induct)
  case (2 l room i ids)
  have "\<not> room < 3" using 2(2,3) full_record_length [of l i] by simp
  moreover from 2(3) have "record_in l room i = full_record l i" by (simp add: record_in_def)
  ultimately show ?case using 2 by auto
qed simp

lemma read_records_eq:
  "backed_values l \<Longrightarrow> length payload \<le> room \<Longrightarrow>
     (case read_records l room ids payload n of Inl _ \<Rightarrow> \<not> encodable_values l
      | Inr (p, m) \<Rightarrow> p = payload @ concat (reply_records l (room - length payload) (wire_ids ids)) \<and>
          m = n + length (reply_records l (room - length payload) (wire_ids ids)))"
proof (induction l room ids payload n rule: read_records.induct)
  case (1 l room lo hi ids payload n)
  let ?i = "read_le16 [lo, hi]" and ?k = "room - length payload"
  show ?case
  proof (cases "?k < 3")
    case False
    then have k: "3 \<le> ?k" by simp
    note r = read_record_eq [OF "1.prems"(1) k, of ?i]
    show ?thesis
    proof (cases "read_record l ?k ?i")
      case (Inr rec)
      then have rec: "rec = record_in l ?k ?i" using r by simp
      then have le: "length rec \<le> ?k" using record_in_length [OF k] by simp
      then have "length (payload @ rec) \<le> room" "room - length (payload @ rec) = ?k - length rec" using "1.prems"(2) by simp_all
      with "1.IH" [OF refl False Inr "1.prems"(1)] show ?thesis
        using False Inr unfolding rec [symmetric] by (auto simp: rec [symmetric] Let_def split: sum.splits)
    qed (use r False in \<open>simp add: Let_def\<close>)
  qed simp
qed auto

lemma read_records_total:
  assumes "backed_values l" "encodable_values l"
  shows "\<exists>p n. read_records l room ids [] 0 = Inr (p, n) \<and> length p \<le> room"
  using read_records_eq [OF assms(1), of "[]" room ids 0] assms(2) reply_records_length
  by (cases "read_records l room ids [] 0") auto

lemma length_wire_ids: "length (wire_ids b) = length b div 2"
  by (induction b rule: wire_ids.induct) auto

lemma reply_flags:
  fixes f :: u8
  shows "zcl_reply_flags f AND 4 = f AND 4" "f AND NOT 0x1c = 0 \<Longrightarrow> zcl_reply_flags f AND NOT 0x1c = 0"
    "zcl_header_size (zcl_reply_flags f) = zcl_header_size f"
proof -
  have "(a XOR b) AND c = (a AND c) XOR (b AND c)" for a b c :: u8 by (rule bit.conj_xor_distrib2)
  then show 1: "zcl_reply_flags f AND 4 = f AND 4" and "f AND NOT 0x1c = 0 \<Longrightarrow> zcl_reply_flags f AND NOT 0x1c = 0"
    unfolding zcl_reply_flags_def bit.conj_disj_distrib2 by simp_all
  show "zcl_header_size (zcl_reply_flags f) = zcl_header_size f" unfolding zcl_header_size_def 1 ..
qed

text \<open>The reply to a decoded request, read back by the frame decoder.\<close>

lemma zcl_reply_view:
  assumes "zcl_canonical h" "zcl_frame_encode (Some (h\<lparr>zcl_flags := zcl_reply_flags (zcl_flags h), zcl_command_id := c\<rparr>))
    (Some p) (length p) True cap True = Inr b"
  shows "zcl_view_dec b = Some (h\<lparr>zcl_flags := zcl_reply_flags (zcl_flags h), zcl_command_id := c\<rparr>, p) \<and> length b \<le> cap"
  using zcl_encode_view [OF assms(2)] zcl.decode_encode [of _ p b] assms(1) by (simp add: zcl_canonical_def reply_flags)

lemma read_attrs_answers:
  assumes "backed_values (set_table s)" and "zcl_read_attrs_unicast (Some s) (Some req) True cap True = Inr (info, resp)"
  shows "\<exists>h ids payload. zcl_view_dec req = Some (h, ids) \<and>
    zcl_view_dec resp = Some (h\<lparr>zcl_flags := zcl_reply_flags (zcl_flags h), zcl_command_id := ri_command_id info\<rparr>, payload) \<and>
    length resp = ri_length info \<and> ri_length info \<le> cap \<and>
    (if ids = [] \<or> odd (length ids) then ri_command_id info = ZCL_COMMAND_DEFAULT_RESPONSE \<and>
        payload = [ZCL_COMMAND_READ_ATTRIBUTES, ZCL_STATUS_MALFORMED_COMMAND]
     else let room = zcl_budget cap - zcl_header_size (zcl_flags h); records = reply_records (set_table s) room (wire_ids ids) in
        ri_command_id info = ZCL_COMMAND_READ_ATTRIBUTES_RESPONSE \<and> payload = concat records \<and>
        ri_requested_count info = length (wire_ids ids) \<and> ri_returned_count info = length records \<and> 1 \<le> length records \<and>
        (encodable_values (set_table s) \<and> length (concat (map (full_record (set_table s)) (wire_ids ids))) \<le> room \<longrightarrow>
          payload = concat (map (full_record (set_table s)) (wire_ids ids))))"
proof -
  obtain frame where f: "zcl_frame_decode (Some req) True = Inr frame"
    using assms(2) by (auto simp: zcl_read_attrs_unicast_def Let_def split: sum.splits if_splits)
  define h where "h = zfi_header frame"
  define ids where "ids = take (zfi_payload_length frame) (drop (zfi_payload_offset frame) req)"
  note run = assms(2) [unfolded zcl_read_attrs_unicast_def Let_def option.case f sum.case, folded h_def ids_def]
  note off = zcl_decode_offset [OF f]
  have view: "zcl_view_dec req = Some (h, ids)" and can: "zcl_canonical h"
    using zcl_decode_view [OF f] zcl_decode_fields(3) [OF f] by (simp_all add: h_def ids_def)
  have len: "length ids = zfi_payload_length frame" using off(2) by (simp add: ids_def)
  have mal: "read_malformed frame \<longleftrightarrow> ids = [] \<or> odd (length ids)" using len by (auto simp: read_malformed_def)
  show ?thesis
  proof (cases "read_malformed frame")
    case True
    with run have enc: "zcl_frame_encode (Some (h\<lparr>zcl_flags := zcl_reply_flags (zcl_flags h), zcl_command_id := 0x0b\<rparr>))
        (Some [0, 0x80]) (length [0, 0x80 :: u8]) True cap True = Inr resp" and i: "ri_length info = length resp" "ri_command_id info = 0x0b"
      by (auto split: sum.splits if_splits)
    from zcl_reply_view [OF can enc] i view True mal show ?thesis by auto
  next
    case False
    define room where "room = zcl_budget cap - zfi_payload_offset frame"
    have rm: "room = zcl_budget cap - zcl_header_size (zcl_flags h)" using off(1) by (simp add: room_def h_def)
    obtain payload n where rr: "read_records (set_table s) room ids [] 0 = Inr (payload, n)"
      using run False by (cases "read_records (set_table s) room ids [] 0") (auto simp: room_def split: if_splits)
    with run False have enc: "zcl_frame_encode (Some (h\<lparr>zcl_flags := zcl_reply_flags (zcl_flags h), zcl_command_id := 1\<rparr>))
        (Some payload) (length payload) True cap True = Inr resp"
      and i: "ri_length info = length resp" "ri_command_id info = 1" "ri_requested_count info = length ids div 2" "ri_returned_count info = n"
      and three: "3 \<le> room"
      by (auto simp: len room_def split: sum.splits if_splits)
    have p: "payload = concat (reply_records (set_table s) room (wire_ids ids))" "n = length (reply_records (set_table s) room (wire_ids ids))"
      using read_records_eq [OF assms(1), of "[]" room ids 0] rr by simp_all
    from False mal len have "wire_ids ids \<noteq> []" by (cases ids rule: wire_ids.cases) auto
    then have "1 \<le> n" using three p(2) by (cases "wire_ids ids") auto
    with zcl_reply_view [OF can enc] i view False mal p reply_records_full [of "set_table s" "wire_ids ids" room] show ?thesis
      by (auto simp: length_wire_ids Let_def rm [symmetric])
  qed
qed

text \<open>A request for this table, with room for one status record, is answered.\<close>

lemma read_attrs_total:
  assumes "backed_values (set_table s)" "encodable_values (set_table s)" "zcl_attr_set_check (Some s) = ZCL_CODEC_OK"
    and req: "zcl_view_dec req = Some (h, ids)" "zcl_type h = ZCL_FRAME_GLOBAL" "zcl_command_id h = ZCL_COMMAND_READ_ATTRIBUTES"
    and ctx: "zcl_flag_byte (zcl_flags h AND ZCL_FLAG_SERVER_TO_CLIENT \<noteq> 0) = set_side s" "zcl_context_matches s h"
    and room: "zcl_header_size (zcl_flags h) + 3 \<le> zcl_budget cap"
  shows "\<exists>info resp. zcl_read_attrs_unicast (Some s) (Some req) True cap True = Inr (info, resp)"
proof -
  obtain frame where f: "zcl_frame_decode (Some req) True = Inr frame" and h: "zfi_header frame = h"
    using req(1) by (auto simp: zcl_view_dec_def split: sum.splits)
  note off = zcl_decode_offset(1) [OF f, unfolded h] and fields = zcl_decode_fields(1,2) [OF f, unfolded h]
  have enc: "\<exists>b. zcl_frame_encode (Some (h\<lparr>zcl_flags := zcl_reply_flags (zcl_flags h), zcl_command_id := c\<rparr>)) (Some p) (length p) True cap True = Inr b"
    if "length p + zcl_header_size (zcl_flags h) \<le> zcl_budget cap" for c p
    by (rule zcl_encode_total)
      (use fields that reply_flags(2) [OF fields(2)] in \<open>auto simp: reply_flags(3) zcl_budget_def split: if_splits\<close>)
  let ?rr = "read_records (set_table s) (zcl_budget cap - zcl_header_size (zcl_flags h))
    (take (zfi_payload_length frame) (drop (zcl_header_size (zcl_flags h)) req)) [] 0"
  obtain p n where rr: "?rr = Inr (p, n)" and "length p \<le> zcl_budget cap - zcl_header_size (zcl_flags h)"
    using read_records_total [OF assms(1,2)] by blast
  then have p: "length p + zcl_header_size (zcl_flags h) \<le> zcl_budget cap" using room by simp
  have two: "length [0, 0x80 :: u8] + zcl_header_size (zcl_flags h) \<le> zcl_budget cap" using room by simp
  obtain b b' where b: "zcl_frame_encode (Some (h\<lparr>zcl_flags := zcl_reply_flags (zcl_flags h), zcl_command_id := 1\<rparr>)) (Some p) (length p) True cap True = Inr b"
      "zcl_frame_encode (Some (h\<lparr>zcl_flags := zcl_reply_flags (zcl_flags h), zcl_command_id := 0x0b\<rparr>)) (Some [0, 0x80])
        (length [0, 0x80 :: u8]) True cap True = Inr b'" using enc [OF p] enc [OF two] by blast
  show ?thesis
    using assms(3) req(2,3) ctx room rr b f h off by (cases "read_malformed frame") (simp_all add: zcl_read_attrs_unicast_def Let_def)
qed

section \<open>The Basic cluster as a table\<close>

definition text_ok :: "zcl_basic_text \<Rightarrow> bool" where
  "text_ok t \<longleftrightarrow> (case bt_data t of None \<Rightarrow> bt_length t = 0 | Some d \<Rightarrow> bt_length t \<le> length d)"

definition text_bytes :: "zcl_basic_text \<Rightarrow> bytes" where
  "text_bytes t = (case bt_data t of None \<Rightarrow> [] | Some d \<Rightarrow> take (bt_length t) d)"

lemma basic_region_simps:
  assumes "text_ok t" "bt_length t \<le> n"
  shows "length (basic_region n t) = n" "take (bt_length t) (basic_region n t @ r) = text_bytes t"
  using assms by (auto simp: basic_region_def text_ok_def text_bytes_def split: option.splits)

lemma basic_init_table:
  assumes m: "zcl_basic_init True (Some c) = Inr m" and ok: "text_ok (bc_manufacturer c)" "text_ok (bc_model c)" "text_ok (bc_software c)"
  shows "zcl_attr_set_check (Some (basic_set m)) = ZCL_CODEC_OK"
    "zcl_value_encode (map_option attr_value (find_attribute (set_table (basic_set m)) 0x0004)) True 255 True =
       Inr (of_nat (bt_length (bc_manufacturer c)) # text_bytes (bc_manufacturer c))"
    "zcl_value_encode (map_option attr_value (find_attribute (set_table (basic_set m)) 0x0005)) True 255 True =
       Inr (of_nat (bt_length (bc_model c)) # text_bytes (bc_model c))"
    "zcl_value_encode (map_option attr_value (find_attribute (set_table (basic_set m)) 0x4000)) True 255 True =
       Inr (of_nat (bt_length (bc_software c)) # text_bytes (bc_software c))"
    "encodable_values (set_table (basic_set m))"
proof -
  let ?s = "basic_region 32 (bc_manufacturer c) @ basic_region 32 (bc_model c) @ basic_region 16 (bc_software c)"
  let ?k = "[8, bc_power_source c, 3, 0]"
  have g: "bt_length (bc_manufacturer c) \<le> 32" "bt_length (bc_model c) \<le> 32" "bt_length (bc_software c) \<le> 16"
    and t: "basic_set m = \<lparr>set_attributes = Some [basic_attribute 0 ?k 0 1, basic_attribute 1 ?s 0 (bt_length (bc_manufacturer c)),
                 basic_attribute 2 ?s 32 (bt_length (bc_model c)), basic_attribute 3 ?k 1 1,
                 basic_attribute 4 ?s 64 (bt_length (bc_software c)), basic_attribute 5 ?k 2 2],
       set_count = 6, set_side = 0, set_manufacturer_specific = 0, set_manufacturer_code = 0\<rparr>"
    using m by (auto simp: zcl_basic_init_def Let_def split: if_splits)
  note r = basic_region_simps [OF ok(1) g(1)] basic_region_simps [OF ok(2) g(2)] basic_region_simps [OF ok(3) g(3)]
  note r3 = basic_region_simps(2) [OF ok(3) g(3), of "[]", simplified]
  show "zcl_attr_set_check (Some (basic_set m)) = ZCL_CODEC_OK"
    unfolding t by (subst attr_set_check_eq) (auto simp: set_table_def basic_attribute_def basic_ids_def)
  note sh = zcl_value_encode_def value_shape_def shape_kind_def shape_width_def set_table_def basic_attribute_def basic_ids_def basic_types_def
  show a: "zcl_value_encode (map_option attr_value (find_attribute (set_table (basic_set m)) 0x0004)) True 255 True =
       Inr (of_nat (bt_length (bc_manufacturer c)) # text_bytes (bc_manufacturer c))"
    unfolding t using g(1) r by (simp add: sh)
  show b: "zcl_value_encode (map_option attr_value (find_attribute (set_table (basic_set m)) 0x0005)) True 255 True =
       Inr (of_nat (bt_length (bc_model c)) # text_bytes (bc_model c))"
    unfolding t using g(2) r by (simp add: sh)
  show c: "zcl_value_encode (map_option attr_value (find_attribute (set_table (basic_set m)) 0x4000)) True 255 True =
       Inr (of_nat (bt_length (bc_software c)) # text_bytes (bc_software c))"
    unfolding t using g(3) r r3 by (simp add: sh)
  show "encodable_values (set_table (basic_set m))"
    using a b c unfolding t encodable_values_def by (auto simp: sh)
qed

section \<open>Properties\<close>

text \<open>C13. A Read Attributes request is answered with exactly the records it asks for. For a table whose
  values lie within their buffers: a request for the table's side and namespace gets a response
  whenever the readable values are encodable and there is room for one status record; and every
  response is a frame the ZCL decoder accepts, within the capacity, with the request's header and
  the direction reversed. It carries one record per identifier, in request order, for as long as
  three octets are left: the value of a readable attribute or the status that explains its absence,
  the insufficient-space status exactly when the record is longer than the room left; so when all
  records fit, every identifier has its full record. A malformed request gets the
  malformed-command default response.\<close>

theorem zcl_read_answers:
  assumes "backed_values (set_table s)"
  shows "(\<forall>h ids. encodable_values (set_table s) \<and> zcl_attr_set_check (Some s) = ZCL_CODEC_OK \<and>
      zcl_view_dec req = Some (h, ids) \<and> zcl_type h = ZCL_FRAME_GLOBAL \<and> zcl_command_id h = ZCL_COMMAND_READ_ATTRIBUTES \<and>
      zcl_flag_byte (zcl_flags h AND ZCL_FLAG_SERVER_TO_CLIENT \<noteq> 0) = set_side s \<and> zcl_context_matches s h \<and>
      zcl_header_size (zcl_flags h) + 3 \<le> zcl_budget cap \<longrightarrow>
      (\<exists>info resp. zcl_read_attrs_unicast (Some s) (Some req) True cap True = Inr (info, resp))) \<and>
   (\<forall>info resp. zcl_read_attrs_unicast (Some s) (Some req) True cap True = Inr (info, resp) \<longrightarrow> (
    \<exists>h ids payload. zcl_view_dec req = Some (h, ids) \<and>
    zcl_view_dec resp = Some (h\<lparr>zcl_flags := zcl_reply_flags (zcl_flags h), zcl_command_id := ri_command_id info\<rparr>, payload) \<and>
    length resp = ri_length info \<and> ri_length info \<le> cap \<and>
    (if ids = [] \<or> odd (length ids) then ri_command_id info = ZCL_COMMAND_DEFAULT_RESPONSE \<and>
        payload = [ZCL_COMMAND_READ_ATTRIBUTES, ZCL_STATUS_MALFORMED_COMMAND]
     else let room = zcl_budget cap - zcl_header_size (zcl_flags h); records = reply_records (set_table s) room (wire_ids ids) in
        ri_command_id info = ZCL_COMMAND_READ_ATTRIBUTES_RESPONSE \<and> payload = concat records \<and>
        ri_requested_count info = length (wire_ids ids) \<and> ri_returned_count info = length records \<and> 1 \<le> length records \<and>
        (encodable_values (set_table s) \<and> length (concat (map (full_record (set_table s)) (wire_ids ids))) \<le> room \<longrightarrow>
          payload = concat (map (full_record (set_table s)) (wire_ids ids))))))"
  using read_attrs_total [OF assms] read_attrs_answers [OF assms] by blast

definition sample_set :: zcl_attribute_set where
  "sample_set = \<lparr>set_attributes = Some [\<lparr>attr_id = 4, attr_readable = 1, attr_value = \<lparr>zv_type = 0x20, zv_string_non_value = 0,
     zv_data = Some [7], zv_data_length = 1\<rparr>\<rparr>], set_count = 1, set_side = 0, set_manufacturer_specific = 0, set_manufacturer_code = 0\<rparr>"

theorem zcl_read_answers_witness:
  "\<exists>info resp. zcl_read_attrs_unicast (Some sample_set) (Some [0x10, 5, 0, 4, 0, 9, 0]) True 20 True = Inr (info, resp) \<and>
    map_option snd (zcl_view_dec resp) = Some [4, 0, 0, 0x20, 7, 9, 0, 0x86] \<and> ri_returned_count info = 2"
proof -
  let ?req = "[0x10, 5, 0, 4, 0, 9, 0]" and ?h = "\<lparr>zcl_type = 0, zcl_flags = 0x10, zcl_manufacturer_code = 0, zcl_sequence = 5, zcl_command_id = 0\<rparr>"
  have bk: "backed_values (set_table sample_set)" and ev: "encodable_values (set_table sample_set)"
    by (auto simp: backed_values_def encodable_values_def sample_set_def set_table_def zcl_value_encode_def value_shape_def shape_kind_def shape_width_def)
  have v: "zcl_view_dec ?req = Some (?h, [4, 0, 9, 0])" "zcl_attr_set_check (Some sample_set) = ZCL_CODEC_OK"
    "zcl_flag_byte (zcl_flags ?h AND ZCL_FLAG_SERVER_TO_CLIENT \<noteq> 0) = set_side sample_set" "zcl_context_matches sample_set ?h"
    "zcl_header_size (zcl_flags ?h) + 3 \<le> zcl_budget 20" by code_simp+
  have rs: "reply_records (set_table sample_set) (zcl_budget 20 - zcl_header_size (zcl_flags ?h)) (wire_ids [4, 0, 9, 0]) =
      [[4, 0, 0, 0x20, 7], [9, 0, 0x86]]" by code_simp
  note ans = zcl_read_answers [OF bk, of ?req 20]
  from ans ev v obtain info resp where run: "zcl_read_attrs_unicast (Some sample_set) (Some ?req) True 20 True = Inr (info, resp)"
    by (metis zcl_header.select_convs)
  from ans run v(1) rs have "\<exists>g. zcl_view_dec resp = Some (g, [4, 0, 0, 0x20, 7, 9, 0, 0x86])" "ri_returned_count info = 2"
    by (fastforce simp: Let_def simp del: reply_records.simps wire_ids.simps)+
  with run show ?thesis by auto
qed

text \<open>C14. An initialised Basic cluster is a table the attribute commands accept, its string attributes
  encode to the configured texts, and all its readable values are encodable.\<close>

theorem basic_cluster_values:
  assumes "zcl_basic_init True (Some c) = Inr m" and "text_ok (bc_manufacturer c)" "text_ok (bc_model c)" "text_ok (bc_software c)"
  shows "zcl_attr_set_check (Some (basic_set m)) = ZCL_CODEC_OK \<and> encodable_values (set_table (basic_set m)) \<and>
    zcl_value_encode (map_option attr_value (find_attribute (set_table (basic_set m)) 0x0004)) True 255 True =
       Inr (of_nat (bt_length (bc_manufacturer c)) # text_bytes (bc_manufacturer c)) \<and>
    zcl_value_encode (map_option attr_value (find_attribute (set_table (basic_set m)) 0x0005)) True 255 True =
       Inr (of_nat (bt_length (bc_model c)) # text_bytes (bc_model c)) \<and>
    zcl_value_encode (map_option attr_value (find_attribute (set_table (basic_set m)) 0x4000)) True 255 True =
       Inr (of_nat (bt_length (bc_software c)) # text_bytes (bc_software c))"
  using basic_init_table [OF assms] by blast

definition sample_basic :: zcl_basic_config where
  "sample_basic = \<lparr>bc_manufacturer = \<lparr>bt_data = Some [0x61, 0x62], bt_length = 2\<rparr>, bc_model = \<lparr>bt_data = None, bt_length = 0\<rparr>,
     bc_software = \<lparr>bt_data = Some [0x31], bt_length = 1\<rparr>, bc_power_source = 1\<rparr>"

theorem basic_cluster_values_witness:
  "\<exists>m. zcl_basic_init True (Some sample_basic) = Inr m \<and> encodable_values (set_table (basic_set m)) \<and>
    zcl_value_encode (map_option attr_value (find_attribute (set_table (basic_set m)) 0x0004)) True 255 True = Inr [2, 0x61, 0x62]"
proof -
  obtain m where m: "zcl_basic_init True (Some sample_basic) = Inr m"
    by (simp add: zcl_basic_init_def sample_basic_def Let_def)
  from basic_cluster_values [OF m] show ?thesis using m
    by (simp add: sample_basic_def text_ok_def text_bytes_def)
qed

text \<open>C18. The table check accepts exactly the tables with at most sixteen entries, one-bit selectors, distinct
  identifiers, one-bit permissions and, in the standard namespace, identifiers of the allowed
  ranges.\<close>

theorem zcl_table_check:
  assumes "case set_attributes s of None \<Rightarrow> True | Some l \<Rightarrow> set_count s \<le> length l"
  shows "zcl_attr_set_check (Some s) = ZCL_CODEC_OK \<longleftrightarrow>
    set_count s \<le> ZCL_ATTRIBUTE_MAX_COUNT \<and> \<not> set_side s > 1 \<and> \<not> set_manufacturer_specific s > 1 \<and>
    (set_attributes s = None \<longrightarrow> set_count s = 0) \<and> distinct (map attr_id (set_table s)) \<and>
    (\<forall>a \<in> set (set_table s). \<not> attr_readable a > 1 \<and>
      (set_manufacturer_specific s = 0 \<longrightarrow> \<not> (0x5000 \<le> attr_id a \<and> attr_id a < 0xf000) \<and> attr_id a \<noteq> 0xffff))"
  using attr_set_check_eq [OF assms] .

theorem zcl_table_check_witness: "zcl_attr_set_check (Some sample_set) = ZCL_CODEC_OK"
  by (subst zcl_table_check) (auto simp: sample_set_def set_table_def)

end
