(* ===== verification/Zcl_Dispatch.thy ===== *)
theory Zcl_Dispatch
  imports Zcl_Attributes
begin

text \<open>
  The write commands (\<open>src/src/zcl_write.c\<close>) and the global command dispatcher with attribute
  discovery (\<open>src/src/zcl_dispatch.c\<close>). The lemmas show that the write loop consumes its input
  and stays inside its 97-byte staging buffer, when a write takes effect, and that discovery
  lists the table in increasing identifier order.
\<close>

abbreviation (input) ZCL_COMMAND_WRITE_ATTRIBUTES :: u8 where "ZCL_COMMAND_WRITE_ATTRIBUTES \<equiv> 0x02"
abbreviation (input) ZCL_COMMAND_WRITE_UNDIVIDED :: u8 where "ZCL_COMMAND_WRITE_UNDIVIDED \<equiv> 0x03"
abbreviation (input) ZCL_COMMAND_WRITE_RESPONSE :: u8 where "ZCL_COMMAND_WRITE_RESPONSE \<equiv> 0x04"
abbreviation (input) ZCL_COMMAND_WRITE_NO_RESPONSE :: u8 where "ZCL_COMMAND_WRITE_NO_RESPONSE \<equiv> 0x05"
abbreviation (input) ZCL_COMMAND_DISCOVER_ATTRIBUTES :: u8 where "ZCL_COMMAND_DISCOVER_ATTRIBUTES \<equiv> 0x0c"
abbreviation (input) ZCL_COMMAND_DISCOVER_RESPONSE :: u8 where "ZCL_COMMAND_DISCOVER_RESPONSE \<equiv> 0x0d"
abbreviation (input) ZCL_STATUS_UNSUP_COMMAND :: u8 where "ZCL_STATUS_UNSUP_COMMAND \<equiv> 0x81"
abbreviation (input) ZCL_STATUS_READ_ONLY :: u8 where "ZCL_STATUS_READ_ONLY \<equiv> 0x88"
abbreviation (input) ZCL_STATUS_INVALID_DATA_TYPE :: u8 where "ZCL_STATUS_INVALID_DATA_TYPE \<equiv> 0x8d"
abbreviation (input) ZCL_DISPATCH_RESPONSE :: u8 where "ZCL_DISPATCH_RESPONSE \<equiv> 0"
abbreviation (input) ZCL_DISPATCH_DEFAULT_RECEIVED :: u8 where "ZCL_DISPATCH_DEFAULT_RECEIVED \<equiv> 1"
abbreviation (input) ZCL_DISPATCH_SILENT :: u8 where "ZCL_DISPATCH_SILENT \<equiv> 2"
abbreviation (input) ZCL_TYPE_BOOLEAN :: u8 where "ZCL_TYPE_BOOLEAN \<equiv> 0x10"
abbreviation (input) ZCL_TYPE_UINT16 :: u8 where "ZCL_TYPE_UINT16 \<equiv> 0x21"

record zcl_dispatch_info =
  di_kind :: u8
  di_length :: nat
  di_command_id :: u8
  di_sequence :: u8
  di_requested_count :: nat
  di_returned_count :: nat
  di_discovery_complete :: u8
  di_default_command :: u8
  di_default_status :: u8
  di_default_raw_status :: u8

definition zcl_info_zero :: zcl_dispatch_info where
  "zcl_info_zero = \<lparr>di_kind = 0, di_length = 0, di_command_id = 0, di_sequence = 0, di_requested_count = 0,
     di_returned_count = 0, di_discovery_complete = 0, di_default_command = 0, di_default_status = 0, di_default_raw_status = 0\<rparr>"

section \<open>Writes\<close>

text \<open>The locals of the record loop: the response bytes, the last accepted value (\<open>wrote\<close> and
  \<open>last\<close>), the records seen and the errors.\<close>

record wr_locals =
  wr_body :: bytes
  wr_last :: "u16 option"
  wr_count :: nat
  wr_errors :: nat

text \<open>The extent of a value: a boolean with a rejected content still spans one byte.\<close>

definition wr_extent :: "u8 \<Rightarrow> bytes \<Rightarrow> zcl_codec_result + nat" where
  "wr_extent type payload = (case zcl_value_decode type (Some payload) True of
     Inr value \<Rightarrow> Inr (zi_encoded_length value)
   | Inl rc \<Rightarrow> if rc = ZCL_CODEC_INVALID_VALUE \<and> type = ZCL_TYPE_BOOLEAN then Inr 1 else Inl rc)"

text \<open>The status of one record; \<open>edit\<close> is the identifier of the one writable attribute.\<close>

definition wr_status :: "zcl_attribute list \<Rightarrow> u16 option \<Rightarrow> u16 \<Rightarrow> u8 \<Rightarrow> u8" where
  "wr_status l edit i type =
     (case find_attribute l i of None \<Rightarrow> ZCL_STATUS_UNSUPPORTED_ATTRIBUTE
      | Some attr \<Rightarrow> if zv_type (attr_value attr) \<noteq> type then ZCL_STATUS_INVALID_DATA_TYPE
          else if edit \<noteq> Some i then ZCL_STATUS_READ_ONLY else ZCL_STATUS_SUCCESS)"

definition wr_record :: "u16 \<Rightarrow> u8 \<Rightarrow> bytes \<Rightarrow> wr_locals \<Rightarrow> wr_locals" where
  "wr_record i status value w =
     (if status = ZCL_STATUS_SUCCESS then w\<lparr>wr_last := Some (read_le16 value), wr_count := wr_count w + 1\<rparr>
      else w\<lparr>wr_body := wr_body w @ [status] @ write_le16 i, wr_errors := wr_errors w + 1, wr_count := wr_count w + 1\<rparr>)"

text \<open>The loop: the status it was left with and the locals, or an early return.\<close>

function wr_loop :: "zcl_attribute list \<Rightarrow> u16 option \<Rightarrow> zcl_codec_result \<Rightarrow> bytes \<Rightarrow> wr_locals \<Rightarrow> zcl_codec_result + (zcl_codec_result \<times> wr_locals)" where
  "wr_loop l edit rc payload w =
     (if payload = [] then Inr (rc, w)
      else if length payload < 3 then Inr (ZCL_CODEC_TRUNCATED, w)
      else let i = read_le16 payload; type = payload ! 2; value = drop 3 payload in
      (case wr_extent type value of Inl rc' \<Rightarrow> Inr (rc', w)
       | Inr extent \<Rightarrow>
         let status = wr_status l edit i type in
         if status = ZCL_STATUS_SUCCESS \<and> type \<noteq> ZCL_TYPE_UINT16 then Inl ZCL_CODEC_INVALID_TABLE
         else wr_loop l edit ZCL_CODEC_OK (drop extent value) (wr_record i status value w)))"
  by pat_completeness auto
termination by (relation "measure (\<lambda>(l, edit, rc, payload, w). length payload)") auto

text \<open>The result is the dispatch information, the response bytes and the published write.\<close>

definition zcl_wr_handle :: "zcl_attribute_set \<Rightarrow> zcl_frame_info \<Rightarrow> bytes \<Rightarrow> nat \<Rightarrow> zcl_dispatch_info \<Rightarrow> u16 option \<Rightarrow>
    zcl_codec_result + (zcl_dispatch_info \<times> bytes \<times> u16 option)" where
  "zcl_wr_handle s frame payload capacity info0 edit =
     (let h = zfi_header frame; command = zcl_command_id h; info = info0\<lparr>di_sequence := zcl_sequence h\<rparr> in
      case wr_loop (set_table s) edit ZCL_CODEC_TRUNCATED (take (zfi_payload_length frame) payload)
          \<lparr>wr_body = [], wr_last = None, wr_count = 0, wr_errors = 0\<rparr> of
        Inl status \<Rightarrow> Inl status
      | Inr (rc, w) \<Rightarrow>
        if rc \<noteq> ZCL_CODEC_OK \<and> rc \<noteq> ZCL_CODEC_TRUNCATED then Inl rc
        else if command = ZCL_COMMAND_WRITE_NO_RESPONSE then
          if rc \<noteq> ZCL_CODEC_OK then Inl rc
          else Inr (info\<lparr>di_kind := ZCL_DISPATCH_SILENT\<rparr>, [], wr_last w)
        else let malformed = rc \<noteq> ZCL_CODEC_OK;
                 reply = h\<lparr>zcl_flags := zcl_reply_flags (zcl_flags h),
                   zcl_command_id := if malformed then ZCL_COMMAND_DEFAULT_RESPONSE else ZCL_COMMAND_WRITE_RESPONSE\<rparr>;
                 body = (if malformed then [command, ZCL_STATUS_MALFORMED_COMMAND]
                   else if wr_body w = [] then [ZCL_STATUS_SUCCESS] else wr_body w);
                 info1 = (if malformed then info\<lparr>di_default_command := command,
                       di_default_status := ZCL_STATUS_MALFORMED_COMMAND, di_default_raw_status := ZCL_STATUS_MALFORMED_COMMAND\<rparr>
                   else info\<lparr>di_requested_count := wr_count w,
                       di_returned_count := (if wr_body w = [] then 1 else wr_errors w)\<rparr>);
                 wrote = (if malformed \<or> (wr_body w \<noteq> [] \<and> command = ZCL_COMMAND_WRITE_UNDIVIDED) then None else wr_last w)
             in (case zcl_frame_encode (Some reply) (Some body) (length body) True capacity True of
                   Inl status \<Rightarrow> Inl status
                 | Inr bytes \<Rightarrow> Inr (info1\<lparr>di_length := length bytes, di_command_id := zcl_command_id reply\<rparr>, bytes, wrote)))"

section \<open>Dispatch\<close>

definition normalized_status :: "u8 \<Rightarrow> u8" where
  "normalized_status status =
     (if status \<ge> 0x82 \<and> status \<le> 0x84 then ZCL_STATUS_UNSUP_COMMAND
      else if status = 0x8a \<or> status = 0xc4 then ZCL_STATUS_SUCCESS
      else if status = 0x8f then ZCL_STATUS_NOT_AUTHORIZED
      else if status = 0x90 \<or> status = 0x91 \<or> status = 0x93 \<or> status = 0xc0 \<or> status = 0xc1 then 0x01
      else status)"

definition next_pick :: "u16 \<Rightarrow> zcl_attribute \<Rightarrow> zcl_attribute option \<Rightarrow> zcl_attribute option" where
  "next_pick start current chosen =
     (if attr_id current \<ge> start \<and> (case chosen of None \<Rightarrow> True | Some c \<Rightarrow> attr_id current < attr_id c) then Some current else chosen)"

definition next_attribute :: "zcl_attribute list \<Rightarrow> u16 \<Rightarrow> zcl_attribute option" where
  "next_attribute l start = fold (next_pick start) l None"

text \<open>The discovery loop: the completion flag, the response bytes and the count.\<close>

function discover_loop :: "zcl_attribute list \<Rightarrow> nat \<Rightarrow> nat \<Rightarrow> u16 \<Rightarrow> bytes \<Rightarrow> nat \<Rightarrow> zcl_codec_result + (u8 \<times> bytes \<times> nat)" where
  "discover_loop l limit budget start payload count =
     (case next_attribute l start of None \<Rightarrow> Inr (1, payload, count)
      | Some attribute \<Rightarrow>
        if count = limit \<or> budget < 3 then
          (if count = 0 \<and> limit \<noteq> 0 then Inl ZCL_CODEC_BUFFER_TOO_SMALL else Inr (0, payload, count))
        else if \<not> zcl_value_type_supported (zv_type (attr_value attribute)) then Inl ZCL_CODEC_UNSUPPORTED_DATA_TYPE
        else let i = attr_id attribute; payload' = payload @ write_le16 i @ [zv_type (attr_value attribute)] in
        if i = 0xffff then Inr (1, payload', count + 1)
        else discover_loop l limit (budget - 3) (i + 1) payload' (count + 1))"
  by pat_completeness auto
termination by (relation "measure (\<lambda>(l, limit, budget, start, payload, count). budget)") auto

definition zcl_discover :: "zcl_attribute_set \<Rightarrow> bytes \<Rightarrow> zcl_header \<Rightarrow> nat \<Rightarrow> zcl_dispatch_info \<Rightarrow> zcl_codec_result + (zcl_dispatch_info \<times> bytes)" where
  "zcl_discover s request reply capacity info =
     (let header_size = (if zcl_flags reply AND ZCL_FLAG_MANUFACTURER_SPECIFIC \<noteq> 0 then 5 else 3); budget = zcl_budget capacity in
      if budget < header_size + 1 then Inl ZCL_CODEC_BUFFER_TOO_SMALL
      else (case discover_loop (set_table s) (unat (request ! 2)) (budget - (header_size + 1)) (read_le16 request) [] 0 of
          Inl status \<Rightarrow> Inl status
        | Inr (complete, records, count) \<Rightarrow>
          (case zcl_frame_encode (Some (reply\<lparr>zcl_command_id := ZCL_COMMAND_DISCOVER_RESPONSE\<rparr>)) (Some (complete # records))
              (length (complete # records)) True capacity True of
            Inl status \<Rightarrow> Inl status
          | Inr bytes \<Rightarrow> Inr (info\<lparr>di_requested_count := unat (request ! 2), di_length := length bytes, di_discovery_complete := complete,
              di_returned_count := count, di_command_id := ZCL_COMMAND_DISCOVER_RESPONSE\<rparr>, bytes))))"

definition zcl_is_write :: "u8 \<Rightarrow> bool" where
  "zcl_is_write c \<longleftrightarrow> c = ZCL_COMMAND_WRITE_ATTRIBUTES \<or> c = ZCL_COMMAND_WRITE_UNDIVIDED \<or> c = ZCL_COMMAND_WRITE_NO_RESPONSE"

text \<open>The tail of the dispatcher: a default response with a status.\<close>

definition zcl_default_reply :: "zcl_header \<Rightarrow> u8 \<Rightarrow> u8 \<Rightarrow> nat \<Rightarrow> zcl_dispatch_info \<Rightarrow> zcl_codec_result + (zcl_dispatch_info \<times> bytes)" where
  "zcl_default_reply reply command status capacity candidate =
     (case zcl_frame_encode (Some (reply\<lparr>zcl_command_id := ZCL_COMMAND_DEFAULT_RESPONSE\<rparr>)) (Some [command, status]) 2 True capacity True of
        Inl e \<Rightarrow> Inl e
      | Inr bytes \<Rightarrow> Inr (candidate\<lparr>di_length := length bytes, di_command_id := ZCL_COMMAND_DEFAULT_RESPONSE,
          di_default_command := command, di_default_status := status, di_default_raw_status := status\<rparr>, bytes))"

definition zcl_dispatch_unicast :: "zcl_attribute_set option \<Rightarrow> bytes option \<Rightarrow> bool \<Rightarrow> nat \<Rightarrow> bool \<Rightarrow> zcl_codec_result + (zcl_dispatch_info \<times> bytes)" where
  "zcl_dispatch_unicast aset request response capacity info =
     (case aset of None \<Rightarrow> Inl ZCL_CODEC_INVALID_ARGUMENT | Some s \<Rightarrow>
      (case request of None \<Rightarrow> Inl ZCL_CODEC_INVALID_ARGUMENT | Some req \<Rightarrow>
      if \<not> response \<or> \<not> info then Inl ZCL_CODEC_INVALID_ARGUMENT
      else let status = zcl_attr_set_check aset in
      if status \<noteq> ZCL_CODEC_OK then Inl status
      else (case zcl_frame_decode request True of Inl status \<Rightarrow> Inl status | Inr frame \<Rightarrow>
        let h = zfi_header frame; command = zcl_command_id h; payload = drop (zfi_payload_offset frame) req;
            context_matches = zcl_context_matches s h; is_global = (zcl_type h = ZCL_FRAME_GLOBAL);
            candidate = zcl_info_zero\<lparr>di_sequence := zcl_sequence h\<rparr> in
        if zcl_flag_byte (zcl_flags h AND ZCL_FLAG_SERVER_TO_CLIENT \<noteq> 0) \<noteq> set_side s then Inl ZCL_CODEC_UNSUPPORTED_CONTEXT
        else if is_global \<and> command = ZCL_COMMAND_DEFAULT_RESPONSE then
          if \<not> context_matches then Inl ZCL_CODEC_UNSUPPORTED_CONTEXT
          else if zfi_payload_length frame < 2 then Inl ZCL_CODEC_TRUNCATED
          else if set_manufacturer_specific s \<noteq> 0 \<and> zfi_payload_length frame \<noteq> 2 then Inl ZCL_CODEC_UNSUPPORTED_LAYOUT
          else Inr (candidate\<lparr>di_kind := ZCL_DISPATCH_DEFAULT_RECEIVED, di_command_id := ZCL_COMMAND_DEFAULT_RESPONSE,
            di_default_command := payload ! 0, di_default_raw_status := payload ! 1,
            di_default_status := normalized_status (payload ! 1)\<rparr>, [])
        else if context_matches \<and> is_global \<and> zcl_is_write command then
          map_sum id (\<lambda>(i, bytes, _). (i, bytes)) (zcl_wr_handle s frame payload capacity candidate None)
        else if is_global \<and> command = ZCL_COMMAND_WRITE_NO_RESPONSE then Inl ZCL_CODEC_UNSUPPORTED_NO_RESPONSE
        else let reply = h\<lparr>zcl_type := ZCL_FRAME_GLOBAL, zcl_flags := zcl_reply_flags (zcl_flags h)\<rparr> in
        if context_matches \<and> is_global \<and> command = ZCL_COMMAND_READ_ATTRIBUTES then
          (case zcl_read_attrs_unicast aset request response capacity True of Inl status \<Rightarrow> Inl status
           | Inr (read, bytes) \<Rightarrow>
             let c1 = candidate\<lparr>di_command_id := ri_command_id read, di_length := ri_length read,
                   di_requested_count := ri_requested_count read, di_returned_count := ri_returned_count read\<rparr> in
             Inr (if ri_command_id read = ZCL_COMMAND_DEFAULT_RESPONSE
               then c1\<lparr>di_default_command := ZCL_COMMAND_READ_ATTRIBUTES, di_default_status := ZCL_STATUS_MALFORMED_COMMAND,
                 di_default_raw_status := ZCL_STATUS_MALFORMED_COMMAND\<rparr> else c1, bytes))
        else if context_matches \<and> is_global \<and> command = ZCL_COMMAND_DISCOVER_ATTRIBUTES then
          if zfi_payload_length frame < 3 then zcl_default_reply reply command ZCL_STATUS_MALFORMED_COMMAND capacity candidate
          else if set_manufacturer_specific s \<noteq> 0 \<and> zfi_payload_length frame \<noteq> 3 then Inl ZCL_CODEC_UNSUPPORTED_LAYOUT
          else zcl_discover s payload reply capacity candidate
        else zcl_default_reply reply command ZCL_STATUS_UNSUP_COMMAND capacity candidate)))"

section \<open>What a write request does\<close>

text \<open>The records of a write payload, or \<open>None\<close> when it is malformed or of unknown extent.\<close>

function parse_writes :: "bytes \<Rightarrow> (u16 \<times> u8 \<times> bytes) list option" where
  "parse_writes p =
     (if p = [] then Some [] else if length p < 3 then None
      else (case wr_extent (p ! 2) (drop 3 p) of Inl _ \<Rightarrow> None
        | Inr n \<Rightarrow> map_option ((#) (read_le16 p, p ! 2, take n (drop 3 p))) (parse_writes (drop n (drop 3 p)))))"
  by pat_completeness auto
termination by (relation "measure length") auto

declare parse_writes.simps [simp del] wr_loop.simps [simp del]

lemma wr_extent_bound: "wr_extent t v = Inr n \<Longrightarrow> n \<le> length v \<or> t = ZCL_TYPE_BOOLEAN"
  by (auto simp: wr_extent_def zcl_value_decode_def Let_def split: sum.splits if_splits)

lemma wr_extent_uint16: "wr_extent 0x21 v = Inr n \<Longrightarrow> n = 2 \<and> 2 \<le> length v"
  by (auto simp: wr_extent_def zcl_value_decode_def Let_def value_shape_def shape_kind_def shape_width_def split: sum.splits if_splits)

lemma read_le16_take: "2 \<le> length v \<Longrightarrow> read_le16 (take 2 v) = read_le16 v"
  by (simp add: read_le16_def)

definition wr_step :: "zcl_attribute list \<Rightarrow> u16 option \<Rightarrow> u16 \<times> u8 \<times> bytes \<Rightarrow> wr_locals \<Rightarrow> wr_locals" where
  "wr_step l edit r w = (case r of (i, t, v) \<Rightarrow> wr_record i (wr_status l edit i t) v w)"

text \<open>The loop is a fold over the parsed records.\<close>

lemma wr_loop_parse:
  "wr_loop l edit rc p w = Inr (rc', w') \<Longrightarrow>
     (case parse_writes p of Some rs \<Rightarrow> rc' = (if p = [] then rc else ZCL_CODEC_OK) \<and> w' = fold (wr_step l edit) rs w
      | None \<Rightarrow> p \<noteq> [] \<and> rc' \<noteq> ZCL_CODEC_OK)"
proof (induction l edit rc p w rule: wr_loop.induct)
  case (1 l edit rc p w)
  let ?v = "drop 3 p"
  show ?case
  proof (cases "p = [] \<or> length p < 3")
    case True
    with 1(2) show ?thesis by (auto simp: wr_loop.simps [of l edit rc p] parse_writes.simps [of p])
  next
    case False
    then have p: "p \<noteq> []" "\<not> length p < 3" by auto
    show ?thesis
    proof (cases "wr_extent (p ! 2) ?v")
      case (Inl e)
      then have "e \<noteq> ZCL_CODEC_OK"
        by (auto simp: wr_extent_def zcl_value_decode_def Let_def split: sum.splits if_splits)
      with 1(2) p Inl show ?thesis by (auto simp: wr_loop.simps [of l edit rc p] parse_writes.simps [of p])
    next
      case (Inr n)
      let ?st = "wr_status l edit (read_le16 p) (p ! 2)"
      have ok: "?st = ZCL_STATUS_SUCCESS \<Longrightarrow> p ! 2 = ZCL_TYPE_UINT16"
        and run: "wr_loop l edit ZCL_CODEC_OK (drop n ?v) (wr_record (read_le16 p) ?st ?v w) = Inr (rc', w')"
        using 1(2) unfolding wr_loop.simps [of l edit rc p] by (simp_all only: p if_False Let_def Inr sum.case split: if_splits) blast+
      have st: "wr_record (read_le16 p) ?st ?v w = wr_step l edit (read_le16 p, p ! 2, take n ?v) w"
      proof (cases "?st = ZCL_STATUS_SUCCESS")
        case True
        with ok Inr have "n = 2" "2 \<le> length ?v" using wr_extent_uint16 [of ?v n] by simp_all
        then have "read_le16 (take n ?v) = read_le16 ?v" by (simp only: read_le16_take)
        then show ?thesis by (simp only: wr_step_def wr_record_def prod.case True if_True)
      qed (simp add: wr_step_def wr_record_def)
      have IH: "case parse_writes (drop n ?v) of Some rs \<Rightarrow> rc' = (if drop n ?v = [] then ZCL_CODEC_OK else ZCL_CODEC_OK) \<and>
            w' = fold (wr_step l edit) rs (wr_record (read_le16 p) ?st ?v w) | None \<Rightarrow> drop n ?v \<noteq> [] \<and> rc' \<noteq> ZCL_CODEC_OK"
        using 1(1) [OF p refl refl refl Inr refl _ run] ok by blast
      have pw: "parse_writes p = map_option ((#) (read_le16 p, p ! 2, take n ?v)) (parse_writes (drop n ?v))"
        using p Inr by (simp add: parse_writes.simps [of p])
      show ?thesis using IH p unfolding pw st by (cases "parse_writes (drop n ?v)") simp_all
    qed
  qed
qed

lemma wr_fold_body:
  "length (wr_body (fold (wr_step l edit) rs w)) \<le> length (wr_body w) + 3 * length rs \<and>
   wr_errors (fold (wr_step l edit) rs w) = wr_errors w + length (filter (\<lambda>(i, t, v). wr_status l edit i t \<noteq> 0) rs) \<and>
   wr_count (fold (wr_step l edit) rs w) = wr_count w + length rs \<and>
   (wr_body (fold (wr_step l edit) rs w) = [] \<longleftrightarrow> wr_body w = [] \<and> (\<forall>(i, t, v) \<in> set rs. wr_status l edit i t = 0)) \<and>
   wr_last (fold (wr_step l edit) rs w) =
     (let ok = filter (\<lambda>(i, t, v). wr_status l edit i t = 0) rs in
      if ok = [] then wr_last w else Some (read_le16 (snd (snd (last ok)))))"
proof (induction rs arbitrary: w)
  case (Cons r rs)
  obtain i t v where r: "r = (i, t, v)" by (cases r)
  show ?case
  proof (cases "wr_status l edit i t = 0")
    case True
    then show ?thesis using Cons.IH [of "wr_step l edit r w"] by (auto simp: r wr_step_def wr_record_def Let_def)
  next
    case False
    then show ?thesis using Cons.IH [of "wr_step l edit r w"] by (auto simp: r wr_step_def wr_record_def Let_def)
  qed
qed simp

text \<open>The write a request publishes: the last accepted value, unless the request is malformed
  or undivided with a record that fails.\<close>

definition write_effect :: "zcl_attribute list \<Rightarrow> u16 option \<Rightarrow> u8 \<Rightarrow> bytes \<Rightarrow> u16 option" where
  "write_effect l edit command p = (case parse_writes p of None \<Rightarrow> None | Some rs \<Rightarrow>
     let ok = filter (\<lambda>(i, t, v). wr_status l edit i t = ZCL_STATUS_SUCCESS) rs in
     if ok = [] \<or> (command = ZCL_COMMAND_WRITE_UNDIVIDED \<and> ok \<noteq> rs) then None else Some (read_le16 (snd (snd (last ok)))))"

lemma wr_handle_effect:
  assumes "zcl_wr_handle s frame payload cap info0 edit = Inr (info, resp, wrote)"
  defines "p \<equiv> take (zfi_payload_length frame) payload"
  shows "wrote = write_effect (set_table s) edit (zcl_command_id (zfi_header frame)) p"
    "length resp \<le> cap" "zcl_command_id (zfi_header frame) = ZCL_COMMAND_WRITE_NO_RESPONSE \<Longrightarrow> resp = [] \<and> di_kind info = ZCL_DISPATCH_SILENT"
proof -
  let ?w0 = "\<lparr>wr_body = [], wr_last = None, wr_count = 0, wr_errors = 0\<rparr>" and ?l = "set_table s" and ?c = "zcl_command_id (zfi_header frame)"
  obtain rc w where loop: "wr_loop ?l edit ZCL_CODEC_TRUNCATED p ?w0 = Inr (rc, w)"
    using assms(1) by (auto simp: zcl_wr_handle_def Let_def p_def split: sum.splits)
  note run = assms(1) [unfolded zcl_wr_handle_def Let_def, folded p_def, unfolded loop sum.case prod.case]
  note lp = wr_loop_parse [OF loop]
  have w: "wr_body w = [] \<longleftrightarrow> (\<forall>(i, t, v) \<in> set rs. wr_status ?l edit i t = 0)"
    "wr_last w = (let ok = filter (\<lambda>(i, t, v). wr_status ?l edit i t = 0) rs in if ok = [] then None else Some (read_le16 (snd (snd (last ok)))))"
    if "parse_writes p = Some rs" for rs
    using lp wr_fold_body [where l = ?l and edit = edit and rs = rs and w = ?w0] that by (simp_all add: Let_def)
  show "wrote = write_effect ?l edit ?c p"
  proof (cases "parse_writes p")
    case None
    then show ?thesis using lp run by (auto simp: write_effect_def split: if_splits sum.splits)
  next
    case (Some rs)
    show ?thesis
    proof (cases "p = []")
      case True
      then have "rs = []" "rc = ZCL_CODEC_TRUNCATED" using Some lp by (auto simp: parse_writes.simps [of "[]"])
      then show ?thesis using run Some by (auto simp: write_effect_def split: if_splits sum.splits)
    next
      case False
      then have rc: "rc = ZCL_CODEC_OK" using lp Some by simp
      have nb: "wr_body w \<noteq> [] \<longleftrightarrow> filter (\<lambda>(i, t, v). wr_status ?l edit i t = 0) rs \<noteq> rs"
        unfolding w(1) [OF Some] filter_id_conv by auto
      have "wrote = (if wr_body w \<noteq> [] \<and> ?c = ZCL_COMMAND_WRITE_UNDIVIDED then None else wr_last w)"
        using run rc by (auto split: if_splits sum.splits)
      then show ?thesis unfolding nb w(2) [OF Some] by (simp add: write_effect_def Some Let_def)
    qed
  qed
  show "length resp \<le> cap" using run by (auto split: if_splits sum.splits dest!: zcl_encode_cap)
  show "?c = ZCL_COMMAND_WRITE_NO_RESPONSE \<Longrightarrow> resp = [] \<and> di_kind info = ZCL_DISPATCH_SILENT"
    using run by (auto split: if_splits)
qed

text \<open>The positions the record loop passes: the payload that is left and the locals. A step is taken
  when a whole record is there and the table accepts it; every value the locals take in a run,
  however it ends, is one of a visited position.\<close>

inductive wr_visits :: "zcl_attribute list \<Rightarrow> u16 option \<Rightarrow> bytes \<Rightarrow> wr_locals \<Rightarrow> bytes \<Rightarrow> wr_locals \<Rightarrow> bool"
  for l edit p w where
  Start: "wr_visits l edit p w p w"
| Step: "wr_visits l edit p w (drop n (drop 3 q)) (wr_record (read_le16 q) (wr_status l edit (read_le16 q) (q ! 2)) (drop 3 q) v)"
  if "wr_visits l edit p w q v" "3 \<le> length q" "wr_extent (q ! 2) (drop 3 q) = Inr n"
    "wr_status l edit (read_le16 q) (q ! 2) = ZCL_STATUS_SUCCESS \<Longrightarrow> q ! 2 = ZCL_TYPE_UINT16"

lemma wr_loop_step:
  assumes "3 \<le> length q" "wr_extent (q ! 2) (drop 3 q) = Inr n"
    "wr_status l edit (read_le16 q) (q ! 2) = ZCL_STATUS_SUCCESS \<Longrightarrow> q ! 2 = ZCL_TYPE_UINT16"
  shows "wr_loop l edit rc q v = wr_loop l edit ZCL_CODEC_OK (drop n (drop 3 q))
    (wr_record (read_le16 q) (wr_status l edit (read_le16 q) (q ! 2)) (drop 3 q) v)"
proof -
  have "q \<noteq> []" "\<not> length q < 3" using assms(1) by auto
  then show ?thesis using assms(2,3) unfolding wr_loop.simps [of l edit rc q v]
    by (simp only: if_False Let_def sum.case) auto
qed

lemma wr_record_body:
  "length (wr_body (wr_record i st b v)) \<le> length (wr_body v) + 3"
  "length (wr_body v) = 3 * wr_errors v \<Longrightarrow> length (wr_body (wr_record i st b v)) = 3 * wr_errors (wr_record i st b v)"
  by (simp_all add: wr_record_def)

text \<open>At a visited position the loop is still the same run, and each record has used at least as
  many octets of the request as it has stored of the response.\<close>

lemma wr_visits_inv:
  assumes "wr_visits l edit p w q v" "length (wr_body w) = 3 * wr_errors w"
  shows "length (wr_body v) + length q \<le> length (wr_body w) + length p \<and> length (wr_body v) = 3 * wr_errors v \<and>
    (\<exists>rc'. wr_loop l edit rc p w = wr_loop l edit rc' q v)"
  using assms(1)
proof induction
  case (Step q v n)
  let ?v = "wr_record (read_le16 q) (wr_status l edit (read_le16 q) (q ! 2)) (drop 3 q) v"
  from Step.IH obtain rc' where "wr_loop l edit rc p w = wr_loop l edit rc' q v" by blast
  with wr_loop_step [OF Step.hyps(2,3)] Step.hyps(4)
  have "wr_loop l edit rc p w = wr_loop l edit ZCL_CODEC_OK (drop n (drop 3 q)) ?v" by simp
  moreover have "length (wr_body ?v) + length (drop n (drop 3 q)) \<le> length (wr_body v) + length q"
    using wr_record_body(1) [of "read_le16 q" "wr_status l edit (read_le16 q) (q ! 2)" "drop 3 q" v] Step.hyps(2) by simp
  ultimately show ?case using Step.IH wr_record_body(2) by fastforce
qed (use assms(2) in auto)

lemma wr_visits_trans:
  assumes "wr_visits l edit p w q v"
  shows "wr_visits l edit p0 w0 p w \<Longrightarrow> wr_visits l edit p0 w0 q v"
  using assms by induction (blast intro: wr_visits.Step)+

text \<open>The locals a run ends with, on every exit, are those of the last position.\<close>

lemma wr_loop_visits:
  "case wr_loop l edit rc p w of Inl e \<Rightarrow> e = ZCL_CODEC_INVALID_TABLE | Inr (rc', w') \<Rightarrow> \<exists>q. wr_visits l edit p w q w'"
proof (induction l edit rc p w rule: wr_loop.induct)
  case (1 l edit rc p w)
  show ?case
  proof (cases "\<exists>n. 3 \<le> length p \<and> wr_extent (p ! 2) (drop 3 p) = Inr n \<and>
      (wr_status l edit (read_le16 p) (p ! 2) = ZCL_STATUS_SUCCESS \<longrightarrow> p ! 2 = ZCL_TYPE_UINT16)")
    case True
    then obtain n where n: "3 \<le> length p" "wr_extent (p ! 2) (drop 3 p) = Inr n"
      "wr_status l edit (read_le16 p) (p ! 2) = ZCL_STATUS_SUCCESS \<Longrightarrow> p ! 2 = ZCL_TYPE_UINT16" by blast
    have ne: "p \<noteq> []" "\<not> length p < 3" using n(1) by auto
    let ?w = "wr_record (read_le16 p) (wr_status l edit (read_le16 p) (p ! 2)) (drop 3 p) w"
    have "case wr_loop l edit ZCL_CODEC_OK (drop n (drop 3 p)) ?w of Inl e \<Rightarrow> e = ZCL_CODEC_INVALID_TABLE
        | Inr (rc', w') \<Rightarrow> \<exists>q. wr_visits l edit (drop n (drop 3 p)) ?w q w'"
      using "1.IH" [OF ne refl refl refl n(2) refl] n(3) by blast
    moreover have "wr_loop l edit rc p w = wr_loop l edit ZCL_CODEC_OK (drop n (drop 3 p)) ?w"
      using n(1,2) by (rule wr_loop_step) (rule n(3))
    moreover have "wr_visits l edit p w (drop n (drop 3 p)) ?w"
      using wr_visits.Start n(1,2) by (rule wr_visits.Step) (rule n(3))
    ultimately show ?thesis using wr_visits_trans
      by (cases "wr_loop l edit ZCL_CODEC_OK (drop n (drop 3 p)) ?w") (force simp del: drop_drop)+
  next
    case False
    have "case wr_loop l edit rc p w of Inl e \<Rightarrow> e = ZCL_CODEC_INVALID_TABLE | Inr (rc', w') \<Rightarrow> w' = w"
      using False by (cases "wr_extent (p ! 2) (drop 3 p)") (auto simp: wr_loop.simps [of l edit rc p w] Let_def)
    then show ?thesis using wr_visits.Start [of l edit p w] by (auto split: sum.splits)
  qed
qed

section \<open>Discovery\<close>

declare discover_loop.simps [simp del]

lemma next_pick_min:
  "(case fold (next_pick start) l c of
      None \<Rightarrow> c = None \<and> (\<forall>a \<in> set l. attr_id a < start)
    | Some m \<Rightarrow> (Some m = c \<or> m \<in> set l \<and> start \<le> attr_id m) \<and> (\<forall>a \<in> set l. start \<le> attr_id a \<longrightarrow> attr_id m \<le> attr_id a) \<and>
        (\<forall>x. c = Some x \<longrightarrow> attr_id m \<le> attr_id x))"
proof (induction l arbitrary: c)
  case Nil
  show ?case by (cases c) auto
next
  case (Cons a l)
  from Cons.IH [of "next_pick start a c"] show ?case
    by (cases c) (fastforce simp: next_pick_def split: option.splits if_splits)+
qed

lemma next_attribute_min:
  "next_attribute l start = None \<Longrightarrow> a \<in> set l \<Longrightarrow> attr_id a < start"
  "next_attribute l start = Some m \<Longrightarrow> m \<in> set l \<and> start \<le> attr_id m \<and> (\<forall>a \<in> set l. start \<le> attr_id a \<longrightarrow> attr_id m \<le> attr_id a)"
  using next_pick_min [where start = start and l = l and c = None] by (auto simp: next_attribute_def split: option.splits)

text \<open>The identifiers from \<open>start\<close> on, in increasing order.\<close>

definition ids_from :: "zcl_attribute list \<Rightarrow> u16 \<Rightarrow> u16 list" where
  "ids_from l start = sorted_list_of_set {i \<in> attr_id ` set l. start \<le> i}"

lemma ids_from_None:
  assumes "next_attribute l start = None"
  shows "ids_from l start = []"
proof -
  have "{i \<in> attr_id ` set l. start \<le> i} = {}" using next_attribute_min(1) [OF assms] by (auto simp: not_le)
  then show ?thesis by (simp add: ids_from_def)
qed

lemma u16_succ_le: "(m :: u16) \<noteq> 0xffff \<Longrightarrow> m + 1 \<le> x \<longleftrightarrow> m < x"
proof -
  assume "m \<noteq> 0xffff"
  moreover have "(0xffff :: u16) = - 1" by simp
  ultimately have "m \<noteq> - 1" by metis
  then show ?thesis unfolding inc_less_eq_iff by blast
qed

lemma ids_from_Some:
  assumes "next_attribute l start = Some m"
  shows "ids_from l start = attr_id m # (if attr_id m = 0xffff then [] else ids_from l (attr_id m + 1))"
proof -
  let ?A = "attr_id ` set l" and ?m = "attr_id m"
  define B where "B = {i \<in> ?A. start \<le> i}"
  note n = next_attribute_min(2) [OF assms]
  have top: "\<not> 0xffff < x" for x :: u16
  proof -
    have "unat x < 2 ^ LENGTH(16)" by (rule unsigned_less)
    then show ?thesis by (simp add: word_less_nat_alt)
  qed
  have B: "finite B" "?m \<in> B" "\<And>i. i \<in> B \<Longrightarrow> ?m \<le> i" using n by (auto simp: B_def)
  then have min: "Min B = ?m" by (intro Min_eqI) auto
  have "start \<le> i" if "?m < i" for i using n that by (meson less_imp_le order_trans)
  moreover have "i \<noteq> ?m \<Longrightarrow> ?m < i" if "i \<in> B" for i using B(3) [OF that] by auto
  ultimately have "B - {?m} = {i \<in> ?A. ?m < i}" unfolding B_def by blast
  moreover have "{i \<in> ?A. ?m < i} = (if ?m = 0xffff then {} else {i \<in> ?A. ?m + 1 \<le> i})"
    using u16_succ_le [of ?m] top by auto
  ultimately have eq: "B - {?m} = (if ?m = 0xffff then {} else {i \<in> ?A. ?m + 1 \<le> i})" by simp
  have "sorted_list_of_set B = ?m # sorted_list_of_set (B - {?m})"
    using sorted_list_of_set_nonempty [OF B(1)] B(2) unfolding min by blast
  then show ?thesis unfolding eq ids_from_def B_def [symmetric] by (cases "?m = 0xffff") (simp_all only: if_True if_False simp_thms sorted_list_of_set_empty)
qed

definition discovery_record :: "zcl_attribute list \<Rightarrow> u16 \<Rightarrow> bytes" where
  "discovery_record l i = write_le16 i @ [case find_attribute l i of None \<Rightarrow> 0 | Some a \<Rightarrow> zv_type (attr_value a)]"

lemma discover_loop_lists:
  "discover_loop l limit budget start payload count = Inr (complete, records, n) \<Longrightarrow> distinct (map attr_id l) \<Longrightarrow> count \<le> limit \<Longrightarrow>
     \<exists>k. n = count + k \<and> k \<le> length (ids_from l start) \<and> n \<le> limit \<and> 3 * k \<le> budget \<and>
       records = payload @ concat (map (discovery_record l) (take k (ids_from l start))) \<and>
       (complete = 1 \<longleftrightarrow> k = length (ids_from l start))"
proof (induction l limit budget start payload count rule: discover_loop.induct)
  case (1 l limit budget start payload count)
  note run = "1.prems"(1) [unfolded discover_loop.simps [of l limit budget start payload count]]
  show ?case
  proof (cases "next_attribute l start")
    case None
    with run "1.prems" show ?thesis by (auto simp: ids_from_None)
  next
    case (Some a)
    note ids = ids_from_Some [OF Some]
    have rec: "discovery_record l (attr_id a) = write_le16 (attr_id a) @ [zv_type (attr_value a)]"
      using find_attribute_distinct [OF "1.prems"(2)] next_attribute_min(2) [OF Some] by (simp add: discovery_record_def)
    show ?thesis
    proof (cases "count = limit \<or> budget < 3")
      case True
      with run Some "1.prems" show ?thesis by (auto simp: ids split: if_splits)
    next
      case False
      with run Some have sup: "\<not> \<not> zcl_value_type_supported (zv_type (attr_value a))" by (auto split: if_splits)
      let ?p = "payload @ write_le16 (attr_id a) @ [zv_type (attr_value a)]"
      show ?thesis
      proof (cases "attr_id a = 0xffff")
        case True
        with run Some False sup have "complete = 1" "records = ?p" "n = count + 1" by (simp_all add: Let_def)
        then show ?thesis using True False rec "1.prems"(3) by (intro exI [of _ 1]) (auto simp: ids)
      next
        case ff: False
        with run Some False sup have "discover_loop l limit (budget - 3) (attr_id a + 1) ?p (count + 1) = Inr (complete, records, n)"
          by (simp add: Let_def)
        from "1.IH" [OF Some False sup refl refl ff this "1.prems"(2)] False "1.prems"(3) obtain k where
          "n = count + 1 + k" "k \<le> length (ids_from l (attr_id a + 1))" "n \<le> limit" "3 * k \<le> budget - 3"
          "records = ?p @ concat (map (discovery_record l) (take k (ids_from l (attr_id a + 1))))"
          "complete = 1 \<longleftrightarrow> k = length (ids_from l (attr_id a + 1))" by auto
        then show ?thesis using ff False rec by (intro exI [of _ "Suc k"]) (auto simp: ids)
      qed
    qed
  qed
qed

section \<open>Properties\<close>

text \<open>C15. A write request publishes exactly its effect: the last accepted value, nothing when the request is
  malformed, nothing when it is undivided and one record fails; the response fits the capacity
  and a request without response gets none.\<close>

theorem zcl_write_publishes:
  assumes "zcl_wr_handle s frame payload cap info0 edit = Inr (info, resp, wrote)"
  shows "wrote = write_effect (set_table s) edit (zcl_command_id (zfi_header frame)) (take (zfi_payload_length frame) payload) \<and>
    length resp \<le> cap \<and>
    (zcl_command_id (zfi_header frame) = ZCL_COMMAND_WRITE_NO_RESPONSE \<longrightarrow> resp = [] \<and> di_kind info = ZCL_DISPATCH_SILENT)"
  using wr_handle_effect [OF assms] by blast

definition sample_write :: zcl_frame_info where
  "sample_write = \<lparr>zfi_header = \<lparr>zcl_type = 0, zcl_flags = 0, zcl_manufacturer_code = 0, zcl_sequence = 9, zcl_command_id = 2\<rparr>,
     zfi_ignored_control_bits = 0, zfi_payload_offset = 3, zfi_payload_length = 5\<rparr>"

definition writable_set :: zcl_attribute_set where
  "writable_set = \<lparr>set_attributes = Some [\<lparr>attr_id = 0, attr_readable = 1, attr_value = \<lparr>zv_type = 0x21, zv_string_non_value = 0,
     zv_data = Some [0, 0], zv_data_length = 2\<rparr>\<rparr>], set_count = 1, set_side = 0, set_manufacturer_specific = 0, set_manufacturer_code = 0\<rparr>"

theorem zcl_write_publishes_witness: "write_effect (set_table writable_set) (Some 0) 2 [0, 0, 0x21, 0x34, 0x12] = Some 0x1234"
proof -
  have "zcl_wr_handle writable_set sample_write [0, 0, 0x21, 0x34, 0x12] 20 zcl_info_zero (Some 0) =
      Inr (zcl_info_zero\<lparr>di_length := 4, di_sequence := 9, di_command_id := 4, di_requested_count := 1, di_returned_count := 1\<rparr>, [0x18, 9, 4, 0], Some 0x1234)"
    by code_simp
  from zcl_write_publishes [OF this] show ?thesis by (simp add: sample_write_def)
qed

text \<open>C16. No write request writes past the 97-byte staging buffer of its response: at every position the
  record loop of a run reaches, the error records stored so far and the octets of the request
  still to be read are together no more than the 97 octets a ZCL payload has at most; whichever way
  the loop ends (complete, truncated, a value of unknown extent, or the early return for a bad
  table), what it stored is what it had at such a position, three octets for each error counted.\<close>

theorem zcl_write_fits_buffer:
  assumes "length p \<le> 97"
  defines "w0 \<equiv> \<lparr>wr_body = [], wr_last = None, wr_count = 0, wr_errors = 0\<rparr>"
  shows "(\<forall>q v. wr_visits l edit p w0 q v \<longrightarrow> length (wr_body v) + length q \<le> 97 \<and>
      (\<exists>rc. wr_loop l edit ZCL_CODEC_TRUNCATED p w0 = wr_loop l edit rc q v)) \<and>
    (case wr_loop l edit ZCL_CODEC_TRUNCATED p w0 of Inl rc \<Rightarrow> rc = ZCL_CODEC_INVALID_TABLE
     | Inr (rc, w) \<Rightarrow> (\<exists>q. wr_visits l edit p w0 q w) \<and> length (wr_body w) = 3 * wr_errors w \<and> length (wr_body w) \<le> 97)"
proof (rule conjI)
  have w0: "length (wr_body w0) = 3 * wr_errors w0" "length (wr_body w0) = 0" by (simp_all add: w0_def)
  note inv = wr_visits_inv [where rc = ZCL_CODEC_TRUNCATED, OF _ w0(1), unfolded w0(2)]
  show "\<forall>q v. wr_visits l edit p w0 q v \<longrightarrow> length (wr_body v) + length q \<le> 97 \<and>
      (\<exists>rc. wr_loop l edit ZCL_CODEC_TRUNCATED p w0 = wr_loop l edit rc q v)"
    using inv assms(1) by fastforce
  show "case wr_loop l edit ZCL_CODEC_TRUNCATED p w0 of Inl rc \<Rightarrow> rc = ZCL_CODEC_INVALID_TABLE
     | Inr (rc, w) \<Rightarrow> (\<exists>q. wr_visits l edit p w0 q w) \<and> length (wr_body w) = 3 * wr_errors w \<and> length (wr_body w) \<le> 97"
  proof (cases "wr_loop l edit ZCL_CODEC_TRUNCATED p w0")
    case (Inl rc)
    then show ?thesis using wr_loop_visits [of l edit p w0 ZCL_CODEC_TRUNCATED] by simp
  next
    case (Inr r)
    obtain rc w where r: "r = (rc, w)" by (cases r)
    obtain q where q: "wr_visits l edit p w0 q w" using wr_loop_visits [of l edit p w0 ZCL_CODEC_TRUNCATED] by (auto simp: Inr r)
    from q inv [OF q] assms(1) show ?thesis by (auto simp: Inr r)
  qed
qed

text \<open>The bound is reached: 32 records of the type without data for identifiers the table does not
  have, and a stray octet, make a truncated request that has stored 96 octets.\<close>

theorem zcl_write_fits_buffer_witness:
  "\<exists>w. wr_loop [] None ZCL_CODEC_TRUNCATED (concat (replicate 32 [1, 0, 0]) @ [7])
      \<lparr>wr_body = [], wr_last = None, wr_count = 0, wr_errors = 0\<rparr> = Inr (ZCL_CODEC_TRUNCATED, w) \<and>
    wr_errors w = 32 \<and> length (wr_body w) = 96 \<and> length (wr_body w) \<le> 97"
proof -
  let ?run = "wr_loop [] None ZCL_CODEC_TRUNCATED (concat (replicate 32 [1, 0, 0]) @ [7])
      \<lparr>wr_body = [], wr_last = None, wr_count = 0, wr_errors = 0\<rparr>"
  have "case ?run of Inr (rc, w) \<Rightarrow> rc = ZCL_CODEC_TRUNCATED \<and> wr_errors w = 32 | Inl _ \<Rightarrow> False" by code_simp
  then obtain w where run: "?run = Inr (ZCL_CODEC_TRUNCATED, w)" "wr_errors w = 32" by (auto split: sum.splits)
  have "length (concat (replicate 32 [1, 0, 0]) @ [7 :: u8]) \<le> 97" by code_simp
  from zcl_write_fits_buffer [OF this, where l = "[]" and edit = None] run show ?thesis by simp
qed

text \<open>C17. Discovery lists the attributes from the start identifier on in increasing order, as many as the limit
  and the budget allow, each with its type, and reports completion exactly when none is left.\<close>

theorem zcl_discovery_sorted:
  assumes "discover_loop l limit budget start [] 0 = Inr (complete, records, n)" and "distinct (map attr_id l)"
  shows "n \<le> limit \<and> 3 * n \<le> budget \<and> n \<le> length (ids_from l start) \<and>
    records = concat (map (discovery_record l) (take n (ids_from l start))) \<and> (complete = 1 \<longleftrightarrow> n = length (ids_from l start))"
  using discover_loop_lists [OF assms] by auto

theorem zcl_discovery_sorted_witness:
  "concat (map (discovery_record (set_table writable_set)) (take 1 (ids_from (set_table writable_set) 0))) = [0, 0, 0x21]"
proof -
  have r: "discover_loop (set_table writable_set) 5 20 0 [] 0 = Inr (1, [0, 0, 0x21], 1)" by code_simp
  from zcl_discovery_sorted [OF this] show ?thesis by (simp add: writable_set_def set_table_def)
qed

end
