(* ===== verification/Zcl_Identify.thy ===== *)
theory Zcl_Identify
  imports Zcl_Dispatch
begin

text \<open>
  The Identify cluster (\<open>src/src/zcl_identify.c\<close>): a countdown in seconds on a wrapping 32-bit
  millisecond clock, driven by ticks and by received commands. Its abstraction is the number
  of milliseconds left; the lemmas show that every operation refines it.
\<close>

record zcl_id =
  id_stamp :: u32
  id_remaining :: u16
  id_phase :: u16

definition id_advance :: "zcl_id \<Rightarrow> u32 \<Rightarrow> zcl_codec_result + zcl_id" where
  "id_advance ctx now =
     (let elapsed = now - id_stamp ctx in
      if elapsed \<ge> 0x80000000 \<or> id_phase ctx \<ge> 1000 \<or> (id_remaining ctx = 0 \<and> id_phase ctx \<noteq> 0) then Inl ZCL_CODEC_INVALID_VALUE
      else let next = ctx\<lparr>id_stamp := now\<rparr> in
      if id_remaining next \<noteq> 0 then
        let elapsed = elapsed + ucast (id_phase next); seconds = elapsed div 1000 in
        if seconds \<ge> ucast (id_remaining next) then Inr (next\<lparr>id_remaining := 0, id_phase := 0\<rparr>)
        else Inr (next\<lparr>id_remaining := id_remaining next - ucast seconds, id_phase := ucast (elapsed - seconds * 1000)\<rparr>)
      else Inr next)"

definition zcl_id_init :: "bool \<Rightarrow> u32 \<Rightarrow> zcl_codec_result + zcl_id" where
  "zcl_id_init ctx now = (if \<not> ctx then Inl ZCL_CODEC_INVALID_ARGUMENT
     else Inr \<lparr>id_stamp = now, id_remaining = 0, id_phase = 0\<rparr>)"

definition zcl_id_tick :: "zcl_id option \<Rightarrow> u32 \<Rightarrow> zcl_codec_result + zcl_id" where
  "zcl_id_tick ctx now = (case ctx of None \<Rightarrow> Inl ZCL_CODEC_INVALID_ARGUMENT | Some c \<Rightarrow> id_advance c now)"

text \<open>The transient two-attribute view: IdentifyTime and ClusterRevision.\<close>

definition id_attribute :: "u16 \<Rightarrow> bytes \<Rightarrow> zcl_attribute" where
  "id_attribute i value = \<lparr>attr_id = i, attr_readable = 1, attr_value = \<lparr>zv_type = ZCL_TYPE_UINT16, zv_string_non_value = 0,
     zv_data = Some value, zv_data_length = 2\<rparr>\<rparr>"

definition id_set :: "zcl_id \<Rightarrow> zcl_attribute_set" where
  "id_set next = \<lparr>set_attributes = Some [id_attribute 0 (write_le16 (id_remaining next) @ [2, 0]), id_attribute 0xfffd [2, 0]],
     set_count = 2, set_side = 0, set_manufacturer_specific = 0, set_manufacturer_code = 0\<rparr>"

definition id_global :: "zcl_id \<Rightarrow> bytes \<Rightarrow> zcl_frame_info \<Rightarrow> nat \<Rightarrow> zcl_codec_result + (zcl_id \<times> zcl_dispatch_info \<times> bytes)" where
  "id_global next request frame capacity =
     (let h = zfi_header frame in
      if zcl_type h = ZCL_FRAME_GLOBAL \<and> zcl_flags h AND ZCL_FLAG_MANUFACTURER_SPECIFIC = 0 \<and> zcl_is_write (zcl_command_id h) then
        (case zcl_wr_handle (id_set next) frame (drop (zfi_payload_offset frame) request) capacity zcl_info_zero (Some 0) of
           Inl rc \<Rightarrow> Inl rc
         | Inr (info, bytes, written) \<Rightarrow>
           Inr (case written of None \<Rightarrow> next | Some value \<Rightarrow> next\<lparr>id_remaining := value, id_phase := 0\<rparr>, info, bytes))
      else (case zcl_dispatch_unicast (Some (id_set next)) (Some (take (zfi_payload_offset frame + zfi_payload_length frame) request))
              True capacity True of
           Inl rc \<Rightarrow> Inl rc
         | Inr (info, bytes) \<Rightarrow> Inr (next, info, bytes)))"

text \<open>The cluster-specific commands Identify and Identify Query.\<close>

definition id_command :: "zcl_id \<Rightarrow> bytes \<Rightarrow> zcl_frame_info \<Rightarrow> nat \<Rightarrow> zcl_codec_result + (zcl_id \<times> zcl_dispatch_info \<times> bytes)" where
  "id_command next request frame capacity =
     (let h = zfi_header frame; candidate = zcl_info_zero\<lparr>di_sequence := zcl_sequence h\<rparr>;
          reply = h\<lparr>zcl_flags := ZCL_FLAG_SERVER_TO_CLIENT OR ZCL_FLAG_DISABLE_DEFAULT_RESPONSE,
            zcl_type := ZCL_FRAME_GLOBAL, zcl_command_id := ZCL_COMMAND_DEFAULT_RESPONSE\<rparr>;
          send = (\<lambda>next reply payload. case zcl_frame_encode (Some reply) (Some payload) 2 True capacity True of Inl rc \<Rightarrow> Inl rc
            | Inr bytes \<Rightarrow>
              let c1 = candidate\<lparr>di_length := length bytes, di_command_id := zcl_command_id reply\<rparr> in
              Inr (next, if zcl_type reply = ZCL_FRAME_GLOBAL
                then c1\<lparr>di_default_command := payload ! 0, di_default_status := payload ! 1, di_default_raw_status := payload ! 1\<rparr>
                else c1, bytes));
          silent = candidate\<lparr>di_kind := ZCL_DISPATCH_SILENT\<rparr> in
      if zcl_command_id h = 0 then
        if zfi_payload_length frame < 2 then send next reply [zcl_command_id h, ZCL_STATUS_MALFORMED_COMMAND]
        else let next' = next\<lparr>id_remaining := read_le16 (drop (zfi_payload_offset frame) request), id_phase := 0\<rparr> in
        if zcl_flags h AND ZCL_FLAG_DISABLE_DEFAULT_RESPONSE \<noteq> 0 then Inr (next', silent, [])
        else send next' reply [zcl_command_id h, ZCL_STATUS_SUCCESS]
      else if id_remaining next = 0 then Inr (next, silent, [])
      else send next (reply\<lparr>zcl_type := ZCL_FRAME_CLUSTER_SPECIFIC, zcl_command_id := 0\<rparr>) (write_le16 (id_remaining next)))"

definition zcl_id_rx :: "zcl_id option \<Rightarrow> u32 \<Rightarrow> bytes option \<Rightarrow> bool \<Rightarrow> nat \<Rightarrow> bool \<Rightarrow> zcl_codec_result + (zcl_id \<times> zcl_dispatch_info \<times> bytes)" where
  "zcl_id_rx ctx now request response capacity info =
     (case ctx of None \<Rightarrow> Inl ZCL_CODEC_INVALID_ARGUMENT | Some c \<Rightarrow>
      (case request of None \<Rightarrow> Inl ZCL_CODEC_INVALID_ARGUMENT | Some req \<Rightarrow>
      if \<not> response \<or> \<not> info then Inl ZCL_CODEC_INVALID_ARGUMENT
      else (case id_advance c now of Inl rc \<Rightarrow> Inl rc | Inr next \<Rightarrow>
        (case zcl_frame_decode request True of Inl rc \<Rightarrow> Inl rc | Inr frame \<Rightarrow>
          let h = zfi_header frame in
          if zcl_flags h AND ZCL_FLAG_SERVER_TO_CLIENT \<noteq> 0 then Inl ZCL_CODEC_UNSUPPORTED_CONTEXT
          else if zcl_type h \<noteq> ZCL_FRAME_CLUSTER_SPECIFIC \<or> zcl_flags h AND ZCL_FLAG_MANUFACTURER_SPECIFIC \<noteq> 0 \<or> zcl_command_id h > 1
          then id_global next req frame capacity
          else id_command next req frame capacity))))"

section \<open>The countdown\<close>

definition id_ok :: "zcl_id \<Rightarrow> bool" where
  "id_ok c \<longleftrightarrow> id_phase c < 1000 \<and> (id_remaining c = 0 \<longrightarrow> id_phase c = 0)"

text \<open>The milliseconds left.\<close>

definition id_time :: "zcl_id \<Rightarrow> nat" where
  "id_time c = 1000 * unat (id_remaining c) - unat (id_phase c)"

lemma id_advance_time:
  assumes "id_ok c" "now - id_stamp c < 0x80000000"
  shows "\<exists>c'. id_advance c now = Inr c' \<and> id_ok c' \<and> id_stamp c' = now \<and> id_time c' = id_time c - unat (now - id_stamp c)"
proof (cases "id_remaining c = 0")
  case True
  with assms show ?thesis by (auto simp: id_advance_def id_ok_def id_time_def Let_def not_le)
next
  case False
  define e where "e = now - id_stamp c"
  define r where "r = unat (id_remaining c)"
  define p where "p = unat (id_phase c)"
  have e: "unat e < 0x80000000" using assms(2) by (simp add: e_def word_less_nat_alt)
  have p: "p < 1000" using assms(1) by (simp add: id_ok_def word_less_nat_alt p_def)
  have r: "0 < r" "r < 65536" using False unsigned_less [of "id_remaining c"] by (simp_all add: r_def unat_gt_0)
  have s: "unat (e + ucast (id_phase c)) = unat e + p"
    using e p by (simp add: unat_plus_mod p_def)
  have sec: "unat ((e + ucast (id_phase c)) div 1000) = (unat e + p) div 1000" using s by (simp add: unat_div)
  have cmp: "(e + ucast (id_phase c)) div 1000 \<ge> ucast (id_remaining c) \<longleftrightarrow> r \<le> (unat e + p) div 1000"
    by (simp add: word_le_nat_alt sec r_def)
  have guard: "\<not> (e \<ge> 0x80000000 \<or> id_phase c \<ge> 1000 \<or> (id_remaining c = 0 \<and> id_phase c \<noteq> 0))"
    using assms False by (auto simp: id_ok_def e_def)
  show ?thesis
  proof (cases "r \<le> (unat e + p) div 1000")
    case True
    then have "1000 * r \<le> unat e + p" by (simp add: less_eq_div_iff_mult_less_eq)
    with True cmp guard False show ?thesis
      by (auto simp: id_advance_def Let_def e_def [symmetric] id_ok_def id_time_def r_def [symmetric] p_def [symmetric])
  next
    case False
    define q where "q = (unat e + p) div 1000"
    have q: "q < r" using False by (simp add: q_def)
    have split: "unat e + p = 1000 * q + (unat e + p) mod 1000" by (simp add: q_def)
    have ph: "unat (ucast ((e + ucast (id_phase c)) - (e + ucast (id_phase c)) div 1000 * 1000) :: u16) = (unat e + p) mod 1000"
    proof -
      have "unat ((e + ucast (id_phase c)) - (e + ucast (id_phase c)) div 1000 * 1000) = (unat e + p) mod 1000"
        using s by (simp add: minus_div_mult_eq_mod unat_mod)
      then show ?thesis by (simp add: unat_ucast_mod)
    qed
    have rem: "unat (id_remaining c - ucast ((e + ucast (id_phase c)) div 1000)) = r - q"
      using q r sec by (subst unat_sub) (simp_all add: word_le_nat_alt unat_ucast_mod r_def [symmetric] q_def [symmetric])
    have "id_advance c now = Inr (c\<lparr>id_stamp := now, id_remaining := id_remaining c - ucast ((e + ucast (id_phase c)) div 1000),
        id_phase := ucast ((e + ucast (id_phase c)) - (e + ucast (id_phase c)) div 1000 * 1000)\<rparr>)"
      using guard False cmp \<open>id_remaining c \<noteq> 0\<close> by (simp add: id_advance_def Let_def e_def [symmetric])
    moreover have "1000 * (r - q) - (unat e + p) mod 1000 = 1000 * r - p - unat e" using split q by (simp add: diff_mult_distrib2)
    ultimately show ?thesis using rem ph q
      by (simp add: id_ok_def id_time_def r_def [symmetric] p_def [symmetric] e_def [symmetric] word_less_nat_alt unat_eq_0 [symmetric])
  qed
qed

text \<open>A run of ticks at the given times.\<close>

fun id_ticks :: "u32 list \<Rightarrow> zcl_id \<Rightarrow> zcl_codec_result + zcl_id" where
  "id_ticks [] c = Inr c"
| "id_ticks (t # ts) c = (case zcl_id_tick (Some c) t of Inl e \<Rightarrow> Inl e | Inr c' \<Rightarrow> id_ticks ts c')"

text \<open>The forward clock steps of such a run.\<close>

fun id_steps :: "u32 \<Rightarrow> u32 list \<Rightarrow> u32 list" where
  "id_steps s [] = []"
| "id_steps s (t # ts) = (t - s) # id_steps t ts"

lemma id_ticks_time:
  "id_ok c \<Longrightarrow> \<forall>d \<in> set (id_steps (id_stamp c) ts). d < 0x80000000 \<Longrightarrow>
     \<exists>c'. id_ticks ts c = Inr c' \<and> id_ok c' \<and> id_time c' = id_time c - sum_list (map unat (id_steps (id_stamp c) ts))"
proof (induction ts arbitrary: c)
  case (Cons t ts)
  then obtain c1 where c1: "id_advance c t = Inr c1" "id_ok c1" "id_stamp c1 = t" "id_time c1 = id_time c - unat (t - id_stamp c)"
    using id_advance_time [of c t] by auto
  with Cons.IH [of c1] Cons.prems show ?case by (auto simp: zcl_id_tick_def)
qed simp

section \<open>Received commands\<close>

lemma wr_status_id:
  "wr_status (set_table (id_set c)) (Some 0) i t =
     (if i = 0 then if t = ZCL_TYPE_UINT16 then ZCL_STATUS_SUCCESS else ZCL_STATUS_INVALID_DATA_TYPE
      else if i = 0xfffd then if t = ZCL_TYPE_UINT16 then ZCL_STATUS_READ_ONLY else ZCL_STATUS_INVALID_DATA_TYPE
      else ZCL_STATUS_UNSUPPORTED_ATTRIBUTE)"
  by (auto simp: wr_status_def set_table_def id_set_def id_attribute_def)

text \<open>The value a received frame sets IdentifyTime to, if it does.\<close>

definition identify_effect :: "zcl_id \<Rightarrow> zcl_header \<Rightarrow> bytes \<Rightarrow> u16 option" where
  "identify_effect c h p =
     (if zcl_flags h AND ZCL_FLAG_MANUFACTURER_SPECIFIC \<noteq> 0 then None
      else if zcl_type h = ZCL_FRAME_GLOBAL then
        if zcl_is_write (zcl_command_id h) then write_effect (set_table (id_set c)) (Some 0) (zcl_command_id h) p else None
      else if zcl_command_id h = 0 \<and> 2 \<le> length p then Some (read_le16 p) else None)"

lemma identify_effect_cong: "identify_effect c h p = identify_effect c' h p"
  unfolding identify_effect_def write_effect_def wr_status_id ..

text \<open>What a command leaves of the advanced context.\<close>

definition id_applied :: "zcl_id \<Rightarrow> u16 option \<Rightarrow> zcl_id" where
  "id_applied next v = (case v of None \<Rightarrow> next | Some value \<Rightarrow> next\<lparr>id_remaining := value, id_phase := 0\<rparr>)"

lemma id_global_applied:
  assumes "id_global next req frame cap = Inr (c', info, resp)" and f: "zcl_frame_decode (Some req) True = Inr frame"
    and "zcl_type (zfi_header frame) \<noteq> 1 \<or> zcl_flags (zfi_header frame) AND 4 \<noteq> 0 \<or> zcl_command_id (zfi_header frame) > 1"
  shows "c' = id_applied next (identify_effect next (zfi_header frame) (take (zfi_payload_length frame) (drop (zfi_payload_offset frame) req)))"
proof -
  let ?h = "zfi_header frame"
  have t: "zcl_type ?h = 0 \<or> zcl_type ?h = 1" using zcl_decode_fields(1) [OF f] by (simp add: word_le_nat_alt word_unat_eq_iff le_Suc_eq)
  show ?thesis
  proof (cases "zcl_type ?h = 0 \<and> zcl_flags ?h AND 4 = 0 \<and> zcl_is_write (zcl_command_id ?h)")
    case True
    then obtain wrote where w: "zcl_wr_handle (id_set next) frame (drop (zfi_payload_offset frame) req) cap zcl_info_zero (Some 0) = Inr (info, resp, wrote)"
      "c' = id_applied next wrote"
      using assms(1) by (auto simp: id_global_def id_applied_def split: sum.splits)
    show ?thesis using wr_handle_effect(1) [OF w(1)] w(2) True by (simp add: identify_effect_def)
  next
    case False
    have "c' = next" using assms(1) unfolding id_global_def Let_def if_not_P [OF False] by (auto split: sum.splits)
    moreover have "zcl_command_id ?h \<noteq> 0" if "zcl_type ?h = 1" "zcl_flags ?h AND 4 = 0" using assms(3) that by auto
    then have "identify_effect next ?h p = None" for p using False t by (auto simp: identify_effect_def)
    ultimately show ?thesis by (simp add: id_applied_def)
  qed
qed

lemma id_command_applied:
  assumes "id_command next req frame cap = Inr (c', info, resp)" and f: "zcl_frame_decode (Some req) True = Inr frame"
    and "\<not> (zcl_type (zfi_header frame) \<noteq> 1 \<or> zcl_flags (zfi_header frame) AND 4 \<noteq> 0 \<or> zcl_command_id (zfi_header frame) > 1)"
  shows "c' = id_applied next (identify_effect next (zfi_header frame) (take (zfi_payload_length frame) (drop (zfi_payload_offset frame) req)))"
proof -
  let ?h = "zfi_header frame" and ?p = "take (zfi_payload_length frame) (drop (zfi_payload_offset frame) req)"
  have p: "?p = drop (zfi_payload_offset frame) req" "length ?p = zfi_payload_length frame"
    using zcl_decode_offset(2) [OF f] by simp_all
  have e: "identify_effect next ?h ?p = (if zcl_command_id ?h = 0 \<and> 2 \<le> zfi_payload_length frame then Some (read_le16 ?p) else None)"
    using assms(3) p(2) by (simp add: identify_effect_def)
  show ?thesis using assms(1) unfolding id_command_def Let_def p(1) e [unfolded p(1)]
    by (auto simp: id_applied_def split: if_splits sum.splits)
qed

lemma id_rx_time:
  assumes c: "id_ok c" and rx: "zcl_id_rx (Some c) now (Some req) True cap True = Inr (c', info, resp)"
  shows "\<exists>h p. zcl_view_dec req = Some (h, p) \<and> id_ok c' \<and> id_stamp c' = now \<and>
    id_time c' = (case identify_effect c h p of Some v \<Rightarrow> 1000 * unat v | None \<Rightarrow> id_time c - unat (now - id_stamp c))"
proof -
  obtain n frame where n: "id_advance c now = Inr n" and f: "zcl_frame_decode (Some req) True = Inr frame"
    using rx by (auto simp: zcl_id_rx_def split: sum.splits)
  note run = rx [unfolded zcl_id_rx_def Let_def option.case n sum.case f]
  let ?p = "take (zfi_payload_length frame) (drop (zfi_payload_offset frame) req)" and ?h = "zfi_header frame"
  have "now - id_stamp c < 0x80000000" using n by (auto simp: id_advance_def Let_def not_le split: if_splits)
  with id_advance_time [OF c this] n have n': "id_ok n" "id_stamp n = now" "id_time n = id_time c - unat (now - id_stamp c)" by auto
  have "c' = id_applied n (identify_effect n ?h ?p)"
    using run id_global_applied [OF _ f] id_command_applied [OF _ f] by (auto split: if_splits)
  then have "c' = id_applied n (identify_effect c ?h ?p)" using identify_effect_cong by metis
  then show ?thesis using zcl_decode_view [OF f] n'
    by (auto simp: id_applied_def id_ok_def id_time_def split: option.splits)
qed

section \<open>Properties\<close>

text \<open>C19. Ticks count down real time: over any run of ticks whose clock steps stay below half the range, across
  wrap-arounds of the 32-bit clock, no tick fails and the milliseconds left decrease by exactly
  the time that passed, stopping at zero.\<close>

theorem identify_countdown:
  assumes "id_ok c" and "\<forall>d \<in> set (id_steps (id_stamp c) ts). d < 0x80000000"
  shows "\<exists>c'. id_ticks ts c = Inr c' \<and> id_ok c' \<and> id_time c' = id_time c - sum_list (map unat (id_steps (id_stamp c) ts))"
  using id_ticks_time [OF assms] .

theorem identify_countdown_witness:
  "\<exists>c'. id_ticks [0xfffffff0, 1500] \<lparr>id_stamp = 0xffffffe0, id_remaining = 3, id_phase = 0\<rparr> = Inr c' \<and> id_time c' = 1468"
  using identify_countdown [of "\<lparr>id_stamp = 0xffffffe0, id_remaining = 3, id_phase = 0\<rparr>" "[0xfffffff0, 1500]"]
  by (fastforce simp: id_ok_def id_time_def simp del: id_ticks.simps)

text \<open>C20. A received frame advances the clock and then sets the time left to the value it carries (Identify, or a
  write of IdentifyTime that takes effect), and otherwise only lets time pass.\<close>

theorem identify_receive:
  assumes "id_ok c" and "zcl_id_rx (Some c) now (Some req) True cap True = Inr (c', info, resp)"
  shows "\<exists>h p. zcl_view_dec req = Some (h, p) \<and> id_ok c' \<and> id_stamp c' = now \<and>
    id_time c' = (case identify_effect c h p of Some v \<Rightarrow> 1000 * unat v | None \<Rightarrow> id_time c - unat (now - id_stamp c))"
  using id_rx_time [OF assms] .

theorem identify_receive_witness:
  "\<exists>h p. zcl_view_dec [1, 9, 0, 10, 0] = Some (h, p) \<and> (10000 = (case identify_effect \<lparr>id_stamp = 0, id_remaining = 0, id_phase = 0\<rparr> h p of
     Some v \<Rightarrow> 1000 * unat v | None \<Rightarrow> 0))"
proof -
  have r: "zcl_id_rx (Some \<lparr>id_stamp = 0, id_remaining = 0, id_phase = 0\<rparr>) 5 (Some [1, 9, 0, 10, 0]) True 20 True =
      Inr (\<lparr>id_stamp = 5, id_remaining = 10, id_phase = 0\<rparr>,
        zcl_info_zero\<lparr>di_sequence := 9, di_length := 5, di_command_id := 0x0b\<rparr>, [0x18, 9, 0x0b, 0, 0])" by code_simp
  have ok: "id_ok \<lparr>id_stamp = 0, id_remaining = 0, id_phase = 0\<rparr>" by (simp add: id_ok_def)
  from identify_receive [OF ok r] obtain h p where "zcl_view_dec [1, 9, 0, 10, 0] = Some (h, p)"
    "10000 = (case identify_effect \<lparr>id_stamp = 0, id_remaining = 0, id_phase = 0\<rparr> h p of Some v \<Rightarrow> 1000 * unat v | None \<Rightarrow> 0)"
    by (auto simp: id_time_def split: option.splits)
  then show ?thesis by blast
qed

end
