(* ===== verification/Nwk_Candidates.thy ===== *)
theory Nwk_Candidates
  imports Mac_Frame
begin

text \<open>
  Parent discovery: the NWK beacon payload (\<open>src/src/nwk_beacon.c\<close>), the four-entry candidate
  table (\<open>src/src/nwk_candidates.c\<close>) and the parent choice (\<open>src/src/nwk_parent.c\<close>), in the
  profile without parent recovery and router join. The table is abstracted to the list of its
  entries; every operation keeps its invariant and has the documented effect on that list. The
  parent choice is shown to be the best of the eligible candidates.
\<close>

section \<open>Beacon payload\<close>

datatype nwk_beacon_result =
    NWK_BEACON_OK | NWK_BEACON_INVALID_ARGUMENT | NWK_BEACON_TRUNCATED | NWK_BEACON_TOO_LONG
  | NWK_BEACON_UNSUPPORTED_PROTOCOL | NWK_BEACON_UNSUPPORTED_VERSION | NWK_BEACON_INVALID_FIELDS

record nwk_beacon =
  nb_stack_profile :: u8
  nb_router_capacity :: bool
  nb_device_depth :: u8
  nb_end_device_capacity :: u8
  nb_extended_pan_id :: bytes
  nb_tx_offset :: u32
  nb_update_id :: u8

text \<open>The accumulating loop over the eight octets: neither all zero nor all ones.\<close>

definition epid_valid :: "bytes \<Rightarrow> bool" where
  "epid_valid p \<longleftrightarrow> foldl (OR) 0 (take 8 p) \<noteq> 0 \<and> foldl (AND) 0xff (take 8 p) \<noteq> 0xff"

definition nwk_beacon_decode :: "bytes option \<Rightarrow> bool \<Rightarrow> nwk_beacon_result + nwk_beacon" where
  "nwk_beacon_decode payload result =
     (case payload of None \<Rightarrow> Inl NWK_BEACON_INVALID_ARGUMENT | Some p \<Rightarrow>
      if \<not> result then Inl NWK_BEACON_INVALID_ARGUMENT
      else if length p < 15 then Inl NWK_BEACON_TRUNCATED
      else if length p > 15 then Inl NWK_BEACON_TOO_LONG
      else if p ! 0 \<noteq> 0 then Inl NWK_BEACON_UNSUPPORTED_PROTOCOL
      else if drop_bit 4 (p ! 1) \<noteq> 2 then Inl NWK_BEACON_UNSUPPORTED_VERSION
      else if p ! 2 AND 3 \<noteq> 0 then Inl NWK_BEACON_INVALID_FIELDS
      else if \<not> epid_valid (drop 3 p) then Inl NWK_BEACON_INVALID_FIELDS
      else Inr \<lparr>nb_stack_profile = p ! 1 AND 0x0f, nb_router_capacity = (p ! 2 AND 4 \<noteq> 0),
                nb_device_depth = drop_bit 3 (p ! 2) AND 0x0f, nb_end_device_capacity = drop_bit 7 (p ! 2),
                nb_extended_pan_id = take 8 (drop 3 p),
                nb_tx_offset = ucast (p ! 11) OR push_bit 8 (ucast (p ! 12)) OR push_bit 16 (ucast (p ! 13)),
                nb_update_id = p ! 14\<rparr>)"

section \<open>Candidate table\<close>

abbreviation (input) NWK_CANDIDATES_CAPACITY :: nat where "NWK_CANDIDATES_CAPACITY \<equiv> 4"
abbreviation (input) NWK_CANDIDATES_VERSION :: u8 where "NWK_CANDIDATES_VERSION \<equiv> 1"
abbreviation (input) NWK_CANDIDATES_CHANNEL_MASK :: u32 where "NWK_CANDIDATES_CHANNEL_MASK \<equiv> 0x07fff800"
abbreviation (input) NWK_CANDIDATES_PRO_PROFILE :: u8 where "NWK_CANDIDATES_PRO_PROFILE \<equiv> 2"
abbreviation (input) MAC_SUPERFRAME_ASSOCIATION_PERMIT :: u16 where "MAC_SUPERFRAME_ASSOCIATION_PERMIT \<equiv> 0x8000"

datatype nwk_candidates_result =
    NWK_CANDIDATES_OK | NWK_CANDIDATES_ADDED | NWK_CANDIDATES_UPDATED | NWK_CANDIDATES_WITHDRAWN
  | NWK_CANDIDATES_NOT_ELIGIBLE | NWK_CANDIDATES_FULL | NWK_CANDIDATES_BAD_CRC | NWK_CANDIDATES_INVALID_ARGUMENT
  | NWK_CANDIDATES_INVALID_TABLE | NWK_CANDIDATES_OUTSIDE_MASK | NWK_CANDIDATES_MAC_REJECTED
  | NWK_CANDIDATES_NOT_BEACON | NWK_CANDIDATES_NWK_REJECTED | NWK_CANDIDATES_BAD_INDEX

record nwk_candidate =
  cand_channel :: u8
  cand_pan_id :: u16
  cand_address_mode :: u8
  cand_coordinator :: bytes
  cand_superframe :: u16
  cand_sequence :: u8
  cand_mac_flags :: u8
  cand_gts_permit :: u8
  cand_short_pending :: nat
  cand_extended_pending :: nat
  cand_network :: nwk_beacon

definition nwk_candidate_zero :: nwk_candidate where
  "nwk_candidate_zero = \<lparr>cand_channel = 0, cand_pan_id = 0, cand_address_mode = 0, cand_coordinator = replicate 8 0,
     cand_superframe = 0, cand_sequence = 0, cand_mac_flags = 0, cand_gts_permit = 0, cand_short_pending = 0,
     cand_extended_pending = 0, cand_network = \<lparr>nb_stack_profile = 0, nb_router_capacity = False, nb_device_depth = 0,
       nb_end_device_capacity = 0, nb_extended_pan_id = replicate 8 0, nb_tx_offset = 0, nb_update_id = 0\<rparr>\<rparr>"

record nwk_candidates =
  tab_version :: u8
  tab_channel_mask :: u32
  tab_count :: nat
  tab_entries :: "nwk_candidate list"
  tab_filtered :: u8
  tab_parent :: u16

definition valid_mask :: "u32 \<Rightarrow> bool" where
  "valid_mask m \<longleftrightarrow> m \<noteq> 0 \<and> m AND NOT NWK_CANDIDATES_CHANNEL_MASK = 0"

definition valid_table :: "nwk_candidates \<Rightarrow> bool" where
  "valid_table t \<longleftrightarrow> tab_version t = NWK_CANDIDATES_VERSION \<and> \<not> tab_filtered t > 1 \<and>
     tab_count t \<le> NWK_CANDIDATES_CAPACITY \<and> valid_mask (tab_channel_mask t)"

definition nwk_candidates_init :: "bool \<Rightarrow> u32 \<Rightarrow> nwk_candidates_result + nwk_candidates" where
  "nwk_candidates_init table channel_mask =
     (if \<not> table \<or> \<not> valid_mask channel_mask then Inl NWK_CANDIDATES_INVALID_ARGUMENT
      else Inr \<lparr>tab_version = NWK_CANDIDATES_VERSION, tab_channel_mask = channel_mask, tab_count = 0,
        tab_entries = replicate 4 nwk_candidate_zero, tab_filtered = 0, tab_parent = 0\<rparr>)"

definition nwk_candidates_parent :: "nwk_candidates option \<Rightarrow> u16 \<Rightarrow> nwk_candidates_result + nwk_candidates" where
  "nwk_candidates_parent table parent =
     (case table of None \<Rightarrow> Inl NWK_CANDIDATES_INVALID_TABLE | Some t \<Rightarrow>
      if \<not> valid_table t \<or> tab_count t \<noteq> 0 then Inl NWK_CANDIDATES_INVALID_TABLE
      else Inr (t\<lparr>tab_parent := parent, tab_filtered := 1\<rparr>))"

definition same_identity :: "nwk_candidate \<Rightarrow> nwk_candidate \<Rightarrow> bool" where
  "same_identity a b \<longleftrightarrow> cand_channel a = cand_channel b \<and> cand_pan_id a = cand_pan_id b \<and>
     cand_address_mode a = cand_address_mode b \<and> take 8 (cand_coordinator a) = take 8 (cand_coordinator b) \<and>
     take 8 (nb_extended_pan_id (cand_network a)) = take 8 (nb_extended_pan_id (cand_network b))"

text \<open>The candidate a received frame describes, through the three decoders.\<close>

definition cand_decode :: "u8 \<Rightarrow> bytes \<Rightarrow> nwk_candidates_result + nwk_candidate" where
  "cand_decode channel body =
     (case mac_frame_decode (Some body) True of Inl _ \<Rightarrow> Inl NWK_CANDIDATES_MAC_REJECTED
      | Inr frame \<Rightarrow>
        if mac_type (mfi_header frame) \<noteq> MAC_FRAME_BEACON then Inl NWK_CANDIDATES_NOT_BEACON
        else let payload = take (mfi_payload_length frame) (drop (mfi_payload_offset frame) body) in
        (case mac_beacon_decode (Some payload) True of Inl _ \<Rightarrow> Inl NWK_CANDIDATES_MAC_REJECTED
         | Inr beacon \<Rightarrow>
           (case nwk_beacon_decode (Some (take (mb_payload_length beacon) (drop (mb_payload_offset beacon) payload))) True of
              Inl _ \<Rightarrow> Inl NWK_CANDIDATES_NWK_REJECTED
            | Inr network \<Rightarrow> Inr \<lparr>cand_channel = channel, cand_pan_id = mac_source_pan (mfi_header frame),
                cand_address_mode = mac_source_mode (mfi_header frame), cand_coordinator = take 8 (mac_source (mfi_header frame)),
                cand_superframe = mb_superframe_specification beacon, cand_sequence = mac_sequence (mfi_header frame),
                cand_mac_flags = mac_flags (mfi_header frame), cand_gts_permit = mb_gts_permit beacon,
                cand_short_pending = mb_short_count beacon, cand_extended_pending = mb_extended_count beacon,
                cand_network = network\<rparr>)))"

definition cand_eligible :: "nwk_candidates \<Rightarrow> nwk_candidate \<Rightarrow> bool" where
  "cand_eligible t c \<longleftrightarrow> nb_stack_profile (cand_network c) = NWK_CANDIDATES_PRO_PROFILE \<and>
     cand_superframe c AND 0x000f = 15 \<and> cand_superframe c AND MAC_SUPERFRAME_ASSOCIATION_PERMIT \<noteq> 0 \<and>
     nb_end_device_capacity (cand_network c) \<noteq> 0 \<and>
     (tab_filtered t = 0 \<or> cand_address_mode c \<noteq> MAC_ADDRESS_SHORT \<or>
      (cand_coordinator c ! 0 = ucast (tab_parent t) \<and> cand_coordinator c ! 1 = ucast (drop_bit 8 (tab_parent t))))"

text \<open>The search loop from index \<open>i\<close>.\<close>

function cand_find :: "nwk_candidates \<Rightarrow> nwk_candidate \<Rightarrow> nat \<Rightarrow> nat option" where
  "cand_find t c i = (if i < tab_count t
     then if same_identity (tab_entries t ! i) c then Some i else cand_find t c (i + 1) else None)"
  by pat_completeness auto
termination by (relation "measure (\<lambda>(t, c, i). tab_count t - i)") auto

text \<open>The compaction loop from index \<open>i\<close>.\<close>

function cand_shift :: "nwk_candidate list \<Rightarrow> nat \<Rightarrow> nat \<Rightarrow> nwk_candidate list" where
  "cand_shift entries i count = (if i + 1 < count then cand_shift (entries[i := entries ! (i + 1)]) (i + 1) count else entries)"
  by pat_completeness auto
termination by (relation "measure (\<lambda>(entries, i, count). count - i)") auto

text \<open>The table update with a decoded candidate.\<close>

definition cand_update :: "nwk_candidates \<Rightarrow> nwk_candidate \<Rightarrow> nwk_candidates_result \<times> nwk_candidates" where
  "cand_update t c =
     (case cand_find t c 0 of
        Some i \<Rightarrow>
          if cand_eligible t c then (NWK_CANDIDATES_UPDATED, t\<lparr>tab_entries := (tab_entries t)[i := c]\<rparr>)
          else (NWK_CANDIDATES_WITHDRAWN,
            t\<lparr>tab_count := tab_count t - 1,
              tab_entries := (cand_shift (tab_entries t) i (tab_count t))[tab_count t - 1 := nwk_candidate_zero]\<rparr>)
      | None \<Rightarrow>
          if \<not> cand_eligible t c then (NWK_CANDIDATES_NOT_ELIGIBLE, t)
          else if tab_count t = NWK_CANDIDATES_CAPACITY then (NWK_CANDIDATES_FULL, t)
          else (NWK_CANDIDATES_ADDED, t\<lparr>tab_entries := (tab_entries t)[tab_count t := c], tab_count := tab_count t + 1\<rparr>))"

definition nwk_candidates_consider ::
    "nwk_candidates option \<Rightarrow> u8 \<Rightarrow> u8 \<Rightarrow> bytes option \<Rightarrow> nwk_candidates_result \<times> nwk_candidates option" where
  "nwk_candidates_consider table channel crc_valid body =
     (case table of None \<Rightarrow> (NWK_CANDIDATES_INVALID_ARGUMENT, None) | Some t \<Rightarrow>
      map_prod id Some (case body of None \<Rightarrow> (NWK_CANDIDATES_INVALID_ARGUMENT, t) | Some b \<Rightarrow>
      if channel < 11 \<or> channel > 26 \<or> crc_valid > 1 then (NWK_CANDIDATES_INVALID_ARGUMENT, t)
      else if \<not> valid_table t then (NWK_CANDIDATES_INVALID_TABLE, t)
      else if crc_valid = 0 then (NWK_CANDIDATES_BAD_CRC, t)
      else if tab_channel_mask t AND push_bit (unat channel) 1 = 0 then (NWK_CANDIDATES_OUTSIDE_MASK, t)
      else (case cand_decode channel b of Inl e \<Rightarrow> (e, t) | Inr c \<Rightarrow> cand_update t c)))"

definition nwk_candidates_get :: "nwk_candidates option \<Rightarrow> nat \<Rightarrow> bool \<Rightarrow> nwk_candidates_result + nwk_candidate" where
  "nwk_candidates_get table index result =
     (case table of None \<Rightarrow> Inl NWK_CANDIDATES_INVALID_ARGUMENT | Some t \<Rightarrow>
      if \<not> result then Inl NWK_CANDIDATES_INVALID_ARGUMENT
      else if \<not> valid_table t then Inl NWK_CANDIDATES_INVALID_TABLE
      else if index \<ge> tab_count t then Inl NWK_CANDIDATES_BAD_INDEX
      else Inr (tab_entries t ! index))"

section \<open>Parent choice\<close>

datatype nwk_parent_result =
    NWK_PARENT_OK | NWK_PARENT_NONE | NWK_PARENT_AMBIGUOUS_UPDATE | NWK_PARENT_INVALID_ARGUMENT | NWK_PARENT_INVALID_TABLE

record nwk_parent_policy =
  pol_extended_pan_id :: bytes
  pol_potential_mask :: u8
  pol_link_cost :: "u8 list"
  pol_minimum_known :: u8
  pol_minimum_update_id :: u8

text \<open>The admission loop over the indices: the eligible ones, or an early return.\<close>

fun parent_eligible :: "nwk_candidates \<Rightarrow> nwk_parent_policy \<Rightarrow> nat list \<Rightarrow> nat list \<Rightarrow> nwk_parent_result + nat list" where
  "parent_eligible t p [] acc = Inr acc"
| "parent_eligible t p (i # is) acc =
     (if pol_potential_mask p AND push_bit i 1 = 0 \<or> pol_link_cost p ! i > 3 then parent_eligible t p is acc
      else (case nwk_candidates_get (Some t) i True of Inl _ \<Rightarrow> Inl NWK_PARENT_INVALID_TABLE
        | Inr c \<Rightarrow>
          let delta = nb_update_id (cand_network c) - pol_minimum_update_id p in
          if take 8 (nb_extended_pan_id (cand_network c)) \<noteq> take 8 (pol_extended_pan_id p) then parent_eligible t p is acc
          else if pol_minimum_known p \<noteq> 0 \<and> delta = 128 then Inl NWK_PARENT_AMBIGUOUS_UPDATE
          else if pol_minimum_known p \<noteq> 0 \<and> delta > 128 then parent_eligible t p is acc
          else parent_eligible t p is (acc @ [i])))"

definition update_of :: "nwk_candidates \<Rightarrow> nat \<Rightarrow> u8" where
  "update_of t i = nb_update_id (cand_network (tab_entries t ! i))"

definition parent_dominates :: "nwk_candidates \<Rightarrow> nat list \<Rightarrow> nat \<Rightarrow> bool" where
  "parent_dominates t el i \<longleftrightarrow> list_all (\<lambda>j. j \<in> set el \<longrightarrow> \<not> update_of t i - update_of t j \<ge> 128) [0..<tab_count t]"

definition parent_step :: "nwk_candidates \<Rightarrow> nwk_parent_policy \<Rightarrow> nat list \<Rightarrow> nat \<Rightarrow> nat \<Rightarrow> nat" where
  "parent_step t p el i best =
     (if i \<in> set el \<and> parent_dominates t el i \<and> (best = NWK_CANDIDATES_CAPACITY \<or> pol_link_cost p ! i < pol_link_cost p ! best) then i else best)"

definition nwk_parent_select :: "nwk_candidates option \<Rightarrow> nwk_parent_policy option \<Rightarrow> bool \<Rightarrow> nwk_parent_result + (nat \<times> nwk_candidate)" where
  "nwk_parent_select table policy out =
     (case table of None \<Rightarrow> Inl NWK_PARENT_INVALID_ARGUMENT | Some t \<Rightarrow>
      (case policy of None \<Rightarrow> Inl NWK_PARENT_INVALID_ARGUMENT | Some p \<Rightarrow>
      if \<not> out \<or> pol_minimum_known p > 1 then Inl NWK_PARENT_INVALID_ARGUMENT
      else if \<not> epid_valid (pol_extended_pan_id p) then Inl NWK_PARENT_INVALID_ARGUMENT
      else if (case nwk_candidates_get table 0 True of Inl e \<Rightarrow> e \<noteq> NWK_CANDIDATES_BAD_INDEX | Inr _ \<Rightarrow> False)
        then Inl NWK_PARENT_INVALID_TABLE
      else if pol_potential_mask p AND NOT (push_bit (tab_count t) 1 - 1) \<noteq> 0 then Inl NWK_PARENT_INVALID_ARGUMENT
      else if list_ex (\<lambda>i. pol_link_cost p ! i < 1 \<or> pol_link_cost p ! i > 7) [0..<tab_count t] then Inl NWK_PARENT_INVALID_ARGUMENT
      else (case parent_eligible t p [0..<tab_count t] [] of Inl e \<Rightarrow> Inl e | Inr el \<Rightarrow>
        if el = [] then Inl NWK_PARENT_NONE
        else let best = fold (parent_step t p el) [0..<tab_count t] NWK_CANDIDATES_CAPACITY in
        if best = NWK_CANDIDATES_CAPACITY then Inl NWK_PARENT_AMBIGUOUS_UPDATE
        else (case nwk_candidates_get table best True of Inl _ \<Rightarrow> Inl NWK_PARENT_INVALID_TABLE
          | Inr c \<Rightarrow> Inr (best, c)))))"

section \<open>The table as a list\<close>

declare cand_find.simps [simp del] cand_shift.simps [simp del]

definition identity :: "nwk_candidate \<Rightarrow> u8 \<times> u16 \<times> u8 \<times> bytes \<times> bytes" where
  "identity c = (cand_channel c, cand_pan_id c, cand_address_mode c, take 8 (cand_coordinator c),
     take 8 (nb_extended_pan_id (cand_network c)))"

lemma same_identity_eq: "same_identity a b \<longleftrightarrow> identity a = identity b"
  by (simp add: same_identity_def identity_def)

definition cand_list :: "nwk_candidates \<Rightarrow> nwk_candidate list" where
  "cand_list t = take (tab_count t) (tab_entries t)"

text \<open>Compact entries with distinct identities, all eligible and on scanned channels; the rest zero.\<close>

definition cand_inv :: "nwk_candidates \<Rightarrow> bool" where
  "cand_inv t \<longleftrightarrow> valid_table t \<and> length (tab_entries t) = NWK_CANDIDATES_CAPACITY \<and>
     drop (tab_count t) (tab_entries t) = replicate (NWK_CANDIDATES_CAPACITY - tab_count t) nwk_candidate_zero \<and>
     distinct (map identity (cand_list t)) \<and>
     (\<forall>c \<in> set (cand_list t). cand_eligible t c \<and> tab_channel_mask t AND push_bit (unat (cand_channel c)) 1 \<noteq> 0)"

text \<open>The documented effect of a valid beacon on the list.\<close>

definition cand_spec :: "(nwk_candidate \<Rightarrow> bool) \<Rightarrow> nwk_candidate \<Rightarrow> nwk_candidate list \<Rightarrow> nwk_candidates_result \<times> nwk_candidate list" where
  "cand_spec eligible c l =
     (if identity c \<in> identity ` set l then
        if eligible c then (NWK_CANDIDATES_UPDATED, map (\<lambda>x. if identity x = identity c then c else x) l)
        else (NWK_CANDIDATES_WITHDRAWN, filter (\<lambda>x. identity x \<noteq> identity c) l)
      else if \<not> eligible c then (NWK_CANDIDATES_NOT_ELIGIBLE, l)
      else if length l = NWK_CANDIDATES_CAPACITY then (NWK_CANDIDATES_FULL, l)
      else (NWK_CANDIDATES_ADDED, l @ [c]))"

lemma cand_find_spec:
  "cand_find t c i = Some j \<Longrightarrow> i \<le> j \<and> j < tab_count t \<and> same_identity (tab_entries t ! j) c"
  "cand_find t c i = None \<Longrightarrow> i \<le> k \<Longrightarrow> k < tab_count t \<Longrightarrow> \<not> same_identity (tab_entries t ! k) c"
proof (induction t c i rule: cand_find.induct)
  case (1 t c i)
  {
    case 1
    then show ?case using "1.IH"(1) by (auto simp: cand_find.simps [of t c i] split: if_splits)
  next
    case 2
    have "\<not> same_identity (tab_entries t ! i) c" "cand_find t c (i + 1) = None" "i < tab_count t"
      using 2 by (auto simp: cand_find.simps [of t c i] split: if_splits)
    then show ?case using "1.IH"(2) 2 by (cases "i = k") auto
  }
qed

lemma cand_shift_nth:
  "count \<le> length es \<Longrightarrow> length (cand_shift es i count) = length es \<and>
     (\<forall>k < length es. cand_shift es i count ! k = (if i \<le> k \<and> k + 1 < count then es ! (k + 1) else es ! k))"
proof (induction es i count rule: cand_shift.induct)
  case (1 es i count)
  show ?case
  proof (cases "i + 1 < count")
    case True
    with 1 show ?thesis by (auto simp: cand_shift.simps [of es i count] nth_list_update)
  qed (auto simp: cand_shift.simps [of es i count])
qed

lemma cand_shift_list:
  assumes "i < count" "count \<le> length es"
  shows "take (count - 1) ((cand_shift es i count)[count - 1 := z]) = take i (take count es) @ drop (Suc i) (take count es)"
    "drop (count - 1) ((cand_shift es i count)[count - 1 := z]) = z # drop count es"
proof -
  note n = cand_shift_nth [OF assms(2), of i]
  have c: "count - 1 < length es" using assms by simp
  show "take (count - 1) ((cand_shift es i count)[count - 1 := z]) = take i (take count es) @ drop (Suc i) (take count es)"
    using assms n c by (intro nth_equalityI) (auto simp: nth_append)
  have "drop (count - 1) ((cand_shift es i count)[count - 1 := z]) = z # drop count (cand_shift es i count)"
    using n c assms by (subst Cons_nth_drop_Suc [symmetric]) auto
  moreover have "drop count (cand_shift es i count) = drop count es" using n assms by (intro nth_equalityI) auto
  ultimately show "drop (count - 1) ((cand_shift es i count)[count - 1 := z]) = z # drop count es" by simp
qed

lemma filter_distinct_remove:
  assumes "distinct (map f l)" "i < length l"
  shows "filter (\<lambda>x. f x \<noteq> f (l ! i)) l = take i l @ drop (Suc i) l"
proof -
  have l: "l = take i l @ l ! i # drop (Suc i) l" using assms(2) by (rule id_take_nth_drop)
  have "f (l ! i) \<notin> f ` set (take i l) \<union> f ` set (drop (Suc i) l)" using assms(1) by (subst (asm) l) auto
  then have "f x \<noteq> f (l ! i)" if "x \<in> set (take i l) \<union> set (drop (Suc i) l)" for x using that by (metis UnE UnI1 UnI2 image_eqI)
  then show ?thesis by (subst l) (simp add: filter_id_conv)
qed

lemma map_distinct_update:
  "distinct (map f l) \<Longrightarrow> i < length l \<Longrightarrow> map (\<lambda>x. if f x = f (l ! i) then c else x) l = l[i := c]"
proof -
  assume d: "distinct (map f l)" and i: "i < length l"
  have "f (l ! k) = f (l ! i) \<longleftrightarrow> k = i" if "k < length l" for k
    using nth_eq_iff_index_eq [OF d, of k i] that i by simp
  then show ?thesis using i by (intro nth_equalityI) (auto simp: nth_list_update)
qed

lemma cand_update_list:
  assumes inv: "cand_inv t" and u: "cand_update t c = (r, t')"
  shows "(r, cand_list t') = cand_spec (cand_eligible t) c (cand_list t)"
proof -
  have len: "length (tab_entries t) = 4" "tab_count t \<le> 4" "length (cand_list t) = tab_count t"
    and dist: "distinct (map identity (cand_list t))"
    using inv by (auto simp: cand_inv_def valid_table_def cand_list_def)
  have nth: "k < tab_count t \<Longrightarrow> cand_list t ! k = tab_entries t ! k" for k by (simp add: cand_list_def)
  show ?thesis
  proof (cases "cand_find t c 0")
    case None
    have "identity c \<notin> identity ` set (cand_list t)"
      using cand_find_spec(2) [OF None] len(3) nth unfolding same_identity_eq
      by (metis image_iff in_set_conv_nth le0)
    with None u len show ?thesis
      by (auto simp: cand_update_def cand_spec_def cand_list_def take_Suc_conv_app_nth min_def split: if_splits)
  next
    case (Some i)
    note f = cand_find_spec(1) [OF Some]
    have i: "i < length (cand_list t)" "identity c = identity (cand_list t ! i)" using f nth len(3) by (auto simp: same_identity_eq)
    then have m: "identity c \<in> identity ` set (cand_list t)" by auto
    show ?thesis
    proof (cases "cand_eligible t c")
      case True
      with Some u have "r = NWK_CANDIDATES_UPDATED" "cand_list t' = (cand_list t)[i := c]"
        by (auto simp: cand_update_def cand_list_def take_update_swap)
      then show ?thesis using True m map_distinct_update [OF dist i(1), of c] by (simp add: cand_spec_def i(2))
    next
      case False
      with Some u have "r = NWK_CANDIDATES_WITHDRAWN" "cand_list t' = take i (cand_list t) @ drop (Suc i) (cand_list t)"
        using cand_shift_list(1) [of i "tab_count t" "tab_entries t"] f len by (auto simp: cand_update_def cand_list_def)
      then show ?thesis using False m filter_distinct_remove [OF dist i(1)] by (simp add: cand_spec_def i(2))
    qed
  qed
qed

lemma cand_update_params:
  "cand_update t c = (r, t') \<Longrightarrow> tab_version t' = tab_version t \<and> tab_channel_mask t' = tab_channel_mask t \<and>
     tab_filtered t' = tab_filtered t \<and> tab_parent t' = tab_parent t \<and> cand_eligible t' = cand_eligible t"
  by (auto simp: cand_update_def cand_eligible_def fun_eq_iff split: option.splits if_splits)

lemma cand_update_tail:
  assumes inv: "cand_inv t" and u: "cand_update t c = (r, t')"
  shows "length (tab_entries t') = 4 \<and> tab_count t' \<le> 4 \<and>
    drop (tab_count t') (tab_entries t') = replicate (4 - tab_count t') nwk_candidate_zero"
proof -
  have len: "length (tab_entries t) = 4" "tab_count t \<le> 4"
    and tail: "drop (tab_count t) (tab_entries t) = replicate (4 - tab_count t) nwk_candidate_zero"
    using inv by (auto simp: cand_inv_def valid_table_def)
  show ?thesis
  proof (cases "cand_find t c 0")
    case None
    note u' = u [unfolded cand_update_def None option.case]
    from u' have "t' = t \<or> tab_entries t' = (tab_entries t)[tab_count t := c] \<and> tab_count t' = Suc (tab_count t) \<and> tab_count t \<noteq> 4"
      by (simp split: if_splits) (elim conjE, hypsubst, simp)+
    then consider "t' = t" | "tab_entries t' = (tab_entries t)[tab_count t := c]" "tab_count t' = Suc (tab_count t)" "tab_count t < 4"
      using len by fastforce
    then show ?thesis
    proof cases
      case 2
      have "drop (Suc (tab_count t)) (tab_entries t) = tl (drop (tab_count t) (tab_entries t))" by (simp add: drop_Suc tl_drop)
      also have "\<dots> = replicate (4 - Suc (tab_count t)) nwk_candidate_zero" unfolding tail using 2(3) by (cases "4 - tab_count t") auto
      finally show ?thesis using 2 len by simp
    qed (use len tail in simp)
  next
    case (Some i)
    note f = cand_find_spec(1) [OF Some]
    have n: "length (cand_shift (tab_entries t) i (tab_count t)) = length (tab_entries t)"
      using cand_shift_nth [of "tab_count t" "tab_entries t" i] len by simp
    from Some u consider "tab_entries t' = (tab_entries t)[i := c]" "tab_count t' = tab_count t" |
      "tab_entries t' = (cand_shift (tab_entries t) i (tab_count t))[tab_count t - 1 := nwk_candidate_zero]" "tab_count t' = tab_count t - 1"
      by (auto simp: cand_update_def split: if_splits)
    then show ?thesis
    proof cases
      case 2
      have "Suc (4 - tab_count t) = 4 - (tab_count t - 1)" using f len by simp
      then show ?thesis using 2 f len tail n cand_shift_list(2) [of i "tab_count t" "tab_entries t" nwk_candidate_zero]
        by (simp flip: replicate_Suc)
    qed (use len tail f in \<open>simp add: drop_update_cancel\<close>)
  qed
qed

lemma cand_spec_keeps:
  assumes "(r, l') = cand_spec eligible c l" "distinct (map identity l)" "\<forall>x \<in> set l. P x" "eligible c \<Longrightarrow> P c"
  shows "distinct (map identity l') \<and> (\<forall>x \<in> set l'. P x)"
proof -
  have "map identity (map (\<lambda>x. if identity x = identity c then c else x) l) = map identity l" by simp
  then have "distinct (map identity (map (\<lambda>x. if identity x = identity c then c else x) l))" using assms(2) by metis
  moreover have "distinct (map identity (filter (\<lambda>x. identity x \<noteq> identity c) l))" using assms(2) by (rule distinct_map_filter)
  ultimately show ?thesis using assms by (auto simp: cand_spec_def split: if_splits)
qed

lemma cand_update_inv:
  assumes inv: "cand_inv t" and u: "cand_update t c = (r, t')" and ch: "tab_channel_mask t AND push_bit (unat (cand_channel c)) 1 \<noteq> 0"
  shows "cand_inv t'"
proof -
  note s = cand_update_list [OF inv u] and p = cand_update_params [OF u] and tl = cand_update_tail [OF inv u]
  have "distinct (map identity (cand_list t')) \<and>
      (\<forall>x \<in> set (cand_list t'). cand_eligible t x \<and> tab_channel_mask t AND push_bit (unat (cand_channel x)) 1 \<noteq> 0)"
    using inv ch by (intro cand_spec_keeps [OF s]) (auto simp: cand_inv_def)
  then show ?thesis using inv p tl by (simp add: cand_inv_def valid_table_def)
qed

lemma cand_decode_channel: "cand_decode ch b = Inr c \<Longrightarrow> cand_channel c = ch"
  by (auto simp: cand_decode_def Let_def split: sum.splits if_splits)

text \<open>The tables a program can reach.\<close>

inductive cand_reach :: "nwk_candidates \<Rightarrow> bool" where
  Init: "nwk_candidates_init True channel_mask = Inr t \<Longrightarrow> cand_reach t"
| Parent: "cand_reach t \<Longrightarrow> nwk_candidates_parent (Some t) parent = Inr t' \<Longrightarrow> cand_reach t'"
| Consider: "cand_reach t \<Longrightarrow> nwk_candidates_consider (Some t) channel crc body = (r, Some t') \<Longrightarrow> cand_reach t'"

lemma consider_cases:
  assumes "nwk_candidates_consider (Some t) channel crc body = (r, Some t')"
  obtains (unchanged) "t' = t" |
    (update) b c where "body = Some b" "crc = 1" "cand_decode channel b = Inr c" "cand_update t c = (r, t')"
      "tab_channel_mask t AND push_bit (unat (cand_channel c)) 1 \<noteq> 0"
proof (cases body)
  case (Some b)
  have one: "\<not> crc > 1 \<Longrightarrow> crc \<noteq> 0 \<Longrightarrow> crc = 1" using word_le1 by blast
  show ?thesis
  proof (cases "cand_decode channel b")
    case (Inr c)
    obtain r1 t1 where u: "cand_update t c = (r1, t1)" by fastforce
    show ?thesis
      using assms Some Inr u one cand_decode_channel [OF Inr] unchanged update
      by (simp add: nwk_candidates_consider_def split: if_splits)
  qed (use assms Some unchanged in \<open>simp add: nwk_candidates_consider_def split: if_splits\<close>)
qed (use assms unchanged in \<open>simp add: nwk_candidates_consider_def\<close>)

lemma cand_reach_inv: "cand_reach t \<Longrightarrow> cand_inv t"
proof (induction rule: cand_reach.induct)
  case (Init channel_mask t)
  then show ?case by (auto simp: nwk_candidates_init_def cand_inv_def valid_table_def cand_list_def split: if_splits)
next
  case (Parent t parent t')
  then show ?case
    by (auto simp: nwk_candidates_parent_def cand_inv_def valid_table_def cand_list_def split: if_splits)
next
  case (Consider t channel crc body r t')
  from Consider(2) show ?case
  proof (cases rule: consider_cases)
    case (update b c)
    then show ?thesis using cand_update_inv [OF Consider.IH] by blast
  qed (use Consider.IH in simp)
qed

section \<open>The best parent\<close>

definition admissible :: "nwk_candidates \<Rightarrow> nwk_parent_policy \<Rightarrow> nat \<Rightarrow> bool" where
  "admissible t p i \<longleftrightarrow> pol_potential_mask p AND push_bit i 1 \<noteq> 0 \<and> \<not> pol_link_cost p ! i > 3 \<and>
     take 8 (nb_extended_pan_id (cand_network (tab_entries t ! i))) = take 8 (pol_extended_pan_id p) \<and>
     (pol_minimum_known p = 0 \<or> update_of t i - pol_minimum_update_id p < 128)"

lemma parent_eligible_filter:
  assumes "valid_table t"
  shows "parent_eligible t p is acc = Inr el \<Longrightarrow> \<forall>i \<in> set is. i < tab_count t \<Longrightarrow> el = acc @ filter (admissible t p) is"
proof (induction "is" arbitrary: acc)
  case (Cons i "is")
  have get: "nwk_candidates_get (Some t) i True = Inr (tab_entries t ! i)"
    using Cons.prems(2) assms by (simp add: nwk_candidates_get_def)
  define d where "d = update_of t i - pol_minimum_update_id p"
  note run = Cons.prems(1) [unfolded parent_eligible.simps get sum.case Let_def, folded update_of_def, folded d_def]
  have "parent_eligible t p is (if admissible t p i then acc @ [i] else acc) = Inr el"
    using run by (cases "d < 128"; cases "d = 128")
      (auto simp: admissible_def d_def [symmetric] not_less antisym_conv split: if_splits)
  from Cons.IH [OF this] Cons.prems(2) show ?case by (simp split: if_splits)
qed simp

definition best_upto :: "nwk_candidates \<Rightarrow> nwk_parent_policy \<Rightarrow> nat list \<Rightarrow> nat \<Rightarrow> nat \<Rightarrow> bool" where
  "best_upto t p el n best \<longleftrightarrow>
     (if best = 4 then \<forall>i < n. \<not> (i \<in> set el \<and> parent_dominates t el i)
      else best < n \<and> best \<in> set el \<and> parent_dominates t el best \<and>
        (\<forall>i < n. i \<in> set el \<and> parent_dominates t el i \<longrightarrow>
          pol_link_cost p ! best \<le> pol_link_cost p ! i \<and> (pol_link_cost p ! i = pol_link_cost p ! best \<longrightarrow> best \<le> i)))"

lemma parent_fold_best:
  "n \<le> 4 \<Longrightarrow> best_upto t p el n (fold (parent_step t p el) [0..<n] 4)"
proof (induction n)
  case (Suc n)
  define b where "b = fold (parent_step t p el) [0..<n] 4"
  have IH: "best_upto t p el n b" using Suc by (simp add: b_def)
  have "fold (parent_step t p el) [0..<Suc n] 4 = parent_step t p el n b" by (simp add: b_def)
  moreover have "best_upto t p el (Suc n) (parent_step t p el n b)"
    using IH Suc.prems by (auto simp: best_upto_def parent_step_def less_Suc_eq not_less split: if_splits)
  ultimately show ?case by simp
qed (simp add: best_upto_def)

lemma parent_select_best:
  assumes "nwk_parent_select (Some t) (Some p) True = Inr (i, c)"
  shows "i < tab_count t \<and> c = tab_entries t ! i \<and> admissible t p i \<and>
    (\<forall>j < tab_count t. admissible t p j \<longrightarrow> update_of t i - update_of t j < 128) \<and>
    (\<forall>j < tab_count t. admissible t p j \<and> (\<forall>k < tab_count t. admissible t p k \<longrightarrow> update_of t j - update_of t k < 128) \<longrightarrow>
      pol_link_cost p ! i \<le> pol_link_cost p ! j \<and> (pol_link_cost p ! j = pol_link_cost p ! i \<longrightarrow> i \<le> j))"
proof -
  have v: "valid_table t" using assms by (auto simp: nwk_parent_select_def nwk_candidates_get_def split: if_splits)
  then have n4: "tab_count t \<le> 4" by (simp add: valid_table_def)
  obtain el where el: "parent_eligible t p [0..<tab_count t] [] = Inr el"
    using assms by (auto simp: nwk_parent_select_def split: if_splits sum.splits)
  have ell: "el = filter (admissible t p) [0..<tab_count t]" using parent_eligible_filter [OF v el] by simp
  define best where "best = fold (parent_step t p el) [0..<tab_count t] 4"
  note run = assms [unfolded nwk_parent_select_def option.case el sum.case Let_def, folded best_def]
  have b: "best = i" "best \<noteq> 4" "c = tab_entries t ! i" "i < tab_count t"
    using run v by (auto simp: nwk_candidates_get_def split: if_splits sum.splits)
  note B = parent_fold_best [OF n4, of t p el, folded best_def, unfolded b(1)]
  have dom: "parent_dominates t el j \<longleftrightarrow> (\<forall>k < tab_count t. admissible t p k \<longrightarrow> update_of t j - update_of t k < 128)" for j
    by (auto simp: parent_dominates_def ell list_all_iff not_le)
  have mem: "j \<in> set el \<longleftrightarrow> j < tab_count t \<and> admissible t p j" for j by (auto simp: ell)
  show ?thesis using B b unfolding best_upto_def dom mem by auto
qed

section \<open>Properties\<close>

text \<open>A beacon of PAN 0x1234 that permits association, the table after it and a policy for its network.\<close>

definition sample_beacon :: bytes where
  "sample_beacon = [0, 0x80, 1, 0x34, 0x12, 0, 0, 0xff, 0xcf, 0, 0, 0, 0x22, 0x84, 1, 2, 3, 4, 5, 6, 7, 8, 0xff, 0xff, 0xff, 9]"

definition sample_candidate :: nwk_candidate where
  "sample_candidate = nwk_candidate_zero\<lparr>cand_channel := 11, cand_pan_id := 0x1234, cand_address_mode := 2, cand_superframe := 0xcfff,
     cand_sequence := 1, cand_network := \<lparr>nb_stack_profile = 2, nb_router_capacity = True, nb_device_depth = 0,
       nb_end_device_capacity = 1, nb_extended_pan_id = [1, 2, 3, 4, 5, 6, 7, 8], nb_tx_offset = 0xffffff, nb_update_id = 9\<rparr>\<rparr>"

definition empty_table :: nwk_candidates where
  "empty_table = \<lparr>tab_version = 1, tab_channel_mask = 0x800, tab_count = 0, tab_entries = replicate 4 nwk_candidate_zero,
     tab_filtered = 0, tab_parent = 0\<rparr>"

definition sample_table :: nwk_candidates where
  "sample_table = empty_table\<lparr>tab_count := 1, tab_entries := sample_candidate # replicate 3 nwk_candidate_zero\<rparr>"

definition sample_policy :: nwk_parent_policy where
  "sample_policy = \<lparr>pol_extended_pan_id = [1, 2, 3, 4, 5, 6, 7, 8], pol_potential_mask = 1, pol_link_cost = [1, 0, 0, 0],
     pol_minimum_known = 1, pol_minimum_update_id = 9\<rparr>"

lemma empty_table_reach: "cand_reach empty_table"
  by (rule cand_reach.Init [of "0x800"]) code_simp

lemma sample_decode: "cand_decode 11 sample_beacon = Inr sample_candidate"
  by code_simp

lemma sample_table_reach: "cand_reach sample_table"
proof -
  have "nwk_candidates_consider (Some empty_table) 11 1 (Some sample_beacon) = (NWK_CANDIDATES_ADDED, Some sample_table)" by code_simp
  then show ?thesis by (rule cand_reach.Consider [OF empty_table_reach])
qed

text \<open>C21. Every candidate table the three table operations can build keeps its invariant: at most four entries,
  stored compactly with the rest of the array cleared, pairwise different in identity, each
  eligible under the table's own parent filter and heard on a channel of the table's mask.\<close>

theorem candidate_invariant: "cand_reach t \<Longrightarrow> cand_inv t"
  by (rule cand_reach_inv)

theorem candidate_invariant_witness: "cand_inv sample_table"
  using candidate_invariant [OF sample_table_reach] .

text \<open>C22. The array update refines the list update: a beacon that decodes, received with a good checksum on a
  channel of the mask, changes the list of candidates as the abstract operation does (replace
  or withdraw the entry of the same identity, append a new eligible one while there is room),
  and the call returns that operation's result.\<close>

theorem candidate_refines_list:
  assumes "cand_reach t" and "cand_decode channel body = Inr c" and "11 \<le> channel" "channel \<le> 26"
    and "tab_channel_mask t AND push_bit (unat channel) 1 \<noteq> 0"
  shows "\<exists>r t'. nwk_candidates_consider (Some t) channel 1 (Some body) = (r, Some t') \<and>
    (r, cand_list t') = cand_spec (cand_eligible t) c (cand_list t)"
proof -
  obtain r t' where u: "cand_update t c = (r, t')" by fastforce
  have "valid_table t" using cand_reach_inv [OF assms(1)] by (simp add: cand_inv_def)
  then have "nwk_candidates_consider (Some t) channel 1 (Some body) = (r, Some t')"
    using assms u by (simp add: nwk_candidates_consider_def leD)
  then show ?thesis using cand_update_list [OF cand_reach_inv [OF assms(1)] u] by blast
qed

theorem candidate_refines_list_witness:
  "\<exists>r t'. nwk_candidates_consider (Some sample_table) 11 1 (Some sample_beacon) = (r, Some t') \<and>
    (r, cand_list t') = cand_spec (cand_eligible sample_table) sample_candidate (cand_list sample_table)"
  using candidate_refines_list [OF sample_table_reach sample_decode] by (simp add: sample_table_def empty_table_def)

text \<open>C23. The selected parent is the best admissible candidate: it belongs to the wanted network, is a potential
  parent with a usable link and a recent enough update identifier; no admissible candidate has
  a newer update identifier in the circular order; and among those as new its link cost is
  least, the lowest index deciding ties.\<close>

theorem parent_is_best:
  assumes "nwk_parent_select (Some t) (Some p) True = Inr (i, c)"
  shows "i < tab_count t \<and> c = tab_entries t ! i \<and> admissible t p i \<and>
    (\<forall>j < tab_count t. admissible t p j \<longrightarrow> update_of t i - update_of t j < 128) \<and>
    (\<forall>j < tab_count t. admissible t p j \<and> (\<forall>k < tab_count t. admissible t p k \<longrightarrow> update_of t j - update_of t k < 128) \<longrightarrow>
      pol_link_cost p ! i \<le> pol_link_cost p ! j \<and> (pol_link_cost p ! j = pol_link_cost p ! i \<longrightarrow> i \<le> j))"
  using parent_select_best [OF assms] .

theorem parent_is_best_witness: "admissible sample_table sample_policy 0"
proof -
  have "nwk_parent_select (Some sample_table) (Some sample_policy) True = Inr (0, sample_candidate)" by code_simp
  from parent_is_best [OF this] show ?thesis by blast
qed

end
