(* ===== verification/Mac_Association.thy ===== *)
theory Mac_Association
  imports Mac_Frame
begin

text \<open>
  The association context (\<open>src/src/mac_association.c\<close>): a one-shot state machine that waits,
  for a bounded time and a bounded number of steps, for the association response of one
  selected coordinator. The clock counts 16-microsecond symbols and wraps at 32 bits. The lemmas
  show that a wait ends, and what a recorded response proves of the frame it came from.
\<close>

abbreviation (input) MAC_ASSOCIATION_VERSION :: u8 where "MAC_ASSOCIATION_VERSION \<equiv> 1"
abbreviation (input) MAC_ASSOCIATION_HALF :: u32 where "MAC_ASSOCIATION_HALF \<equiv> 0x80000000"
abbreviation (input) MAC_ASSOCIATION_MAX_LIFETIME :: u32 where "MAC_ASSOCIATION_MAX_LIFETIME \<equiv> 65535"
abbreviation (input) MAC_ASSOCIATION_MAX_WORK :: u16 where "MAC_ASSOCIATION_MAX_WORK \<equiv> 4096"
abbreviation (input) MAC_ASSOCIATION_IDLE :: u8 where "MAC_ASSOCIATION_IDLE \<equiv> 0"
abbreviation (input) MAC_ASSOCIATION_WAIT :: u8 where "MAC_ASSOCIATION_WAIT \<equiv> 1"
abbreviation (input) MAC_ASSOCIATION_DONE :: u8 where "MAC_ASSOCIATION_DONE \<equiv> 2"
abbreviation (input) MAC_ASSOCIATION_FRAME :: u8 where "MAC_ASSOCIATION_FRAME \<equiv> 1"
abbreviation (input) MAC_ASSOCIATION_CANCEL :: u8 where "MAC_ASSOCIATION_CANCEL \<equiv> 2"
abbreviation (input) MAC_ASSOCIATION_SOURCE_UNBOUND :: u8 where "MAC_ASSOCIATION_SOURCE_UNBOUND \<equiv> 0"
abbreviation (input) MAC_ASSOCIATION_SOURCE_MATCHED :: u8 where "MAC_ASSOCIATION_SOURCE_MATCHED \<equiv> 1"
abbreviation (input) MAC_ASSOCIATION_ALLOCATED :: u8 where "MAC_ASSOCIATION_ALLOCATED \<equiv> 1"
abbreviation (input) MAC_ASSOCIATION_EXTENDED_ONLY :: u8 where "MAC_ASSOCIATION_EXTENDED_ONLY \<equiv> 2"
abbreviation (input) MAC_ASSOCIATION_REFUSED :: u8 where "MAC_ASSOCIATION_REFUSED \<equiv> 3"

text \<open>Step observations; the outcome of a zeroed record is the first.\<close>

datatype mac_association_observation =
    MAC_ASSOCIATION_WAITING | MAC_ASSOCIATION_RESPONSE | MAC_ASSOCIATION_BAD_CRC | MAC_ASSOCIATION_MALFORMED
  | MAC_ASSOCIATION_MISMATCH | MAC_ASSOCIATION_STALE | MAC_ASSOCIATION_EXPIRED | MAC_ASSOCIATION_EXHAUSTED
  | MAC_ASSOCIATION_CANCELLED

datatype mac_association_result =
    MAC_ASSOCIATION_OK | MAC_ASSOCIATION_INVALID | MAC_ASSOCIATION_STATE | MAC_ASSOCIATION_GENERATION_LIMIT

record mac_association_request =
  mar_epoch :: u32
  mar_lifetime :: u32
  mar_work_limit :: u16
  mar_pan_id :: u16
  mar_channel :: u8
  mar_coordinator_mode :: u8
  mar_coordinator :: bytes
  mar_local :: bytes

record mac_association_event =
  mae_epoch :: u32
  mae_generation :: u32
  mae_stamp :: u32
  mae_body :: "bytes option"
  mae_kind :: u8
  mae_channel :: u8
  mae_crc_valid :: u8

record mac_association_record =
  mao_epoch :: u32
  mao_generation :: u32
  mao_stamp :: u32
  mao_short_address :: u16
  mao_source_ieee :: bytes
  mao_outcome :: mac_association_observation
  mao_status :: u8
  mao_address_kind :: u8
  mao_source_relation :: u8
  mao_sequence :: u8

record mac_association =
  ma_request :: mac_association_request
  ma_record :: mac_association_record
  ma_generation :: u32
  ma_opened :: u32
  ma_last :: u32
  ma_remaining :: u16
  ma_version :: u8
  ma_phase :: u8

definition mac_request_zero :: mac_association_request where
  "mac_request_zero = \<lparr>mar_epoch = 0, mar_lifetime = 0, mar_work_limit = 0, mar_pan_id = 0, mar_channel = 0,
     mar_coordinator_mode = 0, mar_coordinator = replicate 8 0, mar_local = replicate 8 0\<rparr>"

definition mac_record_zero :: mac_association_record where
  "mac_record_zero = \<lparr>mao_epoch = 0, mao_generation = 0, mao_stamp = 0, mao_short_address = 0, mao_source_ieee = replicate 8 0,
     mao_outcome = MAC_ASSOCIATION_WAITING, mao_status = 0, mao_address_kind = 0, mao_source_relation = 0, mao_sequence = 0\<rparr>"

definition ma_valid :: "mac_association \<Rightarrow> bool" where
  "ma_valid ctx \<longleftrightarrow> ma_version ctx = MAC_ASSOCIATION_VERSION \<and> ma_phase ctx \<le> MAC_ASSOCIATION_DONE"

definition mac_association_init :: "bool \<Rightarrow> u32 \<Rightarrow> mac_association_result + mac_association" where
  "mac_association_init ctx now = (if \<not> ctx then Inl MAC_ASSOCIATION_INVALID
     else Inr \<lparr>ma_request = mac_request_zero, ma_record = mac_record_zero, ma_generation = 0, ma_opened = 0, ma_last = now,
       ma_remaining = 0, ma_version = MAC_ASSOCIATION_VERSION, ma_phase = MAC_ASSOCIATION_IDLE\<rparr>)"

definition ma_request_ok :: "mac_association_request \<Rightarrow> bool" where
  "ma_request_ok q \<longleftrightarrow> mar_epoch q \<noteq> 0 \<and> mar_lifetime q \<noteq> 0 \<and> \<not> mar_lifetime q > MAC_ASSOCIATION_MAX_LIFETIME \<and>
     mar_work_limit q \<noteq> 0 \<and> \<not> mar_work_limit q > MAC_ASSOCIATION_MAX_WORK \<and> mar_pan_id q \<noteq> 0xffff \<and>
     \<not> mar_channel q < 11 \<and> \<not> mar_channel q > 26 \<and>
     (mar_coordinator_mode q = MAC_ADDRESS_SHORT \<or> mar_coordinator_mode q = MAC_ADDRESS_EXTENDED) \<and>
     (mar_coordinator_mode q = MAC_ADDRESS_SHORT \<longrightarrow>
       \<not> (mar_coordinator q ! 1 = 0xff \<and> mar_coordinator q ! 0 \<ge> 0xfe) \<and> list_all (\<lambda>i. mar_coordinator q ! i = 0) [2..<8])"

definition mac_association_start ::
    "mac_association option \<Rightarrow> mac_association_request option \<Rightarrow> u32 \<Rightarrow> mac_association_result + mac_association" where
  "mac_association_start ctx request now =
     (case ctx of None \<Rightarrow> Inl MAC_ASSOCIATION_INVALID | Some c \<Rightarrow>
      (case request of None \<Rightarrow> Inl MAC_ASSOCIATION_INVALID | Some q \<Rightarrow>
      if \<not> ma_valid c \<or> \<not> ma_request_ok q then Inl MAC_ASSOCIATION_INVALID
      else if ma_phase c \<noteq> MAC_ASSOCIATION_IDLE then Inl MAC_ASSOCIATION_STATE
      else if now - ma_last c \<ge> MAC_ASSOCIATION_HALF then Inl MAC_ASSOCIATION_INVALID
      else if ma_generation c = 0xffffffff then Inl MAC_ASSOCIATION_GENERATION_LIMIT
      else Inr (c\<lparr>ma_request := q, ma_generation := ma_generation c + 1,
        ma_record := mac_record_zero\<lparr>mao_generation := ma_generation c + 1, mao_epoch := mar_epoch q\<rparr>,
        ma_opened := now, ma_last := now, ma_remaining := mar_work_limit q, ma_phase := MAC_ASSOCIATION_WAIT\<rparr>)))"

section \<open>Steps\<close>

definition ma_event_ok :: "mac_association_event option \<Rightarrow> bool" where
  "ma_event_ok event \<longleftrightarrow> (case event of None \<Rightarrow> True | Some e \<Rightarrow>
     (mae_kind e = MAC_ASSOCIATION_FRAME \<or> mae_kind e = MAC_ASSOCIATION_CANCEL) \<and>
     (mae_kind e = MAC_ASSOCIATION_FRAME \<longrightarrow> mae_body e \<noteq> None \<and> \<not> mae_crc_valid e > 1 \<and> \<not> mae_channel e < 11 \<and> \<not> mae_channel e > 26))"

text \<open>The response a frame body carries for the request, with the decision when it carries none.\<close>

definition ma_response :: "mac_association_request \<Rightarrow> bytes \<Rightarrow> u8 \<Rightarrow> mac_association_observation + (mac_header \<times> mac_command)" where
  "ma_response q body profile =
     (case mac_frame_decode_profile (Some body) True profile of Inl _ \<Rightarrow> Inl MAC_ASSOCIATION_MALFORMED
      | Inr frame \<Rightarrow>
        let h = mfi_header frame in
        if mac_type h \<noteq> MAC_FRAME_COMMAND then Inl MAC_ASSOCIATION_MISMATCH
        else (case mac_command_decode (Some (take (mfi_payload_length frame) (drop (mfi_payload_offset frame) body))) True of
            Inl _ \<Rightarrow> Inl MAC_ASSOCIATION_MALFORMED
          | Inr command \<Rightarrow>
            if mc_identifier command \<noteq> MAC_COMMAND_ASSOCIATION_RESPONSE \<or> mac_source_pan h \<noteq> mar_pan_id q \<or>
               (mac_destination_pan h \<noteq> mar_pan_id q \<and>
                 (profile \<noteq> MAC_RX_R22_ASSOCIATION_RESPONSE \<or> mac_destination_pan h \<noteq> 0xffff)) \<or>
               take 8 (mac_destination h) \<noteq> take 8 (mar_local q) \<or>
               (mar_coordinator_mode q = MAC_ADDRESS_EXTENDED \<and> take 8 (mac_source h) \<noteq> take 8 (mar_coordinator q))
            then Inl MAC_ASSOCIATION_MISMATCH
            else Inr (h, command)))"

definition ma_write_record :: "mac_association_request \<Rightarrow> u32 \<Rightarrow> mac_header \<Rightarrow> mac_command \<Rightarrow> mac_association_record \<Rightarrow> mac_association_record" where
  "ma_write_record q stamp h command r =
     r\<lparr>mao_stamp := stamp, mao_short_address := mc_short_address command, mao_status := mc_status command,
       mao_sequence := mac_sequence h, mao_source_ieee := take 8 (mac_source h),
       mao_source_relation := (if mar_coordinator_mode q = MAC_ADDRESS_EXTENDED
         then MAC_ASSOCIATION_SOURCE_MATCHED else MAC_ASSOCIATION_SOURCE_UNBOUND),
       mao_address_kind := (if mc_status command \<noteq> MAC_ASSOCIATION_SUCCESS then MAC_ASSOCIATION_REFUSED
         else if mc_short_address command = 0xfffe then MAC_ASSOCIATION_EXTENDED_ONLY else MAC_ASSOCIATION_ALLOCATED)\<rparr>"

text \<open>The decision on an event: the observation, and the record when it is a response.\<close>

definition ma_event :: "mac_association \<Rightarrow> u32 \<Rightarrow> mac_association_event \<Rightarrow> u8 \<Rightarrow> mac_association_observation \<times> mac_association_record" where
  "ma_event c now e profile =
     (let q = ma_request c; keep = (\<lambda>d. (d, ma_record c)) in
      if mae_epoch e \<noteq> mar_epoch q \<or> mae_generation e \<noteq> ma_generation c then keep MAC_ASSOCIATION_STALE
      else if mae_kind e = MAC_ASSOCIATION_CANCEL then keep MAC_ASSOCIATION_CANCELLED
      else if mae_stamp e - ma_last c \<ge> MAC_ASSOCIATION_HALF \<or> now - mae_stamp e \<ge> MAC_ASSOCIATION_HALF then keep MAC_ASSOCIATION_STALE
      else if mae_channel e \<noteq> mar_channel q then keep MAC_ASSOCIATION_MISMATCH
      else if mae_crc_valid e = 0 then keep MAC_ASSOCIATION_BAD_CRC
      else (case ma_response q (case mae_body e of None \<Rightarrow> [] | Some b \<Rightarrow> b) profile of
          Inl d \<Rightarrow> keep d
        | Inr (h, command) \<Rightarrow> (MAC_ASSOCIATION_RESPONSE, ma_write_record q (mae_stamp e) h command (ma_record c))))"

definition ma_terminal :: "mac_association_observation \<Rightarrow> bool" where
  "ma_terminal d \<longleftrightarrow> d = MAC_ASSOCIATION_RESPONSE \<or> d = MAC_ASSOCIATION_EXPIRED \<or> d = MAC_ASSOCIATION_EXHAUSTED \<or> d = MAC_ASSOCIATION_CANCELLED"

text \<open>The tail of a step: the clock, and the end of the wait.\<close>

definition ma_finish :: "mac_association \<Rightarrow> u32 \<Rightarrow> mac_association_observation \<Rightarrow> mac_association" where
  "ma_finish c now d =
     (let c1 = c\<lparr>ma_last := now\<rparr> in
      if ma_terminal d then
        c1\<lparr>ma_phase := MAC_ASSOCIATION_DONE, ma_record := (let r = (ma_record c1)\<lparr>mao_outcome := d\<rparr> in
          if d \<noteq> MAC_ASSOCIATION_RESPONSE then r\<lparr>mao_stamp := now\<rparr> else r)\<rparr>
      else c1)"

text \<open>The decision of a step, before its tail: expiry, work limit, then the event.\<close>

definition ma_work :: "mac_association \<Rightarrow> u32 \<Rightarrow> mac_association_event option \<Rightarrow> u8 \<Rightarrow> mac_association \<times> mac_association_observation" where
  "ma_work c now event profile =
     (if now - ma_opened c \<ge> mar_lifetime (ma_request c) then (c, MAC_ASSOCIATION_EXPIRED)
      else if ma_remaining c = 0 then (c, MAC_ASSOCIATION_EXHAUSTED)
      else let c0 = c\<lparr>ma_remaining := ma_remaining c - 1\<rparr>;
               (d0, r) = (case event of None \<Rightarrow> (MAC_ASSOCIATION_WAITING, ma_record c0) | Some e \<Rightarrow> ma_event c0 now e profile) in
           (c0\<lparr>ma_record := r\<rparr>,
            if d0 \<noteq> MAC_ASSOCIATION_RESPONSE \<and> d0 \<noteq> MAC_ASSOCIATION_CANCELLED \<and> ma_remaining c0 = 0
            then MAC_ASSOCIATION_EXHAUSTED else d0))"

definition mac_association_step_rx ::
    "mac_association option \<Rightarrow> u32 \<Rightarrow> mac_association_event option \<Rightarrow> bool \<Rightarrow> u8 \<Rightarrow>
     mac_association_result + (mac_association \<times> mac_association_observation)" where
  "mac_association_step_rx ctx now event observation profile =
     (case ctx of None \<Rightarrow> Inl MAC_ASSOCIATION_INVALID | Some c \<Rightarrow>
      if \<not> ma_valid c \<or> \<not> observation \<or> profile > MAC_RX_R22_ASSOCIATION_RESPONSE then Inl MAC_ASSOCIATION_INVALID
      else if ma_phase c \<noteq> MAC_ASSOCIATION_WAIT then Inl MAC_ASSOCIATION_STATE
      else if now - ma_last c \<ge> MAC_ASSOCIATION_HALF \<or> \<not> ma_event_ok event then Inl MAC_ASSOCIATION_INVALID
      else let (c1, d) = ma_work c now event profile in Inr (ma_finish c1 now d, d))"

definition mac_association_step ::
    "mac_association option \<Rightarrow> u32 \<Rightarrow> mac_association_event option \<Rightarrow> bool \<Rightarrow>
     mac_association_result + (mac_association \<times> mac_association_observation)" where
  "mac_association_step ctx now event observation = mac_association_step_rx ctx now event observation MAC_RX_IEEE2006"

definition mac_association_take :: "mac_association option \<Rightarrow> bool \<Rightarrow> mac_association_result + (mac_association \<times> mac_association_record)" where
  "mac_association_take ctx record =
     (case ctx of None \<Rightarrow> Inl MAC_ASSOCIATION_INVALID | Some c \<Rightarrow>
      if \<not> ma_valid c \<or> \<not> record then Inl MAC_ASSOCIATION_INVALID
      else if ma_phase c \<noteq> MAC_ASSOCIATION_DONE then Inl MAC_ASSOCIATION_STATE
      else Inr (c\<lparr>ma_phase := MAC_ASSOCIATION_IDLE\<rparr>, ma_record c))"

section \<open>The wait is bounded\<close>

text \<open>A run of accepted steps; \<open>None\<close> as soon as one is refused.\<close>

fun ma_run :: "(u32 \<times> mac_association_event option \<times> u8) list \<Rightarrow> mac_association \<Rightarrow> mac_association option" where
  "ma_run [] c = Some c"
| "ma_run ((now, event, profile) # es) c =
     (case mac_association_step_rx (Some c) now event True profile of Inl _ \<Rightarrow> None | Inr (c', _) \<Rightarrow> ma_run es c')"

text \<open>The cases of an accepted step: the wait ends, or one unit of work is spent and more is left.\<close>

lemma ma_work_cases:
  assumes "ma_work c now event profile = (c1, d)"
  shows "\<exists>r k. c1 = c\<lparr>ma_remaining := k, ma_record := r\<rparr> \<and>
    (ma_terminal d \<or> k \<noteq> 0 \<and> k = ma_remaining c - 1 \<and> ma_remaining c \<noteq> 0 \<and> now - ma_opened c < mar_lifetime (ma_request c))"
proof -
  let ?c0 = "c\<lparr>ma_remaining := ma_remaining c - 1\<rparr>"
  obtain d0 r where ev: "(case event of None \<Rightarrow> (MAC_ASSOCIATION_WAITING, ma_record ?c0) | Some e \<Rightarrow> ma_event ?c0 now e profile) = (d0, r)"
    by fastforce
  consider "now - ma_opened c \<ge> mar_lifetime (ma_request c)" | "ma_remaining c = 0"
    | "ma_remaining c \<noteq> 0" "\<not> now - ma_opened c \<ge> mar_lifetime (ma_request c)" by blast
  then show ?thesis
  proof cases
    case 3
    have c1: "c1 = ?c0\<lparr>ma_record := r\<rparr>"
      and d: "d = (if d0 \<noteq> MAC_ASSOCIATION_RESPONSE \<and> d0 \<noteq> MAC_ASSOCIATION_CANCELLED \<and> ma_remaining c - 1 = 0 then MAC_ASSOCIATION_EXHAUSTED else d0)"
      using assms unfolding ma_work_def Let_def ev prod.case if_not_P [OF 3(2)] if_not_P [OF 3(1)] by simp_all
    have "ma_terminal d \<or> ma_remaining c - 1 \<noteq> 0" unfolding d by (auto simp: ma_terminal_def)
    then show ?thesis using c1 3 by (intro exI [of _ r] exI [of _ "ma_remaining c - 1"]) (auto simp: not_le)
    next
    case 2
    then have "c1 = c" "ma_terminal d" using assms by (auto simp: ma_work_def ma_terminal_def split: if_splits)
    then show ?thesis by (intro exI [of _ "ma_record c"] exI [of _ "ma_remaining c"]) simp
  next
    case 1
    then have "c1 = c" "ma_terminal d" using assms by (auto simp: ma_work_def ma_terminal_def)
    then show ?thesis by (intro exI [of _ "ma_record c"] exI [of _ "ma_remaining c"]) simp
  qed
qed

lemma ma_finish_simps [simp]:
  "ma_version (ma_finish c now d) = ma_version c" "ma_last (ma_finish c now d) = now" "ma_request (ma_finish c now d) = ma_request c"
  "ma_generation (ma_finish c now d) = ma_generation c" "ma_opened (ma_finish c now d) = ma_opened c"
  "ma_remaining (ma_finish c now d) = ma_remaining c"
  "ma_phase (ma_finish c now d) = (if ma_terminal d then MAC_ASSOCIATION_DONE else ma_phase c)"
  "mao_outcome (ma_record (ma_finish c now d)) = (if ma_terminal d then d else mao_outcome (ma_record c))"
  by (simp_all add: ma_finish_def Let_def)

lemma ma_step_accepted:
  assumes "mac_association_step_rx (Some c) now event True profile = Inr (c', d)"
  obtains c1 where "ma_work c now event profile = (c1, d)" "c' = ma_finish c1 now d" "ma_phase c = MAC_ASSOCIATION_WAIT" "ma_valid c"
    "ma_event_ok event" "now - ma_last c < MAC_ASSOCIATION_HALF"
proof -
  obtain c1 d1 where w: "ma_work c now event profile = (c1, d1)" by fastforce
  show thesis by (rule that [of c1])
      (use assms w in \<open>auto simp: mac_association_step_rx_def not_le split: if_splits\<close>)
qed

lemma ma_step_cases:
  assumes "mac_association_step_rx (Some c) now event True profile = Inr (c', d)"
  shows "ma_phase c = MAC_ASSOCIATION_WAIT" "ma_valid c'" "ma_last c' = now"
    "ma_request c' = ma_request c" "ma_generation c' = ma_generation c" "ma_opened c' = ma_opened c"
    "(ma_phase c' = MAC_ASSOCIATION_DONE \<and> mao_outcome (ma_record c') = d \<and> ma_terminal d) \<or>
     (ma_phase c' = MAC_ASSOCIATION_WAIT \<and> \<not> ma_terminal d \<and> ma_remaining c \<noteq> 0 \<and> ma_remaining c' = ma_remaining c - 1 \<and>
      ma_remaining c' \<noteq> 0 \<and> now - ma_opened c < mar_lifetime (ma_request c))"
proof -
  obtain c1 where a: "ma_work c now event profile = (c1, d)" "c' = ma_finish c1 now d" "ma_phase c = MAC_ASSOCIATION_WAIT" "ma_valid c"
    using ma_step_accepted [OF assms] by metis
  obtain r k where c1: "c1 = c\<lparr>ma_remaining := k, ma_record := r\<rparr>"
    and k: "ma_terminal d \<or> k \<noteq> 0 \<and> k = ma_remaining c - 1 \<and> ma_remaining c \<noteq> 0 \<and> now - ma_opened c < mar_lifetime (ma_request c)"
    using ma_work_cases [OF a(1)] by blast
  show "ma_phase c = MAC_ASSOCIATION_WAIT" by fact
  show "ma_valid c'" "ma_last c' = now" "ma_request c' = ma_request c" "ma_generation c' = ma_generation c" "ma_opened c' = ma_opened c"
    using a(3,4) by (simp_all add: a(2) c1 ma_valid_def)
  show "(ma_phase c' = MAC_ASSOCIATION_DONE \<and> mao_outcome (ma_record c') = d \<and> ma_terminal d) \<or>
     (ma_phase c' = MAC_ASSOCIATION_WAIT \<and> \<not> ma_terminal d \<and> ma_remaining c \<noteq> 0 \<and> ma_remaining c' = ma_remaining c - 1 \<and>
      ma_remaining c' \<noteq> 0 \<and> now - ma_opened c < mar_lifetime (ma_request c))"
    using k a(3) by (cases "ma_terminal d") (auto simp: a(2) c1)
qed

lemma ma_run_bound:
  "ma_run es c = Some c' \<Longrightarrow> ma_phase c = MAC_ASSOCIATION_WAIT \<Longrightarrow> ma_remaining c \<noteq> 0 \<Longrightarrow>
     length es \<le> unat (ma_remaining c) \<and> (length es = unat (ma_remaining c) \<longrightarrow> ma_phase c' = MAC_ASSOCIATION_DONE)"
proof (induction es arbitrary: c)
  case Nil
  then show ?case by (simp add: unat_eq_0)
next
  case (Cons e es)
  obtain now event profile where e: "e = (now, event, profile)" by (cases e)
  obtain c1 d where s: "mac_association_step_rx (Some c) now event True profile = Inr (c1, d)" and r: "ma_run es c1 = Some c'"
    using Cons.prems(1) by (auto simp: e split: sum.splits)
  have pos: "0 < unat (ma_remaining c)" using Cons.prems(3) by (simp add: unat_gt_0)
  from ma_step_cases(7) [OF s] show ?case
  proof
    assume dn: "ma_phase c1 = MAC_ASSOCIATION_DONE \<and> mao_outcome (ma_record c1) = d \<and> ma_terminal d"
    have "es = []"
    proof (cases es)
      case (Cons e' es')
      then show ?thesis using r dn ma_step_cases(1) [of c1]
        by (cases e') (auto split: sum.splits)
    qed
    then show ?thesis using r dn pos by simp
  next
    assume w: "ma_phase c1 = MAC_ASSOCIATION_WAIT \<and> \<not> ma_terminal d \<and> ma_remaining c \<noteq> 0 \<and> ma_remaining c1 = ma_remaining c - 1 \<and>
      ma_remaining c1 \<noteq> 0 \<and> now - ma_opened c < mar_lifetime (ma_request c)"
    have "unat (ma_remaining c1) = unat (ma_remaining c) - 1" using w pos by (simp add: unat_minus_one)
    then show ?thesis using Cons.IH [OF r] w pos by auto
  qed
qed

section \<open>What a response proves\<close>

text \<open>A decoded association response has extended addresses on both sides.\<close>

lemma decode_command_policy:
  assumes "mac_frame_decode_profile (Some b) True profile = Inr frame" "mac_type (mfi_header frame) = MAC_FRAME_COMMAND"
  shows "command_header_policy (mfi_header frame) (drop (mfi_payload_offset frame) b) (push_bit 1 profile) = MAC_CODEC_OK"
    "take (mfi_payload_length frame) (drop (mfi_payload_offset frame) b) = drop (mfi_payload_offset frame) b"
proof -
  obtain d s n where shape: "mac_header_shape (mac_read_control b) = Inr (d, s, n)"
    using assms(1) by (auto simp: mac_frame_decode_profile_def split: sum.splits if_splits)
  note run = assms(1) [unfolded mac_frame_decode_profile_def Let_def option.case shape sum.case prod.case]
  show "command_header_policy (mfi_header frame) (drop (mfi_payload_offset frame) b) (push_bit 1 profile) = MAC_CODEC_OK"
    "take (mfi_payload_length frame) (drop (mfi_payload_offset frame) b) = drop (mfi_payload_offset frame) b"
    using run assms(2) by (auto split: if_splits)
qed

lemma response_policy:
  assumes "command_header_policy h p m = MAC_CODEC_OK" "mac_command_decode (Some p) True = Inr c"
    "mc_identifier c = MAC_COMMAND_ASSOCIATION_RESPONSE"
  shows "mac_source_mode h = MAC_ADDRESS_EXTENDED \<and> mac_destination_mode h = MAC_ADDRESS_EXTENDED \<and> mac_flags h AND MAC_FLAG_ACK_REQUEST \<noteq> 0"
  using assms(1) unfolding command_header_policy_def Let_def assms(2) sum.case assms(3)
  by (simp split: if_splits)

definition response_for :: "mac_association_request \<Rightarrow> bytes \<Rightarrow> u8 \<Rightarrow> mac_header \<Rightarrow> mac_command \<Rightarrow> bool" where
  "response_for q body profile h c \<longleftrightarrow>
     (\<exists>frame. mac_frame_decode_profile (Some body) True profile = Inr frame \<and> h = mfi_header frame \<and>
       mac_command_decode (Some (drop (mfi_payload_offset frame) body)) True = Inr c) \<and>
     mac_type h = MAC_FRAME_COMMAND \<and> mc_identifier c = MAC_COMMAND_ASSOCIATION_RESPONSE \<and>
     mac_source_mode h = MAC_ADDRESS_EXTENDED \<and> mac_destination_mode h = MAC_ADDRESS_EXTENDED \<and> mac_flags h AND MAC_FLAG_ACK_REQUEST \<noteq> 0 \<and>
     mac_source_pan h = mar_pan_id q \<and> take 8 (mac_destination h) = take 8 (mar_local q) \<and>
     (mac_destination_pan h = mar_pan_id q \<or> profile = MAC_RX_R22_ASSOCIATION_RESPONSE \<and> mac_destination_pan h = 0xffff) \<and>
     (mar_coordinator_mode q = MAC_ADDRESS_EXTENDED \<longrightarrow> take 8 (mac_source h) = take 8 (mar_coordinator q))"

lemma ma_response_for:
  assumes "ma_response q body profile = Inr (h, c)"
  shows "response_for q body profile h c"
proof -
  obtain frame where f: "mac_frame_decode_profile (Some body) True profile = Inr frame"
    using assms by (auto simp: ma_response_def split: sum.splits)
  have t: "mac_type (mfi_header frame) = MAC_FRAME_COMMAND"
    using assms by (auto simp: ma_response_def f Let_def split: if_splits)
  note p = decode_command_policy [OF f t]
  note run = assms [unfolded ma_response_def f sum.case Let_def p(2)]
  obtain cmd where c: "mac_command_decode (Some (drop (mfi_payload_offset frame) body)) True = Inr cmd"
    using run t by (cases "mac_command_decode (Some (drop (mfi_payload_offset frame) body)) True") (auto split: if_splits)
  have e: "h = mfi_header frame" "cmd = c" "mc_identifier c = MAC_COMMAND_ASSOCIATION_RESPONSE"
    "mac_source_pan h = mar_pan_id q" "take 8 (mac_destination h) = take 8 (mar_local q)"
    "mac_destination_pan h = mar_pan_id q \<or> profile = MAC_RX_R22_ASSOCIATION_RESPONSE \<and> mac_destination_pan h = 0xffff"
    "mar_coordinator_mode q = MAC_ADDRESS_EXTENDED \<longrightarrow> take 8 (mac_source h) = take 8 (mar_coordinator q)"
    using run t c by (auto split: if_splits)
  show ?thesis using response_policy [OF p(1) c] e t c f unfolding response_for_def by blast
qed

lemma ma_event_response:
  assumes "ma_event c now e profile = (MAC_ASSOCIATION_RESPONSE, r)" "ma_event_ok (Some e)"
  shows "mae_kind e = MAC_ASSOCIATION_FRAME \<and> mae_epoch e = mar_epoch (ma_request c) \<and> mae_generation e = ma_generation c \<and>
    mae_channel e = mar_channel (ma_request c) \<and> mae_crc_valid e = 1 \<and>
    mae_stamp e - ma_last c < MAC_ASSOCIATION_HALF \<and> now - mae_stamp e < MAC_ASSOCIATION_HALF \<and>
    (\<exists>body h cmd. mae_body e = Some body \<and> response_for (ma_request c) body profile h cmd \<and>
      r = ma_write_record (ma_request c) (mae_stamp e) h cmd (ma_record c))"
proof -
  have n1: "mae_crc_valid e \<noteq> 0 \<Longrightarrow> \<not> mae_crc_valid e > 1 \<Longrightarrow> mae_crc_valid e = 1" using word_le1 by blast
  define q where "q = ma_request c"
  define R where "R = ma_response q (case mae_body e of None \<Rightarrow> [] | Some b \<Rightarrow> b) profile"
  have never: "R \<noteq> Inl MAC_ASSOCIATION_RESPONSE"
    unfolding R_def ma_response_def Let_def by (auto split: sum.splits if_splits)
  note run = assms(1) [unfolded ma_event_def Let_def, folded q_def, folded R_def]
  have g: "mae_kind e = MAC_ASSOCIATION_FRAME" "mae_epoch e = mar_epoch q" "mae_generation e = ma_generation c"
    "mae_channel e = mar_channel q" "mae_crc_valid e = 1" "mae_stamp e - ma_last c < MAC_ASSOCIATION_HALF"
    "now - mae_stamp e < MAC_ASSOCIATION_HALF"
    using run assms(2) n1 by (auto simp: ma_event_ok_def not_le split: if_splits)
  obtain b where b: "mae_body e = Some b" using assms(2) g(1) by (auto simp: ma_event_ok_def)
  obtain h cmd where R: "R = Inr (h, cmd)" "r = ma_write_record q (mae_stamp e) h cmd (ma_record c)"
    using run g never by (auto split: if_splits sum.splits)
  have "response_for q b profile h cmd" using R(1) unfolding R_def b option.case by (rule ma_response_for)
  with g b R(2) show ?thesis unfolding q_def by blast
qed

lemma ma_work_response:
  assumes "ma_work c now event profile = (c1, MAC_ASSOCIATION_RESPONSE)"
  obtains e r where "event = Some e" "ma_event (c\<lparr>ma_remaining := ma_remaining c - 1\<rparr>) now e profile = (MAC_ASSOCIATION_RESPONSE, r)"
    "ma_record c1 = r" "now - ma_opened c < mar_lifetime (ma_request c)"
proof -
  let ?c0 = "c\<lparr>ma_remaining := ma_remaining c - 1\<rparr>"
  obtain d0 r where ev: "(case event of None \<Rightarrow> (MAC_ASSOCIATION_WAITING, ma_record ?c0) | Some e \<Rightarrow> ma_event ?c0 now e profile) = (d0, r)"
    by fastforce
  have x: "c1 = ?c0\<lparr>ma_record := r\<rparr>" "d0 = MAC_ASSOCIATION_RESPONSE" "now - ma_opened c < mar_lifetime (ma_request c)"
    using assms unfolding ma_work_def Let_def ev prod.case by (auto simp: not_le split: if_splits)
  obtain e where e: "event = Some e" using ev x(2) by (cases event) auto
  show thesis using that [OF e] ev x by (simp add: e)
qed

section \<open>Properties\<close>

text \<open>C24. A wait for an association response is bounded: from an accepted start, no run of accepted steps is
  longer than the request's work limit, at most 4096, and a run of that many steps has ended
  the wait, whatever the events and the clock were.\<close>

theorem association_ends:
  assumes "mac_association_start (Some c0) (Some q) now = Inr c" and "ma_run steps c = Some c'"
  shows "length steps \<le> unat (mar_work_limit q) \<and> unat (mar_work_limit q) \<le> 4096 \<and>
    (length steps = unat (mar_work_limit q) \<longrightarrow> ma_phase c' = MAC_ASSOCIATION_DONE \<and> ma_generation c' = ma_generation c0 + 1)"
proof -
  have c: "ma_phase c = MAC_ASSOCIATION_WAIT" "ma_remaining c = mar_work_limit q" "mar_work_limit q \<noteq> 0" "mar_work_limit q \<le> 4096"
    "ma_generation c = ma_generation c0 + 1"
    using assms(1) by (auto simp: mac_association_start_def ma_request_ok_def split: if_splits)
  have "ma_run es x = Some y \<Longrightarrow> ma_generation y = ma_generation x" for es x y
    by (induction es arbitrary: x) (auto simp: ma_step_cases(5) split: sum.splits)
  then show ?thesis using ma_run_bound [OF assms(2) c(1)] c(2-5) assms(2) by (simp add: word_le_nat_alt)
qed

definition sample_request :: mac_association_request where
  "sample_request = mac_request_zero\<lparr>mar_epoch := 1, mar_lifetime := 1000, mar_work_limit := 2, mar_pan_id := 0x1234, mar_channel := 11,
     mar_coordinator_mode := 2, mar_local := [1, 2, 3, 4, 5, 6, 7, 8]\<rparr>"

definition sample_wait :: mac_association where
  "sample_wait = \<lparr>ma_request = sample_request, ma_record = mac_record_zero\<lparr>mao_generation := 1, mao_epoch := 1\<rparr>, ma_generation = 1,
     ma_opened = 5, ma_last = 5, ma_remaining = 2, ma_version = 1, ma_phase = 1\<rparr>"

definition sample_response :: mac_association_event where
  "sample_response = \<lparr>mae_epoch = 1, mae_generation = 1, mae_stamp = 7,
     mae_body = Some [0x63, 0xcc, 1, 0x34, 0x12, 1, 2, 3, 4, 5, 6, 7, 8, 0x11, 0x12, 0x13, 0x14, 0x15, 0x16, 0x17, 0x18, 2, 0xaa, 0xbb, 0],
     mae_kind = 1, mae_channel = 11, mae_crc_valid = 1\<rparr>"

theorem association_ends_witness: "unat (mar_work_limit sample_request) \<le> 4096 \<and>
  (\<exists>c. ma_run [(6, None, 0), (8, Some sample_response, 0)] sample_wait = Some c \<and> ma_phase c = MAC_ASSOCIATION_DONE)"
proof -
  obtain c0 where "mac_association_init True 0 = Inr c0" by (simp add: mac_association_init_def)
  then have s: "mac_association_start (Some c0) (Some sample_request) 5 = Inr sample_wait"
    by (auto simp: mac_association_init_def mac_association_start_def ma_valid_def ma_request_ok_def sample_request_def
        sample_wait_def mac_request_zero_def mac_record_zero_def upt_rec)
  have "ma_run [(6, None, 0), (8, Some sample_response, 0)] sample_wait \<noteq> None" by code_simp
  then obtain c where r: "ma_run [(6, None, 0), (8, Some sample_response, 0)] sample_wait = Some c" by blast
  from association_ends [OF s r] r show ?thesis by (simp add: sample_request_def del: ma_run.simps)
qed

text \<open>C25. A reported response is the coordinator's answer to this wait: the event carried a frame of this epoch and
  generation, received on the request's channel with a good checksum while the lifetime was
  running; the frame decodes to an association response from the selected PAN (and
  coordinator, when it is known by its extended address) to this device; and the record holds
  the address, status and source it carried.\<close>

theorem association_response_sound:
  assumes "mac_association_step_rx (Some c) now event True profile = Inr (c', MAC_ASSOCIATION_RESPONSE)"
  shows "\<exists>e body h cmd. event = Some e \<and> mae_body e = Some body \<and> mae_kind e = MAC_ASSOCIATION_FRAME \<and>
    mae_epoch e = mar_epoch (ma_request c) \<and> mae_generation e = ma_generation c \<and>
    mae_channel e = mar_channel (ma_request c) \<and> mae_crc_valid e = 1 \<and> now - ma_opened c < mar_lifetime (ma_request c) \<and>
    response_for (ma_request c) body profile h cmd \<and>
    ma_record c' = (ma_write_record (ma_request c) (mae_stamp e) h cmd (ma_record c))\<lparr>mao_outcome := MAC_ASSOCIATION_RESPONSE\<rparr>"
proof -
  obtain c1 where a: "ma_work c now event profile = (c1, MAC_ASSOCIATION_RESPONSE)" "c' = ma_finish c1 now MAC_ASSOCIATION_RESPONSE"
    "ma_event_ok event"
    using ma_step_accepted [OF assms] by metis
  obtain e r where e: "event = Some e" "ma_event (c\<lparr>ma_remaining := ma_remaining c - 1\<rparr>) now e profile = (MAC_ASSOCIATION_RESPONSE, r)"
    "ma_record c1 = r" "now - ma_opened c < mar_lifetime (ma_request c)"
    using ma_work_response [OF a(1)] .
  have "ma_record c' = r\<lparr>mao_outcome := MAC_ASSOCIATION_RESPONSE\<rparr>" by (simp add: a(2) e(3) ma_finish_def ma_terminal_def Let_def)
  with ma_event_response [OF e(2)] a(3) e(1,4) show ?thesis by fastforce
qed

theorem association_response_sound_witness:
  "\<exists>h cmd. response_for sample_request (the (mae_body sample_response)) 0 h cmd"
proof -
  have "map_sum id snd (mac_association_step_rx (Some sample_wait) 8 (Some sample_response) True 0) = Inr MAC_ASSOCIATION_RESPONSE"
    by code_simp
  then obtain c' where "mac_association_step_rx (Some sample_wait) 8 (Some sample_response) True 0 = Inr (c', MAC_ASSOCIATION_RESPONSE)"
    by (cases "mac_association_step_rx (Some sample_wait) 8 (Some sample_response) True 0") auto
  from association_response_sound [OF this] obtain e body h cmd where
    "Some sample_response = Some e" "mae_body e = Some body" "response_for (ma_request sample_wait) body 0 h cmd" by blast
  then show ?thesis by (intro exI [of _ h] exI [of _ cmd]) (auto simp: sample_wait_def)
qed

end
