(* ===== verification/Aes_Engine.thy ===== *)
theory Aes_Engine
  imports Flash_Interface
begin

text \<open>
  The AES service every cryptographic module calls: \<open>aes128_encrypt_block\<close> of
  \<open>src/include/aes.h\<close>, which encrypts one 16-byte block on the chip's engine. The driver and the
  engine are a parameter. A call reads the key, the block, the timeout and the poll limit; the
  output buffer and the poll count of the diagnostics are passed in and out, because a failing
  call may leave them as they were. \<open>aes_correct\<close> and \<open>aes_live\<close> state what the header promises.
\<close>

datatype aes_result =
    AES_OK | AES_INVALID_ARGUMENT | AES_INVALID_RANGE | AES_BUFFER_OWNERSHIP | AES_UNSUPPORTED_STATE | AES_BUSY
  | AES_PENDING | AES_STATE_CHANGED | AES_TIMEOUT | AES_POLL_LIMIT | AES_TIMEBASE_ERROR | AES_COUNTER_RANGE

type_synonym cipher = "bytes \<Rightarrow> bytes \<Rightarrow> bytes"
type_synonym 'm aes_call = "bytes \<Rightarrow> bytes \<Rightarrow> u32 \<Rightarrow> u16 \<Rightarrow> bytes \<times> u16 \<Rightarrow> 'm \<Rightarrow> aes_result \<times> (bytes \<times> u16) \<times> 'm"

abbreviation (input) TIMEBASE_HALF_RANGE :: u32 where "TIMEBASE_HALF_RANGE \<equiv> 0x00800000"

text \<open>A successful call stores the encryption of the block under the key.\<close>

definition aes_correct :: "'m aes_call \<Rightarrow> cipher \<Rightarrow> bool" where
  "aes_correct aes E \<longleftrightarrow> (\<forall>k b. length (E k b) = 16) \<and>
     (\<forall>k b timeout limit out m c p m'. aes k b timeout limit out m = (AES_OK, (c, p), m') \<longrightarrow> c = E k b)"

text \<open>Under a machine invariant, calls with a valid timeout and poll limit succeed.\<close>

definition aes_live :: "'m aes_call \<Rightarrow> ('m \<Rightarrow> bool) \<Rightarrow> u32 \<Rightarrow> u16 \<Rightarrow> bool" where
  "aes_live aes ready timeout limit \<longleftrightarrow> (\<forall>k b out m. length k = 16 \<longrightarrow> length b = 16 \<longrightarrow> ready m \<longrightarrow>
     (case aes k b timeout limit out m of (r, _, m') \<Rightarrow> r = AES_OK \<and> ready m'))"

lemma aes_correctD: "aes_correct aes E \<Longrightarrow> aes k b timeout limit out m = (AES_OK, (c, p), m') \<Longrightarrow> c = E k b"
  unfolding aes_correct_def by blast

lemma aes_correct_length [simp]: "aes_correct aes E \<Longrightarrow> length (E k b) = 16"
  unfolding aes_correct_def by blast

lemma aes_liveD:
  "aes_live aes ready timeout limit \<Longrightarrow> length k = 16 \<Longrightarrow> length b = 16 \<Longrightarrow> ready m \<Longrightarrow>
     \<exists>c p m'. aes k b timeout limit out m = (AES_OK, (c, p), m') \<and> ready m'"
  unfolding aes_live_def by (cases "aes k b timeout limit out m") (metis (mono_tags, lifting) case_prodD prod.exhaust)

section \<open>Exclusive or of byte strings\<close>

definition xors :: "bytes \<Rightarrow> bytes \<Rightarrow> bytes" where
  "xors a b = map2 (XOR) a b"

lemma length_xors [simp]: "length (xors a b) = min (length a) (length b)"
  by (simp add: xors_def)

lemma nth_xors [simp]: "i < length a \<Longrightarrow> i < length b \<Longrightarrow> xors a b ! i = a ! i XOR b ! i"
  by (simp add: xors_def)

lemma xors_cancel [simp]: "length a \<le> length b \<Longrightarrow> xors (xors a b) b = a"
  by (rule nth_equalityI) (auto simp: xor.assoc)

lemma take_xors: "take n (xors a b) = xors (take n a) (take n b)"
  by (simp add: xors_def take_map take_zip)

text \<open>The in-place loop \<open>a[i] ^= b[i]\<close> over the first \<open>n\<close> indices.\<close>

definition xor_loop :: "nat \<Rightarrow> nat \<Rightarrow> bytes \<Rightarrow> bytes \<Rightarrow> bytes" where
  "xor_loop n offset b a = fold (\<lambda>i a. a[offset + i := a ! (offset + i) XOR b ! i]) [0..<n] a"

lemma xor_loop_nth:
  "length (xor_loop n offset b a) = length a \<and> (\<forall>k < length a. xor_loop n offset b a ! k =
     (if offset \<le> k \<and> k < offset + n then a ! k XOR b ! (k - offset) else a ! k))"
proof (induction n)
  case (Suc n)
  have "xor_loop (Suc n) offset b a = (xor_loop n offset b a)[offset + n := xor_loop n offset b a ! (offset + n) XOR b ! n]"
    by (simp add: xor_loop_def)
  with Suc show ?case by (cases "offset + n < length a") (auto simp: nth_list_update less_Suc_eq)
qed (auto simp: xor_loop_def)

lemma length_xor_loop [simp]: "length (xor_loop n offset b a) = length a"
  by (simp add: xor_loop_nth)

lemma xor_loop_all: "length a = n \<Longrightarrow> n \<le> length b \<Longrightarrow> xor_loop n 0 b a = xors a b"
  by (rule nth_equalityI) (simp_all add: xor_loop_nth)

section \<open>An engine for concrete runs\<close>

text \<open>A keyed mixing function in place of the cipher, on which the contract holds.\<close>

definition mix_cipher :: cipher where
  "mix_cipher k b = map (\<lambda>i. (k ! (i mod length k) + 3 * b ! (i mod length b)) XOR of_nat i) [0..<16]"

definition mix_engine :: "unit aes_call" where
  "mix_engine k b timeout limit out m = (AES_OK, (mix_cipher k b, 1), m)"

lemma mix_correct: "aes_correct mix_engine mix_cipher"
  by (auto simp: aes_correct_def mix_engine_def mix_cipher_def)

lemma mix_live: "aes_live mix_engine (\<lambda>_. True) timeout limit"
  by (auto simp: aes_live_def mix_engine_def)

end
