(* ===== verification/Ccm_Star.thy ===== *)
theory Ccm_Star
  imports Aes_Engine
begin

text \<open>
  Authenticated encryption (\<open>src/src/ccm_star.c\<close>): AES-CCM* with a 13-byte nonce, a two-byte length
  and tags of 4, 8 or 16 bytes, run block by block through the private buffers of the module. The
  theory gives the mode as a function of byte strings (a CBC chain over the formatted blocks and
  a counter key stream), shows that the buffered code computes it whenever the engine's calls
  succeed, and derives that sealing and opening are inverse and that opening releases nothing
  unless the tag is the right one.
\<close>

abbreviation (input) CCM_STAR_MAX_AAD :: nat where "CCM_STAR_MAX_AAD \<equiv> 132"
abbreviation (input) CCM_STAR_MAX_MESSAGE :: nat where "CCM_STAR_MAX_MESSAGE \<equiv> 116"

datatype ccm_star_result =
    CCM_STAR_OK | CCM_STAR_ARGUMENT | CCM_STAR_LENGTH | CCM_STAR_TAG | CCM_STAR_SPACE | CCM_STAR_AES | CCM_STAR_AUTH

record ccm_star_limits =
  block_timeout :: u32
  block_polls :: u16

record ccm_star_info =
  ccm_polls :: u32
  ccm_blocks :: u8
  ccm_aes_status :: aes_result

record 'm ccm_state =
  ccm_key :: bytes
  ccm_nonce :: bytes
  ccm_mac :: bytes
  ccm_block :: bytes
  ccm_cipher :: bytes
  ccm_work :: bytes
  ccm_tag :: bytes
  ccm_diagnostic_polls :: u16
  ccm_limits :: ccm_star_limits
  ccm_info :: ccm_star_info
  ccm_position :: nat
  ccm_hw :: 'm

definition ccm_account :: "'m ccm_state \<Rightarrow> 'm ccm_state" where
  "ccm_account st = st\<lparr>ccm_info := (ccm_info st)\<lparr>ccm_polls := ccm_polls (ccm_info st) + ucast (ccm_diagnostic_polls st)\<rparr>\<rparr>"

definition ccm_encrypt :: "'m aes_call \<Rightarrow> 'm ccm_state \<Rightarrow> bool \<times> 'm ccm_state" where
  "ccm_encrypt aes st =
     (case aes (ccm_key st) (ccm_block st) (block_timeout (ccm_limits st)) (block_polls (ccm_limits st))
        (ccm_cipher st, ccm_diagnostic_polls st) (ccm_hw st) of
      (r, (c, p), m) \<Rightarrow>
        let info = ccm_info st;
            st1 = ccm_account (st\<lparr>ccm_cipher := c, ccm_diagnostic_polls := p, ccm_hw := m,
              ccm_info := info\<lparr>ccm_blocks := ccm_blocks info + 1, ccm_aes_status := r\<rparr>\<rparr>)
        in (ccm_aes_status (ccm_info st1) = AES_OK, st1))"

definition ccm_flush :: "'m aes_call \<Rightarrow> 'm ccm_state \<Rightarrow> bool \<times> 'm ccm_state" where
  "ccm_flush aes st =
     (case ccm_encrypt aes (st\<lparr>ccm_block := xor_loop 16 0 (ccm_mac st) (ccm_block st)\<rparr>) of (ok, st1) \<Rightarrow>
        if \<not> ok then (False, st1)
        else (True, st1\<lparr>ccm_mac := take 16 (ccm_cipher st1), ccm_block := replicate 16 0, ccm_position := 0\<rparr>))"

fun ccm_feed :: "'m aes_call \<Rightarrow> bytes \<Rightarrow> 'm ccm_state \<Rightarrow> bool \<times> 'm ccm_state" where
  "ccm_feed aes [] st = (True, st)"
| "ccm_feed aes (d # data) st =
     (let st1 = st\<lparr>ccm_block := (ccm_block st)[ccm_position st := d], ccm_position := ccm_position st + 1\<rparr> in
      if ccm_position st1 = 16 then
        (case ccm_flush aes st1 of (ok, st2) \<Rightarrow> if ok then ccm_feed aes data st2 else (False, st2))
      else ccm_feed aes data st1)"

text \<open>The tail \<open>!state.position || flush()\<close>.\<close>

definition ccm_drain :: "'m aes_call \<Rightarrow> 'm ccm_state \<Rightarrow> bool \<times> 'm ccm_state" where
  "ccm_drain aes st = (if ccm_position st = 0 then (True, st) else ccm_flush aes st)"

definition ccm_first_block :: "bytes \<Rightarrow> bool \<Rightarrow> nat \<Rightarrow> nat \<Rightarrow> bytes" where
  "ccm_first_block nonce aad sz tag_length =
     ((1 OR push_bit 3 (of_nat ((tag_length - 2) div 2))) OR (if aad then 0x40 else 0)) # take 13 nonce @ [0, of_nat sz]"

definition ccm_authenticate :: "'m aes_call \<Rightarrow> bytes \<Rightarrow> nat \<Rightarrow> nat \<Rightarrow> 'm ccm_state \<Rightarrow> bool \<times> 'm ccm_state" where
  "ccm_authenticate aes aad sz tag_length st =
     (case ccm_flush aes (st\<lparr>ccm_mac := replicate 16 0,
         ccm_block := ccm_first_block (ccm_nonce st) (aad \<noteq> []) sz tag_length\<rparr>) of (ok, st1) \<Rightarrow>
      if \<not> ok then (False, st1)
      else (case (if aad \<noteq> [] then
             (case ccm_feed aes aad (st1\<lparr>ccm_block := (ccm_block st1)[0 := 0, 1 := of_nat (length aad)], ccm_position := 2\<rparr>) of
                (ok, st2) \<Rightarrow> if \<not> ok then (False, st2) else ccm_drain aes st2)
           else (True, st1)) of (ok, st3) \<Rightarrow>
        if \<not> ok then (False, st3)
        else (case ccm_feed aes (take sz (ccm_work st3)) st3 of (ok, st4) \<Rightarrow>
          if \<not> ok then (False, st4) else ccm_drain aes st4)))"

definition ccm_counter :: "'m aes_call \<Rightarrow> u8 \<Rightarrow> 'm ccm_state \<Rightarrow> bool \<times> 'm ccm_state" where
  "ccm_counter aes number st = ccm_encrypt aes (st\<lparr>ccm_block := [1] @ take 13 (ccm_nonce st) @ [0, number]\<rparr>)"

function ccm_transform :: "'m aes_call \<Rightarrow> nat \<Rightarrow> nat \<Rightarrow> u8 \<Rightarrow> 'm ccm_state \<Rightarrow> bool \<times> 'm ccm_state" where
  "ccm_transform aes sz offset number st =
     (if offset < sz then
        (case ccm_counter aes number st of (ok, st1) \<Rightarrow>
           if \<not> ok then (False, st1)
           else let n = min 16 (sz - offset) in
             ccm_transform aes sz (offset + n) (number + 1)
               (st1\<lparr>ccm_work := xor_loop n offset (ccm_cipher st1) (ccm_work st1)\<rparr>))
      else (True, st))"
  by pat_completeness auto
termination by (relation "measure (\<lambda>(aes, sz, offset, number, st). sz - offset)") auto

declare ccm_transform.simps [simp del]

definition ccm_start :: "bytes \<Rightarrow> bytes \<Rightarrow> ccm_star_limits \<Rightarrow> bytes \<Rightarrow> bytes \<Rightarrow> 'm \<Rightarrow> 'm ccm_state" where
  "ccm_start key nonce limits work tag m =
     \<lparr>ccm_key = take 16 key, ccm_nonce = take 13 nonce, ccm_mac = replicate 16 0, ccm_block = replicate 16 0,
      ccm_cipher = replicate 16 0, ccm_work = store_at 0 work (replicate 132 0), ccm_tag = store_at 0 tag (replicate 16 0),
      ccm_diagnostic_polls = 0, ccm_limits = limits, ccm_info = \<lparr>ccm_polls = 0, ccm_blocks = 0, ccm_aes_status = AES_OK\<rparr>,
      ccm_position = 0, ccm_hw = m\<rparr>"

text \<open>From the zeroed state to the result: the bytes for the output, none when there is no success.\<close>

definition ccm_run :: "'m aes_call \<Rightarrow> bool \<Rightarrow> bytes \<Rightarrow> nat \<Rightarrow> nat \<Rightarrow> 'm ccm_state \<Rightarrow> ccm_star_result \<times> bytes \<times> 'm ccm_state" where
  "ccm_run aes open aad sz tag_length st =
     (case (if open then ccm_transform aes sz 0 1 st else (True, st)) of (ok, st1) \<Rightarrow>
      if \<not> ok then (CCM_STAR_AES, [], st1)
      else (case ccm_authenticate aes aad sz tag_length st1 of (ok, st2) \<Rightarrow>
      if \<not> ok then (CCM_STAR_AES, [], st2)
      else (case ccm_counter aes 0 st2 of (ok, st3) \<Rightarrow>
      if \<not> ok then (CCM_STAR_AES, [], st3)
      else let st4 = st3\<lparr>ccm_mac := xor_loop tag_length 0 (ccm_cipher st3) (ccm_mac st3)\<rparr> in
      if open \<and> foldl (OR) 0 (map (\<lambda>i. ccm_mac st4 ! i XOR ccm_tag st4 ! i) [0..<tag_length]) \<noteq> 0 then (CCM_STAR_AUTH, [], st4)
      else (case (if open then (True, st4) else ccm_transform aes sz 0 1 st4) of (ok, st5) \<Rightarrow>
      if \<not> ok then (CCM_STAR_AES, [], st5)
      else let st6 = (if open then st5 else st5\<lparr>ccm_work := store_at sz (take tag_length (ccm_mac st5)) (ccm_work st5)\<rparr>) in
        (CCM_STAR_OK, take (sz + (if open then 0 else tag_length)) (ccm_work st6), st6)))))"

text \<open>\<open>output\<close>, \<open>written\<close> and \<open>info\<close> say whether the pointers are given; the result carries the bytes
  stored in the output and, unless the call was refused, the information record.\<close>

definition ccm_star_crypt ::
    "'m aes_call \<Rightarrow> u8 \<Rightarrow> bytes option \<Rightarrow> bytes option \<Rightarrow> bytes option \<Rightarrow> nat \<Rightarrow> bytes option \<Rightarrow> nat \<Rightarrow> nat \<Rightarrow> bool \<Rightarrow> nat \<Rightarrow> bool \<Rightarrow>
     ccm_star_limits option \<Rightarrow> bool \<Rightarrow> 'm \<Rightarrow> ccm_star_result \<times> bytes \<times> ccm_star_info option \<times> 'm" where
  "ccm_star_crypt aes open key nonce aad aad_length input len tag_length out capacity written limits info m =
     (if open > 1 \<or> key = None \<or> nonce = None \<or> \<not> out \<or> \<not> written \<or> limits = None \<or> \<not> info \<or>
        (aad = None \<and> aad_length \<noteq> 0) \<or> (input = None \<and> len \<noteq> 0) \<or>
        block_timeout (the limits) = 0 \<or> block_timeout (the limits) \<ge> TIMEBASE_HALF_RANGE \<or> block_polls (the limits) = 0
      then (CCM_STAR_ARGUMENT, [], None, m)
      else if tag_length \<noteq> 4 \<and> tag_length \<noteq> 8 \<and> tag_length \<noteq> 16 then (CCM_STAR_TAG, [], None, m)
      else let opening = (open \<noteq> 0); t = (if opening then tag_length else 0) in
      if aad_length > CCM_STAR_MAX_AAD \<or> (opening \<and> len < tag_length) \<or> len > CCM_STAR_MAX_MESSAGE + t then (CCM_STAR_LENGTH, [], None, m)
      else let sz = len - t; inp = (case input of None \<Rightarrow> [] | Some b \<Rightarrow> b) in
      if capacity < sz + (if opening then 0 else tag_length) then (CCM_STAR_SPACE, [], None, m)
      else (case ccm_run aes opening (take aad_length (case aad of None \<Rightarrow> [] | Some a \<Rightarrow> a)) sz tag_length
          (ccm_start (the key) (the nonce) (the limits) (take sz inp)
            (if opening then take tag_length (drop sz inp) else []) m) of
        (r, bytes, st) \<Rightarrow> (r, bytes, Some (ccm_info st), ccm_hw st)))"

section \<open>The mode as functions of byte strings\<close>

definition pad16 :: "bytes \<Rightarrow> bytes" where
  "pad16 s = s @ replicate ((16 - length s mod 16) mod 16) 0"

text \<open>The CBC chain from \<open>m\<close> over a string of whole blocks.\<close>

function cbc :: "cipher \<Rightarrow> bytes \<Rightarrow> bytes \<Rightarrow> bytes \<Rightarrow> bytes" where
  "cbc E k m s = (if s = [] then m else cbc E k (E k (xors (take 16 s) m)) (drop 16 s))"
  by pat_completeness auto
termination by (relation "measure (\<lambda>(E, k, m, s). length s)") auto

declare cbc.simps [simp del]

definition ctr_block :: "bytes \<Rightarrow> u8 \<Rightarrow> bytes" where
  "ctr_block nonce number = [1] @ take 13 nonce @ [0, number]"

definition key_stream :: "cipher \<Rightarrow> bytes \<Rightarrow> bytes \<Rightarrow> nat \<Rightarrow> bytes" where
  "key_stream E k nonce n = map (\<lambda>i. E k (ctr_block nonce (of_nat (i div 16 + 1))) ! (i mod 16)) [0..<n]"

definition ccm_ctr :: "cipher \<Rightarrow> bytes \<Rightarrow> bytes \<Rightarrow> bytes \<Rightarrow> bytes" where
  "ccm_ctr E k nonce p = xors p (key_stream E k nonce (length p))"

text \<open>The first block: the flags (64 for associated data, eight times the coded tag length, one for
  a two-octet length field), the nonce and the message length, high octet first.\<close>

definition ccm_b0 :: "bytes \<Rightarrow> bool \<Rightarrow> nat \<Rightarrow> nat \<Rightarrow> bytes" where
  "ccm_b0 nonce adata n t = [of_nat ((if adata then 64 else 0) + 8 * ((t - 2) div 2) + 1)] @ nonce @ [of_nat (n div 256), of_nat (n mod 256)]"

definition ccm_formatted :: "bytes \<Rightarrow> bytes \<Rightarrow> bytes \<Rightarrow> nat \<Rightarrow> bytes" where
  "ccm_formatted nonce aad p t = ccm_b0 nonce (aad \<noteq> []) (length p) t @
     (if aad = [] then [] else pad16 ([0, of_nat (length aad)] @ aad)) @ pad16 p"

definition ccm_tag_of :: "cipher \<Rightarrow> bytes \<Rightarrow> bytes \<Rightarrow> bytes \<Rightarrow> bytes \<Rightarrow> nat \<Rightarrow> bytes" where
  "ccm_tag_of E k nonce aad p t =
     take t (xors (cbc E k (replicate 16 0) (ccm_formatted nonce aad p t)) (E k (ctr_block nonce 0)))"

definition ccm_seal :: "cipher \<Rightarrow> bytes \<Rightarrow> bytes \<Rightarrow> bytes \<Rightarrow> nat \<Rightarrow> bytes \<Rightarrow> bytes" where
  "ccm_seal E k nonce aad t p = ccm_ctr E k nonce p @ ccm_tag_of E k nonce aad p t"

definition ccm_open :: "cipher \<Rightarrow> bytes \<Rightarrow> bytes \<Rightarrow> bytes \<Rightarrow> nat \<Rightarrow> bytes \<Rightarrow> bytes option" where
  "ccm_open E k nonce aad t c = (if length c < t then None else
     let p = ccm_ctr E k nonce (take (length c - t) c) in
     if drop (length c - t) c = ccm_tag_of E k nonce aad p t then Some p else None)"

lemma length_key_stream [simp]: "length (key_stream E k nonce n) = n"
  by (simp add: key_stream_def)

lemma length_ccm_ctr [simp]: "length (ccm_ctr E k nonce p) = length p"
  by (simp add: ccm_ctr_def)

lemma ccm_ctr_involutive [simp]: "ccm_ctr E k nonce (ccm_ctr E k nonce p) = p"
  by (simp add: ccm_ctr_def)

lemma cbc_nil [simp]: "cbc E k m [] = m"
  by (simp add: cbc.simps)

lemma cbc_append: "16 dvd length a \<Longrightarrow> cbc E k m (a @ b) = cbc E k (cbc E k m a) b"
proof (induction E k m a rule: cbc.induct)
  case (1 E k m a)
  show ?case
  proof (cases "a = []")
    case False
    with 1 have "16 \<le> length a" by (auto dest: dvd_imp_le)
    then have "16 dvd length (drop 16 a)" using 1 by simp
    from 1(1) [OF False this] False \<open>16 \<le> length a\<close> show ?thesis by (simp add: cbc.simps [of E k m])
  qed simp
qed

lemma cbc_block: "length b = 16 \<Longrightarrow> cbc E k m b = E k (xors b m)"
  by (auto simp: cbc.simps [of E k m b])

lemma length_cbc: "(\<And>k b. length (E k b) = 16) \<Longrightarrow> length m = 16 \<Longrightarrow> length (cbc E k m s) = 16"
proof (induction E k m s rule: cbc.induct)
  case (1 E k m s)
  then show ?case by (simp add: cbc.simps [of E k m s])
qed

lemma pad16_dvd [simp]: "16 dvd length (pad16 s)"
proof -
  have l: "length (pad16 s) = length s + (16 - length s mod 16) mod 16" by (simp add: pad16_def)
  have "(a + (16 - a mod 16) mod 16) mod 16 = 0" for a :: nat
  proof (cases "a mod 16 = 0")
    case False
    have "a mod 16 < 16" by simp
    with False have "(16 - a mod 16) mod 16 = 16 - a mod 16" by simp
    moreover have "16 * q + r + (16 - r) = 16 * (q + 1)" if "r < 16" for q r :: nat using that by simp
    from this [OF \<open>a mod 16 < 16\<close>, of "a div 16"] have "a + (16 - a mod 16) = 16 * (a div 16 + 1)" by simp
    ultimately show ?thesis by (metis mod_mult_self1_is_0)
  qed simp
  then show ?thesis unfolding l by (rule mod_0_imp_dvd)
qed

lemma pad16_split:
  assumes "16 dvd length full" "length part < 16"
  shows "pad16 (full @ part) = (if part = [] then full else full @ part @ replicate (16 - length part) 0)"
proof -
  have "(length full + length part) mod 16 = length part" using assms by (auto simp: mod_add_eq dvd_def)
  then show ?thesis using assms(2) by (auto simp: pad16_def)
qed

lemma ccm_first_block_eq:
  "length nonce = 13 \<Longrightarrow> n < 256 \<Longrightarrow> t \<in> {4, 8, 16} \<Longrightarrow> ccm_first_block nonce a n t = ccm_b0 nonce a n t"
  by (auto simp: ccm_first_block_def ccm_b0_def)

lemma length_ccm_first_block [simp]: "length nonce = 13 \<Longrightarrow> length (ccm_first_block nonce a n t) = 16"
  by (simp add: ccm_first_block_def)

lemma length_ccm_tag_of [simp]: "(\<And>k b. length (E k b) = 16) \<Longrightarrow> t \<le> 16 \<Longrightarrow> length (ccm_tag_of E k nonce aad p t) = t"
  by (simp add: ccm_tag_of_def length_cbc)

lemma ccm_open_seal: "(\<And>k b. length (E k b) = 16) \<Longrightarrow> t \<le> 16 \<Longrightarrow> ccm_open E k nonce aad t (ccm_seal E k nonce aad t p) = Some p"
  by (simp add: ccm_open_def ccm_seal_def Let_def)

lemma ccm_open_iff:
  "(\<And>k b. length (E k b) = 16) \<Longrightarrow> t \<le> 16 \<Longrightarrow> ccm_open E k nonce aad t c = Some p \<longleftrightarrow> c = ccm_seal E k nonce aad t p"
proof -
  assume E: "\<And>k b. length (E k b) = 16" and t: "t \<le> 16"
  have "c = ccm_seal E k nonce aad t p" if o: "ccm_open E k nonce aad t c = Some p"
  proof -
    have "p = ccm_ctr E k nonce (take (length c - t) c)" "drop (length c - t) c = ccm_tag_of E k nonce aad p t"
      using o by (auto simp: ccm_open_def Let_def split: if_splits)
    then show ?thesis by (metis append_take_drop_id ccm_ctr_involutive ccm_seal_def)
  qed
  then show ?thesis using ccm_open_seal [of E t, OF E t] by blast
qed

section \<open>The buffered code computes the mode\<close>

text \<open>What no step changes, and that the engine stays usable.\<close>

definition ccm_same :: "'m ccm_state \<Rightarrow> 'm ccm_state \<Rightarrow> bool" where
  "ccm_same st st' \<longleftrightarrow> ccm_key st' = ccm_key st \<and> ccm_nonce st' = ccm_nonce st \<and> ccm_tag st' = ccm_tag st \<and> ccm_limits st' = ccm_limits st"

definition ccm_live :: "'m aes_call \<Rightarrow> ('m \<Rightarrow> bool) \<Rightarrow> 'm ccm_state \<Rightarrow> bool" where
  "ccm_live aes ready st \<longleftrightarrow> aes_live aes ready (block_timeout (ccm_limits st)) (block_polls (ccm_limits st)) \<and>
     ready (ccm_hw st) \<and> length (ccm_key st) = 16"

lemma ccm_same_refl [simp]: "ccm_same st st"
  by (simp add: ccm_same_def)

lemma ccm_same_trans: "ccm_same a b \<Longrightarrow> ccm_same b c \<Longrightarrow> ccm_same a c"
  by (simp add: ccm_same_def)

lemma ccm_encrypt_spec:
  assumes "aes_correct aes E" "ccm_encrypt aes st = (ok, st')"
  shows "ccm_live aes ready st \<Longrightarrow> length (ccm_block st) = 16 \<Longrightarrow> ok"
    "ok \<Longrightarrow> ccm_cipher st' = E (ccm_key st) (ccm_block st) \<and> ccm_same st st' \<and> ccm_mac st' = ccm_mac st \<and>
       ccm_work st' = ccm_work st \<and> ccm_position st' = ccm_position st \<and> ccm_block st' = ccm_block st"
    "ccm_live aes ready st \<Longrightarrow> length (ccm_block st) = 16 \<Longrightarrow> ccm_live aes ready st'"
proof -
  obtain r c p m where a: "aes (ccm_key st) (ccm_block st) (block_timeout (ccm_limits st)) (block_polls (ccm_limits st))
        (ccm_cipher st, ccm_diagnostic_polls st) (ccm_hw st) = (r, (c, p), m)" by (metis prod.exhaust)
  have ok: "ok = (r = AES_OK)"
    and st': "ccm_cipher st' = c" "ccm_hw st' = m" "ccm_same st st'" "ccm_mac st' = ccm_mac st" "ccm_work st' = ccm_work st"
      "ccm_position st' = ccm_position st" "ccm_block st' = ccm_block st" "ccm_limits st' = ccm_limits st" "ccm_key st' = ccm_key st"
    using assms(2) a by (auto simp: ccm_encrypt_def ccm_account_def ccm_same_def Let_def)
  have live: "r = AES_OK \<and> ready m" if "ccm_live aes ready st" "length (ccm_block st) = 16"
    using that aes_liveD [of aes ready "block_timeout (ccm_limits st)" "block_polls (ccm_limits st)" "ccm_key st" "ccm_block st" "ccm_hw st"
        "(ccm_cipher st, ccm_diagnostic_polls st)"] a by (auto simp: ccm_live_def)
  show "ccm_live aes ready st \<Longrightarrow> length (ccm_block st) = 16 \<Longrightarrow> ok" using live ok by simp
  show "ok \<Longrightarrow> ccm_cipher st' = E (ccm_key st) (ccm_block st) \<and> ccm_same st st' \<and> ccm_mac st' = ccm_mac st \<and>
       ccm_work st' = ccm_work st \<and> ccm_position st' = ccm_position st \<and> ccm_block st' = ccm_block st"
    using ok st' aes_correctD [OF assms(1)] a by auto
  show "ccm_live aes ready st \<Longrightarrow> length (ccm_block st) = 16 \<Longrightarrow> ccm_live aes ready st'"
    using live st' by (simp add: ccm_live_def)
qed

lemma ccm_flush_spec:
  assumes c: "aes_correct aes E" and f: "ccm_flush aes st = (ok, st')" and len: "length (ccm_block st) = 16" "length (ccm_mac st) = 16"
  shows "ccm_live aes ready st \<Longrightarrow> ok \<and> ccm_live aes ready st'"
    "ok \<Longrightarrow> ccm_mac st' = E (ccm_key st) (xors (ccm_block st) (ccm_mac st)) \<and> ccm_same st st' \<and>
       ccm_work st' = ccm_work st \<and> ccm_position st' = 0 \<and> ccm_block st' = replicate 16 0"
proof -
  let ?s = "st\<lparr>ccm_block := xor_loop 16 0 (ccm_mac st) (ccm_block st)\<rparr>"
  obtain ok1 st1 where e: "ccm_encrypt aes ?s = (ok1, st1)" by fastforce
  have ok: "ok = ok1" and st': "ok1 \<Longrightarrow> st' = st1\<lparr>ccm_mac := take 16 (ccm_cipher st1), ccm_block := replicate 16 0, ccm_position := 0\<rparr>"
    using f by (auto simp: ccm_flush_def e split: if_splits)
  note sp = ccm_encrypt_spec [OF c e]
  have l: "ccm_live aes ready ?s = ccm_live aes ready st" by (simp add: ccm_live_def)
  show "ccm_live aes ready st \<Longrightarrow> ok \<and> ccm_live aes ready st'"
    using sp(1,3) [of ready] l ok st' len by (auto simp: ccm_live_def)
  show "ok \<Longrightarrow> ccm_mac st' = E (ccm_key st) (xors (ccm_block st) (ccm_mac st)) \<and> ccm_same st st' \<and>
       ccm_work st' = ccm_work st \<and> ccm_position st' = 0 \<and> ccm_block st' = replicate 16 0"
    using sp(2) st' ok len c by (simp add: xor_loop_all ccm_same_def)
qed

text \<open>The bytes \<open>s\<close> absorbed since the chain value \<open>m\<close>: whole blocks are in the chain, the rest waits in
  the block buffer.\<close>

definition absorbed :: "cipher \<Rightarrow> bytes \<Rightarrow> bytes \<Rightarrow> 'm ccm_state \<Rightarrow> bool" where
  "absorbed E m s st \<longleftrightarrow> (\<exists>full part. s = full @ part \<and> 16 dvd length full \<and> length part = ccm_position st \<and> length part < 16 \<and>
     ccm_mac st = cbc E (ccm_key st) m full \<and> ccm_block st = part @ replicate (16 - length part) 0)"

lemma absorbed_byte:
  assumes "absorbed E m s st" "ccm_position st + 1 < 16"
  shows "absorbed E m (s @ [d]) (st\<lparr>ccm_block := (ccm_block st)[ccm_position st := d], ccm_position := ccm_position st + 1\<rparr>)"
proof -
  obtain full part where a: "s = full @ part" "16 dvd length full" "length part = ccm_position st" "length part < 16"
    "ccm_mac st = cbc E (ccm_key st) m full" "ccm_block st = part @ replicate (16 - length part) 0"
    using assms(1) by (auto simp: absorbed_def)
  have "16 - length part = Suc (15 - length part)" using a(4) by simp
  then have "(ccm_block st)[ccm_position st := d] = (part @ [d]) @ replicate (16 - length (part @ [d])) 0"
    using a(3,6) by (simp add: list_update_append)
  then show ?thesis unfolding absorbed_def using a assms(2)
    by (intro exI [of _ full] exI [of _ "part @ [d]"]) simp
qed

lemma absorbed_full:
  assumes c: "aes_correct aes E" and a: "absorbed E m s st" "ccm_position st + 1 = 16" and m: "length m = 16"
    and f: "ccm_flush aes (st\<lparr>ccm_block := (ccm_block st)[ccm_position st := d], ccm_position := 16\<rparr>) = (ok, st')"
  shows "ccm_live aes ready st \<Longrightarrow> ok \<and> ccm_live aes ready st'"
    "ok \<Longrightarrow> absorbed E m (s @ [d]) st' \<and> ccm_same st st' \<and> ccm_work st' = ccm_work st"
proof -
  obtain full part where a: "s = full @ part" "16 dvd length full" "length part = ccm_position st" "length part < 16"
    "ccm_mac st = cbc E (ccm_key st) m full" "ccm_block st = part @ replicate (16 - length part) 0"
    using a(1) by (auto simp: absorbed_def)
  have p: "length part = 15" using a(3) assms(3) by simp
  then have b: "(ccm_block st)[ccm_position st := d] = part @ [d]" using a(3,6) by (simp add: list_update_append)
  have len: "length (part @ [d]) = 16" "length (ccm_mac st) = 16" using p a(5) m c length_cbc [of E] by simp_all
  note sp = ccm_flush_spec [OF c f, unfolded b, simplified, OF len(1) [simplified] len(2)]
  show "ccm_live aes ready st \<Longrightarrow> ok \<and> ccm_live aes ready st'" using sp(1) [of ready] by (simp add: ccm_live_def)
  have k: "cbc E (ccm_key st) m (s @ [d]) = E (ccm_key st) (xors (part @ [d]) (ccm_mac st))"
    using a len(1) by (simp add: cbc_append cbc_block)
  show "ok \<Longrightarrow> absorbed E m (s @ [d]) st' \<and> ccm_same st st' \<and> ccm_work st' = ccm_work st"
    using sp(2) k a(1,2) p unfolding absorbed_def by (auto simp: ccm_same_def intro!: exI [of _ "s @ [d]"] exI [of _ "[]"])
qed

lemma ccm_feed_spec:
  "ccm_feed aes ds st = (ok, st') \<Longrightarrow> aes_correct aes E \<Longrightarrow> absorbed E m s st \<Longrightarrow> length m = 16 \<Longrightarrow>
   (ccm_live aes ready st \<longrightarrow> ok \<and> ccm_live aes ready st') \<and>
   (ok \<longrightarrow> absorbed E m (s @ ds) st' \<and> ccm_same st st' \<and> ccm_work st' = ccm_work st)"
proof (induction ds arbitrary: s st)
  case (Cons d ds)
  let ?st1 = "st\<lparr>ccm_block := (ccm_block st)[ccm_position st := d], ccm_position := ccm_position st + 1\<rparr>"
  have pos: "ccm_position st < 16" using Cons.prems(3) by (auto simp: absorbed_def)
  show ?case
  proof (cases "ccm_position st + 1 = 16")
    case True
    then obtain ok2 st2 where f: "ccm_flush aes (st\<lparr>ccm_block := (ccm_block st)[ccm_position st := d], ccm_position := 16\<rparr>) = (ok2, st2)"
      by fastforce
    note sp = absorbed_full [OF Cons.prems(2,3) True Cons.prems(4) f]
    have r: "if ok2 then ccm_feed aes ds st2 = (ok, st') else \<not> ok \<and> st' = st2"
      using Cons.prems(1) True f by (auto simp: Let_def split: if_splits)
    show ?thesis
    proof (cases ok2)
      case True
      with Cons.IH [of st2 "s @ [d]"] r sp Cons.prems(2,4) show ?thesis by (auto intro: ccm_same_trans)
    next
      case False
      with sp(1) r show ?thesis by auto
    qed
  next
    case False
    have r: "ccm_feed aes ds ?st1 = (ok, st')" using Cons.prems(1) False by (simp add: Let_def)
    have l: "ccm_live aes ready ?st1 = ccm_live aes ready st" "ccm_same st st' = ccm_same ?st1 st'" "ccm_work ?st1 = ccm_work st"
      by (simp_all add: ccm_live_def ccm_same_def)
    show ?thesis
      using Cons.IH [OF r Cons.prems(2) absorbed_byte [OF Cons.prems(3)] Cons.prems(4)] False pos l by simp
  qed
qed auto

lemma ccm_drain_spec:
  assumes c: "aes_correct aes E" and a: "absorbed E m s st" and m: "length m = 16" and d: "ccm_drain aes st = (ok, st')"
  shows "(ccm_live aes ready st \<longrightarrow> ok \<and> ccm_live aes ready st') \<and>
    (ok \<longrightarrow> ccm_mac st' = cbc E (ccm_key st) m (pad16 s) \<and> ccm_block st' = replicate 16 0 \<and> ccm_position st' = 0 \<and>
      ccm_same st st' \<and> ccm_work st' = ccm_work st)"
proof -
  obtain full part where a: "s = full @ part" "16 dvd length full" "length part = ccm_position st" "length part < 16"
    "ccm_mac st = cbc E (ccm_key st) m full" "ccm_block st = part @ replicate (16 - length part) 0"
    using a by (auto simp: absorbed_def)
  show ?thesis
  proof (cases "part = []")
    case True
    then show ?thesis using a d pad16_split [OF a(2,4)] by (simp add: ccm_drain_def)
  next
    case False
    then have f: "ccm_flush aes st = (ok, st')" using a(3) d by (auto simp: ccm_drain_def split: if_splits)
    have len: "length (ccm_block st) = 16" "length (ccm_mac st) = 16" using a(4-6) m c length_cbc [of E] by simp_all
    have "cbc E (ccm_key st) m (pad16 s) = E (ccm_key st) (xors (ccm_block st) (ccm_mac st))"
      using False a pad16_split [OF a(2,4)] len by (simp add: cbc_append cbc_block)
    then show ?thesis using ccm_flush_spec [OF c f len] by metis
  qed
qed

lemma absorbed_start: "ccm_position st = 0 \<Longrightarrow> ccm_block st = replicate 16 0 \<Longrightarrow> absorbed E (ccm_mac st) [] st"
  by (simp add: absorbed_def)

text \<open>Feeding a string into an empty block buffer and draining it.\<close>

lemma ccm_feed_drain:
  assumes c: "aes_correct aes E" and a: "absorbed E m s st" and m: "length m = 16"
    and f: "ccm_feed aes ds st = (ok1, st1)" and d: "ccm_drain aes st1 = (ok2, st2)"
  shows "(ccm_live aes ready st \<longrightarrow> ok1 \<and> ok2 \<and> ccm_live aes ready st2) \<and>
    (ok1 \<and> ok2 \<longrightarrow> ccm_mac st2 = cbc E (ccm_key st) m (pad16 (s @ ds)) \<and> ccm_block st2 = replicate 16 0 \<and> ccm_position st2 = 0 \<and>
      ccm_same st st2 \<and> ccm_work st2 = ccm_work st)"
proof -
  note F = ccm_feed_spec [OF f c a m, of ready]
  show ?thesis
  proof (cases ok1)
    case True
    with F have a1: "absorbed E m (s @ ds) st1" by simp
    have "ccm_key st1 = ccm_key st" using F True by (simp add: ccm_same_def)
    then show ?thesis using F True ccm_drain_spec [OF c a1 m d, of ready] by (auto intro: ccm_same_trans)
  qed (use F in simp)
qed

lemma ccm_authenticate_spec:
  assumes c: "aes_correct aes E" and au: "ccm_authenticate aes aad sz t st = (ok, st')"
    and n: "length (ccm_nonce st) = 13" and w: "sz \<le> length (ccm_work st)" and t: "sz < 256" "t \<in> {4, 8, 16}"
  shows "(ccm_live aes ready st \<longrightarrow> ok \<and> ccm_live aes ready st') \<and>
    (ok \<longrightarrow> ccm_mac st' = cbc E (ccm_key st) (replicate 16 0) (ccm_formatted (ccm_nonce st) aad (take sz (ccm_work st)) t) \<and>
      ccm_same st st' \<and> ccm_work st' = ccm_work st)"
proof -
  let ?b0 = "ccm_first_block (ccm_nonce st) (aad \<noteq> []) sz t"
  let ?s0 = "st\<lparr>ccm_mac := replicate 16 0, ccm_block := ?b0\<rparr>"
  let ?h = "[0, of_nat (length aad)]"
  obtain ok1 st1 where 1: "ccm_flush aes ?s0 = (ok1, st1)" by fastforce
  note f1 = ccm_flush_spec [OF c 1, simplified, OF length_ccm_first_block [OF n]]
  have l0: "ccm_live aes ready ?s0 = ccm_live aes ready st" by (simp add: ccm_live_def)
  let ?a1 = "st1\<lparr>ccm_block := (ccm_block st1)[0 := 0, 1 := of_nat (length aad)], ccm_position := 2\<rparr>"
  obtain ok2 st2 where 2: "ccm_feed aes aad ?a1 = (ok2, st2)" by fastforce
  obtain ok3 st3 where 3: "ccm_drain aes st2 = (ok3, st3)" by fastforce
  let ?m1 = "cbc E (ccm_key st) (replicate 16 0) ?b0"
  define stm where "stm = (if aad = [] then st1 else st3)"
  define okm where "okm = (if aad = [] then ok1 else ok1 \<and> ok2 \<and> ok3)"
  let ?sa = "if aad = [] then [] else pad16 (?h @ aad)"
  have b0: "length ?b0 = 16" using n by simp
  have m1: "length ?m1 = 16" using c by (intro length_cbc) simp_all
  have S1: "ok1 \<Longrightarrow> ccm_mac st1 = ?m1 \<and> ccm_same st st1 \<and> ccm_work st1 = ccm_work st \<and> ccm_position st1 = 0 \<and> ccm_block st1 = replicate 16 0"
    using f1(2) b0 by (simp add: cbc_block ccm_same_def)
  have M: "(ccm_live aes ready st \<longrightarrow> okm \<and> ccm_live aes ready stm) \<and>
    (okm \<longrightarrow> ccm_mac stm = cbc E (ccm_key st) ?m1 ?sa \<and> ccm_block stm = replicate 16 0 \<and> ccm_position stm = 0 \<and>
      ccm_same st stm \<and> ccm_work stm = ccm_work st)"
  proof (cases "aad = []")
    case True
    then show ?thesis using S1 f1(1) [of ready] l0 by (auto simp: okm_def stm_def)
  next
    case False
    show ?thesis
    proof (cases ok1)
      case True
      note S = S1 [OF this]
      have "(replicate 16 0 :: bytes)[0 := 0, 1 := x] = [0, x] @ replicate 14 0" for x by (simp add: numeral_eq_Suc)
      then have "absorbed E ?m1 ?h ?a1"
        using S unfolding absorbed_def by (intro exI [of _ "[]"] exI [of _ ?h]) simp
      note fd = ccm_feed_drain [OF c this m1 2 3, of ready]
      have k: "ccm_key st1 = ccm_key st" "ccm_live aes ready ?a1 = ccm_live aes ready st1" using S by (simp_all add: ccm_same_def ccm_live_def)
      show ?thesis using fd False True S f1(1) [of ready] l0 k unfolding okm_def stm_def
        by (auto simp: ccm_same_def)
    next
      case False
      then show ?thesis using \<open>aad \<noteq> []\<close> f1(1) [of ready] l0 by (auto simp: okm_def)
    qed
  qed
  obtain ok4 st4 where 4: "ccm_feed aes (take sz (ccm_work stm)) stm = (ok4, st4)" by fastforce
  obtain ok5 st5 where 5: "ccm_drain aes st4 = (ok5, st5)" by fastforce
  have ok: "ok = (okm \<and> ok4 \<and> ok5)" "ok \<Longrightarrow> st' = st5"
    using au 1 2 3 4 5 unfolding ccm_authenticate_def by (auto simp: okm_def stm_def split: if_splits)
  have fm: "ccm_formatted (ccm_nonce st) aad (take sz (ccm_work st)) t = ?b0 @ ?sa @ pad16 (take sz (ccm_work st))"
    using w ccm_first_block_eq [OF n t] by (simp add: ccm_formatted_def)
  show ?thesis
  proof (cases okm)
    case True
    with M have m: "ccm_mac stm = cbc E (ccm_key st) ?m1 ?sa" "ccm_block stm = replicate 16 0" "ccm_position stm = 0"
      "ccm_same st stm" "ccm_work stm = ccm_work st" by simp_all
    have lm: "length (ccm_mac stm) = 16" unfolding m(1) using c m1 by (intro length_cbc) simp_all
    have k: "ccm_key stm = ccm_key st" using m(4) by (simp add: ccm_same_def)
    note fd = ccm_feed_drain [OF c absorbed_start [OF m(3,2)] lm 4 5, of ready, unfolded k m(5) append_Nil]
    have "cbc E (ccm_key st) (ccm_mac stm) (pad16 (take sz (ccm_work st))) =
        cbc E (ccm_key st) (replicate 16 0) (ccm_formatted (ccm_nonce st) aad (take sz (ccm_work st)) t)"
      unfolding fm m(1) using b0 by (simp add: cbc_append)
    then show ?thesis using fd M True ok ccm_same_trans [OF m(4)] by auto
  qed (use M ok in simp)
qed

lemma ccm_counter_spec:
  assumes c: "aes_correct aes E" and k: "ccm_counter aes number st = (ok, st')" and n: "length (ccm_nonce st) = 13"
  shows "(ccm_live aes ready st \<longrightarrow> ok \<and> ccm_live aes ready st') \<and>
    (ok \<longrightarrow> ccm_cipher st' = E (ccm_key st) (ctr_block (ccm_nonce st) number) \<and> ccm_same st st' \<and> ccm_mac st' = ccm_mac st \<and>
      ccm_work st' = ccm_work st)"
proof -
  let ?s = "st\<lparr>ccm_block := [1] @ take 13 (ccm_nonce st) @ [0, number]\<rparr>"
  have "ccm_live aes ready ?s = ccm_live aes ready st" by (simp add: ccm_live_def)
  then show ?thesis using ccm_encrypt_spec [OF c k [unfolded ccm_counter_def]] n
    by (auto simp: ctr_block_def ccm_same_def)
qed

lemma ccm_transform_spec:
  "ccm_transform aes sz off number st = (ok, st') \<Longrightarrow> aes_correct aes E \<Longrightarrow> length (ccm_nonce st) = 13 \<Longrightarrow> sz \<le> length (ccm_work st) \<Longrightarrow>
   off = sz \<or> off < sz \<and> 16 dvd off \<Longrightarrow> number = of_nat (off div 16 + 1) \<Longrightarrow>
   (ccm_live aes ready st \<longrightarrow> ok \<and> ccm_live aes ready st') \<and>
   (ok \<longrightarrow> ccm_same st st' \<and> ccm_mac st' = ccm_mac st \<and> length (ccm_work st') = length (ccm_work st) \<and>
     (\<forall>i < length (ccm_work st). ccm_work st' ! i = (if off \<le> i \<and> i < sz
        then ccm_work st ! i XOR key_stream E (ccm_key st) (ccm_nonce st) sz ! i else ccm_work st ! i)))"
proof (induction aes sz off number st rule: ccm_transform.induct)
  case (1 aes sz off number st)
  note p = "1.prems"
  show ?case
  proof (cases "off < sz")
    case True
    obtain ok1 st1 where k: "ccm_counter aes number st = (ok1, st1)" by fastforce
    note C = ccm_counter_spec [OF p(2) k p(3), of ready]
    define n where "n = min 16 (sz - off)"
    let ?st2 = "st1\<lparr>ccm_work := xor_loop n off (ccm_cipher st1) (ccm_work st1)\<rparr>"
    show ?thesis
    proof (cases ok1)
      case False
      then show ?thesis using p(1) True k C by (simp add: ccm_transform.simps [of aes sz off])
    next
      case ok1: True
      have r: "ccm_transform aes sz (off + n) (number + 1) ?st2 = (ok, st')"
        using p(1) True k ok1 by (simp add: ccm_transform.simps [of aes sz off] n_def Let_def)
      have s1: "ccm_same st st1" "ccm_mac st1 = ccm_mac st" "ccm_work st1 = ccm_work st"
        "ccm_cipher st1 = E (ccm_key st) (ctr_block (ccm_nonce st) number)" using C ok1 by simp_all
      have d: "16 dvd off" using p(5) True by auto
      have off: "off + n = sz \<or> off + n < sz \<and> 16 dvd off + n" using d True by (auto simp: n_def min_def)
      have num: "off + n < sz \<Longrightarrow> number + 1 = of_nat ((off + n) div 16 + 1)" using p(6) d by (auto simp: n_def min_def dvd_def algebra_simps)
      have st2: "ccm_nonce ?st2 = ccm_nonce st" "ccm_key ?st2 = ccm_key st" "length (ccm_work ?st2) = length (ccm_work st)"
        "ccm_live aes ready ?st2 = ccm_live aes ready st1" "ccm_same ?st2 st' = ccm_same st st'"
        using s1 by (auto simp: ccm_same_def ccm_live_def)
      have w2: "\<forall>i < length (ccm_work st). ccm_work ?st2 ! i = (if off \<le> i \<and> i < off + n
          then ccm_work st ! i XOR key_stream E (ccm_key st) (ccm_nonce st) sz ! i else ccm_work st ! i)"
      proof (intro allI impI)
        fix i assume i: "i < length (ccm_work st)"
        have "i div 16 = off div 16 \<and> i mod 16 = i - off" if o: "off \<le> i" "i < off + n"
        proof -
          obtain q where q: "off = 16 * q" using d by (auto simp: dvd_def)
          obtain j where "i = 16 * q + j" "j < 16" using o q by (auto simp: n_def le_iff_add)
          then show ?thesis using q by simp
        qed
        then show "ccm_work ?st2 ! i = (if off \<le> i \<and> i < off + n
          then ccm_work st ! i XOR key_stream E (ccm_key st) (ccm_nonce st) sz ! i else ccm_work st ! i)"
          using i s1(3,4) p(6) True xor_loop_nth [of n off "ccm_cipher st1" "ccm_work st"]
          by (auto simp: key_stream_def n_def)
      qed
      show ?thesis
      proof (cases "off + n < sz")
        case True
        from "1.IH" [OF \<open>off < sz\<close> k [symmetric] _ n_def r p(2)] ok1 st2 off num True p(4) p(3)
        have IH: "(ccm_live aes ready ?st2 \<longrightarrow> ok \<and> ccm_live aes ready st') \<and>
           (ok \<longrightarrow> ccm_same st st' \<and> ccm_mac st' = ccm_mac ?st2 \<and> length (ccm_work st') = length (ccm_work st) \<and>
           (\<forall>i < length (ccm_work st). ccm_work st' ! i = (if off + n \<le> i \<and> i < sz
            then ccm_work ?st2 ! i XOR key_stream E (ccm_key st) (ccm_nonce st) sz ! i else ccm_work ?st2 ! i)))"
          by (simp only: simp_thms) metis
        then show ?thesis using st2(4) C s1(2) w2 True by auto
      next
        case False
        then have "off + n = sz" using off by simp
        then have "ok" "st' = ?st2" using r by (simp_all add: ccm_transform.simps [of aes sz sz])
        then show ?thesis using st2 C w2 s1 \<open>off + n = sz\<close> by simp
      qed
    qed
  next
    case False
    with p show ?thesis by (auto simp: ccm_transform.simps [of aes sz off])
  qed
qed

lemma ccm_transform_ctr:
  assumes "aes_correct aes E" "ccm_transform aes sz 0 1 st = (ok, st')" "length (ccm_nonce st) = 13" "sz \<le> length (ccm_work st)"
  shows "(ccm_live aes ready st \<longrightarrow> ok \<and> ccm_live aes ready st') \<and>
    (ok \<longrightarrow> ccm_same st st' \<and> ccm_mac st' = ccm_mac st \<and> length (ccm_work st') = length (ccm_work st) \<and>
      take sz (ccm_work st') = ccm_ctr E (ccm_key st) (ccm_nonce st) (take sz (ccm_work st)))"
proof -
  have "0 = sz \<or> 0 < sz \<and> 16 dvd (0 :: nat)" by auto
  note T = ccm_transform_spec [OF assms(2,1,3,4) this, of ready]
  have "take sz w' = ccm_ctr E k n (take sz w)"
    if "length w' = length w" "sz \<le> length w" "\<forall>i < length w. w' ! i = (if 0 \<le> i \<and> i < sz then w ! i XOR key_stream E k n sz ! i else w ! i)"
    for w w' :: bytes and k n
    using that by (intro nth_equalityI) (simp_all add: ccm_ctr_def)
  then show ?thesis using T assms(4) by simp
qed

lemma foldl_or_zero: "foldl (OR) (a :: u8) xs = 0 \<longleftrightarrow> a = 0 \<and> (\<forall>x \<in> set xs. x = 0)"
proof (induction xs arbitrary: a)
  case (Cons x xs)
  have "a OR x = 0 \<longleftrightarrow> a = 0 \<and> x = 0" by (metis or.left_neutral or_eq_0_iff)
  then show ?case by (simp add: Cons.IH)
qed simp

lemma tag_differs:
  assumes "t \<le> length a" "t \<le> length b"
  shows "foldl (OR) 0 (map (\<lambda>i. a ! i XOR b ! i) [0..<t]) = (0 :: u8) \<longleftrightarrow> take t a = take t b"
proof -
  have x: "x XOR y = 0 \<longleftrightarrow> x = y" for x y :: u8 by (metis xor.assoc xor.right_neutral xor_self_eq)
  have "(\<forall>i < t. a ! i XOR b ! i = 0) \<longleftrightarrow> take t a = take t b" unfolding x using assms by (auto simp: list_eq_iff_nth_eq)
  then show ?thesis by (auto simp: foldl_or_zero)
qed

lemma ccm_run_spec:
  assumes c: "aes_correct aes E" and run: "ccm_run aes opening aad sz t st = (r, out, st')"
    and sh: "length (ccm_nonce st) = 13" "length (ccm_work st) = 132" "length (ccm_tag st) = 16" "sz \<le> 116" "t \<le> 16" "t \<in> {4, 8, 16}"
  shows "(ccm_live aes ready st \<longrightarrow> r \<noteq> CCM_STAR_AES \<and> ready (ccm_hw st')) \<and> (r = CCM_STAR_AES \<longrightarrow> out = []) \<and>
    (r \<noteq> CCM_STAR_AES \<longrightarrow> (r, out) =
      (if opening then (case ccm_open E (ccm_key st) (ccm_nonce st) aad t (take sz (ccm_work st) @ take t (ccm_tag st)) of
           None \<Rightarrow> (CCM_STAR_AUTH, []) | Some p \<Rightarrow> (CCM_STAR_OK, p))
       else (CCM_STAR_OK, ccm_seal E (ccm_key st) (ccm_nonce st) aad t (take sz (ccm_work st)))))"
proof -
  let ?k = "ccm_key st" and ?n = "ccm_nonce st" and ?w = "take sz (ccm_work st)"
  obtain ok1 st1 where 1: "(if opening then ccm_transform aes sz 0 1 st else (True, st)) = (ok1, st1)" by fastforce
  obtain ok2 st2 where 2: "ccm_authenticate aes aad sz t st1 = (ok2, st2)" by fastforce
  obtain ok3 st3 where 3: "ccm_counter aes 0 st2 = (ok3, st3)" by fastforce
  define st4 where "st4 = st3\<lparr>ccm_mac := xor_loop t 0 (ccm_cipher st3) (ccm_mac st3)\<rparr>"
  obtain ok5 st5 where 5: "(if opening then (True, st4) else ccm_transform aes sz 0 1 st4) = (ok5, st5)" by fastforce
  have len: "\<And>k b. length (E k b) = 16" using c by simp
  define p where "p = (if opening then ccm_ctr E ?k ?n ?w else ?w)"
  have S1: "(ccm_live aes ready st \<longrightarrow> ok1 \<and> ccm_live aes ready st1) \<and>
      (ok1 \<longrightarrow> ccm_same st st1 \<and> length (ccm_work st1) = 132 \<and> take sz (ccm_work st1) = p)"
    using 1 sh ccm_transform_ctr [OF c, of sz st ok1 st1 ready] by (cases "opening") (auto simp: p_def)
  have S2: "(ccm_live aes ready st \<longrightarrow> ok2 \<and> ccm_live aes ready st2) \<and>
      (ok2 \<longrightarrow> ccm_mac st2 = cbc E ?k (replicate 16 0) (ccm_formatted ?n aad p t) \<and> ccm_same st st2 \<and> ccm_work st2 = ccm_work st1)"
    if ok1 using S1 that sh ccm_authenticate_spec [OF c 2, of ready] by (auto simp: ccm_same_def)
  have S3: "(ccm_live aes ready st \<longrightarrow> ok3 \<and> ccm_live aes ready st3) \<and>
      (ok3 \<longrightarrow> ccm_cipher st3 = E ?k (ctr_block ?n 0) \<and> ccm_mac st3 = ccm_mac st2 \<and> ccm_same st st3 \<and> ccm_work st3 = ccm_work st1)"
    if ok1 ok2 using S2 that sh ccm_counter_spec [OF c 3, of ready] by (auto simp: ccm_same_def)
  have S4: "take t (ccm_mac st4) = ccm_tag_of E ?k ?n aad p t" "length (ccm_mac st4) = 16" if ok1 ok2 ok3
  proof -
    have m: "ccm_mac st3 = cbc E ?k (replicate 16 0) (ccm_formatted ?n aad p t)" "ccm_cipher st3 = E ?k (ctr_block ?n 0)"
      using S2 S3 that by simp_all
    have l: "length (ccm_mac st3) = 16" "length (ccm_cipher st3) = 16" unfolding m using len by (simp_all add: length_cbc)
    then show "length (ccm_mac st4) = 16" by (simp add: st4_def)
    show "take t (ccm_mac st4) = ccm_tag_of E ?k ?n aad p t"
      unfolding ccm_tag_of_def m [symmetric] st4_def using l sh(5)
      by (intro nth_equalityI) (simp_all add: xor_loop_nth)
  qed
  have S5: "(ccm_live aes ready st \<longrightarrow> ok5 \<and> ccm_live aes ready st5) \<and>
      (ok5 \<longrightarrow> ccm_same st st5 \<and> length (ccm_work st5) = 132 \<and> take t (ccm_mac st5) = ccm_tag_of E ?k ?n aad p t \<and> length (ccm_mac st5) = 16 \<and>
        take sz (ccm_work st5) = (if opening then p else ccm_ctr E ?k ?n p))" if ok1 ok2 ok3
  proof -
    have l4: "ccm_live aes ready st4 = ccm_live aes ready st3" "ccm_work st4 = ccm_work st1" "ccm_same st st4"
      using S3 that by (auto simp: st4_def ccm_live_def ccm_same_def)
    have s3: "ccm_live aes ready st \<longrightarrow> ccm_live aes ready st3" using S3 that by simp
    have s1: "length (ccm_work st1) = 132" "take sz (ccm_work st1) = p" using S1 that by simp_all
    show ?thesis
    proof (cases "opening")
      case True
      then show ?thesis using 5 l4 s3 s1 S4 [OF that] by simp
    next
      case False
      have n4: "length (ccm_nonce st4) = 13" "ccm_key st4 = ?k" "ccm_nonce st4 = ?n" using l4(3) sh(1) by (simp_all add: ccm_same_def)
      have t5: "ccm_transform aes sz 0 1 st4 = (ok5, st5)" using 5 False by simp
      have "sz \<le> length (ccm_work st4)" using l4(2) s1(1) sh(4) by simp
      from ccm_transform_ctr [OF c t5 n4(1) this, of ready] show ?thesis
        using False l4 s3 s1 S4 [OF that] n4 ccm_same_trans [OF l4(3)] by auto
    qed
  qed
  have bad: "foldl (OR) 0 (map (\<lambda>i. ccm_mac st4 ! i XOR ccm_tag st4 ! i) [0..<t]) \<noteq> 0 \<longleftrightarrow>
      take t (ccm_tag st) \<noteq> ccm_tag_of E ?k ?n aad p t" if ok1 ok2 ok3
  proof -
    have "ccm_tag st4 = ccm_tag st" using S3 that by (auto simp: st4_def ccm_same_def)
    then show ?thesis using S4 [OF that] sh tag_differs [of t "ccm_mac st4" "ccm_tag st"] by auto
  qed
  note run' = run [unfolded ccm_run_def 1 prod.case 2 3 Let_def, folded st4_def, unfolded 5 prod.case]
  show ?thesis
  proof (cases "ok1 \<and> ok2 \<and> ok3")
    case False
    then have "r = CCM_STAR_AES" "out = []" using run' by (auto split: if_splits)
    then show ?thesis using False S1 S2 S3 by blast
  next
    case True
    then have ok: ok1 ok2 ok3 by simp_all
    have op: "opening \<Longrightarrow> ccm_open E ?k ?n aad t (?w @ take t (ccm_tag st)) =
        (if take t (ccm_tag st) = ccm_tag_of E ?k ?n aad p t then Some p else None)"
      using sh by (simp add: ccm_open_def p_def Let_def)
    note st4l = S5 [OF ok]
    show ?thesis
    proof (cases "opening \<and> take t (ccm_tag st) \<noteq> ccm_tag_of E ?k ?n aad p t")
      case True
      then have "r = CCM_STAR_AUTH" "out = []" "st' = st4" using run' ok bad [OF ok] by auto
      moreover have "ccm_live aes ready st \<Longrightarrow> ready (ccm_hw st4)" using S3 ok by (simp add: st4_def ccm_live_def)
      ultimately show ?thesis using True op by simp
    next
      case False
      then have g: "\<not> (opening \<and> foldl (OR) 0 (map (\<lambda>i. ccm_mac st4 ! i XOR ccm_tag st4 ! i) [0..<t]) \<noteq> 0)" using bad [OF ok] by auto
      note run5 = run' [unfolded if_not_P [OF g]]
      show ?thesis
      proof (cases ok5)
        case True
        then have "r = CCM_STAR_OK" and st': "ccm_hw st' = ccm_hw st5" and
          o: "out = take (sz + (if opening then 0 else t)) (if opening then ccm_work st5 else store_at sz (take t (ccm_mac st5)) (ccm_work st5))"
          using run5 ok by (auto split: if_splits)
        moreover have "out = (if opening then p else ccm_seal E ?k ?n aad t ?w)"
          using o st4l True sh length_ccm_tag_of [of E t, OF len sh(5)] by (auto simp: store_at_def ccm_seal_def p_def)
        ultimately show ?thesis using False op st4l True by (auto simp: ccm_live_def)
      next
        case ok5: False
        then have "r = CCM_STAR_AES" "out = []" using run5 ok by auto
        then show ?thesis using ok5 st4l by simp
      qed
    qed
  qed
qed

text \<open>The arguments a call is not refused for.\<close>

definition ccm_request_ok :: "bool \<Rightarrow> bytes \<Rightarrow> bytes \<Rightarrow> bytes \<Rightarrow> bytes \<Rightarrow> nat \<Rightarrow> nat \<Rightarrow> ccm_star_limits \<Rightarrow> bool" where
  "ccm_request_ok opening key nonce aad input t capacity limits \<longleftrightarrow>
     length key = 16 \<and> length nonce = 13 \<and> t \<in> {4, 8, 16} \<and> length aad \<le> CCM_STAR_MAX_AAD \<and>
     (if opening then t \<le> length input \<and> length input \<le> CCM_STAR_MAX_MESSAGE + t \<and> length input - t \<le> capacity
      else length input \<le> CCM_STAR_MAX_MESSAGE \<and> length input + t \<le> capacity) \<and>
     block_timeout limits \<noteq> 0 \<and> block_timeout limits < TIMEBASE_HALF_RANGE \<and> block_polls limits \<noteq> 0"

lemma ccm_start_simps [simp]:
  "length nonce = 13 \<Longrightarrow> length (ccm_nonce (ccm_start key nonce limits work tag m)) = 13"
  "length work \<le> 132 \<Longrightarrow> length (ccm_work (ccm_start key nonce limits work tag m)) = 132"
  "length tag \<le> 16 \<Longrightarrow> length (ccm_tag (ccm_start key nonce limits work tag m)) = 16"
  "length work \<le> 132 \<Longrightarrow> n = length work \<Longrightarrow> take n (ccm_work (ccm_start key nonce limits work tag m)) = work"
  "length tag \<le> 16 \<Longrightarrow> n = length tag \<Longrightarrow> take n (ccm_tag (ccm_start key nonce limits work tag m)) = tag"
  "ccm_key (ccm_start key nonce limits work tag m) = take 16 key" "ccm_nonce (ccm_start key nonce limits work tag m) = take 13 nonce"
  "length key = 16 \<Longrightarrow> ccm_live aes ready (ccm_start key nonce limits work tag m) \<longleftrightarrow>
     aes_live aes ready (block_timeout limits) (block_polls limits) \<and> ready m"
  by (simp_all add: ccm_start_def store_at_def ccm_live_def)

lemma ccm_star_crypt_spec:
  assumes c: "aes_correct aes E" and ok: "ccm_request_ok (opn \<noteq> 0) key nonce aad input t cap limits" and o: "\<not> opn > 1"
    and run: "ccm_star_crypt aes opn (Some key) (Some nonce) (Some aad) (length aad) (Some input) (length input) t True cap True
      (Some limits) True m = (r, out, info, m')"
  shows "(aes_live aes ready (block_timeout limits) (block_polls limits) \<and> ready m \<longrightarrow> r \<noteq> CCM_STAR_AES \<and> ready m') \<and>
    (r = CCM_STAR_AES \<longrightarrow> out = []) \<and>
    (r \<noteq> CCM_STAR_AES \<longrightarrow> (r, out) =
      (if opn \<noteq> 0 then (case ccm_open E key nonce aad t input of None \<Rightarrow> (CCM_STAR_AUTH, []) | Some p \<Rightarrow> (CCM_STAR_OK, p))
       else (CCM_STAR_OK, ccm_seal E key nonce aad t input)))"
proof -
  let ?op = "opn \<noteq> 0"
  let ?t = "if ?op then t else 0"
  let ?sz = "length input - ?t"
  let ?tag = "if ?op then take t (drop ?sz input) else []"
  let ?st = "ccm_start key nonce limits (take ?sz input) ?tag m"
  have g: "block_timeout limits \<noteq> 0" "\<not> TIMEBASE_HALF_RANGE \<le> block_timeout limits" "block_polls limits \<noteq> 0"
    "\<not> (t \<noteq> 4 \<and> t \<noteq> 8 \<and> t \<noteq> 16)" "\<not> (CCM_STAR_MAX_AAD < length aad \<or> ?op \<and> length input < t \<or> CCM_STAR_MAX_MESSAGE + ?t < length input)"
    "\<not> cap < ?sz + (if ?op then 0 else t)"
    using ok by (auto simp: ccm_request_ok_def leD split: if_splits)
  have "(case ccm_run aes ?op aad ?sz t ?st of (r, bytes, st) \<Rightarrow> (r, bytes, Some (ccm_info st), ccm_hw st)) = (r, out, info, m')"
    using run unfolding ccm_star_crypt_def Let_def option.case option.sel take_all_iff [THEN iffD2, OF order_refl] if_not_P [OF g(4)] if_not_P [OF g(5)] if_not_P [OF g(6)]
    by (simp add: g(1-3) o split del: if_split)
  then obtain st' where run': "ccm_run aes ?op aad ?sz t ?st = (r, out, st')" and m': "m' = ccm_hw st'"
    by (cases "ccm_run aes ?op aad ?sz t ?st") auto
  have l: "t \<in> {4, 8, 16}" "length key = 16" "length nonce = 13" "t \<le> 16" "?sz \<le> 116" "?t \<le> length input"
    using ok by (auto simp: ccm_request_ok_def split: if_splits)
  have tg: "length ?tag \<le> 16" "?op \<Longrightarrow> length ?tag = t" "?op \<Longrightarrow> take ?sz input @ ?tag = input" using l by auto
  have w: "length (take ?sz input) \<le> 132" "length (take ?sz input) = ?sz" using l(5,6) by simp_all
  have run'': "(r, out, st') = ccm_run aes ?op aad ?sz t ?st" using run' by simp
  from ccm_run_spec [OF c run', of ready] l tg w show ?thesis unfolding m'
    by (cases "?op") simp_all
qed

section \<open>Properties\<close>

text \<open>C26. Authenticated encryption is what the mode defines: whenever the engine's block calls succeed, a sealing
  call stores the counter-mode encryption of the message followed by its CBC tag, and an
  opening call stores the decryption if and only if the received tag is the tag of the
  decrypted message; otherwise it reports the failure and stores nothing. With a working
  engine the calls do not fail.\<close>

theorem ccm_star_refines_mode:
  assumes "aes_correct aes E" and "ccm_request_ok (opn \<noteq> 0) key nonce aad input t cap limits" and "\<not> opn > 1"
    and "ccm_star_crypt aes opn (Some key) (Some nonce) (Some aad) (length aad) (Some input) (length input) t True cap True
      (Some limits) True m = (r, out, info, m')"
  shows "(aes_live aes ready (block_timeout limits) (block_polls limits) \<and> ready m \<longrightarrow> r \<noteq> CCM_STAR_AES \<and> ready m') \<and>
    (r = CCM_STAR_AES \<longrightarrow> out = []) \<and>
    (r \<noteq> CCM_STAR_AES \<longrightarrow> (r, out) =
      (if opn \<noteq> 0 then (case ccm_open E key nonce aad t input of None \<Rightarrow> (CCM_STAR_AUTH, []) | Some p \<Rightarrow> (CCM_STAR_OK, p))
       else (CCM_STAR_OK, ccm_seal E key nonce aad t input)))"
  by (rule ccm_star_crypt_spec [OF assms])

text \<open>Concrete limits for the runs below.\<close>

definition mix_limits :: ccm_star_limits where "mix_limits = \<lparr>block_timeout = 100, block_polls = 10\<rparr>"

theorem ccm_star_refines_mode_witness:
  "fst (ccm_star_crypt mix_engine 0 (Some (replicate 16 7)) (Some (replicate 13 1)) (Some [1, 2]) 2 (Some [9, 8, 7]) 3 4 True 20 True
      (Some mix_limits) True ()) = CCM_STAR_OK \<and>
   fst (snd (ccm_star_crypt mix_engine 0 (Some (replicate 16 7)) (Some (replicate 13 1)) (Some [1, 2]) 2 (Some [9, 8, 7]) 3 4 True 20 True
      (Some mix_limits) True ())) = ccm_seal mix_cipher (replicate 16 7) (replicate 13 1) [1, 2] 4 [9, 8, 7]"
proof -
  let ?c = "ccm_star_crypt mix_engine 0 (Some (replicate 16 7)) (Some (replicate 13 1)) (Some [1, 2]) (length [1, 2 :: u8])
      (Some [9, 8, 7]) (length [9, 8, 7 :: u8]) 4 True 20 True (Some mix_limits) True ()"
  obtain r out info m' where c: "?c = (r, out, info, m')" by (metis prod.exhaust)
  have "ccm_request_ok (0 \<noteq> (0 :: u8)) (replicate 16 7) (replicate 13 1) [1, 2] [9, 8, 7] 4 20 mix_limits"
    by (simp add: ccm_request_ok_def mix_limits_def)
  from ccm_star_refines_mode [OF mix_correct this _ c, of "\<lambda>_. True"] mix_live c show ?thesis
    by (simp add: numeral_2_eq_2 numeral_3_eq_3)
qed

text \<open>C27. Opening recovers exactly what was sealed, and nothing else opens: of a correct engine's mode, an input
  opens to a message if and only if it is that message's sealed form under the same key,
  nonce and associated data.\<close>

theorem ccm_star_open_seal:
  assumes "aes_correct aes E" and "ccm_request_ok True key nonce aad input t cap limits"
    and "ccm_star_crypt aes 1 (Some key) (Some nonce) (Some aad) (length aad) (Some input) (length input) t True cap True
      (Some limits) True m = (r, out, info, m')"
  shows "(r = CCM_STAR_OK \<longrightarrow> input = ccm_seal E key nonce aad t out) \<and>
    (\<forall>p. input = ccm_seal E key nonce aad t p \<longrightarrow> r = CCM_STAR_AES \<or> r = CCM_STAR_OK \<and> out = p)"
proof -
  have "t \<le> 16" using assms(2) by (auto simp: ccm_request_ok_def)
  note iff = ccm_open_iff [of E t key nonce aad input, OF _ this]
  have ok: "ccm_request_ok ((1 :: u8) \<noteq> 0) key nonce aad input t cap limits" using assms(2) by simp
  have o: "ccm_open E key nonce aad t input = Some p \<longleftrightarrow> input = ccm_seal E key nonce aad t p" for p using iff assms(1) by simp
  have r: "r \<noteq> CCM_STAR_AES \<longrightarrow> (r, out) = (case ccm_open E key nonce aad t input of None \<Rightarrow> (CCM_STAR_AUTH, []) | Some p \<Rightarrow> (CCM_STAR_OK, p))"
    using ccm_star_crypt_spec [OF assms(1) ok _ assms(3), of "\<lambda>_. False"] by simp
  show ?thesis
  proof (cases "ccm_open E key nonce aad t input")
    case None
    have "r \<noteq> CCM_STAR_OK" using r None by auto
    moreover have "input \<noteq> ccm_seal E key nonce aad t p" for p using o None by (metis option.distinct(1))
    ultimately show ?thesis by blast
  next
    case (Some p)
    have "r = CCM_STAR_AES \<or> r = CCM_STAR_OK \<and> out = p" using r Some by auto
    moreover have "p' = p" if "input = ccm_seal E key nonce aad t p'" for p' using that o Some by (metis option.inject)
    moreover have "input = ccm_seal E key nonce aad t p" using o Some by blast
    ultimately show ?thesis by blast
  qed
qed

theorem ccm_star_open_seal_witness:
  "fst (ccm_star_crypt mix_engine 1 (Some (replicate 16 7)) (Some (replicate 13 1)) (Some [1, 2]) 2
      (Some (ccm_seal mix_cipher (replicate 16 7) (replicate 13 1) [1, 2] 4 [9, 8, 7])) 7 4 True 20 True (Some mix_limits) True ()) = CCM_STAR_OK"
proof -
  let ?i = "ccm_seal mix_cipher (replicate 16 7) (replicate 13 1) [1, 2] 4 [9, 8, 7]"
  have l: "length ?i = 7" using mix_correct by (simp add: ccm_seal_def)
  let ?c = "ccm_star_crypt mix_engine 1 (Some (replicate 16 7)) (Some (replicate 13 1)) (Some [1, 2]) (length [1, 2 :: u8])
      (Some ?i) (length ?i) 4 True 20 True (Some mix_limits) True ()"
  obtain r out info m' where c: "?c = (r, out, info, m')" by (metis prod.exhaust)
  have ok: "ccm_request_ok True (replicate 16 7) (replicate 13 1) [1, 2] ?i 4 20 mix_limits"
    using l by (simp add: ccm_request_ok_def mix_limits_def)
  have "r \<noteq> CCM_STAR_AES" using ccm_star_crypt_spec [OF mix_correct _ _ c, of "\<lambda>_. True"] ok mix_live by simp
  with ccm_star_open_seal [OF mix_correct ok c] have "r = CCM_STAR_OK" by blast
  then show ?thesis using c unfolding l by (simp add: numeral_2_eq_2)
qed

end
