(* ===== verification/Zigbee_Security.thy ===== *)
theory Zigbee_Security
  imports Nwk_Frame Aps_Frame Ccm_Star
begin

text \<open>
  Frame security (\<open>src/src/zigbee_security.c\<close>): protection of NWK and APS frames with an auxiliary
  header and a message integrity code. The module's private buffers are a record; the packet
  buffer is the array of 116 bytes the code assembles frames in. The theory shows that opening
  undoes sealing and that an opened frame carried a valid integrity code under the key, the
  source and the received frame counter.
\<close>

abbreviation (input) ZIGBEE_SECURITY_NWK :: u8 where "ZIGBEE_SECURITY_NWK \<equiv> 0"
abbreviation (input) ZIGBEE_SECURITY_APS :: u8 where "ZIGBEE_SECURITY_APS \<equiv> 1"

datatype zigbee_security_result =
    ZIGBEE_SECURITY_OK | ZIGBEE_SECURITY_ARGUMENT | ZIGBEE_SECURITY_LENGTH | ZIGBEE_SECURITY_HEADER | ZIGBEE_SECURITY_LEVEL
  | ZIGBEE_SECURITY_AUX | ZIGBEE_SECURITY_COUNTER | ZIGBEE_SECURITY_SELECTOR | ZIGBEE_SECURITY_SOURCE | ZIGBEE_SECURITY_SPACE
  | ZIGBEE_SECURITY_AES | ZIGBEE_SECURITY_AUTH | ZIGBEE_SECURITY_CCM

record zigbee_security_key =
  zk_key :: bytes
  zk_source :: bytes
  zk_counter :: u32
  zk_level :: u8
  zk_key_identifier :: u8
  zk_key_sequence :: u8
  zk_extended_nonce :: u8
  zk_limits :: ccm_star_limits

record zigbee_security_meta =
  sm_counter :: u32
  sm_source :: bytes
  sm_level :: u8
  sm_key_identifier :: u8
  sm_key_sequence :: u8
  sm_extended_nonce :: u8
  sm_header_length :: nat
  sm_auxiliary_length :: nat
  sm_payload_length :: nat

record zs_state =
  zs_packet :: bytes
  zs_meta :: zigbee_security_meta
  zs_mic :: nat
  zs_command :: bool

definition zs_zero :: zs_state where
  "zs_zero = \<lparr>zs_packet = replicate 116 0, zs_meta = \<lparr>sm_counter = 0, sm_source = replicate 8 0, sm_level = 0, sm_key_identifier = 0,
     sm_key_sequence = 0, sm_extended_nonce = 0, sm_header_length = 0, sm_auxiliary_length = 0, sm_payload_length = 0\<rparr>,
     zs_mic = 0, zs_command = False\<rparr>"

definition security_flag :: "u8 \<Rightarrow> bool \<Rightarrow> bytes \<Rightarrow> bytes" where
  "security_flag layer enabled packet =
     (if layer = ZIGBEE_SECURITY_NWK
      then packet[1 := (packet ! 1 AND NOT 0x02) OR (if enabled then 0x02 else 0)]
      else packet[0 := (packet ! 0 AND NOT APS_FLAG_SECURITY) OR (if enabled then APS_FLAG_SECURITY else 0)])"

text \<open>The length of the clear header and whether it is that of an APS command.\<close>

definition zs_header_length :: "u8 \<Rightarrow> u8 \<Rightarrow> bytes \<Rightarrow> nat \<Rightarrow> (nat \<times> bool) option" where
  "zs_header_length layer first packet len =
     (if layer = ZIGBEE_SECURITY_NWK then
        (case nwk_frame_decode (Some (take len packet)) True of Inl _ \<Rightarrow> None | Inr i \<Rightarrow> Some (nfi_payload_offset i, False))
      else if first AND 3 = 1 then
        (if packet ! 0 AND NOT (1 OR APS_FLAG_ACK_REQUEST) \<noteq> 0 then None else Some (2, True))
      else (case aps_frame_decode (Some (take len packet)) True of Inl _ \<Rightarrow> None | Inr i \<Rightarrow> Some (afi_payload_offset i, False)))"

definition zs_max_body :: "u8 \<Rightarrow> nat" where
  "zs_max_body layer = (if layer = ZIGBEE_SECURITY_NWK then 116 else 108)"

definition zs_header :: "u8 \<Rightarrow> bool \<Rightarrow> u8 \<Rightarrow> bytes \<Rightarrow> zs_state \<Rightarrow> zigbee_security_result \<times> zs_state" where
  "zs_header layer secured level frame st =
     (if layer > ZIGBEE_SECURITY_APS then (ZIGBEE_SECURITY_ARGUMENT, st)
      else if level = 0 \<or> level = 4 \<or> level > 7 then (ZIGBEE_SECURITY_LEVEL, st)
      else if length frame < 2 \<or> length frame > zs_max_body layer then (ZIGBEE_SECURITY_LENGTH, st)
      else let st0 = st\<lparr>zs_packet := store_at 0 frame (zs_packet st)\<rparr>;
               present = (if layer = ZIGBEE_SECURITY_NWK then frame ! 1 AND 0x02 \<noteq> 0 else frame ! 0 AND APS_FLAG_SECURITY \<noteq> 0) in
      if present \<noteq> secured then (ZIGBEE_SECURITY_HEADER, st0)
      else let st1 = st0\<lparr>zs_packet := security_flag layer False (zs_packet st0), zs_command := False\<rparr> in
      (case zs_header_length layer (frame ! 0) (zs_packet st1) (length frame) of None \<Rightarrow> (ZIGBEE_SECURITY_HEADER, st1)
       | Some (n, command) \<Rightarrow>
         (ZIGBEE_SECURITY_OK, st1\<lparr>zs_command := command, zs_packet := security_flag layer True (zs_packet st1),
            zs_meta := (zs_meta st1)\<lparr>sm_header_length := n, sm_level := level\<rparr>, zs_mic := 2 * 2 ^ unat (level AND 3)\<rparr>)))"

definition zs_shape :: "u8 \<Rightarrow> zs_state \<Rightarrow> zigbee_security_result \<times> zs_state" where
  "zs_shape layer st =
     (let m = zs_meta st in
      if sm_extended_nonce m > 1 \<or> sm_key_identifier m > 3 then (ZIGBEE_SECURITY_AUX, st)
      else if layer = ZIGBEE_SECURITY_NWK \<and> (sm_key_identifier m \<noteq> 1 \<or> sm_extended_nonce m = 0) then (ZIGBEE_SECURITY_AUX, st)
      else if layer \<noteq> ZIGBEE_SECURITY_NWK \<and> (sm_key_identifier m = 1 \<or> (\<not> zs_command st \<and> sm_key_identifier m \<noteq> 0) \<or>
          (zs_command st \<and> sm_extended_nonce m = 0)) then (ZIGBEE_SECURITY_AUX, st)
      else if sm_counter m = 0xffffffff then (ZIGBEE_SECURITY_COUNTER, st)
      else (ZIGBEE_SECURITY_OK, st\<lparr>zs_meta := m\<lparr>sm_auxiliary_length :=
        5 + 8 * unat (sm_extended_nonce m) + (if sm_key_identifier m = 1 then 1 else 0)\<rparr>\<rparr>))"

definition zs_inspect :: "u8 \<Rightarrow> u8 \<Rightarrow> bytes \<Rightarrow> zs_state \<Rightarrow> zigbee_security_result \<times> zs_state" where
  "zs_inspect layer level frame st =
     (case zs_header layer True level frame st of (r, st1) \<Rightarrow>
      if r \<noteq> ZIGBEE_SECURITY_OK then (r, st1)
      else let h = sm_header_length (zs_meta st1) in
      if length frame < h + 5 then (ZIGBEE_SECURITY_LENGTH, st1)
      else let control = frame ! h in
      if control AND 0xc0 \<noteq> 0 then (ZIGBEE_SECURITY_AUX, st1)
      else (case zs_shape layer (st1\<lparr>zs_meta := (zs_meta st1)\<lparr>sm_key_identifier := drop_bit 3 control AND 3,
            sm_extended_nonce := drop_bit 5 control AND 1, sm_counter := decode32 (drop (h + 1) frame)\<rparr>\<rparr>) of (r, st2) \<Rightarrow>
        if r \<noteq> ZIGBEE_SECURITY_OK then (r, st2)
        else let m = zs_meta st2; a = sm_auxiliary_length m in
        if length frame < h + a + zs_mic st2 then (ZIGBEE_SECURITY_LENGTH, st2)
        else let p = length frame - h - a - zs_mic st2;
                 st3 = st2\<lparr>zs_meta := m\<lparr>
                   sm_source := (if sm_extended_nonce m \<noteq> 0 then take 8 (drop (h + 5) frame) else sm_source m),
                   sm_key_sequence := (if sm_key_identifier m = 1 then frame ! (h + a - 1) else sm_key_sequence m),
                   sm_payload_length := p\<rparr>\<rparr> in
        if zs_command st3 \<and> p = 0 then (ZIGBEE_SECURITY_LENGTH, st3)
        else (ZIGBEE_SECURITY_OK, st3\<lparr>zs_packet := (zs_packet st3)[h := (control AND 0xf8) OR level]\<rparr>)))"

definition zigbee_security_inspect :: "u8 \<Rightarrow> u8 \<Rightarrow> bytes option \<Rightarrow> bool \<Rightarrow> zigbee_security_result + zigbee_security_meta" where
  "zigbee_security_inspect layer level frame meta =
     (case frame of None \<Rightarrow> Inl ZIGBEE_SECURITY_ARGUMENT | Some f \<Rightarrow>
      if \<not> meta then Inl ZIGBEE_SECURITY_ARGUMENT
      else (case zs_inspect layer level f zs_zero of (r, st) \<Rightarrow> if r = ZIGBEE_SECURITY_OK then Inr (zs_meta st) else Inl r))"

text \<open>Admission of a frame to be opened: the selected key material must match.\<close>

definition zs_admit_open :: "u8 \<Rightarrow> zigbee_security_key \<Rightarrow> bytes \<Rightarrow> zigbee_security_result \<times> zs_state" where
  "zs_admit_open layer key frame =
     (case zs_inspect layer (zk_level key) frame zs_zero of (r, st) \<Rightarrow>
      if r \<noteq> ZIGBEE_SECURITY_OK then (r, st)
      else let m = zs_meta st in
      if sm_key_identifier m \<noteq> zk_key_identifier key \<or> sm_extended_nonce m \<noteq> zk_extended_nonce key \<or>
         (zk_key_identifier key = 1 \<and> sm_key_sequence m \<noteq> zk_key_sequence key) then (ZIGBEE_SECURITY_SELECTOR, st)
      else if sm_extended_nonce m \<noteq> 0 \<and> take 8 (sm_source m) \<noteq> take 8 (zk_source key) then (ZIGBEE_SECURITY_SOURCE, st)
      else (ZIGBEE_SECURITY_OK, st))"

definition zs_admit_seal :: "u8 \<Rightarrow> zigbee_security_key \<Rightarrow> bytes \<Rightarrow> zigbee_security_result \<times> zs_state" where
  "zs_admit_seal layer key frame =
     (case zs_header layer False (zk_level key) frame zs_zero of (r, st) \<Rightarrow>
      if r \<noteq> ZIGBEE_SECURITY_OK then (r, st)
      else (case zs_shape layer (st\<lparr>zs_meta := (zs_meta st)\<lparr>sm_key_identifier := zk_key_identifier key,
            sm_extended_nonce := zk_extended_nonce key,
            sm_key_sequence := (if zk_key_identifier key = 1 then zk_key_sequence key else 0), sm_counter := zk_counter key\<rparr>\<rparr>) of (r, st1) \<Rightarrow>
        if r \<noteq> ZIGBEE_SECURITY_OK then (r, st1)
        else let p = length frame - sm_header_length (zs_meta st1);
                 st2 = st1\<lparr>zs_meta := (zs_meta st1)\<lparr>sm_payload_length := p\<rparr>\<rparr> in
        if zs_command st2 \<and> p = 0 then (ZIGBEE_SECURITY_LENGTH, st2) else (ZIGBEE_SECURITY_OK, st2)))"

text \<open>Writing the auxiliary header and the payload behind the clear header.\<close>

definition zs_assemble :: "zigbee_security_key \<Rightarrow> bytes \<Rightarrow> nat \<Rightarrow> nat \<Rightarrow> nat \<Rightarrow> bytes \<Rightarrow> bytes" where
  "zs_assemble key frame h a p packet =
     (let p0 = packet[h := zk_level key OR push_bit 3 (zk_key_identifier key) OR push_bit 5 (zk_extended_nonce key)];
          p1 = store_at (h + 1) (encode32 (zk_counter key)) p0;
          p2 = (if zk_extended_nonce key \<noteq> 0 then store_at (h + 5) (take 8 (zk_source key)) p1 else p1);
          p3 = (if zk_key_identifier key = 1 then p2[h + a - 1 := zk_key_sequence key] else p2)
      in if p \<noteq> 0 then store_at (h + a) (take p (drop h frame)) p3 else p3)"

text \<open>The final frame from the packet buffer and the CCM* output.\<close>

definition zs_finish :: "bool \<Rightarrow> u8 \<Rightarrow> zigbee_security_key \<Rightarrow> bytes \<Rightarrow> nat \<Rightarrow> nat \<Rightarrow> nat \<Rightarrow> bytes \<Rightarrow> bytes \<Rightarrow> bytes" where
  "zs_finish opening layer key frame h a p payload packet =
     (if opening then
        let p0 = security_flag layer False packet in
        if p \<noteq> 0 then store_at h (if zk_level key AND 4 \<noteq> 0 then take p payload else take p (drop (h + a) frame)) p0 else p0
      else let p0 = store_at (h + a + (if zk_level key AND 4 \<noteq> 0 then 0 else p)) payload packet in p0[h := p0 ! h AND 0xf8])"

definition zs_ccm_status :: "ccm_star_result \<Rightarrow> zigbee_security_result" where
  "zs_ccm_status c = (if c = CCM_STAR_AUTH then ZIGBEE_SECURITY_AUTH else if c = CCM_STAR_AES then ZIGBEE_SECURITY_AES else ZIGBEE_SECURITY_CCM)"

text \<open>The call of CCM* on the packet: nonce, associated data and input.\<close>

definition zs_ccm_call :: "'m aes_call \<Rightarrow> bool \<Rightarrow> zigbee_security_key \<Rightarrow> nat \<Rightarrow> nat \<Rightarrow> nat \<Rightarrow> nat \<Rightarrow> bytes \<Rightarrow> 'm \<Rightarrow>
    ccm_star_result \<times> bytes \<times> ccm_star_info option \<times> 'm" where
  "zs_ccm_call aes opening key h a p mic packet m =
     (let nonce = take 8 (zk_source key) @ take 4 (drop (h + 1) packet) @ [packet ! h];
          auth = (if zk_level key AND 4 \<noteq> 0 then h + a else h + a + p);
          n = (if zk_level key AND 4 \<noteq> 0 then p + (if opening then mic else 0) else if opening then mic else 0)
      in ccm_star_crypt aes (if opening then 1 else 0) (Some (zk_key key)) (Some nonce) (Some (take auth packet)) auth
          (Some (take n (drop auth packet))) n mic True 132 True (Some (zk_limits key)) True m)"

text \<open>From the admitted state on. The result carries the output frame and, on success, the metadata with
  the CCM* information.\<close>

definition zs_crypt :: "'m aes_call \<Rightarrow> bool \<Rightarrow> u8 \<Rightarrow> zigbee_security_key \<Rightarrow> bytes \<Rightarrow> nat \<Rightarrow> zs_state \<Rightarrow> 'm \<Rightarrow>
    zigbee_security_result \<times> bytes \<times> (zigbee_security_meta \<times> ccm_star_info) option \<times> 'm" where
  "zs_crypt aes opening layer key frame capacity st m =
     (let h = sm_header_length (zs_meta st); a = sm_auxiliary_length (zs_meta st); p = sm_payload_length (zs_meta st); mic = zs_mic st;
          total = h + p + (if opening then 0 else a + mic) in
      if total > zs_max_body layer then (ZIGBEE_SECURITY_LENGTH, [], None, m)
      else if capacity < total then (ZIGBEE_SECURITY_SPACE, [], None, m)
      else let packet = (if opening then zs_packet st else zs_assemble key frame h a p (zs_packet st)) in
      (case zs_ccm_call aes opening key h a p mic packet m of (c, payload, info, m') \<Rightarrow>
        if c \<noteq> CCM_STAR_OK then (zs_ccm_status c, [], None, m')
        else (ZIGBEE_SECURITY_OK, take total (zs_finish opening layer key frame h a p payload packet),
          map_option (Pair ((zs_meta st)\<lparr>sm_source := take 8 (zk_source key)\<rparr>)) info, m')))"

definition zigbee_security_crypt :: "'m aes_call \<Rightarrow> u8 \<Rightarrow> u8 \<Rightarrow> zigbee_security_key option \<Rightarrow> bytes option \<Rightarrow> bool \<Rightarrow> nat \<Rightarrow> bool \<Rightarrow> 'm \<Rightarrow>
    zigbee_security_result \<times> bytes \<times> (zigbee_security_meta \<times> ccm_star_info) option \<times> 'm" where
  "zigbee_security_crypt aes open layer key frame out capacity info m =
     (case key of None \<Rightarrow> (ZIGBEE_SECURITY_ARGUMENT, [], None, m) | Some k \<Rightarrow>
      (case frame of None \<Rightarrow> (ZIGBEE_SECURITY_ARGUMENT, [], None, m) | Some f \<Rightarrow>
      if open > 1 \<or> \<not> out \<or> \<not> info then (ZIGBEE_SECURITY_ARGUMENT, [], None, m)
      else (case (if open \<noteq> 0 then zs_admit_open layer k f else zs_admit_seal layer k f) of (r, st) \<Rightarrow>
        if r \<noteq> ZIGBEE_SECURITY_OK then (r, [], None, m)
        else zs_crypt aes (open \<noteq> 0) layer k f capacity st m)))"

section \<open>Flags and control octets\<close>

lemma mask_clear: "(x :: u8) AND k = 0 \<Longrightarrow> x AND NOT k = x"
proof -
  assume "x AND k = 0"
  moreover have "x = (x AND k) OR (x AND NOT k)" by (metis bit.conj_cancel_right bit.conj_disj_distrib bit.conj_one_right bit.disj_cancel_right)
  ultimately show ?thesis by simp
qed

lemma mask_set: "(((x :: u8) AND NOT k) OR k) AND k = k" "((x AND NOT k) OR k) AND NOT k = x AND NOT k"
  "(((x AND NOT k) OR k) AND NOT k) OR k = (x AND NOT k) OR k"
  by (rule bit_word_eqI; auto simp: bit_simps)+

definition flag_index :: "u8 \<Rightarrow> nat" where "flag_index layer = (if layer = ZIGBEE_SECURITY_NWK then 1 else 0)"
definition flag_bit :: "u8 \<Rightarrow> u8" where "flag_bit layer = (if layer = ZIGBEE_SECURITY_NWK then 0x02 else 0x20)"

lemma security_flag_alt:
  "security_flag layer e p = p[flag_index layer := (p ! flag_index layer AND NOT (flag_bit layer)) OR (if e then flag_bit layer else 0)]"
  by (simp add: security_flag_def flag_index_def flag_bit_def)

lemma flag_index_less [simp]: "2 \<le> n \<Longrightarrow> flag_index layer < n"
  by (simp add: flag_index_def)

lemma flag_bit_nonzero [simp]: "flag_bit layer \<noteq> 0"
  by (simp add: flag_bit_def)

lemma length_security_flag [simp]: "length (security_flag layer e p) = length p"
  by (simp add: security_flag_alt)

lemma security_flag_append [simp]: "2 \<le> length p \<Longrightarrow> security_flag layer e (p @ q) = security_flag layer e p @ q"
  by (simp add: security_flag_alt list_update_append nth_append)

lemma security_flag_clear:
  "2 \<le> length p \<Longrightarrow> p ! flag_index layer AND flag_bit layer = 0 \<Longrightarrow> security_flag layer False p = p"
  by (simp add: security_flag_alt mask_clear)

lemma security_flag_false_true [simp]: "2 \<le> length p \<Longrightarrow> security_flag layer False (security_flag layer True p) = security_flag layer False p"
  by (simp add: security_flag_alt mask_set)

lemma security_flag_set:
  "2 \<le> length p \<Longrightarrow> p ! flag_index layer AND flag_bit layer \<noteq> 0 \<Longrightarrow> security_flag layer True (security_flag layer False p) = p"
proof -
  assume a: "2 \<le> length p" "p ! flag_index layer AND flag_bit layer \<noteq> 0"
  have one: "(x AND NOT k) OR k = x" if "x AND k \<noteq> 0" "k = 2 \<or> k = 0x20" for x k :: u8
  proof -
    have "x AND k = k" using that and_exp_cases [of x 1] and_exp_cases [of x 5] by auto
    moreover have "x = (x AND k) OR (x AND NOT k)" by (metis bit.conj_cancel_right bit.conj_disj_distrib bit.conj_one_right bit.disj_cancel_right)
    ultimately show ?thesis by (metis or.commute)
  qed
  show ?thesis using a one [of "p ! flag_index layer" "flag_bit layer"] by (simp add: security_flag_alt flag_bit_def and.assoc)
qed

lemma security_flag_true_present: "2 \<le> length p \<Longrightarrow> security_flag layer True p ! flag_index layer AND flag_bit layer \<noteq> 0"
  by (simp add: security_flag_alt mask_set)

lemma flag_present:
  "(if layer = ZIGBEE_SECURITY_NWK then f ! 1 AND 0x02 \<noteq> 0 else f ! 0 AND APS_FLAG_SECURITY \<noteq> 0) \<longleftrightarrow>
     f ! flag_index layer AND flag_bit layer \<noteq> 0"
  by (simp add: flag_index_def flag_bit_def)

lemma word_le_cases:
  "(x :: u8) \<le> 1 \<Longrightarrow> x = 0 \<or> x = 1" "(x :: u8) \<le> 3 \<Longrightarrow> x = 0 \<or> x = 1 \<or> x = 2 \<or> x = 3"
  "(x :: u8) \<le> 7 \<Longrightarrow> x = 0 \<or> x = 1 \<or> x = 2 \<or> x = 3 \<or> x = 4 \<or> x = 5 \<or> x = 6 \<or> x = 7"
proof -
  have w: "x \<in> of_nat ` set [0..<Suc n]" if "unat x \<le> n" for n and x :: u8
    using that by (intro image_eqI [of _ _ "unat x"]) auto
  show "x \<le> 1 \<Longrightarrow> x = 0 \<or> x = 1" using w [of x 1] by (auto simp: word_le_nat_alt upt_rec)
  show "x \<le> 3 \<Longrightarrow> x = 0 \<or> x = 1 \<or> x = 2 \<or> x = 3" using w [of x 3] by (auto simp: word_le_nat_alt upt_rec)
  show "x \<le> 7 \<Longrightarrow> x = 0 \<or> x = 1 \<or> x = 2 \<or> x = 3 \<or> x = 4 \<or> x = 5 \<or> x = 6 \<or> x = 7" using w [of x 7] by (auto simp: word_le_nat_alt upt_rec)
qed

definition zs_control :: "zigbee_security_key \<Rightarrow> u8" where
  "zs_control key = zk_level key OR push_bit 3 (zk_key_identifier key) OR push_bit 5 (zk_extended_nonce key)"

lemma zs_control_facts:
  assumes "zk_level key \<le> 7" "zk_key_identifier key \<le> 3" "zk_extended_nonce key \<le> 1"
  shows "(zs_control key AND 0xf8) AND 0xc0 = 0" "drop_bit 3 (zs_control key AND 0xf8) AND 3 = zk_key_identifier key"
    "drop_bit 5 (zs_control key AND 0xf8) AND 1 = zk_extended_nonce key"
    "((zs_control key AND 0xf8) AND 0xf8) OR zk_level key = zs_control key"
  using word_le_cases(3) [OF assms(1)] word_le_cases(2) [OF assms(2)] word_le_cases(1) [OF assms(3)]
  unfolding zs_control_def by (elim disjE; simp)+

section \<open>The clear header\<close>

text \<open>The length of the header of a frame whose security flag is clear.\<close>

definition zs_clear_header :: "u8 \<Rightarrow> bytes \<Rightarrow> (nat \<times> bool) option" where
  "zs_clear_header layer f = zs_header_length layer (f ! 0) f (length f)"

lemma nwk_read_header_cong:
  assumes "take 8 b' = take 8 b" "8 \<le> length b" "8 \<le> length b'"
  shows "nwk_read_header b' = nwk_read_header b"
proof -
  have n: "b' ! i = b ! i" if "i < 8" for i using assms(1) that by (metis nth_take)
  show ?thesis using n assms(2,3) by (simp add: nwk_read_header_def read_le16_def)
qed

lemma aps_read_header_cong:
  assumes "take 8 b' = take 8 b" "8 \<le> length b" "8 \<le> length b'"
  shows "aps_read_header b' = aps_read_header b"
proof -
  have n: "b' ! i = b ! i" if "i < 8" for i using assms(1) that by (metis nth_take)
  show ?thesis using n assms(2,3) by (simp add: aps_read_header_def read_le16_def)
qed

lemma nwk_offset_prefix:
  assumes "nwk_frame_decode (Some b) True = Inr i"
  shows "8 \<le> nfi_payload_offset i" "nfi_payload_offset i \<le> length b"
    "take (nfi_payload_offset i) b' = take (nfi_payload_offset i) b \<Longrightarrow> nfi_payload_offset i \<le> length b' \<Longrightarrow> length b' \<le> 116 \<Longrightarrow>
       \<exists>i'. nwk_frame_decode (Some b') True = Inr i' \<and> nfi_payload_offset i' = nfi_payload_offset i"
proof -
  obtain sz where s: "nwk_header_shape (nwk_read_header b) = Inr sz" and len: "8 \<le> length b" "sz \<le> length b" and o: "nfi_payload_offset i = sz"
    using assms by (auto simp: nwk_frame_decode_def Let_def split: if_splits sum.splits)
  have z: "8 \<le> sz" using s by (auto simp: nwk_header_shape_def nwk_header_size_def split: if_splits)
  show "8 \<le> nfi_payload_offset i" "nfi_payload_offset i \<le> length b" using z len o by simp_all
  assume a: "take (nfi_payload_offset i) b' = take (nfi_payload_offset i) b" "nfi_payload_offset i \<le> length b'" "length b' \<le> 116"
  have "take 8 b' = take 8 b" using a(1) z o by (metis min.absorb1 take_take)
  then have "nwk_read_header b' = nwk_read_header b" using a(2) z o len by (intro nwk_read_header_cong) simp_all
  then show "\<exists>i'. nwk_frame_decode (Some b') True = Inr i' \<and> nfi_payload_offset i' = nfi_payload_offset i"
    using s a z o by (simp add: nwk_frame_decode_def Let_def)
qed

lemma aps_offset_prefix:
  assumes "aps_frame_decode (Some b) True = Inr i"
  shows "afi_payload_offset i = 8" "8 \<le> length b"
    "take 8 b' = take 8 b \<Longrightarrow> 8 \<le> length b' \<Longrightarrow> length b' \<le> 108 \<Longrightarrow>
       \<exists>i'. aps_frame_decode (Some b') True = Inr i' \<and> afi_payload_offset i' = afi_payload_offset i"
proof -
  have s: "aps_validate_header (aps_read_header b) = APS_CODEC_OK" "b ! 0 AND 3 = 0" and len: "8 \<le> length b" and o: "afi_payload_offset i = 8"
    using assms by (auto simp: aps_frame_decode_def Let_def split: if_splits)
  then show "afi_payload_offset i = 8" "8 \<le> length b" by simp_all
  assume a: "take 8 b' = take 8 b" "8 \<le> length b'" "length b' \<le> 108"
  have "b' ! 0 = b ! 0" using a(1) by (metis nth_take zero_less_numeral)
  then show "\<exists>i'. aps_frame_decode (Some b') True = Inr i' \<and> afi_payload_offset i' = afi_payload_offset i"
    using s a o len aps_read_header_cong [OF a(1) len a(2)] by (auto simp: aps_frame_decode_def Let_def)
qed

lemma zs_clear_header_prefix:
  assumes "zs_clear_header layer f = Some (h, cmd)" "2 \<le> length f"
  shows "2 \<le> h" "h \<le> length f"
    "take h f' = take h f \<Longrightarrow> h \<le> length f' \<Longrightarrow> length f' \<le> zs_max_body layer \<Longrightarrow> zs_clear_header layer f' = Some (h, cmd)"
proof -
  let ?g = "2 \<le> h \<and> h \<le> length f \<and>
    (take h f' = take h f \<longrightarrow> h \<le> length f' \<longrightarrow> length f' \<le> zs_max_body layer \<longrightarrow> zs_clear_header layer f' = Some (h, cmd))"
  have z: "f' ! 0 = f ! 0" if "take h f' = take h f" "0 < h" using that by (metis nth_take)
  have ?g
  proof (cases "layer = ZIGBEE_SECURITY_NWK")
    case True
    then obtain i where i: "nwk_frame_decode (Some f) True = Inr i" "h = nfi_payload_offset i" "\<not> cmd"
      using assms(1) by (auto simp: zs_clear_header_def zs_header_length_def split: sum.splits)
    show ?thesis using nwk_offset_prefix(1,2) [OF i(1)] nwk_offset_prefix(3) [OF i(1), of f'] i True
      by (auto simp: zs_clear_header_def zs_header_length_def zs_max_body_def split: sum.splits)
  next
    case layer: False
    show ?thesis
    proof (cases "f ! 0 AND 3 = 1")
      case True
      then have "h = 2" "cmd" "f ! 0 AND NOT (1 OR 0x40) = 0"
        using assms(1) layer by (auto simp: zs_clear_header_def zs_header_length_def split: if_splits)
      then show ?thesis using True layer assms(2) z by (auto simp: zs_clear_header_def zs_header_length_def)
    next
      case False
      then obtain i where i: "aps_frame_decode (Some f) True = Inr i" "h = afi_payload_offset i" "\<not> cmd"
        using assms(1) layer by (auto simp: zs_clear_header_def zs_header_length_def split: sum.splits)
      show ?thesis using aps_offset_prefix(1,2) [OF i(1)] aps_offset_prefix(3) [OF i(1), of f'] i layer False z
        by (auto simp: zs_clear_header_def zs_header_length_def zs_max_body_def split: sum.splits)
    qed
  qed
  then show "2 \<le> h" "h \<le> length f"
    "take h f' = take h f \<Longrightarrow> h \<le> length f' \<Longrightarrow> length f' \<le> zs_max_body layer \<Longrightarrow> zs_clear_header layer f' = Some (h, cmd)"
    by blast+
qed

definition zs_level_ok :: "u8 \<Rightarrow> bool" where
  "zs_level_ok level \<longleftrightarrow> level \<noteq> 0 \<and> level \<noteq> 4 \<and> \<not> level > 7"

lemma zs_max_body_le: "zs_max_body layer \<le> 116"
  by (simp add: zs_max_body_def)

definition zs_header_done :: "u8 \<Rightarrow> u8 \<Rightarrow> bytes \<Rightarrow> nat \<times> bool \<Rightarrow> zs_state \<Rightarrow> zs_state" where
  "zs_header_done layer level frame hc st =
     st\<lparr>zs_packet := security_flag layer True frame @ drop (length frame) (zs_packet st), zs_command := snd hc,
       zs_meta := (zs_meta st)\<lparr>sm_header_length := fst hc, sm_level := level\<rparr>, zs_mic := 2 * 2 ^ unat (level AND 3)\<rparr>"

definition zs_frame_ok :: "u8 \<Rightarrow> bool \<Rightarrow> u8 \<Rightarrow> bytes \<Rightarrow> bool" where
  "zs_frame_ok layer secured level frame \<longleftrightarrow> \<not> layer > ZIGBEE_SECURITY_APS \<and> zs_level_ok level \<and> 2 \<le> length frame \<and>
     length frame \<le> zs_max_body layer \<and> (frame ! flag_index layer AND flag_bit layer \<noteq> 0) = secured"

lemma zs_header_length_clear:
  assumes "2 \<le> length frame"
  shows "zs_header_length layer (frame ! 0) (security_flag layer False frame @ r) (length frame) =
    zs_clear_header layer (security_flag layer False frame)"
proof -
  have nz: "frame \<noteq> []" using assms by auto
  have f0: "frame ! 0 AND 3 = security_flag layer False frame ! 0 AND 3"
    using nz by (auto simp: security_flag_alt flag_index_def flag_bit_def and.assoc nth_list_update)
  show ?thesis using nz unfolding zs_clear_header_def zs_header_length_def f0 by (simp add: nth_append)
qed

lemma zs_header_iff:
  assumes "length (zs_packet st) = 116"
  shows "zs_header layer secured level frame st = (ZIGBEE_SECURITY_OK, st') \<longleftrightarrow> zs_frame_ok layer secured level frame \<and>
    (\<exists>hc. zs_clear_header layer (security_flag layer False frame) = Some hc \<and> st' = zs_header_done layer level frame hc st)"
proof (cases "zs_frame_ok layer secured level frame")
  case True
  let ?f = "security_flag layer False frame"
  have st: "store_at 0 frame (zs_packet st) = frame @ drop (length frame) (zs_packet st)" by (simp add: store_at_def)
  have l2: "2 \<le> length frame" using True by (simp add: zs_frame_ok_def)
  have tf: "security_flag layer True ?f = security_flag layer True frame" using l2 by (simp add: security_flag_alt and.assoc bit.conj_disj_distrib2)
  note hl = zs_header_length_clear [OF l2]
  show ?thesis unfolding zs_header_def flag_present Let_def using True
    by (auto simp: st hl tf l2 zs_level_ok_def zs_frame_ok_def zs_header_done_def not_less leD split: option.splits prod.splits)
next
  case False
  then show ?thesis unfolding zs_header_def flag_present Let_def
    by (auto simp: zs_frame_ok_def zs_level_ok_def split: option.splits if_splits)
qed

section \<open>Sealed frames\<close>

definition zs_key_ok :: "zigbee_security_key \<Rightarrow> bool" where
  "zs_key_ok key \<longleftrightarrow> length (zk_key key) = 16 \<and> length (zk_source key) = 8 \<and> block_timeout (zk_limits key) \<noteq> 0 \<and>
     block_timeout (zk_limits key) < TIMEBASE_HALF_RANGE \<and> block_polls (zk_limits key) \<noteq> 0"

definition zs_auxiliary :: "zigbee_security_key \<Rightarrow> bytes" where
  "zs_auxiliary key = encode32 (zk_counter key) @ (if zk_extended_nonce key \<noteq> 0 then zk_source key else []) @
     (if zk_key_identifier key = 1 then [zk_key_sequence key] else [])"

definition zs_nonce :: "zigbee_security_key \<Rightarrow> bytes" where
  "zs_nonce key = zk_source key @ encode32 (zk_counter key) @ [zs_control key]"

definition zs_mic_length :: "zigbee_security_key \<Rightarrow> nat" where
  "zs_mic_length key = 2 * 2 ^ unat (zk_level key AND 3)"

text \<open>The protected form of a frame with a clear header of \<open>h\<close> bytes, as the specification draws it.\<close>

definition zs_sealed :: "cipher \<Rightarrow> u8 \<Rightarrow> zigbee_security_key \<Rightarrow> nat \<Rightarrow> bytes \<Rightarrow> bytes" where
  "zs_sealed E layer key h frame =
     (let header = take h (security_flag layer True frame); auth = header @ [zs_control key] @ zs_auxiliary key; payload = drop h frame in
      header @ [zs_control key AND 0xf8] @ zs_auxiliary key @
      (if zk_level key AND 4 \<noteq> 0 then ccm_seal E (zk_key key) (zs_nonce key) auth (zs_mic_length key) payload
       else payload @ ccm_seal E (zk_key key) (zs_nonce key) (auth @ payload) (zs_mic_length key) []))"

definition zs_aux_length :: "zigbee_security_key \<Rightarrow> nat" where
  "zs_aux_length key = 5 + 8 * unat (zk_extended_nonce key) + (if zk_key_identifier key = 1 then 1 else 0)"

lemma zs_mic_cases: "zs_level_ok (zk_level key) \<Longrightarrow> zs_mic_length key \<in> {4, 8, 16}"
  using word_le_cases(3) [of "zk_level key"] by (auto simp: zs_level_ok_def zs_mic_length_def not_less)

lemma length_zs_auxiliary:
  "zk_extended_nonce key \<le> 1 \<Longrightarrow> length (zk_source key) = 8 \<Longrightarrow> Suc (length (zs_auxiliary key)) = zs_aux_length key"
  using word_le_cases(1) [of "zk_extended_nonce key"] by (auto simp: zs_auxiliary_def zs_aux_length_def)

lemma store_at_append: "off = length x \<Longrightarrow> store_at off w (x @ y) = x @ w @ drop (length w) y"
  by (simp add: store_at_def)

lemma update_append: "off = length x \<Longrightarrow> y \<noteq> [] \<Longrightarrow> (x @ y)[off := v] = x @ v # drop 1 y"
  by (cases y) simp_all

lemma take_drop3:
  "length a = n \<Longrightarrow> length b = p \<Longrightarrow> take n (a @ b @ d) = a" "length a = n \<Longrightarrow> length b = p \<Longrightarrow> take (n + p) (a @ b @ d) = a @ b"
  "length a = n \<Longrightarrow> length b = p \<Longrightarrow> take p (drop n (a @ b @ d)) = b"
  by auto

lemma zs_assemble_bytes:
  assumes k: "length (zk_source key) = 8" "zk_extended_nonce key \<le> 1" and p: "p = length frame - length x"
    and r: "zs_aux_length key + p \<le> length R"
  shows "zs_assemble key frame (length x) (zs_aux_length key) p (x @ R) =
    x @ [zs_control key] @ zs_auxiliary key @ drop (length x) frame @ drop (zs_aux_length key + p) R"
proof -
  let ?h = "length x" and ?ctl = "[zs_control key]" and ?c = "encode32 (zk_counter key)"
  let ?s = "if zk_extended_nonce key \<noteq> 0 then zk_source key else []" and ?q = "if zk_key_identifier key = 1 then [zk_key_sequence key] else []"
  let ?e = "8 * unat (zk_extended_nonce key)"
  have e: "length ?s = ?e" using word_le_cases(1) [OF k(2)] k(1) by auto
  have R: "R \<noteq> []" using r by (auto simp: zs_aux_length_def)
  have 0: "(x @ R)[?h := zs_control key] = (x @ ?ctl) @ drop 1 R" using R by (simp add: update_append)
  have 1: "store_at (?h + 1) ?c ((x @ ?ctl) @ drop 1 R) = (x @ ?ctl @ ?c) @ drop 5 R" by (subst store_at_append) simp_all
  have 2: "(if zk_extended_nonce key \<noteq> 0 then store_at (?h + 5) (take 8 (zk_source key)) ((x @ ?ctl @ ?c) @ drop 5 R)
      else (x @ ?ctl @ ?c) @ drop 5 R) = (x @ ?ctl @ ?c @ ?s) @ drop (5 + ?e) R"
  proof (cases "zk_extended_nonce key = 0")
    case False
    then have "zk_extended_nonce key = 1" using word_le_cases(1) [OF k(2)] by simp
    then show ?thesis using k(1) store_at_append [of "?h + 5" "x @ ?ctl @ ?c" "zk_source key" "drop 5 R"] by simp
  qed simp
  have 3: "(if zk_key_identifier key = 1 then ((x @ ?ctl @ ?c @ ?s) @ drop (5 + ?e) R)[?h + zs_aux_length key - 1 := zk_key_sequence key]
      else (x @ ?ctl @ ?c @ ?s) @ drop (5 + ?e) R) = (x @ ?ctl @ zs_auxiliary key) @ drop (zs_aux_length key) R"
  proof (cases "zk_key_identifier key = 1")
    case True
    have "drop (5 + ?e) R \<noteq> []" using r True by (simp add: zs_aux_length_def)
    moreover have "?h + zs_aux_length key - 1 = length (x @ ?ctl @ ?c @ ?s)" using True e by (simp add: zs_aux_length_def)
    ultimately have "((x @ ?ctl @ ?c @ ?s) @ drop (5 + ?e) R)[?h + zs_aux_length key - 1 := zk_key_sequence key] =
        (x @ ?ctl @ ?c @ ?s) @ zk_key_sequence key # drop 1 (drop (5 + ?e) R)" by (intro update_append)
    then show ?thesis using True by (simp add: zs_auxiliary_def zs_aux_length_def)
  qed (simp add: zs_auxiliary_def zs_aux_length_def)
  have l: "length (x @ ?ctl @ zs_auxiliary key) = ?h + zs_aux_length key" using length_zs_auxiliary [OF k(2,1)] by simp
  have body: "take p (drop ?h frame) = drop ?h frame" "length (drop ?h frame) = p" "p = 0 \<Longrightarrow> drop ?h frame = []" using p by simp_all
  have 4: "(if p \<noteq> 0 then store_at (?h + zs_aux_length key) (drop ?h frame) ((x @ ?ctl @ zs_auxiliary key) @ drop (zs_aux_length key) R)
      else (x @ ?ctl @ zs_auxiliary key) @ drop (zs_aux_length key) R) =
      x @ ?ctl @ zs_auxiliary key @ drop ?h frame @ drop (zs_aux_length key + p) R"
    using body l store_at_append [of "?h + zs_aux_length key" "x @ ?ctl @ zs_auxiliary key" "drop ?h frame" "drop (zs_aux_length key) R"]
    by (simp add: add.commute)
  show ?thesis unfolding zs_assemble_def Let_def zs_control_def [symmetric] 0 1 2 3 body(1) 4 ..
qed

section \<open>Sealing\<close>

definition zs_shape_ok :: "u8 \<Rightarrow> bool \<Rightarrow> u8 \<Rightarrow> u8 \<Rightarrow> u32 \<Rightarrow> bool" where
  "zs_shape_ok layer command identifier extended counter \<longleftrightarrow> \<not> extended > 1 \<and> \<not> identifier > 3 \<and> counter \<noteq> 0xffffffff \<and>
     (if layer = ZIGBEE_SECURITY_NWK then identifier = 1 \<and> extended \<noteq> 0
      else identifier \<noteq> 1 \<and> (command \<or> identifier = 0) \<and> (command \<longrightarrow> extended \<noteq> 0))"

lemma zs_shape_iff:
  "zs_shape layer st = (ZIGBEE_SECURITY_OK, st') \<longleftrightarrow>
     zs_shape_ok layer (zs_command st) (sm_key_identifier (zs_meta st)) (sm_extended_nonce (zs_meta st)) (sm_counter (zs_meta st)) \<and>
     st' = st\<lparr>zs_meta := (zs_meta st)\<lparr>sm_auxiliary_length :=
        5 + 8 * unat (sm_extended_nonce (zs_meta st)) + (if sm_key_identifier (zs_meta st) = 1 then 1 else 0)\<rparr>\<rparr>"
  unfolding zs_shape_def Let_def zs_shape_ok_def by (auto split: if_splits)

lemma length_zs_zero [simp]: "length (zs_packet zs_zero) = 116"
  by (simp add: zs_zero_def)

lemma zs_admit_seal_ok:
  assumes "zs_admit_seal layer key frame = (ZIGBEE_SECURITY_OK, st)"
  obtains h cmd where "zs_frame_ok layer False (zk_level key) frame" "zs_clear_header layer (security_flag layer False frame) = Some (h, cmd)"
    "zs_shape_ok layer cmd (zk_key_identifier key) (zk_extended_nonce key) (zk_counter key)" "cmd \<longrightarrow> h < length frame"
    "zs_packet st = security_flag layer True frame @ replicate (116 - length frame) 0" "zs_mic st = zs_mic_length key"
    "sm_header_length (zs_meta st) = h" "sm_auxiliary_length (zs_meta st) = zs_aux_length key" "sm_payload_length (zs_meta st) = length frame - h"
proof -
  obtain r st1 where h: "zs_header layer False (zk_level key) frame zs_zero = (r, st1)" by fastforce
  have r: "r = ZIGBEE_SECURITY_OK" using assms h by (auto simp: zs_admit_seal_def split: if_splits)
  obtain hc where f: "zs_frame_ok layer False (zk_level key) frame" "zs_clear_header layer (security_flag layer False frame) = Some hc"
    "st1 = zs_header_done layer (zk_level key) frame hc zs_zero"
    using h [unfolded r zs_header_iff [OF length_zs_zero]] by blast
  obtain hl cmd where hc: "hc = (hl, cmd)" by (cases hc)
  let ?st = "st1\<lparr>zs_meta := (zs_meta st1)\<lparr>sm_key_identifier := zk_key_identifier key, sm_extended_nonce := zk_extended_nonce key,
            sm_key_sequence := (if zk_key_identifier key = 1 then zk_key_sequence key else 0), sm_counter := zk_counter key\<rparr>\<rparr>"
  obtain r2 st2 where s: "zs_shape layer ?st = (r2, st2)" by fastforce
  note run = assms [unfolded zs_admit_seal_def h prod.case s Let_def]
  have r2: "r2 = ZIGBEE_SECURITY_OK" using run r by (auto split: if_splits)
  note sh = s [unfolded r2 zs_shape_iff]
  have c: "\<not> (zs_command st2 \<and> length frame - sm_header_length (zs_meta st2) = 0)"
    and st: "st = st2\<lparr>zs_meta := (zs_meta st2)\<lparr>sm_payload_length := length frame - sm_header_length (zs_meta st2)\<rparr>\<rparr>"
    using run r r2 by (auto split: if_splits)
  show thesis
  proof (rule that [of hl cmd])
    show "zs_clear_header layer (security_flag layer False frame) = Some (hl, cmd)" using f(2) hc by simp
    show "zs_shape_ok layer cmd (zk_key_identifier key) (zk_extended_nonce key) (zk_counter key)"
      using sh by (simp add: f(3) hc zs_header_done_def)
    show "cmd \<longrightarrow> hl < length frame" using c sh by (auto simp: f(3) hc zs_header_done_def)
    show "zs_packet st = security_flag layer True frame @ replicate (116 - length frame) 0" "zs_mic st = zs_mic_length key"
      "sm_header_length (zs_meta st) = hl" "sm_auxiliary_length (zs_meta st) = zs_aux_length key" "sm_payload_length (zs_meta st) = length frame - hl"
      using sh unfolding st by (simp_all add: f(3) hc zs_header_done_def zs_zero_def zs_mic_length_def zs_aux_length_def)
  qed (rule f(1))
qed

text \<open>The CCM* request the module issues is never refused.\<close>

lemma zs_request_ok:
  assumes "zs_key_ok key" "zs_level_ok (zk_level key)" "length nonce = 13" "length aad \<le> 116"
    "if op then zs_mic_length key \<le> length input \<and> length input \<le> 116 else length input \<le> 116"
  shows "ccm_request_ok op (zk_key key) nonce aad input (zs_mic_length key) 132 (zk_limits key)"
  using assms zs_mic_cases [OF assms(2)] by (auto simp: ccm_request_ok_def zs_key_ok_def split: if_splits)

lemma length_zs_sealed:
  assumes E: "\<And>k b. length (E k b) = 16" and k: "zs_key_ok key" "zs_level_ok (zk_level key)" "zk_extended_nonce key \<le> 1"
    and h: "h \<le> length frame"
  shows "length (zs_sealed E layer key h frame) = length frame + zs_aux_length key + zs_mic_length key"
proof -
  have "zs_mic_length key \<le> 16" using zs_mic_cases [OF k(2)] by auto
  moreover have "Suc (length (zs_auxiliary key)) = zs_aux_length key" using k by (simp add: length_zs_auxiliary zs_key_ok_def)
  ultimately show ?thesis using E h by (simp add: zs_sealed_def Let_def ccm_seal_def)
qed

lemma zs_crypt_seal:
  assumes c: "aes_correct aes E" and key: "zs_key_ok key"
    and ad: "zs_admit_seal layer key frame = (ZIGBEE_SECURITY_OK, st)"
    and run: "zs_crypt aes False layer key frame cap st m = (r, out, info, m')"
    and hd: "zs_clear_header layer (security_flag layer False frame) = Some (h, cmd)"
  shows "(r = ZIGBEE_SECURITY_OK \<longrightarrow> out = zs_sealed E layer key h frame \<and> length out \<le> zs_max_body layer \<and> length out \<le> cap) \<and>
    (r \<noteq> ZIGBEE_SECURITY_OK \<longrightarrow> out = []) \<and>
    (aes_live aes ready (block_timeout (zk_limits key)) (block_polls (zk_limits key)) \<and> ready m \<and>
      length (zs_sealed E layer key h frame) \<le> min cap (zs_max_body layer) \<longrightarrow> r = ZIGBEE_SECURITY_OK \<and> ready m')"
proof -
  from ad obtain h' cmd' where a: "zs_frame_ok layer False (zk_level key) frame" "zs_clear_header layer (security_flag layer False frame) = Some (h', cmd')"
    "zs_shape_ok layer cmd' (zk_key_identifier key) (zk_extended_nonce key) (zk_counter key)" "cmd' \<longrightarrow> h' < length frame"
    "zs_packet st = security_flag layer True frame @ replicate (116 - length frame) 0" "zs_mic st = zs_mic_length key"
    "sm_header_length (zs_meta st) = h'" "sm_auxiliary_length (zs_meta st) = zs_aux_length key" "sm_payload_length (zs_meta st) = length frame - h'"
    by (rule zs_admit_seal_ok)
  have hh: "h' = h" using a(2) hd by simp
  have f: "2 \<le> length frame" "length frame \<le> zs_max_body layer" "zs_level_ok (zk_level key)" using a(1) by (simp_all add: zs_frame_ok_def)
  have h: "2 \<le> h" "h \<le> length frame" using zs_clear_header_prefix(1,2) [OF hd] f by simp_all
  have x1: "zk_extended_nonce key \<le> 1" using a(3) by (simp add: zs_shape_ok_def not_less)
  have E: "\<And>k b. length (E k b) = 16" using c by simp
  let ?p = "length frame - h" and ?a = "zs_aux_length key" and ?mic = "zs_mic_length key"
  let ?total = "h + ?p + (?a + ?mic)"
  have tot: "length (zs_sealed E layer key h frame) = ?total" using length_zs_sealed [where E = E, OF E key f(3) x1 h(2)] h by simp
  show ?thesis
  proof (cases "?total > zs_max_body layer \<or> cap < ?total")
    case True
    then show ?thesis using run tot unfolding zs_crypt_def Let_def by (auto simp: a hh split: if_splits)
  next
    case False
    let ?x = "take h (security_flag layer True frame)" and ?R = "drop h (security_flag layer True frame) @ replicate (116 - length frame) 0"
    let ?b = "drop h frame" and ?enc = "zk_level key AND 4 \<noteq> 0"
    have m116: "?total \<le> 116" using False zs_max_body_le [of layer] by simp
    have pk: "zs_packet st = ?x @ ?R" "length ?x = h" using a(5) h by simp_all
    have src: "length (zk_source key) = 8" using key by (simp add: zs_key_ok_def)
    define P where "P = ?x @ [zs_control key] @ zs_auxiliary key @ ?b @ drop (?a + ?p) ?R"
    have asm: "zs_assemble key frame h ?a ?p (zs_packet st) = P"
      using zs_assemble_bytes [OF src x1, of ?p frame ?x ?R] pk m116 h by (simp add: P_def)
    have la: "Suc (length (zs_auxiliary key)) = ?a" by (rule length_zs_auxiliary [OF x1 src])
    let ?auth = "?x @ [zs_control key] @ zs_auxiliary key"
    have lauth: "length ?auth = h + ?a" using pk(2) la by simp
    have t1: "take (h + ?a) P = ?auth" "take (h + ?a + ?p) P = ?auth @ ?b" "take ?p (drop (h + ?a) P) = ?b"
      using take_drop3 [OF lauth, of ?b ?p] h by (simp_all add: P_def)
    have nn: "take 8 (zk_source key) @ take 4 (drop (h + 1) P) @ [P ! h] = zs_nonce key"
      using pk(2) src by (simp add: P_def zs_nonce_def zs_auxiliary_def nth_append)
    define aad where "aad = (if ?enc then ?auth else ?auth @ ?b)"
    define inp where "inp = (if ?enc then ?b else [])"
    have lens: "length aad = (if ?enc then h + ?a else h + ?a + ?p)" "length inp = (if ?enc then ?p else 0)"
      using lauth h by (auto simp: aad_def inp_def)
    obtain cr pay ci m1 where ccm: "ccm_star_crypt aes 0 (Some (zk_key key)) (Some (zs_nonce key)) (Some aad) (length aad) (Some inp) (length inp)
        ?mic True 132 True (Some (zk_limits key)) True m = (cr, pay, ci, m1)" by (metis prod.exhaust)
    have call: "zs_ccm_call aes False key h ?a ?p ?mic P m = (cr, pay, ci, m1)"
      using ccm [unfolded lens] t1 unfolding zs_ccm_call_def Let_def nn aad_def inp_def by (cases "?enc") simp_all
    have run2: "(if cr \<noteq> CCM_STAR_OK then (zs_ccm_status cr, [], None, m1)
        else (ZIGBEE_SECURITY_OK, take ?total (zs_finish False layer key frame h ?a ?p pay P),
          map_option (Pair ((zs_meta st)\<lparr>sm_source := take 8 (zk_source key)\<rparr>)) ci, m1)) = (r, out, info, m')"
      using run False unfolding zs_crypt_def Let_def a(6-9) hh by (simp add: asm call split del: if_split cong: if_cong)
    have req: "ccm_request_ok ((0 :: u8) \<noteq> 0) (zk_key key) (zs_nonce key) aad inp ?mic 132 (zk_limits key)"
      using zs_request_ok [OF key f(3), of "zs_nonce key" aad False inp] m116 lens src h by (simp add: zs_nonce_def split: if_splits)
    note sp = ccm_star_crypt_spec [OF c req _ ccm, of ready]
    have pay: "cr \<noteq> CCM_STAR_AES \<Longrightarrow> cr = CCM_STAR_OK \<and> pay = ccm_seal E (zk_key key) (zs_nonce key) aad ?mic inp" using sp by simp
    have mic: "?mic \<le> 16" using zs_mic_cases [OF f(3)] by auto
    have fin: "take ?total (zs_finish False layer key frame h ?a ?p pay P) = zs_sealed E layer key h frame" if "cr = CCM_STAR_OK"
    proof -
      have py: "pay = ccm_seal E (zk_key key) (zs_nonce key) aad ?mic inp" using pay that by simp
      let ?D = "drop (?a + ?p) ?R"
      have upd: "(?x @ zs_control key # y)[h := (?x @ zs_control key # y) ! h AND 0xf8] = ?x @ (zs_control key AND 0xf8) # y" for y
        using pk(2) by (simp add: list_update_append nth_append)
      show ?thesis
      proof (cases "?enc")
        case True
        have "store_at (h + ?a) pay P = ?auth @ pay @ drop (length pay) (?b @ ?D)"
          unfolding P_def using lauth store_at_append [of "h + ?a" ?auth pay "?b @ ?D"] by simp
        then have "zs_finish False layer key frame h ?a ?p pay P = ?x @ (zs_control key AND 0xf8) # zs_auxiliary key @ pay @ drop (length pay) (?b @ ?D)"
          using True upd by (simp add: zs_finish_def Let_def)
        then have "zs_finish False layer key frame h ?a ?p pay P = zs_sealed E layer key h frame @ drop (length pay) (?b @ ?D)"
          using True unfolding zs_sealed_def Let_def py aad_def inp_def by simp
        then show ?thesis using tot by simp
      next
        case False
        have "store_at (h + ?a + ?p) pay P = ?auth @ ?b @ pay @ drop (length pay) ?D"
          unfolding P_def using lauth h store_at_append [of "h + ?a + ?p" "?auth @ ?b" pay "?D"] by simp
        then have "zs_finish False layer key frame h ?a ?p pay P = ?x @ (zs_control key AND 0xf8) # zs_auxiliary key @ ?b @ pay @ drop (length pay) ?D"
          using False upd by (simp add: zs_finish_def Let_def)
        then have "zs_finish False layer key frame h ?a ?p pay P = zs_sealed E layer key h frame @ drop (length pay) ?D"
          using False unfolding zs_sealed_def Let_def py aad_def inp_def by simp
        then show ?thesis using tot by simp
      qed
    qed
    show ?thesis
    proof (cases "cr = CCM_STAR_OK")
      case True
      then have "r = ZIGBEE_SECURITY_OK" "out = zs_sealed E layer key h frame" "m' = m1" using run2 fin by auto
      then show ?thesis using tot False sp by auto
    next
      case ncr: False
      then have "cr = CCM_STAR_AES" using pay by blast
      then have "r \<noteq> ZIGBEE_SECURITY_OK" "out = []" using run2 ncr by (auto simp: zs_ccm_status_def split: if_splits)
      then show ?thesis using sp \<open>cr = CCM_STAR_AES\<close> by auto
    qed
  qed
qed

section \<open>Opening\<close>

definition zs_wire_identifier :: "bytes \<Rightarrow> nat \<Rightarrow> u8" where "zs_wire_identifier g h = drop_bit 3 (g ! h) AND 3"
definition zs_wire_extended :: "bytes \<Rightarrow> nat \<Rightarrow> u8" where "zs_wire_extended g h = drop_bit 5 (g ! h) AND 1"
definition zs_wire_counter :: "bytes \<Rightarrow> nat \<Rightarrow> u32" where "zs_wire_counter g h = decode32 (drop (h + 1) g)"
definition zs_wire_aux :: "bytes \<Rightarrow> nat \<Rightarrow> nat" where
  "zs_wire_aux g h = 5 + 8 * unat (zs_wire_extended g h) + (if zs_wire_identifier g h = 1 then 1 else 0)"
definition zs_wire_mic :: "u8 \<Rightarrow> nat" where "zs_wire_mic level = 2 * 2 ^ unat (level AND 3)"

text \<open>What an inspected frame satisfies, with the length of its clear header.\<close>

definition zs_wire_ok :: "u8 \<Rightarrow> u8 \<Rightarrow> bytes \<Rightarrow> nat \<Rightarrow> bool \<Rightarrow> bool" where
  "zs_wire_ok layer level g h cmd \<longleftrightarrow> zs_frame_ok layer True level g \<and> zs_clear_header layer (security_flag layer False g) = Some (h, cmd) \<and>
     g ! h AND 0xc0 = 0 \<and> zs_shape_ok layer cmd (zs_wire_identifier g h) (zs_wire_extended g h) (zs_wire_counter g h) \<and>
     h + zs_wire_aux g h + zs_wire_mic level \<le> length g \<and> (cmd \<longrightarrow> h + zs_wire_aux g h + zs_wire_mic level < length g)"

definition zs_inspected :: "u8 \<Rightarrow> bytes \<Rightarrow> nat \<Rightarrow> bool \<Rightarrow> zs_state" where
  "zs_inspected level g h cmd =
     \<lparr>zs_packet = g[h := (g ! h AND 0xf8) OR level] @ replicate (116 - length g) 0,
      zs_meta = \<lparr>sm_counter = zs_wire_counter g h,
        sm_source = (if zs_wire_extended g h \<noteq> 0 then take 8 (drop (h + 5) g) else replicate 8 0), sm_level = level,
        sm_key_identifier = zs_wire_identifier g h,
        sm_key_sequence = (if zs_wire_identifier g h = 1 then g ! (h + zs_wire_aux g h - 1) else 0),
        sm_extended_nonce = zs_wire_extended g h, sm_header_length = h, sm_auxiliary_length = zs_wire_aux g h,
        sm_payload_length = length g - h - zs_wire_aux g h - zs_wire_mic level\<rparr>,
      zs_mic = zs_wire_mic level, zs_command = cmd\<rparr>"

lemma security_flag_keep:
  "2 \<le> length g \<Longrightarrow> g ! flag_index layer AND flag_bit layer \<noteq> 0 \<Longrightarrow> security_flag layer True g = g"
  using security_flag_set [of g layer] by (simp add: security_flag_alt and.assoc bit.conj_disj_distrib2)

lemma zs_inspect_iff:
  "zs_inspect layer level g zs_zero = (ZIGBEE_SECURITY_OK, st) \<longleftrightarrow> (\<exists>h cmd. zs_wire_ok layer level g h cmd \<and> st = zs_inspected level g h cmd)"
proof -
  obtain r1 st1 where H: "zs_header layer True level g zs_zero = (r1, st1)" by fastforce
  note iff = zs_header_iff [OF length_zs_zero, of layer True level g st1, unfolded H]
  show ?thesis
  proof (cases "r1 = ZIGBEE_SECURITY_OK")
    case False
    have "\<not> zs_wire_ok layer level g h cmd" for h cmd
      using False zs_header_iff [OF length_zs_zero, of layer True level g] H by (auto simp: zs_wire_ok_def)
    then show ?thesis using False by (simp add: zs_inspect_def H)
  next
    case r1: True
    then obtain hc where f: "zs_frame_ok layer True level g" "zs_clear_header layer (security_flag layer False g) = Some hc"
      "st1 = zs_header_done layer level g hc zs_zero" using iff by blast
    obtain h cmd where hc: "hc = (h, cmd)" by (cases hc)
    have g: "2 \<le> length g" "length g \<le> 116" "g ! flag_index layer AND flag_bit layer \<noteq> 0"
      using f(1) zs_max_body_le [of layer] by (auto simp: zs_frame_ok_def)
    have h: "2 \<le> h" "h \<le> length g" using zs_clear_header_prefix(1,2) [OF f(2) [unfolded hc]] g(1) by simp_all
    have uniq: "zs_wire_ok layer level g h' cmd' \<Longrightarrow> h' = h \<and> cmd' = cmd" for h' cmd' using f(2) hc by (simp add: zs_wire_ok_def)
    have st1: "zs_packet st1 = g @ replicate (116 - length g) 0" "zs_command st1 = cmd" "sm_header_length (zs_meta st1) = h" "zs_mic st1 = zs_wire_mic level"
      using f(3) hc security_flag_keep [OF g(1,3)] by (simp_all add: zs_header_done_def zs_zero_def zs_wire_mic_def)
    let ?st2 = "st1\<lparr>zs_meta := (zs_meta st1)\<lparr>sm_key_identifier := zs_wire_identifier g h,
            sm_extended_nonce := zs_wire_extended g h, sm_counter := zs_wire_counter g h\<rparr>\<rparr>"
    obtain r2 st2 where S: "zs_shape layer ?st2 = (r2, st2)" by fastforce
    note sh = zs_shape_iff [of layer ?st2 st2, unfolded S]
    have aux5: "5 \<le> zs_wire_aux g h" by (simp add: zs_wire_aux_def)
    show ?thesis
    proof (cases "h + 5 \<le> length g \<and> g ! h AND 0xc0 = 0 \<and> r2 = ZIGBEE_SECURITY_OK")
      case False
      have "\<not> zs_wire_ok layer level g h cmd"
        using False sh aux5 st1 zs_shape_iff [of layer ?st2] S by (auto simp: zs_wire_ok_def)
      then have "\<not> zs_wire_ok layer level g h' cmd'" for h' cmd' using uniq by blast
      moreover have "fst (zs_inspect layer level g zs_zero) \<noteq> ZIGBEE_SECURITY_OK"
        using False S unfolding zs_inspect_def H prod.case Let_def st1(3) zs_wire_identifier_def zs_wire_extended_def zs_wire_counter_def
        by (auto simp: r1 not_less)
      ultimately show ?thesis by (metis fst_conv)
    next
      case True
      have sok: "zs_shape_ok layer cmd (zs_wire_identifier g h) (zs_wire_extended g h) (zs_wire_counter g h)"
        and st2: "st2 = ?st2\<lparr>zs_meta := (zs_meta ?st2)\<lparr>sm_auxiliary_length := zs_wire_aux g h\<rparr>\<rparr>"
        using True sh st1 by (simp_all add: zs_wire_aux_def)
      have fields: "zs_mic st2 = zs_wire_mic level" "sm_auxiliary_length (zs_meta st2) = zs_wire_aux g h" "zs_command st2 = cmd"
        "zs_packet st2 = g @ replicate (116 - length g) 0" "sm_extended_nonce (zs_meta st2) = zs_wire_extended g h"
        "sm_key_identifier (zs_meta st2) = zs_wire_identifier g h"
        using st2 st1 by simp_all
      have hl: "h < length g" using True by simp
      note S' = S [unfolded zs_wire_identifier_def zs_wire_extended_def zs_wire_counter_def]
      define p where "p = length g - h - zs_wire_aux g h - zs_wire_mic level"
      define st3 where "st3 = st2\<lparr>zs_meta := (zs_meta st2)\<lparr>
         sm_source := (if zs_wire_extended g h \<noteq> 0 then take 8 (drop (h + 5) g) else sm_source (zs_meta st2)),
         sm_key_sequence := (if zs_wire_identifier g h = 1 then g ! (h + zs_wire_aux g h - 1) else sm_key_sequence (zs_meta st2)),
         sm_payload_length := p\<rparr>\<rparr>"
      have c3: "zs_command st3 = cmd" by (simp add: st3_def fields)
      have run: "zs_inspect layer level g zs_zero =
         (if length g < h + zs_wire_aux g h + zs_wire_mic level then (ZIGBEE_SECURITY_LENGTH, st2)
          else if cmd \<and> p = 0 then (ZIGBEE_SECURITY_LENGTH, st3)
          else (ZIGBEE_SECURITY_OK, st3\<lparr>zs_packet := (zs_packet st3)[h := (g ! h AND 0xf8) OR level]\<rparr>))"
        using True r1 unfolding zs_inspect_def H prod.case Let_def st1(3) S' fields p_def [symmetric] st3_def [symmetric] c3
        by (simp add: not_less)
      have ins: "st3\<lparr>zs_packet := (zs_packet st3)[h := (g ! h AND 0xf8) OR level]\<rparr> = zs_inspected level g h cmd"
        using st2 f(3) hc hl unfolding st3_def p_def
        by (simp add: zs_inspected_def zs_header_done_def zs_zero_def list_update_append zs_wire_mic_def security_flag_keep [OF g(1,3)])
      have ok: "zs_wire_ok layer level g h cmd \<longleftrightarrow> \<not> length g < h + zs_wire_aux g h + zs_wire_mic level \<and>
          \<not> (cmd \<and> p = 0)"
        using f(1,2) hc sok True by (auto simp: zs_wire_ok_def p_def)
      show ?thesis
      proof (cases "zs_wire_ok layer level g h cmd")
        case True
        then have "zs_inspect layer level g zs_zero = (ZIGBEE_SECURITY_OK, zs_inspected level g h cmd)"
          using ok unfolding run ins by auto
        moreover have "(\<exists>h' cmd'. zs_wire_ok layer level g h' cmd' \<and> st = zs_inspected level g h' cmd') \<longleftrightarrow> st = zs_inspected level g h cmd"
          using True uniq by blast
        ultimately show ?thesis by auto
      next
        case False
        then have "fst (zs_inspect layer level g zs_zero) \<noteq> ZIGBEE_SECURITY_OK" using ok unfolding run by auto
        moreover have "\<not> zs_wire_ok layer level g h' cmd'" for h' cmd' using False uniq by blast
        ultimately show ?thesis by (metis fst_conv)
      qed
    qed
  qed
qed

text \<open>What an opening call computes of a frame with a clear header of \<open>h\<close> bytes.\<close>

definition zs_open_nonce :: "zigbee_security_key \<Rightarrow> nat \<Rightarrow> bytes \<Rightarrow> bytes" where
  "zs_open_nonce key h g = zk_source key @ take 4 (drop (h + 1) g) @ [(g ! h AND 0xf8) OR zk_level key]"

definition zs_open_packet :: "zigbee_security_key \<Rightarrow> nat \<Rightarrow> bytes \<Rightarrow> bytes" where
  "zs_open_packet key h g = g[h := (g ! h AND 0xf8) OR zk_level key]"

definition zs_opened :: "cipher \<Rightarrow> u8 \<Rightarrow> zigbee_security_key \<Rightarrow> nat \<Rightarrow> bytes \<Rightarrow> bytes option" where
  "zs_opened E layer key h g =
     (let header = take h (security_flag layer False g); split = h + zs_wire_aux g h; cut = length g - zs_mic_length key in
      if zk_level key AND 4 \<noteq> 0
      then map_option (\<lambda>p. header @ p)
        (ccm_open E (zk_key key) (zs_open_nonce key h g) (take split (zs_open_packet key h g)) (zs_mic_length key) (drop split g))
      else map_option (\<lambda>_. header @ take (cut - split) (drop split g))
        (ccm_open E (zk_key key) (zs_open_nonce key h g) (take cut (zs_open_packet key h g)) (zs_mic_length key) (drop cut g)))"

text \<open>The frame's selectors are the key's.\<close>

definition zs_selected :: "zigbee_security_key \<Rightarrow> nat \<Rightarrow> bytes \<Rightarrow> bool" where
  "zs_selected key h g \<longleftrightarrow> zs_wire_identifier g h = zk_key_identifier key \<and> zs_wire_extended g h = zk_extended_nonce key \<and>
     (zk_key_identifier key = 1 \<longrightarrow> g ! (h + zs_wire_aux g h - 1) = zk_key_sequence key) \<and>
     (zs_wire_extended g h \<noteq> 0 \<longrightarrow> take 8 (drop (h + 5) g) = take 8 (zk_source key))"

lemma zs_admit_open_iff:
  "zs_admit_open layer key g = (ZIGBEE_SECURITY_OK, st) \<longleftrightarrow>
     (\<exists>h cmd. zs_wire_ok layer (zk_level key) g h cmd \<and> zs_selected key h g \<and> st = zs_inspected (zk_level key) g h cmd)"
proof -
  obtain r st1 where I: "zs_inspect layer (zk_level key) g zs_zero = (r, st1)" by fastforce
  note iff = zs_inspect_iff [of layer "zk_level key" g, unfolded I]
  have key: "zs_admit_open layer key g = (ZIGBEE_SECURITY_OK, st) \<longleftrightarrow> r = ZIGBEE_SECURITY_OK \<and> st = st1 \<and>
      \<not> (sm_key_identifier (zs_meta st1) \<noteq> zk_key_identifier key \<or> sm_extended_nonce (zs_meta st1) \<noteq> zk_extended_nonce key \<or>
         (zk_key_identifier key = 1 \<and> sm_key_sequence (zs_meta st1) \<noteq> zk_key_sequence key)) \<and>
      \<not> (sm_extended_nonce (zs_meta st1) \<noteq> 0 \<and> take 8 (sm_source (zs_meta st1)) \<noteq> take 8 (zk_source key))"
    unfolding zs_admit_open_def I Let_def prod.case by auto
  have sel: "(\<not> (sm_key_identifier (zs_meta z) \<noteq> zk_key_identifier key \<or> sm_extended_nonce (zs_meta z) \<noteq> zk_extended_nonce key \<or>
         (zk_key_identifier key = 1 \<and> sm_key_sequence (zs_meta z) \<noteq> zk_key_sequence key)) \<and>
      \<not> (sm_extended_nonce (zs_meta z) \<noteq> 0 \<and> take 8 (sm_source (zs_meta z)) \<noteq> take 8 (zk_source key))) \<longleftrightarrow> zs_selected key h g"
    if "z = zs_inspected (zk_level key) g h cmd" for z h cmd
    unfolding that zs_selected_def by (auto simp: zs_inspected_def)
  show ?thesis unfolding key using iff sel by (metis (no_types, lifting) prod.inject)
qed

lemma zs_crypt_open:
  assumes c: "aes_correct aes E" and key: "zs_key_ok key" and w: "zs_wire_ok layer (zk_level key) g h cmd"
    and run: "zs_crypt aes True layer key g cap (zs_inspected (zk_level key) g h cmd) m = (r, out, info, m')"
    and cap: "length g \<le> cap + zs_wire_aux g h + zs_mic_length key"
  shows "(r \<noteq> ZIGBEE_SECURITY_AES \<longrightarrow> (r, out) = (case zs_opened E layer key h g of
      None \<Rightarrow> (ZIGBEE_SECURITY_AUTH, []) | Some f \<Rightarrow> (ZIGBEE_SECURITY_OK, f))) \<and> (r = ZIGBEE_SECURITY_AES \<longrightarrow> out = []) \<and>
    (aes_live aes ready (block_timeout (zk_limits key)) (block_polls (zk_limits key)) \<and> ready m \<longrightarrow> r \<noteq> ZIGBEE_SECURITY_AES \<and> ready m')"
proof -
  have lv: "zs_level_ok (zk_level key)" "2 \<le> length g" "length g \<le> zs_max_body layer"
    and hd: "zs_clear_header layer (security_flag layer False g) = Some (h, cmd)"
    using w by (simp_all add: zs_wire_ok_def zs_frame_ok_def)
  have g116: "length g \<le> 116" using lv(3) zs_max_body_le [of layer] by simp
  have h2: "2 \<le> h" using zs_clear_header_prefix(1) [OF hd] lv(2) by simp
  let ?a = "zs_wire_aux g h" and ?mic = "zs_mic_length key" and ?enc = "zk_level key AND 4 \<noteq> 0"
  define p where "p = length g - h - ?a - ?mic"
  have mic: "zs_wire_mic (zk_level key) = ?mic" by (simp add: zs_wire_mic_def zs_mic_length_def)
  have len: "length g = h + ?a + p + ?mic" using w mic by (simp add: zs_wire_ok_def p_def)
  have a5: "5 \<le> ?a" by (simp add: zs_wire_aux_def)
  let ?P = "zs_open_packet key h g" and ?Z = "replicate (116 - length g) 0" and ?n = "zs_open_nonce key h g"
  define st where "st = zs_inspected (zk_level key) g h cmd"
  have st: "zs_packet st = ?P @ ?Z" "sm_header_length (zs_meta st) = h" "sm_auxiliary_length (zs_meta st) = ?a" "sm_payload_length (zs_meta st) = p"
    "zs_mic st = ?mic" by (simp_all add: st_def zs_inspected_def zs_open_packet_def p_def mic)
  have lP: "length ?P = length g" by (simp add: zs_open_packet_def)
  have dP: "drop k ?P = drop k g" if "h < k" for k using that by (simp add: zs_open_packet_def)
  have src: "take 8 (zk_source key) = zk_source key" "length (zk_source key) = 8" using key by (simp_all add: zs_key_ok_def)
  have nn: "take 8 (zk_source key) @ take 4 (drop (h + 1) (?P @ ?Z)) @ [(?P @ ?Z) ! h] = ?n"
    using len a5 dP [of "h + 1"] lP src by (simp add: zs_open_nonce_def nth_append) (simp add: zs_open_packet_def)
  define auth where "auth = (if ?enc then h + ?a else h + ?a + p)"
  have cut: "length g - ?mic = h + ?a + p" using len by simp
  have inp: "take (length g - auth) (drop auth (?P @ ?Z)) = drop auth g" "length (drop auth g) = length g - auth"
    "length g - auth = (if ?enc then p + ?mic else ?mic)" "take auth (?P @ ?Z) = take auth ?P" "length (take auth ?P) = auth"
    using dP [of auth] lP len a5 by (simp_all add: auth_def)
  obtain cr pay ci m1 where ccm: "ccm_star_crypt aes 1 (Some (zk_key key)) (Some ?n) (Some (take auth ?P)) (length (take auth ?P))
      (Some (drop auth g)) (length (drop auth g)) ?mic True 132 True (Some (zk_limits key)) True m = (cr, pay, ci, m1)" by (metis prod.exhaust)
  have call: "zs_ccm_call aes True key h ?a p ?mic (?P @ ?Z) m = (cr, pay, ci, m1)"
    unfolding zs_ccm_call_def Let_def nn auth_def [symmetric] if_True inp(3) [symmetric] inp(1,4) by (rule ccm [unfolded inp(2,5)])
  have nocap: "\<not> h + p > zs_max_body layer" "\<not> cap < h + p" using len lv(3) cap by simp_all
  have run2: "(if cr \<noteq> CCM_STAR_OK then (zs_ccm_status cr, [], None, m1)
      else (ZIGBEE_SECURITY_OK, take (h + p) (zs_finish True layer key g h ?a p pay (?P @ ?Z)),
        map_option (Pair ((zs_meta st)\<lparr>sm_source := take 8 (zk_source key)\<rparr>)) ci, m1)) = (r, out, info, m')"
    using run nocap unfolding st_def [symmetric] zs_crypt_def Let_def st by (simp add: call split del: if_split cong: if_cong)
  have req: "ccm_request_ok ((1 :: u8) \<noteq> 0) (zk_key key) ?n (take auth ?P) (drop auth g) ?mic 132 (zk_limits key)"
    using zs_request_ok [OF key lv(1), of ?n "take auth ?P" True "drop auth g"] inp g116 len src a5
    by (auto simp: zs_open_nonce_def auth_def)
  note sp = ccm_star_crypt_spec [OF c req _ ccm, of ready]
  have fin: "take (h + p) (zs_finish True layer key g h ?a p pay (?P @ ?Z)) =
      take h (security_flag layer False g) @ (if ?enc then take p pay else take p (drop (h + ?a) g))"
    if "?enc \<Longrightarrow> p \<le> length pay"
  proof -
    let ?F = "security_flag layer False (?P @ ?Z)" and ?w = "if ?enc then take p pay else take p (drop (h + ?a) g)"
    have "flag_index layer < h" using h2 by simp
    then have "take h ?F = take h (security_flag layer False g)"
      using lv(2) lP len by (simp add: security_flag_alt zs_open_packet_def nth_append nth_list_update list_update_beyond take_update_swap)
    moreover have "length ?w = p" using that len by auto
    moreover have "take (h + p) (store_at h ?w ?F) = take h ?F @ ?w" if "length ?w = p" using that len lP by (simp add: store_at_def)
    ultimately show ?thesis by (cases "p = 0") (auto simp: zs_finish_def Let_def)
  qed
  have op: "zs_opened E layer key h g = (case ccm_open E (zk_key key) ?n (take auth ?P) ?mic (drop auth g) of None \<Rightarrow> None
      | Some q \<Rightarrow> Some (take h (security_flag layer False g) @ (if ?enc then q else take p (drop (h + ?a) g))))"
    using cut unfolding zs_opened_def Let_def auth_def by (auto split: option.splits)
  have ql: "length q = p" if "?enc" "ccm_open E (zk_key key) ?n (take auth ?P) ?mic (drop auth g) = Some q" for q
    using that len by (auto simp: ccm_open_def Let_def auth_def split: if_splits)
  show ?thesis
  proof (cases "cr = CCM_STAR_AES")
    case True
    then have "r = ZIGBEE_SECURITY_AES" "out = []" using run2 by (auto simp: zs_ccm_status_def)
    then show ?thesis using sp True by simp
  next
    case False
    then have res: "(cr, pay) = (case ccm_open E (zk_key key) ?n (take auth ?P) ?mic (drop auth g) of None \<Rightarrow> (CCM_STAR_AUTH, []) | Some p \<Rightarrow> (CCM_STAR_OK, p))"
      using sp by simp
    have live: "aes_live aes ready (block_timeout (zk_limits key)) (block_polls (zk_limits key)) \<and> ready m \<Longrightarrow> ready m1" using sp by simp
    show ?thesis
    proof (cases "ccm_open E (zk_key key) ?n (take auth ?P) ?mic (drop auth g)")
      case None
      then have "r = ZIGBEE_SECURITY_AUTH" "out = []" "m' = m1" using run2 res by (auto simp: zs_ccm_status_def)
      then show ?thesis using op None live by simp
    next
      case (Some q)
      then have "r = ZIGBEE_SECURITY_OK" "out = take h (security_flag layer False g) @ (if ?enc then take p q else take p (drop (h + ?a) g))" "m' = m1"
        using run2 res fin ql [OF _ Some] by auto
      then show ?thesis using op Some ql [OF _ Some] live by (cases "?enc") simp_all
    qed
  qed
qed

section \<open>Opening undoes sealing\<close>

lemma zs_sealed_wire:
  assumes E: "\<And>k b. length (E k b) = 16" and key: "zs_key_ok key" and f: "zs_frame_ok layer False (zk_level key) frame"
    and hd: "zs_clear_header layer frame = Some (h, cmd)" and sh: "zs_shape_ok layer cmd (zk_key_identifier key) (zk_extended_nonce key) (zk_counter key)"
    and cmd: "cmd \<longrightarrow> h < length frame" and len: "length (zs_sealed E layer key h frame) \<le> zs_max_body layer"
  shows "zs_wire_ok layer (zk_level key) (zs_sealed E layer key h frame) h cmd" "zs_selected key h (zs_sealed E layer key h frame)"
    "zs_opened E layer key h (zs_sealed E layer key h frame) = Some frame"
    "zs_wire_aux (zs_sealed E layer key h frame) h = zs_aux_length key"
proof -
  let ?g = "zs_sealed E layer key h frame" and ?x = "take h (security_flag layer True frame)" and ?ctl = "zs_control key"
  let ?aux = "zs_auxiliary key" and ?a = "zs_aux_length key" and ?mic = "zs_mic_length key" and ?b = "drop h frame" and ?enc = "zk_level key AND 4 \<noteq> 0"
  let ?auth = "?x @ [?ctl] @ ?aux"
  define rest where "rest = (if ?enc then ccm_seal E (zk_key key) (zs_nonce key) ?auth ?mic ?b
      else ?b @ ccm_seal E (zk_key key) (zs_nonce key) (?auth @ ?b) ?mic [])"
  have g: "?g = ?x @ (?ctl AND 0xf8) # ?aux @ rest" by (simp add: zs_sealed_def Let_def rest_def)
  have lf: "2 \<le> length frame" and lev: "zs_level_ok (zk_level key)" and clear: "frame ! flag_index layer AND flag_bit layer = 0"
    using f by (simp_all add: zs_frame_ok_def)
  have h: "2 \<le> h" "h \<le> length frame" using zs_clear_header_prefix(1,2) [OF hd lf] .
  have bnd: "zk_level key \<le> 7" "zk_key_identifier key \<le> 3" "zk_extended_nonce key \<le> 1"
    using lev sh by (simp_all add: zs_level_ok_def zs_shape_ok_def not_less)
  have src: "length (zk_source key) = 8" using key by (simp add: zs_key_ok_def)
  note la = length_zs_auxiliary [OF bnd(3) src] and ctl = zs_control_facts [OF bnd]
  have mic: "?mic \<le> 16" using zs_mic_cases [OF lev] by auto
  have lx: "length ?x = h" using h by simp
  have lr: "length rest = length frame - h + ?mic" using E mic by (simp add: rest_def ccm_seal_def)
  have lg: "length ?g = length frame + ?a + ?mic" using length_zs_sealed [where E = E, OF E key lev bnd(3) h(2)] .
  have gh: "?g ! h = ?ctl AND 0xf8" unfolding g using lx by (simp add: nth_append)
  have wi: "zs_wire_identifier ?g h = zk_key_identifier key" "zs_wire_extended ?g h = zk_extended_nonce key"
    using ctl(2,3) by (simp_all add: zs_wire_identifier_def zs_wire_extended_def gh)
  show wa: "zs_wire_aux ?g h = ?a" by (simp add: zs_wire_aux_def wi zs_aux_length_def)
  have d1: "drop (h + 1) ?g = ?aux @ rest" unfolding g using lx by simp
  have wc: "zs_wire_counter ?g h = zk_counter key" unfolding zs_wire_counter_def d1 by (simp add: zs_auxiliary_def)
  have fg: "security_flag layer False ?g = take h frame @ (?ctl AND 0xf8) # ?aux @ rest"
  proof -
    have "security_flag layer False ?x = take h (security_flag layer False (security_flag layer True frame))"
      using h by (simp add: security_flag_alt take_update_swap)
    also have "\<dots> = take h frame" using lf clear by (simp add: security_flag_clear)
    finally show ?thesis unfolding g using lx h by simp
  qed
  have flag: "?g ! flag_index layer AND flag_bit layer \<noteq> 0"
    using security_flag_true_present [OF lf] h lf unfolding g by (simp add: nth_append)
  have hd': "zs_clear_header layer (security_flag layer False ?g) = Some (h, cmd)"
  proof (rule zs_clear_header_prefix(3) [OF hd lf])
    show "take h (security_flag layer False ?g) = take h frame" unfolding fg using h by simp
    show "h \<le> length (security_flag layer False ?g)" "length (security_flag layer False ?g) \<le> zs_max_body layer"
      using lg h len by simp_all
  qed
  show "zs_wire_ok layer (zk_level key) ?g h cmd"
    using f len lg flag hd' ctl(1) sh cmd h unfolding zs_wire_ok_def zs_frame_ok_def wi wc wa gh
    by (auto simp: zs_wire_mic_def zs_mic_length_def)
  have seq: "zk_key_identifier key = 1 \<Longrightarrow> ?g ! (h + ?a - 1) = zk_key_sequence key"
  proof -
    assume i: "zk_key_identifier key = 1"
    let ?y = "?x @ (?ctl AND 0xf8) # encode32 (zk_counter key) @ (if zk_extended_nonce key \<noteq> 0 then zk_source key else [])"
    have "?g = ?y @ zk_key_sequence key # rest" unfolding g using i by (simp add: zs_auxiliary_def)
    moreover have "h + ?a - 1 = length ?y" using lx la i by (simp add: zs_auxiliary_def)
    ultimately show ?thesis by (metis nth_append_length)
  qed
  have sr: "zk_extended_nonce key \<noteq> 0 \<Longrightarrow> take 8 (drop (h + 5) ?g) = zk_source key"
    unfolding g using lx src by (simp add: zs_auxiliary_def)
  show "zs_selected key h ?g" unfolding zs_selected_def wi wa using seq sr src by simp
  have nonce: "zs_open_nonce key h ?g = zs_nonce key"
    unfolding zs_open_nonce_def d1 gh ctl(4) by (simp add: zs_nonce_def zs_auxiliary_def)
  have pk: "zs_open_packet key h ?g = ?auth @ rest" unfolding zs_open_packet_def gh ctl(4) unfolding g using lx by (simp add: list_update_append)
  have lauth: "length ?auth = h + ?a" using lx la by simp
  have hdr: "take h (security_flag layer False ?g) = take h frame" unfolding fg using h by simp
  have dr: "drop (h + ?a) ?g = rest"
  proof -
    have "?g = (?x @ (?ctl AND 0xf8) # ?aux) @ rest" "length (?x @ (?ctl AND 0xf8) # ?aux) = h + ?a" using g lx la by simp_all
    then show ?thesis by (metis append_eq_conv_conj)
  qed
  show "zs_opened E layer key h ?g = Some frame"
  proof (cases "?enc")
    case True
    then have r: "rest = ccm_seal E (zk_key key) (zs_nonce key) ?auth ?mic ?b" by (simp add: rest_def)
    have "take (h + ?a) (?auth @ rest) = ?auth" using lauth by (metis append_eq_conv_conj)
    then have "zs_opened E layer key h ?g = map_option (\<lambda>p. take h frame @ p) (ccm_open E (zk_key key) (zs_nonce key) ?auth ?mic rest)"
      using True unfolding zs_opened_def Let_def hdr wa nonce pk dr by simp
    then show ?thesis unfolding r ccm_open_seal [where E = E, OF E mic] by simp
  next
    case False
    let ?t = "ccm_seal E (zk_key key) (zs_nonce key) (?auth @ ?b) ?mic []"
    have r: "rest = ?b @ ?t" using False by (simp add: rest_def)
    have lt: "length ?t = ?mic" using E mic by (simp add: ccm_seal_def)
    have cut: "length ?g - ?mic = h + ?a + length ?b" using lg h by simp
    have t1: "take (h + ?a + length ?b) (?auth @ rest) = ?auth @ ?b" unfolding r using take_drop3(2) [OF lauth, of ?b "length ?b" ?t] by simp
    have "drop (h + ?a + length ?b) ?g = drop (length ?b) rest" using dr by (metis add.commute drop_drop)
    then have t2: "drop (h + ?a + length ?b) ?g = ?t" unfolding r by simp
    have "zs_opened E layer key h ?g = map_option (\<lambda>_. take h frame @ take (length ?b) rest)
        (ccm_open E (zk_key key) (zs_nonce key) (?auth @ ?b) ?mic ?t)"
      using False unfolding zs_opened_def Let_def hdr wa nonce pk dr cut t1 t2 by simp
    then show ?thesis unfolding ccm_open_seal [where E = E, OF E mic] using r by simp
  qed
qed

lemma security_crypt_seal_cases:
  assumes "zigbee_security_crypt aes 0 layer (Some key) (Some frame) True cap True m = (ZIGBEE_SECURITY_OK, out, info, m')"
  obtains st where "zs_admit_seal layer key frame = (ZIGBEE_SECURITY_OK, st)"
    "zs_crypt aes False layer key frame cap st m = (ZIGBEE_SECURITY_OK, out, info, m')"
  using assms by (cases "zs_admit_seal layer key frame") (auto simp: zigbee_security_crypt_def split: if_splits)

lemma security_open_sealed:
  assumes c: "aes_correct aes E" and key: "zs_key_ok key"
    and seal: "zigbee_security_crypt aes 0 layer (Some key) (Some frame) True cap True m = (ZIGBEE_SECURITY_OK, out, info, m')"
    and open': "zigbee_security_crypt aes 1 layer (Some key) (Some out) True cap' True n = (r, out', info', n')"
    and cap': "length frame \<le> cap'"
  shows "(r = ZIGBEE_SECURITY_AES \<or> r = ZIGBEE_SECURITY_OK \<and> out' = frame) \<and>
    (aes_live aes ready (block_timeout (zk_limits key)) (block_polls (zk_limits key)) \<and> ready n \<longrightarrow> r = ZIGBEE_SECURITY_OK)"
proof -
  obtain st where ad: "zs_admit_seal layer key frame = (ZIGBEE_SECURITY_OK, st)"
    and run: "zs_crypt aes False layer key frame cap st m = (ZIGBEE_SECURITY_OK, out, info, m')"
    using seal by (rule security_crypt_seal_cases)
  from ad obtain h cmd where a: "zs_frame_ok layer False (zk_level key) frame" "zs_clear_header layer (security_flag layer False frame) = Some (h, cmd)"
    "zs_shape_ok layer cmd (zk_key_identifier key) (zk_extended_nonce key) (zk_counter key)" "cmd \<longrightarrow> h < length frame"
    by (rule zs_admit_seal_ok)
  have o: "out = zs_sealed E layer key h frame" "length out \<le> zs_max_body layer"
    using zs_crypt_seal [OF c key ad run a(2), of "\<lambda>_. False"] by blast+
  have lf: "2 \<le> length frame" "frame ! flag_index layer AND flag_bit layer = 0" using a(1) by (simp_all add: zs_frame_ok_def)
  have cl: "zs_clear_header layer frame = Some (h, cmd)" using a(2) security_flag_clear [OF lf] by simp
  have E: "\<And>k b. length (E k b) = 16" using c by simp
  note S = zs_sealed_wire [where E = E, OF E key a(1) cl a(3,4) o(2) [unfolded o(1)], folded o(1)]
  have adm: "zs_admit_open layer key out = (ZIGBEE_SECURITY_OK, zs_inspected (zk_level key) out h cmd)"
    unfolding zs_admit_open_iff using S(1,2) by blast
  have run': "zs_crypt aes True layer key out cap' (zs_inspected (zk_level key) out h cmd) n = (r, out', info', n')"
    using open' by (simp add: zigbee_security_crypt_def adm)
  have h: "h \<le> length frame" using zs_clear_header_prefix(2) [OF cl lf(1)] .
  have x: "zk_extended_nonce key \<le> 1" using a(3) by (simp add: zs_shape_ok_def not_less)
  have lv: "zs_level_ok (zk_level key)" using a(1) by (simp add: zs_frame_ok_def)
  have len: "length out = length frame + zs_aux_length key + zs_mic_length key"
    unfolding o(1) by (rule length_zs_sealed [where E = E, OF E key lv x h])
  have "length out \<le> cap' + zs_wire_aux out h + zs_mic_length key" using len cap' S(4) by simp
  from zs_crypt_open [OF c key S(1) run' this, of ready] S(3) show ?thesis by auto
qed

lemma security_open_cases:
  assumes "zigbee_security_crypt aes 1 layer (Some key) (Some g) True cap True m = (ZIGBEE_SECURITY_OK, out, info, m')"
  obtains h cmd where "zs_wire_ok layer (zk_level key) g h cmd" "zs_selected key h g"
    "zs_crypt aes True layer key g cap (zs_inspected (zk_level key) g h cmd) m = (ZIGBEE_SECURITY_OK, out, info, m')"
    "length g \<le> cap + zs_wire_aux g h + zs_mic_length key"
proof -
  obtain st where ad: "zs_admit_open layer key g = (ZIGBEE_SECURITY_OK, st)"
    and run: "zs_crypt aes True layer key g cap st m = (ZIGBEE_SECURITY_OK, out, info, m')"
    using assms by (cases "zs_admit_open layer key g") (auto simp: zigbee_security_crypt_def split: if_splits)
  obtain h cmd where w: "zs_wire_ok layer (zk_level key) g h cmd" "zs_selected key h g" and st: "st = zs_inspected (zk_level key) g h cmd"
    using ad unfolding zs_admit_open_iff by blast
  have "\<not> cap < sm_header_length (zs_meta st) + sm_payload_length (zs_meta st)" using run unfolding zs_crypt_def Let_def by (auto split: if_splits)
  then have "length g \<le> cap + zs_wire_aux g h + zs_mic_length key" by (simp add: st zs_inspected_def zs_wire_mic_def zs_mic_length_def)
  with that w run st show thesis by blast
qed

section \<open>Properties\<close>

text \<open>C28. Removing the protection recovers the frame: whatever frame, layer, level and key material a sealing call
  accepted, an opening call on its output with the same key returns the original frame, byte
  for byte, or reports that the engine failed; with a working engine it succeeds.\<close>

theorem security_roundtrip:
  assumes "aes_correct aes E" and "zs_key_ok key"
    and "zigbee_security_crypt aes 0 layer (Some key) (Some frame) True cap True m = (ZIGBEE_SECURITY_OK, out, info, m')"
    and "zigbee_security_crypt aes 1 layer (Some key) (Some out) True cap' True n = (r, out', info', n')"
    and "length frame \<le> cap'"
  shows "(r = ZIGBEE_SECURITY_AES \<or> r = ZIGBEE_SECURITY_OK \<and> out' = frame) \<and>
    (aes_live aes ready (block_timeout (zk_limits key)) (block_polls (zk_limits key)) \<and> ready n \<longrightarrow> r = ZIGBEE_SECURITY_OK)"
  by (rule security_open_sealed [OF assms])

definition mix_key :: zigbee_security_key where
  "mix_key = \<lparr>zk_key = replicate 16 5, zk_source = [1, 2, 3, 4, 5, 6, 7, 8], zk_counter = 0x01020304, zk_level = 5, zk_key_identifier = 1,
     zk_key_sequence = 0, zk_extended_nonce = 1, zk_limits = mix_limits\<rparr>"

definition clear_nwk :: bytes where
  "clear_nwk = [0x08, 0x00, 0, 0, 0xcd, 0xab, 30, 1, 0x40, 1, 2, 3]"

lemma mix_key_ok: "zs_key_ok mix_key"
  by (simp add: zs_key_ok_def mix_key_def mix_limits_def)

lemma mix_seals:
  "\<exists>out info m'. zigbee_security_crypt mix_engine 0 0 (Some mix_key) (Some clear_nwk) True 116 True () = (ZIGBEE_SECURITY_OK, out, info, m')"
proof -
  have "fst (zs_admit_seal 0 mix_key clear_nwk) = ZIGBEE_SECURITY_OK" by code_simp
  then obtain st where ad: "zs_admit_seal 0 mix_key clear_nwk = (ZIGBEE_SECURITY_OK, st)" by (metis fst_conv prod.exhaust)
  from ad obtain h cmd where hd: "zs_clear_header 0 (security_flag 0 False clear_nwk) = Some (h, cmd)" and f: "zs_frame_ok 0 False (zk_level mix_key) clear_nwk"
    by (rule zs_admit_seal_ok)
  obtain r out info m' where run: "zs_crypt mix_engine False 0 mix_key clear_nwk 116 st () = (r, out, info, m')" by (metis prod.exhaust)
  have E: "\<And>k b. length (mix_cipher k b) = 16" using mix_correct by simp
  have "h \<le> length clear_nwk" using zs_clear_header_prefix(2) [OF hd] by (simp add: clear_nwk_def)
  then have "length (zs_sealed mix_cipher 0 mix_key h clear_nwk) = 30"
    using length_zs_sealed [where E = mix_cipher, OF E mix_key_ok] by (simp add: mix_key_def zs_level_ok_def zs_aux_length_def zs_mic_length_def clear_nwk_def)
  then have "r = ZIGBEE_SECURITY_OK"
    using zs_crypt_seal [OF mix_correct mix_key_ok ad run hd, of "\<lambda>_. True"] mix_live by (simp add: zs_max_body_def)
  then show ?thesis using ad run by (simp add: zigbee_security_crypt_def)
qed

theorem security_roundtrip_witness:
  "\<exists>out. fst (zigbee_security_crypt mix_engine 0 0 (Some mix_key) (Some clear_nwk) True 116 True ()) = ZIGBEE_SECURITY_OK \<and>
     fst (snd (zigbee_security_crypt mix_engine 0 0 (Some mix_key) (Some clear_nwk) True 116 True ())) = out \<and>
     fst (zigbee_security_crypt mix_engine 1 0 (Some mix_key) (Some out) True 116 True ()) = ZIGBEE_SECURITY_OK \<and>
     fst (snd (zigbee_security_crypt mix_engine 1 0 (Some mix_key) (Some out) True 116 True ())) = clear_nwk"
proof -
  obtain out info m' where s: "zigbee_security_crypt mix_engine 0 0 (Some mix_key) (Some clear_nwk) True 116 True () = (ZIGBEE_SECURITY_OK, out, info, m')"
    using mix_seals by blast
  obtain r out' info' n' where o: "zigbee_security_crypt mix_engine 1 0 (Some mix_key) (Some out) True 116 True () = (r, out', info', n')"
    by (metis prod.exhaust)
  have "length clear_nwk \<le> 116" by (simp add: clear_nwk_def)
  from security_roundtrip [OF mix_correct mix_key_ok s o this, of "\<lambda>_. True"] mix_live
  have "r = ZIGBEE_SECURITY_OK \<and> out' = clear_nwk" by auto
  with s o show ?thesis by (intro exI [of _ out]) simp
qed

text \<open>C29. Only authentic frames are released: when an opening call succeeds, the frame named this key (identifier,
  sequence and, if present, source address), its counter is not the reserved maximum, and the
  bytes behind its auxiliary header are the CCM* sealing, under the key and the nonce made of
  source, received counter and control octet with the configured level, of the payload the
  call returns behind the header with the security flag cleared.\<close>

theorem security_open_authentic:
  assumes "aes_correct aes E" and "zs_key_ok key"
    and "zigbee_security_crypt aes 1 layer (Some key) (Some g) True cap True m = (ZIGBEE_SECURITY_OK, out, info, m')"
  shows "\<exists>h cmd p. zs_wire_ok layer (zk_level key) g h cmd \<and> zs_selected key h g \<and> zs_wire_counter g h \<noteq> 0xffffffff \<and>
    out = take h (security_flag layer False g) @ p \<and>
    (if zk_level key AND 4 \<noteq> 0
     then drop (h + zs_wire_aux g h) g = ccm_seal E (zk_key key) (zs_open_nonce key h g)
       (take (h + zs_wire_aux g h) (zs_open_packet key h g)) (zs_mic_length key) p
     else drop (h + zs_wire_aux g h) g = p @ ccm_seal E (zk_key key) (zs_open_nonce key h g)
       (take (length g - zs_mic_length key) (zs_open_packet key h g)) (zs_mic_length key) [])"
proof -
  obtain h cmd where w: "zs_wire_ok layer (zk_level key) g h cmd" "zs_selected key h g"
    and run: "zs_crypt aes True layer key g cap (zs_inspected (zk_level key) g h cmd) m = (ZIGBEE_SECURITY_OK, out, info, m')"
    and cap: "length g \<le> cap + zs_wire_aux g h + zs_mic_length key"
    using assms(3) by (rule security_open_cases)
  have o: "zs_opened E layer key h g = Some out"
    using zs_crypt_open [OF assms(1,2) w(1) run cap, of "\<lambda>_. False"] by (auto split: option.splits)
  have lev: "zs_level_ok (zk_level key)" using w(1) by (simp add: zs_wire_ok_def zs_frame_ok_def)
  have mic: "zs_mic_length key \<le> 16" using zs_mic_cases [OF lev] by auto
  have len: "h + zs_wire_aux g h + zs_mic_length key \<le> length g" using w(1) by (simp add: zs_wire_ok_def zs_wire_mic_def zs_mic_length_def)
  have cn: "zs_wire_counter g h \<noteq> 0xffffffff" using w(1) by (simp add: zs_wire_ok_def zs_shape_ok_def)
  have E: "\<And>k b. length (E k b) = 16" using assms(1) by simp
  note iff = ccm_open_iff [where E = E, OF E mic]
  let ?s = "h + zs_wire_aux g h" and ?c = "length g - zs_mic_length key"
  show ?thesis
  proof (cases "zk_level key AND 4 \<noteq> 0")
    case True
    then obtain p where "out = take h (security_flag layer False g) @ p"
      "ccm_open E (zk_key key) (zs_open_nonce key h g) (take ?s (zs_open_packet key h g)) (zs_mic_length key) (drop ?s g) = Some p"
      using o by (auto simp: zs_opened_def Let_def)
    then show ?thesis using w cn True unfolding iff by auto
  next
    case False
    then obtain q where q: "out = take h (security_flag layer False g) @ take (?c - ?s) (drop ?s g)"
      "ccm_open E (zk_key key) (zs_open_nonce key h g) (take ?c (zs_open_packet key h g)) (zs_mic_length key) (drop ?c g) = Some q"
      using o by (auto simp: zs_opened_def Let_def)
    have "q = []" using q(2) len by (auto simp: ccm_open_def Let_def ccm_ctr_def xors_def split: if_splits)
    then have d: "drop ?c g = ccm_seal E (zk_key key) (zs_open_nonce key h g) (take ?c (zs_open_packet key h g)) (zs_mic_length key) []"
      using q(2) unfolding iff by simp
    have "drop ?s g = take (?c - ?s) (drop ?s g) @ drop (?c - ?s) (drop ?s g)" by (rule append_take_drop_id [symmetric])
    moreover have "drop (?c - ?s) (drop ?s g) = drop ?c g" using len by simp
    ultimately have "drop ?s g = take (?c - ?s) (drop ?s g) @ ccm_seal E (zk_key key) (zs_open_nonce key h g) (take ?c (zs_open_packet key h g)) (zs_mic_length key) []"
      using d by metis
    then show ?thesis using w cn False q(1) by (intro exI [of _ h] exI [of _ cmd] exI [of _ "take (?c - ?s) (drop ?s g)"]) simp
  qed
qed

theorem security_open_authentic_witness:
  "\<exists>g h cmd. fst (zigbee_security_crypt mix_engine 1 0 (Some mix_key) (Some g) True 116 True ()) = ZIGBEE_SECURITY_OK \<and>
     zs_wire_ok 0 5 g h cmd \<and> zs_wire_counter g h \<noteq> 0xffffffff"
proof -
  obtain out info m' where s: "zigbee_security_crypt mix_engine 0 0 (Some mix_key) (Some clear_nwk) True 116 True () = (ZIGBEE_SECURITY_OK, out, info, m')"
    using mix_seals by blast
  obtain r out' info' n' where o: "zigbee_security_crypt mix_engine 1 0 (Some mix_key) (Some out) True 116 True () = (r, out', info', n')"
    by (metis prod.exhaust)
  have "length clear_nwk \<le> 116" by (simp add: clear_nwk_def)
  then have r: "r = ZIGBEE_SECURITY_OK" using security_open_sealed [OF mix_correct mix_key_ok s o, of "\<lambda>_. True"] mix_live by auto
  have "zk_level mix_key = 5" by (simp add: mix_key_def)
  with security_open_authentic [OF mix_correct mix_key_ok o [unfolded r]] o r show ?thesis by (metis fst_conv)
qed

end
