(* ===== verification/Zigbee_Mmo.thy ===== *)
theory Zigbee_Mmo
  imports Aes_Engine
begin

text \<open>
  The Matyas-Meyer-Oseas hash over AES, the install-code check (\<open>src/src/zigbee_mmo.c\<close>) and the keyed
  hash that derives transport, load and verification keys (\<open>src/src/zigbee_key_hash.c\<close>). The theory
  gives the hash as a function of the padded message and shows that the block-by-block code
  computes it, and that the keyed hash is its HMAC.
\<close>

datatype zigbee_mmo_result = ZIGBEE_MMO_OK | ZIGBEE_MMO_ARGUMENT | ZIGBEE_MMO_LENGTH | ZIGBEE_MMO_CRC | ZIGBEE_MMO_AES

record zigbee_mmo_info =
  mmo_polls :: u32
  mmo_blocks :: u8
  mmo_aes_status :: aes_result

record 'm mmo_state =
  mmo_hash :: bytes
  mmo_block :: bytes
  mmo_cipher :: bytes
  mmo_diagnostic_polls :: u16
  mmo_info :: zigbee_mmo_info
  mmo_timeout :: u32
  mmo_poll_limit :: u16
  mmo_hw :: 'm

abbreviation (input) ZIGBEE_MMO_MAX :: nat where "ZIGBEE_MMO_MAX \<equiv> 32"
abbreviation (input) INSTALL_CODE_SIZE :: nat where "INSTALL_CODE_SIZE \<equiv> 18"

definition mmo_info_zero :: zigbee_mmo_info where
  "mmo_info_zero = \<lparr>mmo_polls = 0, mmo_blocks = 0, mmo_aes_status = AES_OK\<rparr>"

definition mmo_account :: "'m mmo_state \<Rightarrow> 'm mmo_state" where
  "mmo_account st = st\<lparr>mmo_info := (mmo_info st)\<lparr>mmo_polls := mmo_polls (mmo_info st) + ucast (mmo_diagnostic_polls st)\<rparr>\<rparr>"

definition mmo_compress :: "'m aes_call \<Rightarrow> 'm mmo_state \<Rightarrow> bool \<times> 'm mmo_state" where
  "mmo_compress aes st =
     (case aes (mmo_hash st) (mmo_block st) (mmo_timeout st) (mmo_poll_limit st) (mmo_cipher st, mmo_diagnostic_polls st) (mmo_hw st) of
      (r, (c, p), m) \<Rightarrow>
        let info = mmo_info st;
            st1 = mmo_account (st\<lparr>mmo_cipher := c, mmo_diagnostic_polls := p, mmo_hw := m,
              mmo_info := info\<lparr>mmo_blocks := mmo_blocks info + 1, mmo_aes_status := r\<rparr>\<rparr>)
        in if mmo_aes_status (mmo_info st1) \<noteq> AES_OK then (False, st1)
           else (True, st1\<lparr>mmo_hash := map (\<lambda>i. mmo_cipher st1 ! i XOR mmo_block st1 ! i) [0..<16]\<rparr>))"

text \<open>The loop over the whole blocks; it returns the offset of the rest.\<close>

function mmo_loop :: "'m aes_call \<Rightarrow> bytes \<Rightarrow> nat \<Rightarrow> 'm mmo_state \<Rightarrow> bool \<times> nat \<times> 'm mmo_state" where
  "mmo_loop aes input offset st =
     (if length input - offset \<ge> 16 then
        (case mmo_compress aes (st\<lparr>mmo_block := take 16 (drop offset input)\<rparr>) of (ok, st1) \<Rightarrow>
           if \<not> ok then (False, offset, st1) else mmo_loop aes input (offset + 16) st1)
      else (True, offset, st))"
  by pat_completeness auto
termination by (relation "measure (\<lambda>(aes, input, offset, st). length input - offset)") auto

declare mmo_loop.simps [simp del]

text \<open>The closing blocks: the rest, the marker octet and the bit length.\<close>

definition mmo_close :: "'m aes_call \<Rightarrow> bytes \<Rightarrow> nat \<Rightarrow> 'm mmo_state \<Rightarrow> bool \<times> 'm mmo_state" where
  "mmo_close aes input offset st =
     (let remaining = length input - offset;
          st1 = st\<lparr>mmo_block := (store_at 0 (drop offset input) (replicate 16 0))[remaining := 0x80]\<rparr> in
      case (if remaining \<ge> 14 then
          (case mmo_compress aes st1 of (ok, s) \<Rightarrow> if ok then (True, s\<lparr>mmo_block := replicate 16 0\<rparr>) else (False, s))
        else (True, st1)) of (ok, st2) \<Rightarrow>
      if \<not> ok then (False, st2)
      else mmo_compress aes (st2\<lparr>mmo_block := (mmo_block st2)[14 := of_nat (length input div 32), 15 := of_nat (length input * 8)]\<rparr>))"

definition mmo_start :: "u32 \<Rightarrow> u16 \<Rightarrow> 'm \<Rightarrow> 'm mmo_state" where
  "mmo_start timeout limit m = \<lparr>mmo_hash = replicate 16 0, mmo_block = replicate 16 0, mmo_cipher = replicate 16 0, mmo_diagnostic_polls = 0,
     mmo_info = mmo_info_zero, mmo_timeout = timeout, mmo_poll_limit = limit, mmo_hw = m\<rparr>"

text \<open>The result carries the digest (on success) and, unless the call was refused, the information.\<close>

definition zigbee_mmo_hash :: "'m aes_call \<Rightarrow> bytes option \<Rightarrow> nat \<Rightarrow> bool \<Rightarrow> u32 \<Rightarrow> u16 \<Rightarrow> bool \<Rightarrow> 'm \<Rightarrow>
    zigbee_mmo_result \<times> bytes \<times> zigbee_mmo_info option \<times> 'm" where
  "zigbee_mmo_hash aes input len out timeout poll_limit info m =
     (if (input = None \<and> len \<noteq> 0) \<or> \<not> out \<or> \<not> info \<or> timeout = 0 \<or> timeout \<ge> TIMEBASE_HALF_RANGE \<or> poll_limit = 0
      then (ZIGBEE_MMO_ARGUMENT, [], None, m)
      else if len > ZIGBEE_MMO_MAX then (ZIGBEE_MMO_LENGTH, [], None, m)
      else let inp = take len (case input of None \<Rightarrow> [] | Some b \<Rightarrow> b) in
      (case mmo_loop aes inp 0 (mmo_start timeout poll_limit m) of (ok, offset, st1) \<Rightarrow>
        if \<not> ok then (ZIGBEE_MMO_AES, [], Some (mmo_info st1), mmo_hw st1)
        else (case mmo_close aes inp offset st1 of (ok, st2) \<Rightarrow>
          if \<not> ok then (ZIGBEE_MMO_AES, [], Some (mmo_info st2), mmo_hw st2)
          else (ZIGBEE_MMO_OK, take 16 (mmo_hash st2), Some (mmo_info st2), mmo_hw st2))))"

section \<open>Install codes\<close>

text \<open>The bitwise CRC-16 loop.\<close>

definition install_crc_bit :: "u16 \<Rightarrow> u16" where
  "install_crc_bit crc = drop_bit 1 crc XOR (if crc AND 1 \<noteq> 0 then 0x8408 else 0)"

definition install_crc_byte :: "u8 \<Rightarrow> u16 \<Rightarrow> u16" where
  "install_crc_byte b crc = (install_crc_bit ^^ 8) (crc XOR ucast b)"

definition install_crc :: "bytes \<Rightarrow> u16" where
  "install_crc code = fold install_crc_byte (take 16 code) 0xffff XOR 0xffff"

definition install_code_derive :: "'m aes_call \<Rightarrow> bytes option \<Rightarrow> nat \<Rightarrow> bool \<Rightarrow> u32 \<Rightarrow> u16 \<Rightarrow> bool \<Rightarrow> 'm \<Rightarrow>
    zigbee_mmo_result \<times> bytes \<times> zigbee_mmo_info option \<times> 'm" where
  "install_code_derive aes code len out timeout poll_limit info m =
     (case code of None \<Rightarrow> (ZIGBEE_MMO_ARGUMENT, [], None, m) | Some c \<Rightarrow>
      if len \<noteq> INSTALL_CODE_SIZE then (ZIGBEE_MMO_LENGTH, [], None, m)
      else let crc = install_crc c in
      if c ! 16 \<noteq> ucast crc \<or> c ! 17 \<noteq> ucast (drop_bit 8 crc) then (ZIGBEE_MMO_CRC, [], None, m)
      else zigbee_mmo_hash aes code len out timeout poll_limit info m)"

section \<open>Keyed hash\<close>

abbreviation (input) ZIGBEE_HASH_TRANSPORT :: u8 where "ZIGBEE_HASH_TRANSPORT \<equiv> 0"
abbreviation (input) ZIGBEE_HASH_LOAD :: u8 where "ZIGBEE_HASH_LOAD \<equiv> 2"
abbreviation (input) ZIGBEE_HASH_VERIFY :: u8 where "ZIGBEE_HASH_VERIFY \<equiv> 3"

definition key_hash_account :: "zigbee_mmo_info \<Rightarrow> zigbee_mmo_info \<Rightarrow> zigbee_mmo_info" where
  "key_hash_account step sums = sums\<lparr>mmo_polls := mmo_polls sums + mmo_polls step, mmo_blocks := mmo_blocks sums + mmo_blocks step,
     mmo_aes_status := mmo_aes_status step\<rparr>"

definition zigbee_key_hash :: "'m aes_call \<Rightarrow> bytes option \<Rightarrow> u8 \<Rightarrow> bool \<Rightarrow> u32 \<Rightarrow> u16 \<Rightarrow> bool \<Rightarrow> 'm \<Rightarrow>
    zigbee_mmo_result \<times> bytes \<times> zigbee_mmo_info option \<times> 'm" where
  "zigbee_key_hash aes key purpose out timeout poll_limit info m =
     (if key = None \<or> \<not> out \<or> \<not> info \<or> timeout = 0 \<or> timeout \<ge> TIMEBASE_HALF_RANGE \<or> poll_limit = 0 \<or>
        (purpose \<noteq> ZIGBEE_HASH_TRANSPORT \<and> purpose \<noteq> ZIGBEE_HASH_LOAD \<and> purpose \<noteq> ZIGBEE_HASH_VERIFY)
      then (ZIGBEE_MMO_ARGUMENT, [], None, m)
      else let k = take 16 (the key) in
      (case zigbee_mmo_hash aes (Some (map (\<lambda>b. b XOR 0x36) k @ [purpose])) 17 True timeout poll_limit True m of (r1, inner, i1, m1) \<Rightarrow>
        let s1 = (case i1 of None \<Rightarrow> mmo_info_zero | Some i \<Rightarrow> i); t1 = key_hash_account s1 mmo_info_zero in
        if r1 \<noteq> ZIGBEE_MMO_OK then (r1, [], Some t1, m1)
        else (case zigbee_mmo_hash aes (Some (map (\<lambda>b. b XOR 0x5c) k @ take 16 inner)) 32 True timeout poll_limit True m1 of (r2, digest, i2, m2) \<Rightarrow>
          let s2 = (case i2 of None \<Rightarrow> s1 | Some i \<Rightarrow> i); t2 = key_hash_account s2 t1 in
          (r2, if r2 = ZIGBEE_MMO_OK then take 16 digest else [], Some t2, m2))))"

section \<open>The hash as a function of the message\<close>

function mmo_chain :: "cipher \<Rightarrow> bytes \<Rightarrow> bytes \<Rightarrow> bytes" where
  "mmo_chain E h s = (if s = [] then h else mmo_chain E (xors (E h (take 16 s)) (take 16 s)) (drop 16 s))"
  by pat_completeness auto
termination by (relation "measure (\<lambda>(E, h, s). length s)") auto

declare mmo_chain.simps [simp del]

text \<open>A marker bit, zeros up to the last two octets of a block, and the length in bits, big-endian.\<close>

definition mmo_padded :: "bytes \<Rightarrow> bytes" where
  "mmo_padded s = s @ [0x80] @ replicate ((29 - length s mod 16) mod 16) 0 @ [of_nat (length s * 8 div 256), of_nat (length s * 8)]"

definition mmo_digest :: "cipher \<Rightarrow> bytes \<Rightarrow> bytes" where
  "mmo_digest E s = mmo_chain E (replicate 16 0) (mmo_padded s)"

definition hmac_digest :: "cipher \<Rightarrow> bytes \<Rightarrow> bytes \<Rightarrow> bytes" where
  "hmac_digest E key s = mmo_digest E (map (\<lambda>b. b XOR 0x5c) key @ mmo_digest E (map (\<lambda>b. b XOR 0x36) key @ s))"

lemma mmo_chain_block: "length b = 16 \<Longrightarrow> mmo_chain E h (b @ s) = mmo_chain E (xors (E h b) b) s"
  by (cases b) (simp_all add: mmo_chain.simps [of E h])

lemma mmo_chain_nil [simp]: "mmo_chain E h [] = h"
  by (simp add: mmo_chain.simps)

lemma mmo_chain_one: "length b = 16 \<Longrightarrow> mmo_chain E h b = xors (E h b) b"
  using mmo_chain_block [of b E h "[]"] by simp

lemma length_mmo_chain: "(\<And>k b. length (E k b) = 16) \<Longrightarrow> length h = 16 \<Longrightarrow> 16 dvd length s \<Longrightarrow> length (mmo_chain E h s) = 16"
proof (induction E h s rule: mmo_chain.induct)
  case (1 E h s)
  show ?case
  proof (cases "s = []")
    case False
    with 1(4) have "16 \<le> length s" by (auto dest: dvd_imp_le)
    with 1 False show ?thesis by (simp add: mmo_chain.simps [of E h s])
  qed (use 1 in simp)
qed

definition mmo_live :: "'m aes_call \<Rightarrow> ('m \<Rightarrow> bool) \<Rightarrow> 'm mmo_state \<Rightarrow> bool" where
  "mmo_live aes ready st \<longleftrightarrow> aes_live aes ready (mmo_timeout st) (mmo_poll_limit st) \<and> ready (mmo_hw st) \<and> length (mmo_hash st) = 16"

lemma mmo_compress_spec:
  assumes c: "aes_correct aes E" and run: "mmo_compress aes st = (ok, st')" and b: "length (mmo_block st) = 16"
  shows "(mmo_live aes ready st \<longrightarrow> ok \<and> mmo_live aes ready st') \<and>
    (ok \<longrightarrow> mmo_hash st' = xors (E (mmo_hash st) (mmo_block st)) (mmo_block st) \<and> mmo_block st' = mmo_block st)"
proof -
  obtain r d p m where a: "aes (mmo_hash st) (mmo_block st) (mmo_timeout st) (mmo_poll_limit st) (mmo_cipher st, mmo_diagnostic_polls st) (mmo_hw st) = (r, (d, p), m)"
    by (metis prod.exhaust)
  have ok: "ok = (r = AES_OK)" using run a by (auto simp: mmo_compress_def mmo_account_def Let_def split: if_splits)
  have d: "d = E (mmo_hash st) (mmo_block st)" if "r = AES_OK" using aes_correctD [OF c] a that by blast
  have h: "mmo_hash st' = map (\<lambda>i. d ! i XOR mmo_block st ! i) [0..<16]" "mmo_block st' = mmo_block st" "mmo_hw st' = m"
    "mmo_timeout st' = mmo_timeout st" "mmo_poll_limit st' = mmo_poll_limit st" if "r = AES_OK"
    using run a that by (auto simp: mmo_compress_def mmo_account_def Let_def)
  have x: "map (\<lambda>i. E k b' ! i XOR b' ! i) [0..<16] = xors (E k b') b'" if "length b' = 16" for k b'
    using that c by (intro nth_equalityI) simp_all
  have live: "r = AES_OK \<and> ready m" if "mmo_live aes ready st"
    using that b a aes_liveD [of aes ready "mmo_timeout st" "mmo_poll_limit st" "mmo_hash st" "mmo_block st" "mmo_hw st" "(mmo_cipher st, mmo_diagnostic_polls st)"]
    by (auto simp: mmo_live_def)
  have "length (mmo_hash st') = 16" if "r = AES_OK" using h(1) [OF that] by simp
  note len = this
  have "mmo_live aes ready st'" if l: "mmo_live aes ready st"
  proof -
    have r: "r = AES_OK" "ready m" using live [OF l] by blast+
    show ?thesis using l len [OF r(1)] h [OF r(1)] r(2) by (simp add: mmo_live_def)
  qed
  then show ?thesis using ok d h x [OF b] live by simp
qed

lemma mmo_loop_spec:
  "mmo_loop aes input offset st = (ok, o', st') \<Longrightarrow> aes_correct aes E \<Longrightarrow> offset \<le> length input \<Longrightarrow>
   (mmo_live aes ready st \<longrightarrow> ok \<and> mmo_live aes ready st') \<and>
   (ok \<longrightarrow> o' \<le> length input \<and> length input - o' < 16 \<and> length input - o' = (length input - offset) mod 16 \<and>
     (\<forall>s. mmo_chain E (mmo_hash st) (drop offset input @ s) = mmo_chain E (mmo_hash st') (drop o' input @ s)))"
proof (induction aes input offset st rule: mmo_loop.induct)
  case (1 aes input offset st)
  note p = "1.prems"
  show ?case
  proof (cases "length input - offset \<ge> 16")
    case True
    let ?b = "take 16 (drop offset input)"
    obtain ok1 st1 where k: "mmo_compress aes (st\<lparr>mmo_block := ?b\<rparr>) = (ok1, st1)" by fastforce
    note C = mmo_compress_spec [OF p(2) k, of ready]
    have lb: "length ?b = 16" using True by simp
    have l: "mmo_live aes ready (st\<lparr>mmo_block := ?b\<rparr>) = mmo_live aes ready st" by (simp add: mmo_live_def)
    show ?thesis
    proof (cases ok1)
      case False
      then show ?thesis using p(1) True k C l lb by (simp add: mmo_loop.simps [of aes input offset])
    next
      case ok1: True
      have r: "mmo_loop aes input (offset + 16) st1 = (ok, o', st')"
        using p(1) True k ok1 by (simp add: mmo_loop.simps [of aes input offset])
      have IH: "(mmo_live aes ready st1 \<longrightarrow> ok \<and> mmo_live aes ready st') \<and>
         (ok \<longrightarrow> o' \<le> length input \<and> length input - o' < 16 \<and> length input - o' = (length input - (offset + 16)) mod 16 \<and>
         (\<forall>s. mmo_chain E (mmo_hash st1) (drop (offset + 16) input @ s) = mmo_chain E (mmo_hash st') (drop o' input @ s)))"
      proof -
        have "offset + 16 \<le> length input" "\<not> \<not> ok1" using True ok1 by linarith+
        then show ?thesis using "1.IH" [OF True k [symmetric] _ r p(2)] by blast
      qed
      have m: "(length input - (offset + 16)) mod 16 = (length input - offset) mod 16"
        using True by (metis diff_diff_left le_mod_geq)
      have d: "drop offset input = ?b @ drop (offset + 16) input" by (metis add.commute append_take_drop_id drop_drop)
      have h1: "mmo_hash st1 = xors (E (mmo_hash st) ?b) ?b" using C ok1 lb by simp
      have "mmo_chain E (mmo_hash st) (drop offset input @ s) = mmo_chain E (mmo_hash st1) (drop (offset + 16) input @ s)" for s
        unfolding h1 by (subst d) (use mmo_chain_block [OF lb] in simp)
      then show ?thesis using IH C l lb m by auto
    qed
  next
    case False
    with p show ?thesis by (auto simp: mmo_loop.simps [of aes input offset])
  qed
qed

lemma padding_mod: "(29 - m) mod 16 = (if m \<le> 13 then 13 - m else 29 - m)" if "m < 16" for m :: nat
proof (cases "m \<le> 13")
  case True
  then have e: "29 - m = (13 - m) + 16" by linarith
  have "(13 - m) mod 16 = 13 - m" by (intro mod_less) linarith
  then show ?thesis unfolding e mod_add_self2 using True by (simp only: if_True)
next
  case False
  with that have "(29 - m) mod 16 = 29 - m" by (intro mod_less) linarith
  with False show ?thesis by (simp only: if_False)
qed

lemma mmo_close_spec:
  assumes c: "aes_correct aes E" and run: "mmo_close aes input off st = (ok, st')" and off: "off \<le> length input" "length input - off < 16"
    and md: "length input - off = length input mod 16"
  shows "(mmo_live aes ready st \<longrightarrow> ok \<and> mmo_live aes ready st') \<and>
    (ok \<longrightarrow> mmo_hash st' = mmo_chain E (mmo_hash st) (drop off (mmo_padded input)))"
proof -
  note Nat.diff_diff_right [simp del] and of_nat_mult [simp del]
  let ?r = "length input - off" and ?d = "drop off input"
  let ?hi = "of_nat (length input div 32) :: u8" and ?lo = "of_nat (length input * 8) :: u8"
  have dv: "length input * 8 div 256 = length input div 32" by simp
  have r: "length ?d = ?r" "length input mod 16 = ?r" using off md by simp_all
  have pd: "drop off (mmo_padded input) = ?d @ [0x80] @ replicate ((29 - ?r) mod 16) 0 @ [?hi, ?lo]"
    using off r(2) by (simp add: mmo_padded_def dv)
  let ?b1 = "?d @ 0x80 # replicate (15 - ?r) 0"
  have s1: "(store_at 0 ?d (replicate 16 0))[?r := 0x80] = ?b1"
  proof -
    have "16 - ?r = Suc (15 - ?r)" using off by simp
    then show ?thesis using off r(1) by (simp add: store_at_def list_update_append)
  qed
  let ?st1 = "st\<lparr>mmo_block := ?b1\<rparr>"
  have b1: "length ?b1 = 16" using off by simp
  show ?thesis
  proof (cases "?r \<ge> 14")
    case True
    obtain ok2 st2 where k: "mmo_compress aes ?st1 = (ok2, st2)" by fastforce
    note C = mmo_compress_spec [OF c k, simplified, of ready]
    have l: "mmo_live aes ready ?st1 = mmo_live aes ready st" by (simp add: mmo_live_def)
    let ?b2 = "replicate 14 0 @ [?hi, ?lo]" and ?st3 = "st2\<lparr>mmo_block := replicate 14 0 @ [?hi, ?lo]\<rparr>"
    have b2: "(replicate 16 0 :: bytes)[14 := ?hi, 15 := ?lo] = ?b2" 
    proof -
      have "(replicate 16 0 :: bytes) = replicate 14 0 @ [0, 0]"
        using replicate_add [of 14 2 "0 :: u8"] by (simp add: numeral_2_eq_2)
      then show ?thesis by (simp add: list_update_append)
    qed
    show ?thesis
    proof (cases ok2)
      case False
      then have "ok = False" using run True by (simp add: mmo_close_def Let_def s1 k del: diff_diff_left diff_diff_right)
      with False show ?thesis using C l b1 off by simp
    next
      case ok2: True
      have k2: "mmo_compress aes ?st3 = (ok, st')" using run ok2
        unfolding mmo_close_def Let_def s1 if_P [OF True] k by (simp add: b2 del: of_nat_mult)
      note C2 = mmo_compress_spec [OF c k2, simplified, of ready]
      have l3: "mmo_live aes ready ?st3 = mmo_live aes ready st2" by (simp add: mmo_live_def)
      have z: "replicate ((29 - ?r) mod 16) 0 @ [?hi, ?lo] = replicate (15 - ?r) 0 @ ?b2"
      proof -
        have "(29 - ?r) mod 16 = (15 - ?r) + 14" using True off by (cases "?r = 14") auto
        then show ?thesis by (simp only: replicate_add append_assoc)
      qed
      have "drop off (mmo_padded input) = ?b1 @ ?b2" unfolding pd z by simp
      then have "mmo_chain E (mmo_hash st) (drop off (mmo_padded input)) = xors (E (xors (E (mmo_hash st) ?b1) ?b1) ?b2) ?b2"
        using mmo_chain_block [OF b1] by (simp add: mmo_chain_one)
      moreover have "mmo_hash st2 = xors (E (mmo_hash st) ?b1) ?b1" using C ok2 b1 off by simp
      ultimately show ?thesis using C C2 l l3 b1 off ok2 by simp
    qed
  next
    case False
    let ?b = "?d @ 0x80 # replicate (13 - ?r) 0 @ [?hi, ?lo]"
    have "15 - ?r = (13 - ?r) + 2" using False by simp
    then have b1': "?b1 = (?d @ 0x80 # replicate (13 - ?r) 0) @ [0, 0]" by (simp add: replicate_add numeral_2_eq_2 flip: replicate_append_same)
    have lb: "length (?d @ 0x80 # replicate (13 - ?r) 0) = 14" using False by simp
    have up: "?b1[14 := ?hi, 15 := ?lo] = ?b"
    proof -
      have "(p @ [0, 0])[14 := a, 15 := b] = p @ [a, b]" if "length p = 14" for p :: bytes and a b
        using that by (simp add: list_update_append)
      from this [OF lb] show ?thesis unfolding b1' by simp
    qed
    let ?st3 = "st\<lparr>mmo_block := ?b\<rparr>"
    have k: "mmo_compress aes ?st3 = (ok, st')" using run
      unfolding mmo_close_def Let_def s1 if_not_P [OF False] by (simp add: up del: of_nat_mult append_Cons append.simps)
    note C = mmo_compress_spec [OF c k, simplified, of ready]
    have l: "mmo_live aes ready ?st3 = mmo_live aes ready st" by (simp add: mmo_live_def)
    have "(29 - ?r) mod 16 = 13 - ?r"
    proof -
      show ?thesis using padding_mod [OF off(2)] False by simp
    qed
    then have "drop off (mmo_padded input) = ?b" unfolding pd by simp
    moreover have "length ?b = 16" using lb by simp
    ultimately show ?thesis using C l by (simp add: mmo_chain_one)
  qed
qed

section \<open>The hash of a message\<close>

lemma length_mmo_padded: "length (mmo_padded s) mod 16 = 0"
proof -
  let ?m = "length s mod 16" and ?q = "length s div 16"
  have m: "?m < 16" by simp
  have split: "16 * q + n + 3 + (29 - n) mod 16 = 16 * (if n \<le> 13 then q + 1 else q + 2)" if "n < 16" for q n :: nat
    using that unfolding padding_mod [OF that] by auto
  have "length (mmo_padded s) = 16 * ?q + ?m + 3 + (29 - ?m) mod 16" by (simp add: mmo_padded_def)
  also have "\<dots> = 16 * (if ?m \<le> 13 then ?q + 1 else ?q + 2)" by (rule split [OF m])
  finally show ?thesis by simp
qed

lemma length_mmo_digest: "aes_correct aes E \<Longrightarrow> length (mmo_digest E s) = 16"
  unfolding mmo_digest_def using length_mmo_padded by (intro length_mmo_chain) auto

definition mmo_call_ok :: "u32 \<Rightarrow> u16 \<Rightarrow> bool" where
  "mmo_call_ok timeout poll_limit \<longleftrightarrow> timeout \<noteq> 0 \<and> timeout < TIMEBASE_HALF_RANGE \<and> poll_limit \<noteq> 0"

lemma zigbee_mmo_hash_spec:
  assumes c: "aes_correct aes E" and ok: "mmo_call_ok timeout poll_limit" and len: "length s \<le> ZIGBEE_MMO_MAX"
    and run: "zigbee_mmo_hash aes (Some s) (length s) True timeout poll_limit True m = (r, out, i, m')"
  shows "(r = ZIGBEE_MMO_OK \<and> out = mmo_digest E s \<or> r = ZIGBEE_MMO_AES \<and> out = []) \<and>
    (aes_live aes ready timeout poll_limit \<and> ready m \<longrightarrow> r = ZIGBEE_MMO_OK \<and> ready m')"
proof -
  let ?st = "mmo_start timeout poll_limit m"
  obtain ok1 off st1 where k1: "mmo_loop aes s 0 ?st = (ok1, off, st1)" by (metis prod.exhaust)
  note L = mmo_loop_spec [OF k1 c, of ready]
  have live: "mmo_live aes ready ?st = (aes_live aes ready timeout poll_limit \<and> ready m)"
    by (simp add: mmo_live_def mmo_start_def)
  have run': "(if \<not> ok1 then (ZIGBEE_MMO_AES, [], Some (mmo_info st1), mmo_hw st1)
     else (case mmo_close aes s off st1 of (ok, st2) \<Rightarrow>
          if \<not> ok then (ZIGBEE_MMO_AES, [], Some (mmo_info st2), mmo_hw st2)
          else (ZIGBEE_MMO_OK, take 16 (mmo_hash st2), Some (mmo_info st2), mmo_hw st2))) = (r, out, i, m')"
  proof -
    have "\<not> timeout \<ge> TIMEBASE_HALF_RANGE" "timeout \<noteq> 0" "poll_limit \<noteq> 0" "\<not> length s > ZIGBEE_MMO_MAX"
      using ok len by (auto simp: mmo_call_ok_def not_le)
    then show ?thesis using run k1 unfolding zigbee_mmo_hash_def by (simp split del: if_split)
  qed
  show ?thesis
  proof (cases ok1)
    case False
    then show ?thesis using run' L live by auto
  next
    case True
    then have off: "off \<le> length s" "length s - off < 16" "length s - off = length s mod 16"
      and ch: "\<And>t. mmo_chain E (mmo_hash ?st) (s @ t) = mmo_chain E (mmo_hash st1) (drop off s @ t)" using L by auto
    obtain ok2 st2 where k2: "mmo_close aes s off st1 = (ok2, st2)" by fastforce
    note C = mmo_close_spec [OF c k2 off, of ready]
    have pad: "mmo_padded s = s @ drop (length s) (mmo_padded s)" "drop off (mmo_padded s) = drop off s @ drop (length s) (mmo_padded s)"
      using off(1) by (simp_all add: mmo_padded_def)
    have dg: "mmo_digest E s = mmo_chain E (mmo_hash st1) (drop off (mmo_padded s))"
      using ch pad by (metis (no_types, lifting) mmo_digest_def mmo_start_def mmo_state.select_convs(1))
    show ?thesis using run' True k2 C L live dg length_mmo_digest [OF c, of s] by (auto simp: mmo_live_def split: if_splits)
  qed
qed

text \<open>
  C30. For every message of at most 32 octets, a call that reports success has stored the
  Matyas-Meyer-Oseas digest of exactly that message: the block-by-block code, with its two ways
  of closing the last block, is the chain over the padded message. Otherwise it reports an AES
  failure and stores no digest; while the engine answers, the call succeeds.
\<close>

theorem mmo_hash_correct:
  assumes "aes_correct aes E" and "mmo_call_ok timeout poll_limit" and "length s \<le> ZIGBEE_MMO_MAX"
    and "zigbee_mmo_hash aes (Some s) (length s) True timeout poll_limit True m = (r, out, i, m')"
  shows "(r = ZIGBEE_MMO_OK \<and> out = mmo_digest E s \<or> r = ZIGBEE_MMO_AES \<and> out = []) \<and>
    (aes_live aes ready timeout poll_limit \<and> ready m \<longrightarrow> r = ZIGBEE_MMO_OK \<and> ready m')"
  by (rule zigbee_mmo_hash_spec [OF assms])

theorem mmo_hash_correct_witness:
  "zigbee_mmo_hash mix_engine (Some (replicate 14 7)) 14 True 100 10 True () =
     (ZIGBEE_MMO_OK, mmo_digest mix_cipher (replicate 14 7), Some \<lparr>mmo_polls = 2, mmo_blocks = 2, mmo_aes_status = AES_OK\<rparr>, ())"
proof -
  obtain r out i m' where k: "zigbee_mmo_hash mix_engine (Some (replicate 14 7)) (length (replicate 14 (7 :: u8))) True 100 10 True () = (r, out, i, m')"
    by (metis prod.exhaust)
  have "mmo_call_ok 100 10" by (simp add: mmo_call_ok_def)
  from mmo_hash_correct [OF mix_correct this _ k, of "\<lambda>_. True"] mix_live
  have r: "r = ZIGBEE_MMO_OK" "out = mmo_digest mix_cipher (replicate 14 7)" by auto
  have "fst (snd (snd (zigbee_mmo_hash mix_engine (Some (replicate 14 7)) 14 True 100 10 True ()))) =
     Some \<lparr>mmo_polls = 2, mmo_blocks = 2, mmo_aes_status = AES_OK\<rparr>"
    by code_simp
  with r k show ?thesis by simp
qed

section \<open>The keyed hash is an HMAC\<close>

text \<open>
  C31. For a 16-octet key and each of the three purposes, a successful \<open>zigbee_key_hash\<close> stores the
  HMAC of the one-octet purpose under the key, with the hash of C30: the inner and the outer hash are
  taken over the key masked with 0x36 and 0x5c. Otherwise it reports an AES failure and stores
  nothing; while the engine answers it succeeds.
\<close>

theorem key_hash_is_hmac:
  assumes c: "aes_correct aes E" and ok: "mmo_call_ok timeout poll_limit" and key: "length key = 16"
    and purpose: "purpose \<in> {ZIGBEE_HASH_TRANSPORT, ZIGBEE_HASH_LOAD, ZIGBEE_HASH_VERIFY}"
    and run: "zigbee_key_hash aes (Some key) purpose True timeout poll_limit True m = (r, out, i, m')"
  shows "(r = ZIGBEE_MMO_OK \<and> out = hmac_digest E key [purpose] \<or> r = ZIGBEE_MMO_AES \<and> out = []) \<and>
    (aes_live aes ready timeout poll_limit \<and> ready m \<longrightarrow> r = ZIGBEE_MMO_OK \<and> ready m')"
proof -
  let ?x = "map (\<lambda>b. b XOR 0x36) key @ [purpose]"
  obtain r1 inner i1 m1 where k1: "zigbee_mmo_hash aes (Some ?x) (length ?x) True timeout poll_limit True m = (r1, inner, i1, m1)"
    by (metis prod.exhaust)
  have H1: "(r1 = ZIGBEE_MMO_OK \<and> inner = mmo_digest E ?x \<or> r1 = ZIGBEE_MMO_AES \<and> inner = []) \<and>
    (aes_live aes ready timeout poll_limit \<and> ready m \<longrightarrow> r1 = ZIGBEE_MMO_OK \<and> ready m1)"
    using zigbee_mmo_hash_spec [OF c ok _ k1, of ready] key by simp
  have in16: "take 16 (mmo_digest E ?x) = mmo_digest E ?x" using length_mmo_digest [OF c] by simp
  let ?y = "map (\<lambda>b. b XOR 0x5c) key @ mmo_digest E ?x"
  obtain r2 digest i2 m2 where k2: "zigbee_mmo_hash aes (Some ?y) (length ?y) True timeout poll_limit True m1 = (r2, digest, i2, m2)"
    by (metis prod.exhaust)
  have ly: "length ?y = 32" using key length_mmo_digest [OF c] by simp
  have H2: "(r2 = ZIGBEE_MMO_OK \<and> digest = mmo_digest E ?y \<or> r2 = ZIGBEE_MMO_AES \<and> digest = []) \<and>
    (aes_live aes ready timeout poll_limit \<and> ready m1 \<longrightarrow> r2 = ZIGBEE_MMO_OK \<and> ready m2)"
    using zigbee_mmo_hash_spec [OF c ok _ k2, of ready] ly by simp
  have args: "\<not> timeout \<ge> TIMEBASE_HALF_RANGE" "timeout \<noteq> 0" "poll_limit \<noteq> 0"
    using ok by (auto simp: mmo_call_ok_def not_le)
  have k1': "zigbee_mmo_hash aes (Some ?x) 17 True timeout poll_limit True m = (r1, inner, i1, m1)" using k1 key by simp
  have fin: "take 16 (mmo_digest E ?y) = hmac_digest E key [purpose]"
    using length_mmo_digest [OF c, of ?y] by (simp add: hmac_digest_def)
  show ?thesis
  proof (cases "r1 = ZIGBEE_MMO_OK")
    case False
    then have "r = r1 \<and> out = []" using run key purpose args k1' by (auto simp: zigbee_key_hash_def Let_def)
    with False H1 show ?thesis by auto
  next
    case True
    then have inner: "take 16 inner = mmo_digest E ?x" using H1 in16 by simp
    have k2': "zigbee_mmo_hash aes (Some (map (\<lambda>b. b XOR 0x5c) key @ take 16 inner)) 32 True timeout poll_limit True m1 = (r2, digest, i2, m2)"
      using k2 inner ly by simp
    have "r = r2 \<and> m' = m2 \<and> out = (if r2 = ZIGBEE_MMO_OK then take 16 digest else [])"
      using run key purpose args k1' k2' True by (auto simp: zigbee_key_hash_def Let_def)
    with True H1 H2 fin show ?thesis by auto
  qed
qed

theorem key_hash_is_hmac_witness:
  "fst (zigbee_key_hash mix_engine (Some (replicate 16 5)) 3 True 100 10 True ()) = ZIGBEE_MMO_OK \<and>
   fst (snd (zigbee_key_hash mix_engine (Some (replicate 16 5)) 3 True 100 10 True ())) = hmac_digest mix_cipher (replicate 16 5) [3]"
proof -
  obtain r out i m' where k: "zigbee_key_hash mix_engine (Some (replicate 16 5)) 3 True 100 10 True () = (r, out, i, m')"
    by (metis prod.exhaust)
  have "mmo_call_ok 100 10" by (simp add: mmo_call_ok_def)
  from key_hash_is_hmac [OF mix_correct this _ _ k, of "\<lambda>_. True"] mix_live k show ?thesis by auto
qed

section \<open>Install codes are checked\<close>

lemma install_crc_bit_alt: "install_crc_bit crc = drop_bit 1 crc XOR (if bit crc 0 then 0x8408 else 0)"
  by (simp add: install_crc_bit_def and_one_eq mod_2_eq_odd bit_0)

lemma install_crc_bit_xor: "install_crc_bit (a XOR b) = install_crc_bit a XOR install_crc_bit b"
  unfolding install_crc_bit_alt by (rule bit_word_eqI) (auto simp: bit_simps simp del: bit_0)

lemma install_crc_bit_zero: "install_crc_bit d = 0 \<Longrightarrow> d = 0"
proof -
  assume z: "install_crc_bit d = 0"
  have b: "\<not> bit d 0"
  proof
    assume "bit d 0"
    then have "bit (install_crc_bit d) 15" by (auto simp: install_crc_bit_alt bit_simps simp del: bit_0 dest: bit_imp_le_length)
    with z show False by simp
  qed
  with z have dz: "drop_bit 1 d = 0" by (simp add: install_crc_bit_alt del: bit_0)
  show "d = 0"
  proof (rule bit_word_eqI)
    fix n
    have "bit d (Suc m) = bit (drop_bit 1 d) m" for m by (simp add: bit_drop_bit_eq)
    with dz b show "bit d n = bit (0 :: u16) n" by (cases n) simp_all
  qed
qed

lemma install_crc_bit_inj: "install_crc_bit a = install_crc_bit b \<Longrightarrow> a = b"
proof -
  assume "install_crc_bit a = install_crc_bit b"
  then have "install_crc_bit (a XOR b) = 0" by (simp add: install_crc_bit_xor)
  then have "a XOR b = 0" by (rule install_crc_bit_zero)
  then have "a XOR b = b XOR b" by simp
  then show "a = b" by (simp only: xor_cancel)
qed

lemma install_crc_byte_inj: "install_crc_byte v a = install_crc_byte w b \<longleftrightarrow> a XOR ucast v = b XOR ucast w"
proof -
  have "(install_crc_bit ^^ n) x = (install_crc_bit ^^ n) y \<Longrightarrow> x = y" for n x y
    by (induction n) (auto dest: install_crc_bit_inj)
  then show ?thesis by (auto simp: install_crc_byte_def)
qed

lemma ucast_byte_inj: "(ucast (a :: u8) :: u16) = ucast b \<longleftrightarrow> a = b"
proof
  assume "(ucast a :: u16) = ucast b"
  then have "bit (ucast a :: u16) n = bit (ucast b :: u16) n" for n by simp
  then have "n < 16 \<Longrightarrow> bit a n = bit b n" for n by (auto simp: bit_simps)
  then show "a = b" by (intro bit_word_eqI) simp
qed simp

lemma install_crc_fold_inj: "fold install_crc_byte s a = fold install_crc_byte s b \<longleftrightarrow> a = b"
  by (induction s arbitrary: a b) (simp_all add: install_crc_byte_inj xor_cancel)

lemma install_crc_detects:
  assumes "i < length s" and "v \<noteq> s ! i"
  shows "fold install_crc_byte (s[i := v]) c \<noteq> fold install_crc_byte s c"
proof -
  have "fold install_crc_byte (s[i := v]) c =
      fold install_crc_byte (drop (Suc i) s) (install_crc_byte v (fold install_crc_byte (take i s) c))"
    using assms(1) by (simp add: upd_conv_take_nth_drop)
  moreover have "fold install_crc_byte s c =
      fold install_crc_byte (drop (Suc i) s) (install_crc_byte (s ! i) (fold install_crc_byte (take i s) c))"
    by (subst id_take_nth_drop [OF assms(1)]) simp
  ultimately show ?thesis using assms(2)
    by (simp add: install_crc_fold_inj install_crc_byte_inj xor.commute [of "fold install_crc_byte (take i s) c"] xor_cancel ucast_byte_inj)
qed

lemma u16_halves: "(ucast a :: u8) = ucast b \<Longrightarrow> (ucast (drop_bit 8 a) :: u8) = ucast (drop_bit 8 b) \<Longrightarrow> a = (b :: u16)"
proof (rule bit_word_eqI)
  fix n assume lo: "(ucast a :: u8) = ucast b" and hi: "(ucast (drop_bit 8 a) :: u8) = ucast (drop_bit 8 b)" and n: "n < LENGTH(16)"
  show "bit a n = bit b n"
  proof (cases "n < 8")
    case True
    have "bit (ucast a :: u8) n = bit (ucast b :: u8) n" using lo by simp
    with True show ?thesis by (simp add: bit_simps)
  next
    case False
    have "bit (ucast (drop_bit 8 a) :: u8) (n - 8) = bit (ucast (drop_bit 8 b) :: u8) (n - 8)" using hi by simp
    moreover have "n - 8 < 8" using n by simp
    ultimately show ?thesis using False by (simp add: bit_simps)
  qed
qed

lemma install_code_derive_crc:
  "fst (install_code_derive aes (Some code) INSTALL_CODE_SIZE out timeout poll_limit info m) = ZIGBEE_MMO_CRC \<longleftrightarrow>
     (code ! 16 \<noteq> ucast (install_crc code) \<or> code ! 17 \<noteq> ucast (drop_bit 8 (install_crc code)))"
  by (auto simp: install_code_derive_def zigbee_mmo_hash_def Let_def split: prod.splits)

text \<open>
  C32. An 18-octet install code is the 16-octet code and its CRC-16, low octet first. The check
  refuses every code that differs in one octet, changed in any way and at any place, from a code it
  accepts; and the key of an accepted code is the digest of all 18 octets.
\<close>

theorem install_code_checked:
  assumes len: "length code = INSTALL_CODE_SIZE" and c: "aes_correct aes E" and ok: "mmo_call_ok timeout poll_limit"
    and run: "install_code_derive aes (Some code) INSTALL_CODE_SIZE True timeout poll_limit True m = (r, out, i, m')"
    and r: "r = ZIGBEE_MMO_OK" and j: "j < INSTALL_CODE_SIZE" "v \<noteq> code ! j"
  shows "out = mmo_digest E code \<and>
    install_code_derive aes (Some (code[j := v])) INSTALL_CODE_SIZE True timeout poll_limit True m = (ZIGBEE_MMO_CRC, [], None, m)"
proof -
  have acc: "code ! 16 = ucast (install_crc code)" "code ! 17 = ucast (drop_bit 8 (install_crc code))"
    using install_code_derive_crc [of aes code True timeout poll_limit True m] run r by auto
  have "zigbee_mmo_hash aes (Some code) (length code) True timeout poll_limit True m = (r, out, i, m')"
    using run acc len by (simp add: install_code_derive_def)
  from zigbee_mmo_hash_spec [OF c ok _ this] len r have out: "out = mmo_digest E code" by simp
  let ?d = "code[j := v]"
  have "?d ! 16 \<noteq> ucast (install_crc ?d) \<or> ?d ! 17 \<noteq> ucast (drop_bit 8 (install_crc ?d))"
  proof (cases "j < 16")
    case True
    have "fold install_crc_byte ((take 16 code)[j := v]) 0xffff \<noteq> fold install_crc_byte (take 16 code) 0xffff"
      using True len j(2) by (intro install_crc_detects) simp_all
    then have "install_crc ?d \<noteq> install_crc code" by (simp add: install_crc_def take_update_swap xor_cancel)
    with u16_halves [of "install_crc ?d" "install_crc code"] acc True show ?thesis by auto
  next
    case False
    then have "install_crc ?d = install_crc code" by (simp add: install_crc_def)
    moreover have "j = 16 \<or> j = 17" using False j(1) by linarith
    ultimately show ?thesis using acc j len by auto
  qed
  then have "install_code_derive aes (Some ?d) INSTALL_CODE_SIZE True timeout poll_limit True m = (ZIGBEE_MMO_CRC, [], None, m)"
    by (auto simp: install_code_derive_def Let_def)
  with out show ?thesis by blast
qed

lemma install_crc_byte_unroll:
  "install_crc_byte b crc = install_crc_bit (install_crc_bit (install_crc_bit (install_crc_bit
    (install_crc_bit (install_crc_bit (install_crc_bit (install_crc_bit (crc XOR ucast b))))))))"
  by (simp add: install_crc_byte_def eval_nat_numeral)

text \<open>The example of the Zigbee documents, and the same with its first octet changed.\<close>

theorem install_code_checked_witness:
  "fst (snd (install_code_derive mix_engine (Some [0x83, 0xFE, 0xD3, 0x40, 0x7A, 0x93, 0x97, 0x23, 0xA5, 0xC6, 0x39, 0xB2, 0x69, 0x16, 0xD5, 0x05, 0xC3, 0xB5])
     18 True 100 10 True ())) =
   mmo_digest mix_cipher [0x83, 0xFE, 0xD3, 0x40, 0x7A, 0x93, 0x97, 0x23, 0xA5, 0xC6, 0x39, 0xB2, 0x69, 0x16, 0xD5, 0x05, 0xC3, 0xB5] \<and>
   fst (install_code_derive mix_engine (Some [0x82, 0xFE, 0xD3, 0x40, 0x7A, 0x93, 0x97, 0x23, 0xA5, 0xC6, 0x39, 0xB2, 0x69, 0x16, 0xD5, 0x05, 0xC3, 0xB5])
     18 True 100 10 True ()) = ZIGBEE_MMO_CRC"
proof -
  let ?c = "[0x83, 0xFE, 0xD3, 0x40, 0x7A, 0x93, 0x97, 0x23, 0xA5, 0xC6, 0x39, 0xB2, 0x69, 0x16, 0xD5, 0x05, 0xC3, 0xB5] :: bytes"
  obtain r out i m' where k: "install_code_derive mix_engine (Some ?c) 18 True 100 10 True () = (r, out, i, m')"
    by (metis prod.exhaust)
  have crc: "install_crc ?c = 0xb5c3"
    by (simp add: install_crc_def install_crc_byte_unroll install_crc_bit_def)
  have ok: "mmo_call_ok 100 10" by (simp add: mmo_call_ok_def)
  have n: "length ?c = 18" by simp
  have "zigbee_mmo_hash mix_engine (Some ?c) 18 True 100 10 True () = (r, out, i, m')"
    using k crc by (simp add: install_code_derive_def)
  from zigbee_mmo_hash_spec [OF mix_correct ok _ this [folded n], of "\<lambda>_. True"] mix_live have r: "r = ZIGBEE_MMO_OK" by simp
  from install_code_checked [OF _ mix_correct ok k r, of 0 "0x82"] k show ?thesis by simp
qed

end
