(* ===== verification/Ed_Wire.thy ===== *)
theory Ed_Wire
  imports Zigbee_Security
begin

text \<open>
  The wire syntax of the end device (\<open>src/src/ed_wire.c\<close>): NWK data and command frames with APS data,
  command and acknowledgement frames inside, and their protection at level 5. The header readers
  copy the header into a work buffer, clear the type and security bits there and hand the copy to
  the plain codecs with the length of the whole frame; those read nothing behind the header, so
  the model passes the frame with the two octets changed.
\<close>

abbreviation (input) ED_PAYLOAD_MAX :: nat where "ED_PAYLOAD_MAX \<equiv> 82"
abbreviation (input) ED_APS_COMMAND :: u8 where "ED_APS_COMMAND \<equiv> 1"
abbreviation (input) ED_APS_ACK :: u8 where "ED_APS_ACK \<equiv> 2"
abbreviation (input) ED_NWK_COMMAND :: u8 where "ED_NWK_COMMAND \<equiv> 1"
abbreviation (input) APS_DELIVERY_BROADCAST :: u8 where "APS_DELIVERY_BROADCAST \<equiv> 2"

record ed_packet =
  ep_nwk :: nwk_header
  ep_aps :: aps_header
  ep_length :: nat
  ep_payload :: bytes

definition aps_header_zero :: aps_header where
  "aps_header_zero = \<lparr>aps_type = 0, aps_delivery_mode = 0, aps_flags = 0, aps_destination_endpoint = 0, aps_cluster_id = 0,
     aps_profile_id = 0, aps_source_endpoint = 0, aps_counter = 0\<rparr>"

definition ew_read_nwk :: "bytes option \<Rightarrow> bool \<Rightarrow> zigbee_security_result + nwk_frame_info" where
  "ew_read_nwk frame info =
     (case frame of None \<Rightarrow> Inl ZIGBEE_SECURITY_ARGUMENT | Some f \<Rightarrow>
      if \<not> info then Inl ZIGBEE_SECURITY_ARGUMENT
      else if length f < 8 \<or> length f > NWK_FRAME_MAX_BODY then Inl ZIGBEE_SECURITY_LENGTH
      else let type = f ! 0 AND 3; h = 8 + (if f ! 1 AND 8 \<noteq> 0 then 8 else 0) + (if f ! 1 AND 16 \<noteq> 0 then 8 else 0) in
      if type > ED_NWK_COMMAND then Inl ZIGBEE_SECURITY_HEADER
      else if length f < h then Inl ZIGBEE_SECURITY_LENGTH
      else (case nwk_frame_decode (Some (f[0 := f ! 0 AND 0xfc, 1 := f ! 1 AND NOT 2])) True of Inl _ \<Rightarrow> Inl ZIGBEE_SECURITY_HEADER
        | Inr i \<Rightarrow> Inr (i\<lparr>nfi_header := (nfi_header i)\<lparr>nwk_type := type,
            nwk_flags := nwk_flags (nfi_header i) OR push_bit 8 (ucast (f ! 1 AND 2))\<rparr>\<rparr>)))"

definition ew_aps_short :: "u8 \<Rightarrow> u8 \<Rightarrow> bool" where
  "ew_aps_short type flags \<longleftrightarrow> type = ED_APS_COMMAND \<or> (type = ED_APS_ACK \<and> flags AND APS_FLAG_ACK_FORMAT \<noteq> 0)"

definition ew_aps_refused :: "u8 \<Rightarrow> u8 \<Rightarrow> u8 \<Rightarrow> bool" where
  "ew_aps_refused type delivery flags \<longleftrightarrow> type > ED_APS_ACK \<or> (delivery \<noteq> 0 \<and> delivery \<noteq> APS_DELIVERY_BROADCAST) \<or>
     flags AND APS_FLAG_EXTENDED_HEADER \<noteq> 0 \<or> (type \<noteq> 0 \<and> delivery \<noteq> 0) \<or>
     (type \<noteq> ED_APS_ACK \<and> flags AND APS_FLAG_ACK_FORMAT \<noteq> 0) \<or>
     ((type = ED_APS_ACK \<or> delivery \<noteq> 0) \<and> flags AND APS_FLAG_ACK_REQUEST \<noteq> 0)"

definition ew_read_aps :: "bytes option \<Rightarrow> bool \<Rightarrow> zigbee_security_result + aps_frame_info" where
  "ew_read_aps frame info =
     (case frame of None \<Rightarrow> Inl ZIGBEE_SECURITY_ARGUMENT | Some f \<Rightarrow>
      if \<not> info then Inl ZIGBEE_SECURITY_ARGUMENT
      else if length f < 2 \<or> length f > APS_FRAME_MAX_BODY then Inl ZIGBEE_SECURITY_LENGTH
      else let type = f ! 0 AND 3; delivery = drop_bit 2 (f ! 0) AND 3; flags = f ! 0 AND 0xf0 in
      if ew_aps_refused type delivery flags then Inl ZIGBEE_SECURITY_HEADER
      else if ew_aps_short type flags then
        Inr \<lparr>afi_header = aps_header_zero\<lparr>aps_counter := f ! 1, aps_type := type, aps_delivery_mode := delivery, aps_flags := flags\<rparr>,
          afi_payload_offset = 2, afi_payload_length = length f - 2\<rparr>
      else if length f < 8 then Inl ZIGBEE_SECURITY_LENGTH
      else (case aps_frame_decode (Some (f[0 := f ! 0 AND APS_FLAG_ACK_REQUEST])) True of Inl _ \<Rightarrow> Inl ZIGBEE_SECURITY_HEADER
        | Inr i \<Rightarrow> Inr \<lparr>afi_header = (afi_header i)\<lparr>aps_type := type, aps_delivery_mode := delivery, aps_flags := flags\<rparr>,
            afi_payload_offset = afi_payload_offset i, afi_payload_length = length f - afi_payload_offset i\<rparr>))"

definition ed_wire_nwk :: "bytes option \<Rightarrow> bool \<Rightarrow> zigbee_security_result + nwk_frame_info" where
  "ed_wire_nwk frame info = ew_read_nwk frame info"

definition ed_wire_aps :: "bytes option \<Rightarrow> bool \<Rightarrow> zigbee_security_result + aps_frame_info" where
  "ed_wire_aps frame info = ew_read_aps frame info"

text \<open>The packet of a frame; the payload array is zeroed before it is filled.\<close>

definition ew_packet :: "nwk_header \<Rightarrow> aps_header \<Rightarrow> bytes \<Rightarrow> zigbee_security_result + ed_packet" where
  "ew_packet nwk aps payload =
     (if length payload > ED_PAYLOAD_MAX then Inl ZIGBEE_SECURITY_LENGTH
      else Inr \<lparr>ep_nwk = nwk, ep_aps = aps, ep_length = length payload, ep_payload = store_at 0 payload (replicate ED_PAYLOAD_MAX 0)\<rparr>)"

definition ed_wire_decode :: "bytes option \<Rightarrow> bool \<Rightarrow> zigbee_security_result + ed_packet" where
  "ed_wire_decode frame packet =
     (if \<not> packet then Inl ZIGBEE_SECURITY_ARGUMENT
      else (case ew_read_nwk frame True of Inl e \<Rightarrow> Inl e | Inr n \<Rightarrow>
        let nwk = nfi_header n; body = take (nfi_payload_length n) (drop (nfi_payload_offset n) (the frame)) in
        if nwk_flags nwk AND NWK_FLAG_SECURITY \<noteq> 0 then Inl ZIGBEE_SECURITY_HEADER
        else if nwk_type nwk = 0 then
          (case ew_read_aps (Some body) True of Inl e \<Rightarrow> Inl e | Inr i \<Rightarrow>
            let aps = afi_header i; payload = take (afi_payload_length i) (drop (afi_payload_offset i) body) in
            if aps_flags aps AND APS_FLAG_SECURITY \<noteq> 0 then Inl ZIGBEE_SECURITY_HEADER
            else if aps_type aps = ED_APS_ACK \<and> payload \<noteq> [] then Inl ZIGBEE_SECURITY_LENGTH
            else if aps_type aps = ED_APS_COMMAND \<and> payload = [] then Inl ZIGBEE_SECURITY_LENGTH
            else ew_packet nwk aps payload)
        else if body = [] then Inl ZIGBEE_SECURITY_LENGTH
        else ew_packet nwk aps_header_zero body))"

text \<open>The APS part of an outgoing frame; \<open>None\<close> for a header that cannot be encoded.\<close>

definition ew_encode_aps :: "ed_packet \<Rightarrow> bytes option" where
  "ew_encode_aps p =
     (let aps = ep_aps p; n = ep_length p; control = aps_type aps OR push_bit 2 (aps_delivery_mode aps) OR aps_flags aps;
          encoded = (if ew_aps_short (aps_type aps) (aps_flags aps) then Some ([control, aps_counter aps] @ take n (ep_payload p))
            else (case aps_frame_encode (Some (aps\<lparr>aps_type := 0, aps_delivery_mode := 0, aps_flags := aps_flags aps AND APS_FLAG_ACK_REQUEST\<rparr>))
                (Some (ep_payload p)) n True 116 True of Inl _ \<Rightarrow> None | Inr b \<Rightarrow> Some (b[0 := control])))
      in case encoded of None \<Rightarrow> None | Some b \<Rightarrow>
        (case ew_read_aps (Some b) True of Inl _ \<Rightarrow> None | Inr _ \<Rightarrow>
          if (aps_type aps = ED_APS_ACK \<and> n \<noteq> 0) \<or> (aps_type aps = ED_APS_COMMAND \<and> n = 0) then None else Some b))"

definition ed_wire_encode :: "ed_packet option \<Rightarrow> bool \<Rightarrow> nat \<Rightarrow> bool \<Rightarrow> zigbee_security_result + bytes" where
  "ed_wire_encode packet frame capacity len =
     (case packet of None \<Rightarrow> Inl ZIGBEE_SECURITY_ARGUMENT | Some p \<Rightarrow>
      if \<not> frame \<or> \<not> len then Inl ZIGBEE_SECURITY_ARGUMENT
      else if ep_length p > ED_PAYLOAD_MAX \<or> nwk_type (ep_nwk p) > ED_NWK_COMMAND \<or>
        nwk_flags (ep_nwk p) AND NWK_FLAG_SECURITY \<noteq> 0 \<or> aps_flags (ep_aps p) AND APS_FLAG_SECURITY \<noteq> 0 then Inl ZIGBEE_SECURITY_ARGUMENT
      else if nwk_type (ep_nwk p) = 0 \<and> (aps_type (ep_aps p) > ED_APS_ACK \<or> aps_delivery_mode (ep_aps p) > 3 \<or>
        aps_flags (ep_aps p) AND 0x0f \<noteq> 0) then Inl ZIGBEE_SECURITY_ARGUMENT
      else if nwk_type (ep_nwk p) \<noteq> 0 \<and> ep_length p = 0 then Inl ZIGBEE_SECURITY_LENGTH
      else (case (if nwk_type (ep_nwk p) \<noteq> 0 then Some (take (ep_length p) (ep_payload p)) else ew_encode_aps p) of
          None \<Rightarrow> Inl ZIGBEE_SECURITY_HEADER
        | Some encoded \<Rightarrow>
          (case nwk_frame_encode (Some ((ep_nwk p)\<lparr>nwk_type := 0\<rparr>)) (Some encoded) (length encoded) True 116 True of
             Inl _ \<Rightarrow> Inl ZIGBEE_SECURITY_HEADER
           | Inr b \<Rightarrow> if length b > capacity then Inl ZIGBEE_SECURITY_SPACE else Inr (b[0 := b ! 0 OR nwk_type (ep_nwk p)]))))"

section \<open>Protection\<close>

text \<open>The header length of a frame and, for APS frames, its type.\<close>

definition ew_header :: "u8 \<Rightarrow> bytes \<Rightarrow> zigbee_security_result + nat \<times> u8" where
  "ew_header layer frame =
     (if layer > ZIGBEE_SECURITY_APS then Inl ZIGBEE_SECURITY_ARGUMENT
      else if layer = 0 then map_sum id (\<lambda>i. (nfi_payload_offset i, 0)) (ew_read_nwk (Some frame) True)
      else map_sum id (\<lambda>i. (afi_payload_offset i, aps_type (afi_header i))) (ew_read_aps (Some frame) True))"

definition ew_flagged :: "u8 \<Rightarrow> bytes \<Rightarrow> bool" where
  "ew_flagged layer frame \<longleftrightarrow> (if layer \<noteq> 0 then frame ! 0 AND APS_FLAG_SECURITY \<noteq> 0 else frame ! 1 AND 2 \<noteq> 0)"

definition ew_inspect :: "u8 \<Rightarrow> bytes \<Rightarrow> zigbee_security_result + zigbee_security_meta \<times> u8" where
  "ew_inspect layer frame =
     (case ew_header layer frame of Inl e \<Rightarrow> Inl e | Inr (h, type) \<Rightarrow>
      if \<not> ew_flagged layer frame then Inl ZIGBEE_SECURITY_HEADER
      else if length frame < h + 5 then Inl ZIGBEE_SECURITY_LENGTH
      else let c = frame ! h; kid = drop_bit 3 c AND 3;
               a = 5 + (if c AND 0x20 \<noteq> 0 then 8 else 0) + (if kid = 1 then 1 else 0) in
      if c AND 0xc0 \<noteq> 0 \<or> length frame < h + a + 4 then Inl ZIGBEE_SECURITY_LENGTH
      else let m = \<lparr>sm_counter = decode32 (drop (h + 1) frame),
                sm_source = (if c AND 0x20 \<noteq> 0 then take 8 (drop (h + 5) frame) else replicate 8 0),
                sm_level = 5, sm_key_identifier = kid, sm_key_sequence = (if kid = 1 then frame ! (h + a - 1) else 0),
                sm_extended_nonce = drop_bit 5 c AND 1, sm_header_length = h, sm_auxiliary_length = a,
                sm_payload_length = length frame - h - a - 4\<rparr> in
      if sm_counter m = 0xffffffff then Inl ZIGBEE_SECURITY_COUNTER
      else if layer = 0 \<and> (kid \<noteq> 1 \<or> c AND 0x20 = 0) then Inl ZIGBEE_SECURITY_SELECTOR
      else if layer \<noteq> 0 \<and> (kid = 1 \<or> c AND 0x20 = 0 \<or> (type \<noteq> ED_APS_COMMAND \<and> kid \<noteq> 0)) then Inl ZIGBEE_SECURITY_SELECTOR
      else Inr (m, type))"

definition ed_wire_inspect :: "u8 \<Rightarrow> bytes option \<Rightarrow> bool \<Rightarrow> zigbee_security_result + zigbee_security_meta" where
  "ed_wire_inspect layer frame meta =
     (case frame of None \<Rightarrow> Inl ZIGBEE_SECURITY_ARGUMENT | Some f \<Rightarrow>
      if \<not> meta then Inl ZIGBEE_SECURITY_ARGUMENT else map_sum id fst (ew_inspect layer f))"

text \<open>The two preparations: metadata, APS type, length of the result and the frame in the work buffer.\<close>

definition ew_prepare_open :: "u8 \<Rightarrow> zigbee_security_key \<Rightarrow> bytes \<Rightarrow>
    zigbee_security_result + zigbee_security_meta \<times> u8 \<times> nat \<times> bytes" where
  "ew_prepare_open layer key frame =
     (case ew_inspect layer frame of Inl e \<Rightarrow> Inl e | Inr (m, type) \<Rightarrow>
      if sm_key_identifier m \<noteq> zk_key_identifier key \<or> (zk_key_identifier key = 1 \<and> sm_key_sequence m \<noteq> zk_key_sequence key) \<or>
        take 8 (sm_source m) \<noteq> take 8 (zk_source key) then Inl ZIGBEE_SECURITY_SOURCE
      else let h = sm_header_length m; w = store_at 0 frame (replicate 116 0) in
        Inr (m, type, h + sm_payload_length m, w[h := (w ! h AND 0xf8) OR 5]))"

definition ew_prepare_seal :: "u8 \<Rightarrow> zigbee_security_key \<Rightarrow> bytes \<Rightarrow>
    zigbee_security_result + zigbee_security_meta \<times> u8 \<times> nat \<times> bytes" where
  "ew_prepare_seal layer key frame =
     (case ew_header layer frame of Inl e \<Rightarrow> Inl e | Inr (h, type) \<Rightarrow>
      if ew_flagged layer frame then Inl ZIGBEE_SECURITY_HEADER
      else if zk_counter key = 0xffffffff then Inl ZIGBEE_SECURITY_COUNTER
      else if layer \<noteq> 0 \<and> type \<noteq> ED_APS_COMMAND \<and> zk_key_identifier key \<noteq> 0 then Inl ZIGBEE_SECURITY_SELECTOR
      else let a = (if zk_key_identifier key = 1 then 14 else 13); p = length frame - h; len_out = h + a + p + 4 in
      if len_out > (if layer \<noteq> 0 then APS_FRAME_MAX_BODY else NWK_FRAME_MAX_BODY) then Inl ZIGBEE_SECURITY_LENGTH
      else let w0 = store_at 0 (take h frame) (replicate 116 0);
               w1 = (if layer \<noteq> 0 then w0[0 := w0 ! 0 OR APS_FLAG_SECURITY] else w0[1 := w0 ! 1 OR 2]);
               w2 = w1[h := 0x25 OR push_bit 3 (zk_key_identifier key)];
               w3 = store_at (h + 1) (encode32 (zk_counter key)) w2;
               w4 = store_at (h + 5) (take 8 (zk_source key)) w3;
               w5 = (if zk_key_identifier key = 1 then w4[h + a - 1 := zk_key_sequence key] else w4);
               w6 = store_at (h + a) (drop h frame) w5;
               m = \<lparr>sm_counter = zk_counter key, sm_source = take 8 (zk_source key), sm_level = 5,
                 sm_key_identifier = zk_key_identifier key, sm_key_sequence = (if zk_key_identifier key = 1 then zk_key_sequence key else 0),
                 sm_extended_nonce = 1, sm_header_length = h, sm_auxiliary_length = a, sm_payload_length = p\<rparr>
           in Inr (m, type, len_out, w6))"

text \<open>CCM* on the work buffer and the output frame.\<close>

definition ew_finish :: "bool \<Rightarrow> u8 \<Rightarrow> nat \<Rightarrow> nat \<Rightarrow> nat \<Rightarrow> bytes \<Rightarrow> bytes \<Rightarrow> bytes" where
  "ew_finish opening layer h a p plain w =
     (if opening then
        let w1 = (if layer \<noteq> 0 then w[0 := w ! 0 AND NOT APS_FLAG_SECURITY] else w[1 := w ! 1 AND NOT 2]) in store_at h (take p plain) w1
      else let w1 = store_at (h + a) plain w in w1[h := w1 ! h AND 0xf8])"

definition ew_crypt :: "'m aes_call \<Rightarrow> bool \<Rightarrow> u8 \<Rightarrow> zigbee_security_key \<Rightarrow> nat \<Rightarrow> zigbee_security_meta \<times> u8 \<times> nat \<times> bytes \<Rightarrow> 'm \<Rightarrow>
    zigbee_security_result \<times> bytes \<times> (zigbee_security_meta \<times> ccm_star_info) option \<times> 'm" where
  "ew_crypt aes opening layer key capacity prepared hw =
     (case prepared of (m, type, len_out, w) \<Rightarrow>
      let h = sm_header_length m; a = sm_auxiliary_length m; p = sm_payload_length m in
      if layer \<noteq> 0 \<and> ((type = ED_APS_COMMAND \<and> p = 0) \<or> (type = ED_APS_ACK \<and> p \<noteq> 0)) then (ZIGBEE_SECURITY_LENGTH, [], None, hw)
      else if capacity < len_out then (ZIGBEE_SECURITY_SPACE, [], None, hw)
      else let n = p + (if opening then 4 else 0); nonce = take 8 (zk_source key) @ take 4 (drop (h + 1) w) @ [w ! h] in
      (case ccm_star_crypt aes (if opening then 1 else 0) (Some (zk_key key)) (Some nonce) (Some (take (h + a) w)) (h + a)
          (Some (take n (drop (h + a) w))) n 4 True 116 True (Some (zk_limits key)) True hw of (c, plain, info, hw') \<Rightarrow>
        if c \<noteq> CCM_STAR_OK then (zs_ccm_status c, [], None, hw')
        else (ZIGBEE_SECURITY_OK, take len_out (ew_finish opening layer h a p plain w), map_option (Pair m) info, hw')))"

definition ed_wire_crypt :: "'m aes_call \<Rightarrow> u8 \<Rightarrow> u8 \<Rightarrow> zigbee_security_key option \<Rightarrow> bytes option \<Rightarrow> bool \<Rightarrow> nat \<Rightarrow> bool \<Rightarrow> 'm \<Rightarrow>
    zigbee_security_result \<times> bytes \<times> (zigbee_security_meta \<times> ccm_star_info) option \<times> 'm" where
  "ed_wire_crypt aes open layer key frame out capacity info hw =
     (case key of None \<Rightarrow> (ZIGBEE_SECURITY_ARGUMENT, [], None, hw) | Some k \<Rightarrow>
      (case frame of None \<Rightarrow> (ZIGBEE_SECURITY_ARGUMENT, [], None, hw) | Some f \<Rightarrow>
      if \<not> out \<or> \<not> info \<or> open > 1 \<or> layer > 1 then (ZIGBEE_SECURITY_ARGUMENT, [], None, hw)
      else if zk_level k \<noteq> 5 \<or> zk_extended_nonce k \<noteq> 1 then (ZIGBEE_SECURITY_LEVEL, [], None, hw)
      else if (layer = 0 \<and> zk_key_identifier k \<noteq> 1) \<or> (layer \<noteq> 0 \<and> (zk_key_identifier k = 1 \<or> zk_key_identifier k > 3))
        then (ZIGBEE_SECURITY_SELECTOR, [], None, hw)
      else (case (if open \<noteq> 0 then ew_prepare_open layer k f else ew_prepare_seal layer k f) of
          Inl e \<Rightarrow> (e, [], None, hw)
        | Inr prepared \<Rightarrow> ew_crypt aes (open \<noteq> 0) layer k capacity prepared hw)))"

end
