(* ===== verification/Ed_Wire_Proof.thy ===== *)
theory Ed_Wire_Proof
  imports Ed_Wire
begin

text \<open>
  The protection of the end device's frames: the wire format of a sealed frame, and the round
  trip of sealing and opening.
\<close>

section \<open>Headers\<close>

text \<open>The header of a frame does not depend on its security flag or on what follows it.\<close>

lemma update_again: "xs[Suc 0 := a, 0 := b, Suc 0 := c] = xs[0 := b, Suc 0 := c]"
  by (cases xs) simp_all

lemma nwk_flag_octet: "read_le16 b AND 0x800 = 0 \<longleftrightarrow> b ! 1 AND 8 = 0" "read_le16 b AND 0x1000 = 0 \<longleftrightarrow> b ! 1 AND 16 = 0"
proof -
  have "read_le16 b AND 0x800 = 0 \<longleftrightarrow> \<not> bit (read_le16 b) 11" "b ! 1 AND 8 = 0 \<longleftrightarrow> \<not> bit (b ! 1) 3"
    "read_le16 b AND 0x1000 = 0 \<longleftrightarrow> \<not> bit (read_le16 b) 12" "b ! 1 AND 16 = 0 \<longleftrightarrow> \<not> bit (b ! 1) 4"
    using and_exp_eq_0_iff_not_bit [of "read_le16 b" 11] and_exp_eq_0_iff_not_bit [of "b ! 1" 3]
      and_exp_eq_0_iff_not_bit [of "read_le16 b" 12] and_exp_eq_0_iff_not_bit [of "b ! 1" 4] by simp_all
  moreover have "bit (read_le16 b) 11 = bit (b ! 1) 3" "bit (read_le16 b) 12 = bit (b ! 1) 4" by (auto simp: read_le16_def bit_simps dest: bit_imp_le_length)
  ultimately show "read_le16 b AND 0x800 = 0 \<longleftrightarrow> b ! 1 AND 8 = 0" "read_le16 b AND 0x1000 = 0 \<longleftrightarrow> b ! 1 AND 16 = 0" by simp_all
qed

lemma read_nwk_prefix:
  assumes "ew_read_nwk (Some f) True = Inr i" "h = nfi_payload_offset i"
  shows "8 \<le> h" "h \<le> 24" "h \<le> length f" "length f \<le> 116"
    "take h g = security_flag 0 True (take h f) \<Longrightarrow> h \<le> length g \<Longrightarrow> length g \<le> 116 \<Longrightarrow> \<exists>i'. ew_read_nwk (Some g) True = Inr i' \<and> nfi_payload_offset i' = h"
proof -
  let ?c = "\<lambda>f :: bytes. f[0 := f ! 0 AND 0xfc, 1 := f ! 1 AND NOT 2]"
  let ?n = "\<lambda>f :: bytes. 8 + (if f ! 1 AND 8 \<noteq> 0 then 8 else 0) + (if f ! 1 AND 16 \<noteq> 0 then 8 else 0 :: nat)"
  obtain j where j: "nwk_frame_decode (Some (?c f)) True = Inr j" "nfi_payload_offset j = h" and l: "8 \<le> length f" "length f \<le> 116" "?n f \<le> length f"
    and t: "f ! 0 AND 3 \<le> 1"
    using assms by (auto simp: ew_read_nwk_def Let_def not_less split: if_splits sum.splits)
  note p = nwk_offset_prefix [OF j(1), unfolded j(2)]
  show "8 \<le> h" "h \<le> length f" "length f \<le> 116" using p l by simp_all
  have hn: "h = ?n f"
  proof -
    have "nwk_header_shape (nwk_read_header (?c f)) = Inr h" using j by (auto simp: nwk_frame_decode_def Let_def split: if_splits sum.splits)
    then have "h = nwk_header_size (nwk_flags (nwk_read_header (?c f)))" by (auto simp: nwk_header_shape_def split: if_splits)
    then show ?thesis using nwk_flag_octet [of "?c f"] l(1) by (simp add: nwk_header_size_def nwk_read_header_def Let_def and.assoc)
  qed
  then show "h \<le> 24" by simp
  assume a: "take h g = security_flag 0 True (take h f)" "h \<le> length g" "length g \<le> 116"
  have f: "take h f ! 1 = f ! 1" "take h f ! 0 = f ! 0" "g ! 1 = take h g ! 1" "g ! 0 = take h g ! 0" using p(1) by simp_all
  have g: "g ! 0 = f ! 0" "g ! 1 = (f ! 1 AND NOT 2) OR 2" unfolding f(3,4) a(1) using p(1,2) f(1,2) by (simp_all add: security_flag_def)
  have "take h (?c g) = take h (?c f)"
    using a(1) g p(1,2) a(2) mask_set(2) [of "f ! 1" 2] by (simp add: take_update_swap security_flag_def update_again)
  moreover have "?n g = ?n f" unfolding g by (simp add: bit.conj_disj_distrib2 and.assoc)
  ultimately show "\<exists>i'. ew_read_nwk (Some g) True = Inr i' \<and> nfi_payload_offset i' = h"
    using p(3) [of "?c g"] a(2,3) l g(1) t hn p(1) by (auto simp: ew_read_nwk_def Let_def not_less not_le)
qed

lemma flag_mask: "(k :: u8) AND m = 0 \<Longrightarrow> ((x AND NOT k) OR k) AND m = x AND m"
proof -
  assume "k AND m = 0"
  then have "\<not> bit (k AND m) n" for n by simp
  then have "\<not> (bit k n \<and> bit m n)" for n unfolding bit_and_iff .
  then show ?thesis by (intro bit_word_eqI) (auto simp: bit_simps)
qed

lemma drop_mask: "drop_bit 2 (x :: u8) AND 3 = drop_bit 2 (x AND 12)"
  by (rule bit_word_eqI) (auto simp: bit_simps)

lemma read_aps_prefix:
  assumes "ew_read_aps (Some f) True = Inr i" "h = afi_payload_offset i"
  shows "2 \<le> h" "h \<le> length f" "length f \<le> 108"
    "take h g = security_flag 1 True (take h f) \<Longrightarrow> h \<le> length g \<Longrightarrow> length g \<le> 108 \<Longrightarrow>
      \<exists>i'. ew_read_aps (Some g) True = Inr i' \<and> afi_payload_offset i' = h \<and> aps_type (afi_header i') = aps_type (afi_header i)"
proof -
  let ?r = "\<lambda>x :: u8. ew_aps_refused (x AND 3) (drop_bit 2 x AND 3) (x AND 0xf0)"
  let ?s = "\<lambda>x :: u8. ew_aps_short (x AND 3) (x AND 0xf0)"
  let ?x = "(f ! 0 AND NOT 0x20) OR 0x20 :: u8"
  have l: "2 \<le> length f" "length f \<le> 108" "\<not> ?r (f ! 0)" "aps_type (afi_header i) = f ! 0 AND 3"
    using assms by (auto simp: ew_read_aps_def Let_def not_less split: if_splits sum.splits)
  have b: "?x AND 3 = f ! 0 AND 3" "?x AND 12 = f ! 0 AND 12" "?x AND 0x10 = f ! 0 AND 0x10" "?x AND 0x40 = f ! 0 AND 0x40" "?x AND 0x80 = f ! 0 AND 0x80"
    by (rule flag_mask; simp)+
  have d: "drop_bit 2 ?x AND 3 = drop_bit 2 (f ! 0) AND 3" unfolding drop_mask b(2) ..
  have rs: "?r ?x = ?r (f ! 0)" "?s ?x = ?s (f ! 0)"
    unfolding ew_aps_refused_def ew_aps_short_def and.assoc b(1) d using b(3-5) by simp_all
  have h: "2 \<le> h \<and> h \<le> length f \<and> (?s (f ! 0) \<longrightarrow> h = 2) \<and> (\<not> ?s (f ! 0) \<longrightarrow> h = 8 \<and>
      (\<exists>j. aps_frame_decode (Some (f[0 := f ! 0 AND 0x40])) True = Inr j))"
    using assms l aps_offset_prefix(1) by (auto simp: ew_read_aps_def Let_def not_less split: if_splits sum.splits)
  then show "2 \<le> h" "h \<le> length f" "length f \<le> 108" using l by simp_all
  assume a: "take h g = security_flag 1 True (take h f)" "h \<le> length g" "length g \<le> 108"
  have "g ! 0 = take h g ! 0" "take h f ! 0 = f ! 0" "0 < length (take h f)" using h by (auto intro: nth_take [symmetric])
  then have g0: "g ! 0 = ?x" unfolding a(1) by (simp add: security_flag_def)
  show "\<exists>i'. ew_read_aps (Some g) True = Inr i' \<and> afi_payload_offset i' = h \<and> aps_type (afi_header i') = aps_type (afi_header i)"
  proof (cases "?s (f ! 0)")
    case True
    then show ?thesis using rs l a h b(1) by (simp add: ew_read_aps_def Let_def g0 aps_header_zero_def)
  next
    case False
    then obtain j where j: "aps_frame_decode (Some (f[0 := f ! 0 AND 0x40])) True = Inr j" and h8: "h = 8" using h by blast
    have "take 8 (g[0 := g ! 0 AND 0x40]) = take 8 (f[0 := f ! 0 AND 0x40])"
      using a(1) b(4) by (simp add: take_update_swap g0 h8 security_flag_def)
    then obtain j' where "aps_frame_decode (Some (g[0 := g ! 0 AND 0x40])) True = Inr j'" "afi_payload_offset j' = 8"
      using aps_offset_prefix(3) [OF j, of "g[0 := g ! 0 AND 0x40]"] aps_offset_prefix(1) [OF j] a(2,3) h8 by auto
    then show ?thesis using False rs l a h8 b(1) by (simp add: ew_read_aps_def Let_def g0)
  qed
qed

lemma header_prefix:
  assumes "ew_header layer f = Inr (h, ty)"
  shows "2 \<le> h \<and> h \<le> length f \<and> length f \<le> 116 \<and> layer \<le> 1 \<and>
    (take h g = security_flag layer True (take h f) \<longrightarrow> h \<le> length g \<longrightarrow> length g \<le> (if layer \<noteq> 0 then 108 else 116) \<longrightarrow>
      ew_header layer g = Inr (h, ty))"
proof -
  have "layer \<le> 1" using assms by (auto simp: ew_header_def not_less split: if_splits)
  then consider "layer = 0" | "layer = 1" using word_le_cases(1) by blast
  then show ?thesis
  proof cases
    case 1
    then obtain i where i: "ew_read_nwk (Some f) True = Inr i" "h = nfi_payload_offset i" "ty = 0"
      using assms by (cases "ew_read_nwk (Some f) True") (auto simp: ew_header_def)
    show ?thesis using read_nwk_prefix(1-4) [OF i(1,2)] read_nwk_prefix(5) [OF i(1,2), of g] 1 i(3) by (auto simp: ew_header_def)
  next
    case 2
    then obtain i where i: "ew_read_aps (Some f) True = Inr i" "h = afi_payload_offset i" "ty = aps_type (afi_header i)"
      using assms by (cases "ew_read_aps (Some f) True") (auto simp: ew_header_def)
    show ?thesis using read_aps_prefix(1-3) [OF i(1,2)] read_aps_prefix(4) [OF i(1,2), of g] 2 i(3) by (auto simp: ew_header_def)
  qed
qed

section \<open>The wire format\<close>

definition ew_control :: "zigbee_security_key \<Rightarrow> u8" where
  "ew_control k = 0x25 OR push_bit 3 (zk_key_identifier k)"

definition ew_aux :: "u8 \<Rightarrow> zigbee_security_key \<Rightarrow> bytes" where
  "ew_aux c k = c # encode32 (zk_counter k) @ take 8 (zk_source k) @ (if zk_key_identifier k = 1 then [zk_key_sequence k] else [])"

definition ew_nonce :: "zigbee_security_key \<Rightarrow> bytes" where
  "ew_nonce k = take 8 (zk_source k) @ encode32 (zk_counter k) @ [ew_control k]"

definition ew_sealed :: "cipher \<Rightarrow> u8 \<Rightarrow> zigbee_security_key \<Rightarrow> nat \<Rightarrow> bytes \<Rightarrow> bytes" where
  "ew_sealed E layer k h f =
     (let hd = security_flag layer True (take h f) in
      hd @ ew_aux (ew_control k AND 0xf8) k @ ccm_seal E (zk_key k) (ew_nonce k) (hd @ ew_aux (ew_control k) k) 4 (drop h f))"

definition ew_key_ok :: "zigbee_security_key \<Rightarrow> bool" where
  "ew_key_ok k \<longleftrightarrow> length (zk_key k) = 16 \<and> length (zk_source k) = 8 \<and> block_timeout (zk_limits k) \<noteq> 0 \<and>
     block_timeout (zk_limits k) < TIMEBASE_HALF_RANGE \<and> block_polls (zk_limits k) \<noteq> 0"

definition ew_aux_length :: "zigbee_security_key \<Rightarrow> nat" where
  "ew_aux_length k = (if zk_key_identifier k = 1 then 14 else 13)"

lemma length_ew_aux: "length (zk_source k) = 8 \<Longrightarrow> length (ew_aux c k) = ew_aux_length k"
  by (simp add: ew_aux_def ew_aux_length_def)

lemma aux_octet: "h = length x \<Longrightarrow> (x @ ew_aux c k @ y) ! h = c" "h = length x \<Longrightarrow> (x @ ew_aux c k @ y)[h := d] = x @ ew_aux d k @ y"
  by (simp_all add: ew_aux_def)

lemma or_flag: "(x :: u8) OR k = (x AND NOT k) OR k"
  by (rule bit_word_eqI) (auto simp: bit_simps)

lemma prepare_seal:
  assumes "ew_prepare_seal layer k f = Inr (m, ty, n, w)" "length (zk_source k) = 8"
  shows "\<exists>h. ew_header layer f = Inr (h, ty) \<and> \<not> ew_flagged layer f \<and> zk_counter k \<noteq> 0xffffffff \<and>
    (layer \<noteq> 0 \<and> ty \<noteq> 1 \<longrightarrow> zk_key_identifier k = 0) \<and> sm_header_length m = h \<and> sm_auxiliary_length m = ew_aux_length k \<and>
    sm_payload_length m = length f - h \<and> n = h + ew_aux_length k + (length f - h) + 4 \<and> n \<le> (if layer \<noteq> 0 then 108 else 116) \<and>
    w = security_flag layer True (take h f) @ ew_aux (ew_control k) k @ drop h f @ replicate (116 - (h + ew_aux_length k + (length f - h))) 0"
proof -
  obtain h t where hd: "ew_header layer f = Inr (h, t)" using assms(1) by (cases "ew_header layer f") (auto simp: ew_prepare_seal_def)
  note p = header_prefix [OF hd, of "[]"]
  let ?a = "ew_aux_length k" and ?H = "security_flag layer True (take h f)"
  have L: "length ?H = h" "2 \<le> h" "h \<le> length f" using p by simp_all
  define z where "z n = (replicate n 0 :: bytes)" for n
  note run = assms(1) [unfolded ew_prepare_seal_def hd sum.case prod.case Let_def, folded ew_aux_length_def ew_control_def, folded z_def]
  have run': "\<not> ew_flagged layer f" "zk_counter k \<noteq> 0xffffffff" "\<not> (layer \<noteq> 0 \<and> t \<noteq> 1 \<and> zk_key_identifier k \<noteq> 0)"
    "h + ?a + (length f - h) + 4 \<le> (if layer \<noteq> 0 then 108 else 116)"
    using run by (simp_all split: if_splits)
  have le: "h + ?a + (length f - h) + 4 \<le> 116" using run'(4) by (simp split: if_splits)
  have a: "13 \<le> ?a" "?a \<le> 14" by (simp_all add: ew_aux_length_def)
  have d: "drop i (z n) = z (n - i)" for i n by (simp add: z_def)
  have w0: "store_at 0 (take h f) (z 116) = take h f @ z (116 - h)" using L by (simp add: store_at_def d)
  have w1: "(if layer \<noteq> 0 then (take h f @ z (116 - h))[0 := (take h f @ z (116 - h)) ! 0 OR APS_FLAG_SECURITY]
      else (take h f @ z (116 - h))[1 := (take h f @ z (116 - h)) ! 1 OR 2]) = ?H @ z (116 - h)"
    using L or_flag [of _ 2] or_flag [of _ 32] by (simp add: list_update_append nth_append security_flag_def)
  have w2: "(?H @ z (116 - h))[h := c] = (?H @ [c]) @ z (115 - h)" for c
    using update_append [of h ?H "z (116 - h)" c] L le d by (simp add: z_def)
  have w3: "store_at (h + 1) (encode32 v) ((?H @ [c]) @ z (115 - h)) = (?H @ [c] @ encode32 v) @ z (111 - h)" for c v
    using store_at_append [of "h + 1" "?H @ [c]" "encode32 v"] L d by simp
  have w4: "store_at (h + 5) (take 8 (zk_source k)) ((?H @ [c] @ encode32 v) @ z (111 - h)) = (?H @ [c] @ encode32 v @ take 8 (zk_source k)) @ z (103 - h)" for c v
    using store_at_append [of "h + 5" "?H @ [c] @ encode32 v" "take 8 (zk_source k)"] L d assms(2) by simp
  have w5: "(if zk_key_identifier k = 1 then ((?H @ [c] @ encode32 (zk_counter k) @ take 8 (zk_source k)) @ z (103 - h))[h + ?a - 1 := zk_key_sequence k]
      else (?H @ [c] @ encode32 (zk_counter k) @ take 8 (zk_source k)) @ z (103 - h)) = (?H @ ew_aux c k) @ z (116 - h - ?a)" for c
    using update_append [of "13 + h" "?H @ [c] @ encode32 (zk_counter k) @ take 8 (zk_source k)" "z (103 - h)" "zk_key_sequence k"] L d assms(2) le
    by (auto simp: ew_aux_def ew_aux_length_def z_def)
  have w6: "store_at (h + ?a) (drop h f) ((?H @ ew_aux c k) @ z (116 - h - ?a)) = ?H @ ew_aux c k @ drop h f @ z (116 - (h + ?a + (length f - h)))" for c
    using store_at_append [of "h + ?a" "?H @ ew_aux c k" "drop h f"] L d length_ew_aux [OF assms(2)] by (simp add: diff_diff_left add.assoc)
  have "m = \<lparr>sm_counter = zk_counter k, sm_source = take 8 (zk_source k), sm_level = 5,
      sm_key_identifier = zk_key_identifier k, sm_key_sequence = (if zk_key_identifier k = 1 then zk_key_sequence k else 0),
      sm_extended_nonce = 1, sm_header_length = h, sm_auxiliary_length = ?a, sm_payload_length = length f - h\<rparr> \<and> ty = t \<and>
      n = h + ?a + (length f - h) + 4 \<and> w = ?H @ ew_aux (ew_control k) k @ drop h f @ z (116 - (h + ?a + (length f - h)))"
    using run run' unfolding w0 w1 w2 w3 w4 w5 w6 by (simp split: if_splits)
  then show ?thesis using hd run' by (auto simp: z_def)
qed

lemma request_ok:
  assumes "ew_key_ok k" "length aad \<le> 132" "length inp \<le> 116" "opening \<longrightarrow> 4 \<le> length inp" "\<not> opening \<longrightarrow> length inp \<le> 112"
  shows "ccm_request_ok opening (zk_key k) (ew_nonce k) aad inp 4 116 (zk_limits k)"
  using assms by (auto simp: ccm_request_ok_def ew_key_ok_def ew_nonce_def)

lemma prepare_error: "ew_header layer f \<noteq> Inl ZIGBEE_SECURITY_OK" "ew_prepare_seal layer k f \<noteq> Inl ZIGBEE_SECURITY_OK"
proof -
  have "ew_read_nwk (Some f) True \<noteq> Inl ZIGBEE_SECURITY_OK" by (auto simp: ew_read_nwk_def Let_def split: sum.splits)
  moreover have "ew_read_aps (Some f) True \<noteq> Inl ZIGBEE_SECURITY_OK" by (auto simp: ew_read_aps_def Let_def split: sum.splits)
  ultimately show h: "ew_header layer f \<noteq> Inl ZIGBEE_SECURITY_OK"
    by (cases "ew_read_nwk (Some f) True"; cases "ew_read_aps (Some f) True") (auto simp: ew_header_def)
  then show "ew_prepare_seal layer k f \<noteq> Inl ZIGBEE_SECURITY_OK"
    unfolding ew_prepare_seal_def Let_def by (cases "ew_header layer f") (simp_all split: prod.splits if_split)
qed

lemma ccm_status_error: "zs_ccm_status c \<noteq> ZIGBEE_SECURITY_OK"
  by (simp add: zs_ccm_status_def)

text \<open>What the admitted frames have in common.\<close>

definition ew_admitted :: "u8 \<Rightarrow> zigbee_security_key \<Rightarrow> nat \<Rightarrow> u8 \<Rightarrow> bytes \<Rightarrow> bool" where
  "ew_admitted layer k h ty f \<longleftrightarrow> ew_header layer f = Inr (h, ty) \<and> \<not> ew_flagged layer f \<and> layer \<le> 1 \<and> zk_level k = 5 \<and> zk_extended_nonce k = 1 \<and>
     (if layer = 0 then zk_key_identifier k = 1 else zk_key_identifier k \<noteq> 1 \<and> zk_key_identifier k \<le> 3 \<and> (ty \<noteq> 1 \<longrightarrow> zk_key_identifier k = 0)) \<and>
     zk_counter k \<noteq> 0xffffffff \<and> (layer \<noteq> 0 \<longrightarrow> \<not> (ty = 1 \<and> length f = h) \<and> \<not> (ty = 2 \<and> length f \<noteq> h)) \<and>
     length f + ew_aux_length k + 4 \<le> (if layer \<noteq> 0 then 108 else 116)"

lemma seal_wire:
  assumes c: "aes_correct aes E" and ok: "ew_key_ok k"
    and run: "ed_wire_crypt aes 0 layer (Some k) (Some f) True cap True hw = (ZIGBEE_SECURITY_OK, out, info, hw')"
  shows "\<exists>h ty. ew_admitted layer k h ty f \<and> out = ew_sealed E layer k h f"
proof -
  obtain m ty n w where pr: "ew_prepare_seal layer k f = Inr (m, ty, n, w)" and cr: "ew_crypt aes False layer k cap (m, ty, n, w) hw = (ZIGBEE_SECURITY_OK, out, info, hw')"
    and g: "layer \<le> 1" "zk_level k = 5" "zk_extended_nonce k = 1" "if layer = 0 then zk_key_identifier k = 1 else zk_key_identifier k \<noteq> 1 \<and> zk_key_identifier k \<le> 3"
    using run prepare_error(2) [of layer k f] by (cases "ew_prepare_seal layer k f") (auto simp: ed_wire_crypt_def not_less split: if_splits)
  have sl: "length (zk_source k) = 8" using ok by (simp add: ew_key_ok_def)
  obtain h where h: "ew_header layer f = Inr (h, ty)" "\<not> ew_flagged layer f" "zk_counter k \<noteq> 0xffffffff" "layer \<noteq> 0 \<and> ty \<noteq> 1 \<longrightarrow> zk_key_identifier k = 0"
    "sm_header_length m = h" "sm_auxiliary_length m = ew_aux_length k" "sm_payload_length m = length f - h" "n = h + ew_aux_length k + (length f - h) + 4"
    "n \<le> (if layer \<noteq> 0 then 108 else 116)"
    "w = security_flag layer True (take h f) @ ew_aux (ew_control k) k @ drop h f @ replicate (116 - (h + ew_aux_length k + (length f - h))) 0"
    using prepare_seal [OF pr sl] by blast
  note p = header_prefix [OF h(1), of "[]"]
  let ?H = "security_flag layer True (take h f)" and ?a = "ew_aux_length k" and ?A = "\<lambda>c. ew_aux c k"
  have hl: "h \<le> length f" using p by blast
  have L: "length ?H = h" "length (?A c) = ?a" for c using p length_ew_aux [OF sl] by simp_all
  have le: "h + ?a + (length f - h) + 4 \<le> 116" using h(8,9) by (simp split: if_splits)
  have aad: "take (h + ?a) w = ?H @ ?A (ew_control k)" unfolding h(10) using L by simp
  have body: "take (length f - h) (drop (h + ?a) w) = drop h f" unfolding h(10) using L by simp
  have nonce: "take 8 (zk_source k) @ take 4 (drop (h + 1) w) @ [w ! h] = ew_nonce k"
    unfolding h(10) using L by (simp add: ew_nonce_def ew_aux_def nth_append)
  obtain r plain i m' where cs: "ccm_star_crypt aes 0 (Some (zk_key k)) (Some (ew_nonce k)) (Some (?H @ ?A (ew_control k))) (h + ?a) (Some (drop h f)) (length f - h) 4 True 116 True
      (Some (zk_limits k)) True hw = (r, plain, i, m')" using prod_cases4 by blast
  have run2: "\<not> (layer \<noteq> 0 \<and> (ty = 1 \<and> length f - h = 0 \<or> ty = 2 \<and> length f - h \<noteq> 0))" "r = CCM_STAR_OK"
    "out = take n (ew_finish False layer h ?a (length f - h) plain w)"
    using cr [unfolded ew_crypt_def prod.case Let_def h(5-7) if_False add_0_right nonce aad body cs] ccm_status_error by (auto split: if_splits)
  have "ccm_request_ok False (zk_key k) (ew_nonce k) (?H @ ?A (ew_control k)) (drop h f) 4 116 (zk_limits k)"
    using le L p by (intro request_ok [OF ok]) auto
  moreover have "length (?H @ ?A (ew_control k)) = h + ?a" "length (drop h f) = length f - h" using L by simp_all
  ultimately have plain: "plain = ccm_seal E (zk_key k) (ew_nonce k) (?H @ ?A (ew_control k)) 4 (drop h f)"
    using ccm_star_crypt_spec [OF c, of 0 "zk_key k" "ew_nonce k" "?H @ ?A (ew_control k)" "drop h f" 4 116 "zk_limits k" hw r plain i m'] cs run2(2) by simp
  have "length plain = length f - h + 4" unfolding plain using c by (simp add: ccm_seal_def aes_correct_def)
  moreover have "store_at (h + ?a) plain w = ?H @ ?A (ew_control k) @ plain @ drop (length plain) (drop h f @ replicate (116 - (h + ?a + (length f - h))) 0)"
    unfolding h(10) using store_at_append [of "h + ?a" "?H @ ?A (ew_control k)" plain] L by simp
  ultimately have "out = ew_sealed E layer k h f"
    using L hl h(8) unfolding run2(3) ew_finish_def ew_sealed_def Let_def plain [symmetric] by (simp add: aux_octet)
  moreover have "ew_admitted layer k h ty f" using g h run2(1) p by (auto simp: ew_admitted_def split: if_splits)
  ultimately show ?thesis by blast
qed

section \<open>Opening\<close>

lemma control_facts:
  assumes "zk_key_identifier k \<le> 3"
  shows "drop_bit 3 (ew_control k AND 0xf8) AND 3 = zk_key_identifier k" "(ew_control k AND 0xf8) AND 0x20 \<noteq> 0" "(ew_control k AND 0xf8) AND 0xc0 = 0"
    "((ew_control k AND 0xf8) AND 0xf8) OR 5 = ew_control k" "drop_bit 5 (ew_control k AND 0xf8) AND 1 = 1"
  using word_le_cases(2) [OF assms] unfolding ew_control_def by (elim disjE; simp)+

lemma inspect_sealed:
  assumes c: "aes_correct aes E" and ok: "ew_key_ok k" and ad: "ew_admitted layer k h ty f"
  shows "ew_inspect layer (ew_sealed E layer k h f) = Inr (\<lparr>sm_counter = zk_counter k, sm_source = zk_source k, sm_level = 5,
      sm_key_identifier = zk_key_identifier k, sm_key_sequence = (if zk_key_identifier k = 1 then zk_key_sequence k else 0), sm_extended_nonce = 1,
      sm_header_length = h, sm_auxiliary_length = ew_aux_length k, sm_payload_length = length f - h\<rparr>, ty) \<and>
    length (ew_sealed E layer k h f) = length f + ew_aux_length k + 4 \<and> h \<le> length f"
proof -
  let ?S = "ew_sealed E layer k h f" and ?H = "security_flag layer True (take h f)" and ?a = "ew_aux_length k" and ?c = "ew_control k AND 0xf8"
  have hd: "ew_header layer f = Inr (h, ty)" using ad by (simp add: ew_admitted_def)
  note p = header_prefix [OF hd]
  have sl: "length (zk_source k) = 8" using ok by (simp add: ew_key_ok_def)
  have hl: "2 \<le> h" "h \<le> length f" "layer \<le> 1" using p by blast+
  have L: "length ?H = h" "length (ew_aux x k) = ?a" for x using hl length_ew_aux [OF sl] by simp_all
  have k3: "zk_key_identifier k \<le> 3" using ad by (auto simp: ew_admitted_def split: if_splits)
  obtain q where q: "?S = ?H @ ew_aux ?c k @ q" "length q = length f - h + 4"
    using c by (simp add: ew_sealed_def Let_def ccm_seal_def aes_correct_def)
  have len: "length ?S = length f + ?a + 4" using q L hl by simp
  have "take h ?S = ?H" unfolding q(1) using L by simp
  then have hS: "ew_header layer ?S = Inr (h, ty)" using p [of ?S] len hl ad by (auto simp: ew_admitted_def split: if_splits)
  have "?S ! flag_index layer = ?H ! flag_index layer" unfolding q(1) using L(1) hl(1) by (simp add: nth_append)
  then have fl: "ew_flagged layer ?S"
    using security_flag_true_present [of "take h f" layer] flag_present [of layer ?S] hl by (simp add: ew_flagged_def split: if_splits)
  have o: "?S ! h = ?c" "decode32 (drop (h + 1) ?S) = zk_counter k" "take 8 (drop (h + 5) ?S) = zk_source k" "zk_key_identifier k = 1 \<longrightarrow> ?S ! (13 + h) = zk_key_sequence k"
    unfolding q(1) using L(1) sl by (simp_all add: nth_append ew_aux_def)
  have a: "5 + 8 + (if zk_key_identifier k = 1 then 1 else 0) = ?a" by (simp add: ew_aux_length_def)
  have sel: "zk_counter k \<noteq> 0xffffffff" "\<not> (layer = 0 \<and> zk_key_identifier k \<noteq> 1)" "\<not> (layer \<noteq> 0 \<and> (zk_key_identifier k = 1 \<or> ty \<noteq> 1 \<and> zk_key_identifier k \<noteq> 0))"
    using ad by (auto simp: ew_admitted_def split: if_splits)
  have "ew_inspect layer ?S = Inr (\<lparr>sm_counter = zk_counter k, sm_source = zk_source k, sm_level = 5,
      sm_key_identifier = zk_key_identifier k, sm_key_sequence = (if zk_key_identifier k = 1 then zk_key_sequence k else 0), sm_extended_nonce = 1,
      sm_header_length = h, sm_auxiliary_length = ?a, sm_payload_length = length f - h\<rparr>, ty)"
    unfolding ew_inspect_def hS sum.case prod.case Let_def o(1) control_facts [OF k3] using fl len hl o(2-4) a sel control_facts [OF k3]
    by (simp add: ew_aux_length_def split: if_splits)
  with len hl show ?thesis by blast
qed

lemma open_wire:
  assumes c: "aes_correct aes E" and ok: "ew_key_ok k" and lim: "ew_key_ok k'" and ad: "ew_admitted layer k h ty f"
    and k': "k' = k\<lparr>zk_counter := v, zk_limits := l\<rparr>" and cap: "length f \<le> cap"
    and run: "ed_wire_crypt aes 1 layer (Some k') (Some (ew_sealed E layer k h f)) True cap True hw = (r, out, info, hw')"
  shows "(r = ZIGBEE_SECURITY_AES \<or> r = ZIGBEE_SECURITY_OK \<and> out = f) \<and>
    (aes_live aes ready (block_timeout l) (block_polls l) \<and> ready hw \<longrightarrow> r = ZIGBEE_SECURITY_OK)"
proof -
  let ?S = "ew_sealed E layer k h f" and ?H = "security_flag layer True (take h f)" and ?a = "ew_aux_length k" and ?p = "length f - h"
  let ?A = "ew_aux (ew_control k) k" and ?q = "ccm_seal E (zk_key k) (ew_nonce k) (?H @ ew_aux (ew_control k) k) 4 (drop h f)"
  define m where "m = \<lparr>sm_counter = zk_counter k, sm_source = zk_source k, sm_level = 5,
      sm_key_identifier = zk_key_identifier k, sm_key_sequence = (if zk_key_identifier k = 1 then zk_key_sequence k else 0), sm_extended_nonce = 1,
      sm_header_length = h, sm_auxiliary_length = ?a, sm_payload_length = ?p\<rparr>"
  have i: "ew_inspect layer ?S = Inr (m, ty)" "length ?S = length f + ?a + 4" "h \<le> length f" using inspect_sealed [OF c ok ad] by (simp_all add: m_def)
  have hd: "ew_header layer f = Inr (h, ty)" using ad by (simp add: ew_admitted_def)
  have h2: "2 \<le> h" using header_prefix [OF hd] by blast
  have sl: "length (zk_source k) = 8" using ok by (simp add: ew_key_ok_def)
  have L: "length ?H = h" "length (ew_aux x k) = ?a" "length ?q = ?p + 4" for x
    using i(3) length_ew_aux [OF sl] c by (simp_all add: ccm_seal_def aes_correct_def)
  have k3: "zk_key_identifier k \<le> 3" using ad by (auto simp: ew_admitted_def split: if_splits)
  have le: "length f + ?a + 4 \<le> 116" using ad by (auto simp: ew_admitted_def split: if_splits)
  define w where "w = ?H @ ?A @ ?q @ replicate (116 - (length f + ?a + 4)) (0 :: u8)"
  have S: "?S = ?H @ ew_aux (ew_control k AND 0xf8) k @ ?q" by (simp add: ew_sealed_def Let_def)
  have st: "store_at 0 ?S (replicate 116 0) = ?H @ ew_aux (ew_control k AND 0xf8) k @ ?q @ replicate (116 - (length f + ?a + 4)) 0"
    unfolding store_at_def i(2) by (simp add: S)
  have pr: "ew_prepare_open layer k' ?S = Inr (m, ty, h + ?p, w)"
    unfolding ew_prepare_open_def i(1) sum.case prod.case Let_def m_def zigbee_security_meta.simps st aux_octet(1) [OF L(1) [symmetric]] control_facts(4) [OF k3]
      aux_octet(2) [OF L(1) [symmetric]] w_def
    using sl by (simp add: k')
  have aad: "take (h + ?a) w = ?H @ ?A" unfolding w_def using L by simp
  have body: "take (?p + 4) (drop (h + ?a) w) = ?q" unfolding w_def using L by simp
  have nonce: "take 8 (zk_source k') @ take 4 (drop (h + 1) w) @ [w ! h] = ew_nonce k"
    unfolding w_def using L(1) by (simp add: ew_nonce_def ew_aux_def nth_append k')
  obtain cr plain ci m1 where cs: "ccm_star_crypt aes 1 (Some (zk_key k)) (Some (ew_nonce k)) (Some (?H @ ?A)) (h + ?a) (Some ?q) (?p + 4) 4 True 116 True
      (Some l) True hw = (cr, plain, ci, m1)" using prod_cases4 by blast
  have nl: "length (ew_nonce k) = 13" "length (?H @ ?A) = h + ?a" using sl L by (simp_all add: ew_nonce_def)
  have rq: "ccm_request_ok ((1 :: u8) \<noteq> 0) (zk_key k) (ew_nonce k) (?H @ ?A) ?q 4 116 l"
    using lim le L(3) i(3) nl by (auto simp: ccm_request_ok_def ew_key_ok_def k')
  have cs': "ccm_star_crypt aes 1 (Some (zk_key k)) (Some (ew_nonce k)) (Some (?H @ ?A)) (length (?H @ ?A)) (Some ?q) (length ?q) 4 True 116 True
      (Some l) True hw = (cr, plain, ci, m1)" unfolding nl(2) L(3) by (rule cs)
  have "ccm_open E (zk_key k) (ew_nonce k) (?H @ ?A) 4 ?q = Some (drop h f)" using c by (intro ccm_open_seal) (simp_all add: aes_correct_def)
  with ccm_star_crypt_spec [OF c rq _ cs', of ready] have ccm: "cr = CCM_STAR_AES \<or> cr = CCM_STAR_OK \<and> plain = drop h f"
    "aes_live aes ready (block_timeout l) (block_polls l) \<and> ready hw \<longrightarrow> cr \<noteq> CCM_STAR_AES" by auto
  have tyc: "\<not> (layer \<noteq> 0 \<and> (ty = 1 \<and> ?p = 0 \<or> ty = 2 \<and> ?p \<noteq> 0))" using ad i(3) by (auto simp: ew_admitted_def)
  have cr: "ew_crypt aes True layer k' cap (m, ty, h + ?p, w) hw =
      (if cr \<noteq> CCM_STAR_OK then (zs_ccm_status cr, [], None, m1)
       else (ZIGBEE_SECURITY_OK, take (h + ?p) (ew_finish True layer h ?a ?p plain w), map_option (Pair m) ci, m1))"
    using tyc cap i(3) nonce aad body cs unfolding ew_crypt_def prod.case Let_def m_def zigbee_security_meta.simps if_True by (auto simp: k')
  have nf: "f ! flag_index layer AND flag_bit layer = 0"
    using ad by (auto simp: ew_admitted_def ew_flagged_def flag_index_def flag_bit_def split: if_splits)
  have fin: "take (h + ?p) (ew_finish True layer h ?a ?p (drop h f) w) = f"
  proof -
    have "(if layer \<noteq> 0 then w[0 := w ! 0 AND NOT APS_FLAG_SECURITY] else w[1 := w ! 1 AND NOT 2]) = security_flag layer False w"
      by (simp add: security_flag_def)
    also have "\<dots> = security_flag layer False ?H @ ?A @ ?q @ replicate (116 - (length f + ?a + 4)) 0" unfolding w_def using L(1) h2 by simp
    also have "security_flag layer False ?H = take h f"
      using nf h2 i(3) by (simp add: security_flag_clear)
    finally show ?thesis unfolding ew_finish_def Let_def using i(3) by (simp add: store_at_append)
  qed
  have g: "ed_wire_crypt aes 1 layer (Some k') (Some ?S) True cap True hw = ew_crypt aes True layer k' cap (m, ty, h + ?p, w) hw"
    using pr ad by (auto simp: ed_wire_crypt_def ew_admitted_def k' not_less split: if_splits)
  show ?thesis using run ccm unfolding g cr by (auto simp: fin zs_ccm_status_def split: if_splits)
qed

lemma mix_wire_seals: "\<exists>out info. ed_wire_crypt mix_engine 0 0 (Some mix_key) (Some clear_nwk) True 116 True () = (ZIGBEE_SECURITY_OK, out, info, ())"
proof -
  have "(case ew_prepare_seal 0 mix_key clear_nwk of Inl _ \<Rightarrow> False | Inr (m, ty, n, w) \<Rightarrow> sm_header_length m = 8 \<and> sm_auxiliary_length m = 14 \<and>
      sm_payload_length m = 4 \<and> n = 30 \<and> ty = 0 \<and> length w = 116)" by code_simp
  then obtain m w where pr: "ew_prepare_seal 0 mix_key clear_nwk = Inr (m, 0, 30, w)" and m: "sm_header_length m = 8" "sm_auxiliary_length m = 14"
    "sm_payload_length m = 4" and lw: "length w = 116" by (auto split: sum.splits)
  let ?nonce = "take 8 (zk_source mix_key) @ take 4 (drop 9 w) @ [w ! 8]" and ?aad = "take 22 w" and ?inp = "take 4 (drop 22 w)"
  have l: "length ?aad = 22" "length ?inp = 4" using lw by simp_all
  obtain r out i u where cs: "ccm_star_crypt mix_engine 0 (Some (zk_key mix_key)) (Some ?nonce) (Some ?aad) (length ?aad) (Some ?inp) (length ?inp) 4 True 116 True
      (Some mix_limits) True () = (r, out, i, u)" using prod_cases4 by blast
  have "ccm_request_ok False (zk_key mix_key) ?nonce ?aad ?inp 4 116 mix_limits" using l lw by (simp add: ccm_request_ok_def mix_key_def mix_limits_def)
  then have "r = CCM_STAR_OK" using ccm_star_crypt_spec [OF mix_correct _ _ cs, of "\<lambda>_. True"] mix_live by simp
  with cs [unfolded l] have "ew_crypt mix_engine False 0 mix_key 116 (m, 0, 30, w) () = (ZIGBEE_SECURITY_OK, take 30 (ew_finish False 0 8 14 4 out w), map_option (Pair m) i, ())"
    unfolding ew_crypt_def prod.case Let_def m by (simp add: mix_key_def)
  then show ?thesis using pr by (simp add: ed_wire_crypt_def mix_key_def)
qed

text \<open>C36. A frame that the end device seals opens to itself: with the same key, source and selectors, whatever counter
  and limits the receiver's key structure holds, opening the sealed frame yields the original octets
  unless the AES engine fails, and on a working engine it succeeds.\<close>

theorem ed_wire_roundtrip:
  assumes "aes_correct aes E" and "ew_key_ok k" and "ew_key_ok (k\<lparr>zk_counter := v, zk_limits := l\<rparr>)"
    and "ed_wire_crypt aes 0 layer (Some k) (Some f) True cap True hw = (ZIGBEE_SECURITY_OK, sealed, info, hw')"
    and "ed_wire_crypt aes 1 layer (Some (k\<lparr>zk_counter := v, zk_limits := l\<rparr>)) (Some sealed) True cap' True n = (r, out, info', n')"
    and "length f \<le> cap'"
  shows "(r = ZIGBEE_SECURITY_AES \<or> r = ZIGBEE_SECURITY_OK \<and> out = f) \<and>
    (aes_live aes ready (block_timeout l) (block_polls l) \<and> ready n \<longrightarrow> r = ZIGBEE_SECURITY_OK)"
proof -
  obtain h ty where s: "ew_admitted layer k h ty f" "sealed = ew_sealed E layer k h f" using seal_wire [OF assms(1,2,4)] by blast
  show ?thesis by (rule open_wire [OF assms(1-3) s(1) refl assms(6) assms(5) [unfolded s(2)]])
qed

theorem ed_wire_roundtrip_witness:
  "\<exists>sealed info. ed_wire_crypt mix_engine 0 0 (Some mix_key) (Some clear_nwk) True 116 True () = (ZIGBEE_SECURITY_OK, sealed, info, ()) \<and>
     fst (ed_wire_crypt mix_engine 1 0 (Some (mix_key\<lparr>zk_counter := 0, zk_limits := mix_limits\<rparr>)) (Some sealed) True 116 True ()) = ZIGBEE_SECURITY_OK \<and>
     fst (snd (ed_wire_crypt mix_engine 1 0 (Some (mix_key\<lparr>zk_counter := 0, zk_limits := mix_limits\<rparr>)) (Some sealed) True 116 True ())) = clear_nwk"
proof -
  obtain sealed info where s: "ed_wire_crypt mix_engine 0 0 (Some mix_key) (Some clear_nwk) True 116 True () = (ZIGBEE_SECURITY_OK, sealed, info, ())"
    using mix_wire_seals by blast
  obtain r out i u where o: "ed_wire_crypt mix_engine 1 0 (Some (mix_key\<lparr>zk_counter := 0, zk_limits := mix_limits\<rparr>)) (Some sealed) True 116 True () = (r, out, i, u)"
    using prod_cases4 by blast
  have "ew_key_ok mix_key" "ew_key_ok (mix_key\<lparr>zk_counter := 0, zk_limits := mix_limits\<rparr>)" "length clear_nwk \<le> 116"
    by (simp_all add: ew_key_ok_def mix_key_def mix_limits_def clear_nwk_def)
  from ed_wire_roundtrip [OF mix_correct this(1,2) s o this(3), of "\<lambda>_. True"] mix_live have "r = ZIGBEE_SECURITY_OK \<and> out = clear_nwk" by auto
  with s o show ?thesis by (intro exI [of _ sealed] exI [of _ info]) simp
qed

end
