(* ===== verification/Security_Keys.thy ===== *)
theory Security_Keys
  imports Ed_Wire Zigbee_Mmo Security_Counter
begin

text \<open>
  The key store of the end device (\<open>src/src/security_keys.c\<close>): one 112-octet record with identities,
  network keys, link keys, replay floors and the commissioning phase, kept as the payload of the
  durable frame counters. The counter module is the argument \<open>ops\<close> of the operations and the AES
  service the argument \<open>aes\<close>. The private work area \<open>w\<close> is zero between calls; its members are
  arguments and results of the functions below.
\<close>

section \<open>Services and state\<close>

record 'c counter_ops =
  co_open :: "'c \<Rightarrow> security_counter_result \<times> 'c"
  co_create :: "u32 \<Rightarrow> u32 \<Rightarrow> bytes \<Rightarrow> u16 \<Rightarrow> 'c \<Rightarrow> security_counter_result \<times> 'c"
  co_restage :: "bytes \<Rightarrow> 'c \<Rightarrow> security_counter_result \<times> 'c"
  co_take :: "nat \<Rightarrow> u16 \<Rightarrow> 'c \<Rightarrow> security_counter_result \<times> u32 option \<times> 'c"
  co_save :: "bytes \<Rightarrow> u16 \<Rightarrow> 'c \<Rightarrow> security_counter_result \<times> 'c"
  co_read :: "'c \<Rightarrow> security_counter_result \<times> (bytes \<times> u8) option \<times> 'c"

text \<open>The counter module with the addresses of \<open>w.record\<close>, \<open>w.size\<close> and \<open>w.counter\<close>.\<close>

definition counter_services :: "counter_config \<Rightarrow> 'n store_ops \<Rightarrow> u16 \<Rightarrow> u16 \<Rightarrow> u16 \<Rightarrow> 'n counter_state counter_ops" where
  "counter_services cfg sops arecord asize acounter =
     \<lparr>co_open = security_counter_open cfg sops,
      co_create = (\<lambda>nwk_floor aps_floor data polls. security_counter_create cfg nwk_floor aps_floor (Some (arecord, data)) 112 polls),
      co_restage = (\<lambda>data. security_counter_restage cfg (Some (arecord, data)) 112),
      co_take = (\<lambda>domain polls. security_counter_take cfg sops domain (Some acounter) polls),
      co_save = (\<lambda>data polls. security_counter_save cfg sops (Some (arecord, data)) 112 polls),
      co_read = security_counter_read cfg (Some arecord) 112 (Some asize)\<rparr>"

datatype security_keys_result =
    SECURITY_KEYS_OK | SECURITY_KEYS_EMPTY | SECURITY_KEYS_ARGUMENT | SECURITY_KEYS_STATE | SECURITY_KEYS_FORMAT
  | SECURITY_KEYS_STORAGE | SECURITY_KEYS_CRYPTO | SECURITY_KEYS_AUTH | SECURITY_KEYS_REPLAY | SECURITY_KEYS_IDENTITY
  | SECURITY_KEYS_SELECTOR | SECURITY_KEYS_CONTEXT | SECURITY_KEYS_UNSUPPORTED | SECURITY_KEYS_SPACE | SECURITY_KEYS_EXHAUSTED

abbreviation (input) SECURITY_KEYS_COLD :: u8 where "SECURITY_KEYS_COLD \<equiv> 0"
abbreviation (input) SECURITY_KEYS_UNPROVISIONED :: u8 where "SECURITY_KEYS_UNPROVISIONED \<equiv> 1"
abbreviation (input) SECURITY_KEYS_PROVISIONED :: u8 where "SECURITY_KEYS_PROVISIONED \<equiv> 2"
abbreviation (input) SECURITY_KEYS_ASSOCIATED :: u8 where "SECURITY_KEYS_ASSOCIATED \<equiv> 3"
abbreviation (input) SECURITY_KEYS_RECEIVED :: u8 where "SECURITY_KEYS_RECEIVED \<equiv> 4"
abbreviation (input) SECURITY_KEYS_REQUESTED :: u8 where "SECURITY_KEYS_REQUESTED \<equiv> 5"
abbreviation (input) SECURITY_KEYS_PROVISIONAL :: u8 where "SECURITY_KEYS_PROVISIONAL \<equiv> 6"
abbreviation (input) SECURITY_KEYS_WAIT_CONFIRM :: u8 where "SECURITY_KEYS_WAIT_CONFIRM \<equiv> 7"
abbreviation (input) SECURITY_KEYS_VERIFIED :: u8 where "SECURITY_KEYS_VERIFIED \<equiv> 8"
abbreviation (input) SECURITY_KEYS_LEFT :: u8 where "SECURITY_KEYS_LEFT \<equiv> 9"
abbreviation (input) SECURITY_KEYS_REJOINING :: u8 where "SECURITY_KEYS_REJOINING \<equiv> 10"
abbreviation (input) SECURITY_KEYS_FAILED :: u8 where "SECURITY_KEYS_FAILED \<equiv> 11"

abbreviation (input) SECURITY_KEYS_EVENT_DATA :: u8 where "SECURITY_KEYS_EVENT_DATA \<equiv> 0"
abbreviation (input) SECURITY_KEYS_EVENT_MANAGEMENT :: u8 where "SECURITY_KEYS_EVENT_MANAGEMENT \<equiv> 1"
abbreviation (input) SECURITY_KEYS_EVENT_NETWORK_KEY :: u8 where "SECURITY_KEYS_EVENT_NETWORK_KEY \<equiv> 2"
abbreviation (input) SECURITY_KEYS_EVENT_TC_KEY :: u8 where "SECURITY_KEYS_EVENT_TC_KEY \<equiv> 3"
abbreviation (input) SECURITY_KEYS_EVENT_VERIFIED :: u8 where "SECURITY_KEYS_EVENT_VERIFIED \<equiv> 4"
abbreviation (input) SECURITY_KEYS_EVENT_SWITCH :: u8 where "SECURITY_KEYS_EVENT_SWITCH \<equiv> 5"
abbreviation (input) SECURITY_KEYS_EVENT_UPDATE :: u8 where "SECURITY_KEYS_EVENT_UPDATE \<equiv> 6"
abbreviation (input) SECURITY_KEYS_EVENT_LEAVE :: u8 where "SECURITY_KEYS_EVENT_LEAVE \<equiv> 7"
abbreviation (input) SECURITY_KEYS_EVENT_REJOINED :: u8 where "SECURITY_KEYS_EVENT_REJOINED \<equiv> 8"
abbreviation (input) SECURITY_KEYS_EVENT_REJOIN_REFUSED :: u8 where "SECURITY_KEYS_EVENT_REJOIN_REFUSED \<equiv> 9"
abbreviation (input) SECURITY_KEYS_EVENT_APS_SECURED :: u8 where "SECURITY_KEYS_EVENT_APS_SECURED \<equiv> 0x80"

record security_keys_config =
  skc_own_ieee :: bytes
  skc_tc_ieee :: bytes
  skc_extended_pan :: bytes
  skc_pan :: u16
  skc_address :: u16
  skc_channel :: u8
  skc_update_id :: u8

record security_keys_status_t =
  sks_config :: security_keys_config
  sks_phase :: u8
  sks_active_sequence :: u8
  sks_slot_valid :: u8
  sks_newer_pending :: bool
  sks_parent_information :: u8
  sks_timeout_pending :: bool
  sks_result :: security_keys_result

record ('c, 'm) sk_state =
  sk_phase :: u8
  sk_result :: security_keys_result
  sk_floor_cache :: bytes
  sk_phase_cache :: u8
  sk_counter :: 'c
  sk_hw :: 'm

section \<open>The record\<close>

abbreviation (input) K_OWN :: nat where "K_OWN \<equiv> 0"
abbreviation (input) K_TC :: nat where "K_TC \<equiv> 8"
abbreviation (input) K_NK :: nat where "K_NK \<equiv> 16"
abbreviation (input) K_LK :: nat where "K_LK \<equiv> 48"
abbreviation (input) K_PK :: nat where "K_PK \<equiv> 64"
abbreviation (input) K_NF :: nat where "K_NF \<equiv> 80"
abbreviation (input) K_AF :: nat where "K_AF \<equiv> 88"
abbreviation (input) K_EP :: nat where "K_EP \<equiv> 92"
abbreviation (input) K_PAN :: nat where "K_PAN \<equiv> 100"
abbreviation (input) K_ADDR :: nat where "K_ADDR \<equiv> 102"
abbreviation (input) K_CHANNEL :: nat where "K_CHANNEL \<equiv> 104"
abbreviation (input) K_UPDATE :: nat where "K_UPDATE \<equiv> 105"
abbreviation (input) K_SEQ :: nat where "K_SEQ \<equiv> 106"
abbreviation (input) K_FLAGS :: nat where "K_FLAGS \<equiv> 108"
abbreviation (input) K_PHASE :: nat where "K_PHASE \<equiv> 109"
abbreviation (input) K_MAGIC :: nat where "K_MAGIC \<equiv> 110"

abbreviation (input) KF_ACTIVE :: u8 where "KF_ACTIVE \<equiv> 4"
abbreviation (input) KF_NEWER :: u8 where "KF_NEWER \<equiv> 8"
abbreviation (input) KF_RETIRED :: u8 where "KF_RETIRED \<equiv> 16"
abbreviation (input) KF_VERIFIED :: u8 where "KF_VERIFIED \<equiv> 32"
abbreviation (input) KF_REJOIN :: u8 where "KF_REJOIN \<equiv> 64"
abbreviation (input) PHASE_MASK :: u8 where "PHASE_MASK \<equiv> 0x0f"
abbreviation (input) PARENT_MASK :: u8 where "PARENT_MASK \<equiv> 0x70"
abbreviation (input) TIMEOUT_PENDING :: u8 where "TIMEOUT_PENDING \<equiv> 0x80"
abbreviation (input) BOTH_IEEE :: u16 where "BOTH_IEEE \<equiv> 0x1800"

text \<open>The comparison loops accumulate the differences, so their time does not depend on the data.\<close>

definition sk_same :: "bytes \<Rightarrow> bytes \<Rightarrow> nat \<Rightarrow> bool" where
  "sk_same a b n \<longleftrightarrow> foldl (\<lambda>d i. d OR (a ! i XOR b ! i)) 0 [0..<n] = 0"

definition sk_all :: "bytes \<Rightarrow> nat \<Rightarrow> u8 \<Rightarrow> bool" where
  "sk_all p n v \<longleftrightarrow> foldl (\<lambda>d i. d OR (p ! i XOR v)) 0 [0..<n] = 0"

definition sk_identity :: "bytes \<Rightarrow> bool" where
  "sk_identity p \<longleftrightarrow> \<not> sk_all p 8 0 \<and> \<not> sk_all p 8 255"

definition active_slot :: "bytes \<Rightarrow> nat" where
  "active_slot record = (if record ! K_FLAGS AND KF_ACTIVE \<noteq> 0 then 1 else 0)"

definition sk_network :: "bytes \<Rightarrow> bool" where
  "sk_network record \<longleftrightarrow> record ! K_FLAGS AND 3 \<noteq> 0"

definition sk_verified :: "bytes \<Rightarrow> bool" where
  "sk_verified record \<longleftrightarrow> record ! K_FLAGS AND KF_VERIFIED \<noteq> 0"

definition phase_of :: "bytes \<Rightarrow> u8" where
  "phase_of record = record ! K_PHASE AND PHASE_MASK"

definition parent_information :: "bytes \<Rightarrow> u8" where
  "parent_information record = drop_bit 4 (record ! K_PHASE) AND 7"

definition slot_bit :: "nat \<Rightarrow> u8" where
  "slot_bit i = push_bit i 1"

definition set_phase :: "u8 \<Rightarrow> bytes \<Rightarrow> bytes" where
  "set_phase value record =
     (if value \<le> SECURITY_KEYS_ASSOCIATED then record[K_PHASE := value]
      else let p0 = (record ! K_PHASE AND NOT PHASE_MASK) OR value;
               p1 = (if value = SECURITY_KEYS_REJOINING then p0 AND NOT PARENT_MASK else p0);
               p2 = (if value = SECURITY_KEYS_LEFT \<or> value = SECURITY_KEYS_REJOINING then p1 AND NOT TIMEOUT_PENDING else p1)
           in record[K_PHASE := p2])"

definition valid_config :: "bytes \<Rightarrow> bool" where
  "valid_config record \<longleftrightarrow>
     (let address = read_le16 (drop K_ADDR record) in
      sk_identity (drop K_OWN record) \<and> sk_identity (drop K_TC record) \<and> \<not> sk_same (drop K_OWN record) (drop K_TC record) 8 \<and>
      sk_identity (drop K_EP record) \<and> read_le16 (drop K_PAN record) \<noteq> 0xffff \<and> address \<noteq> 0 \<and>
      (address < 0xfff8 \<or> address = 0xffff) \<and> record ! K_CHANNEL \<ge> 11 \<and> record ! K_CHANNEL \<le> 26)"

text \<open>The network-key part of the check, before and after a network key was admitted.\<close>

definition valid_no_network :: "bytes \<Rightarrow> bool" where
  "valid_no_network record \<longleftrightarrow> record ! K_FLAGS = 0 \<and> sk_all (drop K_NK record) 32 0 \<and> sk_all (drop K_PK record) 24 0 \<and>
     record ! K_SEQ = 0 \<and> record ! (K_SEQ + 1) = 0 \<and> record ! K_PHASE AND (PARENT_MASK OR TIMEOUT_PENDING) = 0"

definition valid_slot :: "bytes \<Rightarrow> nat \<Rightarrow> bool" where
  "valid_slot record i \<longleftrightarrow>
     (if record ! K_FLAGS AND slot_bit i \<noteq> 0 then
        \<not> sk_all (drop (K_NK + 16 * i) record) 16 0 \<and> \<not> sk_same (drop (K_NK + 16 * i) record) (drop K_LK record) 16 \<and>
        \<not> sk_same (drop (K_NK + 16 * i) record) (drop K_PK record) 16
      else sk_all (drop (K_NK + 16 * i) record) 16 0 \<and> decode32 (drop (K_NF + 4 * i) record) = 0 \<and> record ! (K_SEQ + i) = 0)"

definition valid_slots :: "bytes \<Rightarrow> bool" where
  "valid_slots record \<longleftrightarrow> record ! K_FLAGS AND slot_bit (active_slot record) \<noteq> 0 \<and>
     \<not> (record ! K_FLAGS AND KF_NEWER \<noteq> 0 \<and> record ! K_FLAGS AND 3 \<noteq> 3) \<and>
     \<not> (record ! K_FLAGS AND 3 = 3 \<and> (record ! K_SEQ = record ! (K_SEQ + 1) \<or> sk_same (drop K_NK record) (drop (K_NK + 16) record) 16)) \<and>
     valid_slot record 0 \<and> valid_slot record 1"

text \<open>The link-key part: a pending key, a retired key, or none.\<close>

definition valid_link :: "bytes \<Rightarrow> bool" where
  "valid_link record \<longleftrightarrow>
     (let f = record ! K_FLAGS; p = phase_of record; none = sk_all (drop K_PK record) 16 0;
          twin = sk_same (drop K_PK record) (drop K_LK record) 16 in
      if p = SECURITY_KEYS_PROVISIONAL \<or> p = SECURITY_KEYS_WAIT_CONFIRM \<or> (p = SECURITY_KEYS_LEFT \<and> f AND KF_RETIRED = 0 \<and> \<not> none)
      then f AND KF_RETIRED = 0 \<and> \<not> none \<and> \<not> twin
      else if f AND KF_RETIRED \<noteq> 0 then sk_verified record \<and> \<not> none \<and> \<not> twin
      else none)"

definition valid_record :: "u8 \<Rightarrow> bytes \<Rightarrow> bool" where
  "valid_record sz record \<longleftrightarrow>
     (let f = record ! K_FLAGS; p = phase_of record;
          bare = (p \<le> SECURITY_KEYS_ASSOCIATED \<or> (p = SECURITY_KEYS_LEFT \<and> \<not> sk_network record)) in
      sz = 112 \<and> record ! K_MAGIC = 0x4b \<and> record ! (K_MAGIC + 1) = 2 \<and> valid_config record \<and> f AND 0x80 = 0 \<and>
      p \<ge> SECURITY_KEYS_PROVISIONED \<and> p \<le> SECURITY_KEYS_REJOINING \<and> \<not> sk_all (drop K_LK record) 16 0 \<and>
      (if bare then valid_no_network record else valid_slots record) \<and>
      (p = SECURITY_KEYS_PROVISIONED \<or> (p = SECURITY_KEYS_LEFT \<and> \<not> sk_network record) \<or> read_le16 (drop K_ADDR record) \<noteq> 0xffff) \<and>
      valid_link record \<and>
      (p = SECURITY_KEYS_VERIFIED \<longrightarrow> sk_verified record) \<and>
      (sk_verified record \<longrightarrow> p \<ge> SECURITY_KEYS_REQUESTED) \<and>
      (f AND KF_REJOIN \<noteq> 0 \<longrightarrow> p = SECURITY_KEYS_LEFT \<or> p = SECURITY_KEYS_REJOINING) \<and>
      (p = SECURITY_KEYS_REJOINING \<longrightarrow> sk_verified record) \<and>
      (record ! K_PHASE AND TIMEOUT_PENDING \<noteq> 0 \<longrightarrow> p \<noteq> SECURITY_KEYS_LEFT \<and> p \<noteq> SECURITY_KEYS_REJOINING))"

section \<open>Loading and saving\<close>

definition sk_finish :: "security_keys_result \<Rightarrow> ('c, 'm) sk_state \<Rightarrow> security_keys_result \<times> ('c, 'm) sk_state" where
  "sk_finish r st = (r, if sk_phase st \<noteq> SECURITY_KEYS_FAILED then st\<lparr>sk_result := r\<rparr> else st)"

definition sk_fault :: "security_keys_result \<Rightarrow> ('c, 'm) sk_state \<Rightarrow> security_keys_result \<times> ('c, 'm) sk_state" where
  "sk_fault r st = (r, st\<lparr>sk_phase := SECURITY_KEYS_FAILED, sk_result := r\<rparr>)"

definition sk_read :: "'c counter_ops \<Rightarrow> ('c, 'm) sk_state \<Rightarrow> security_counter_result \<times> bytes \<times> u8 \<times> ('c, 'm) sk_state" where
  "sk_read ops st =
     (case co_read ops (sk_counter st) of (r, out, c) \<Rightarrow>
      (case out of None \<Rightarrow> (r, replicate 112 0, 0, st\<lparr>sk_counter := c\<rparr>)
       | Some (data, n) \<Rightarrow> (r, store_at 0 data (replicate 112 0), n, st\<lparr>sk_counter := c\<rparr>)))"

definition sk_overlay :: "('c, 'm) sk_state \<Rightarrow> bytes \<Rightarrow> bytes" where
  "sk_overlay st record =
     (let r1 = store_at K_NF (sk_floor_cache st) record in
      if sk_phase_cache st \<noteq> 0 then r1[K_PHASE := sk_phase_cache st] else r1)"

definition sk_load :: "'c counter_ops \<Rightarrow> ('c, 'm) sk_state \<Rightarrow> (security_keys_result + bytes) \<times> ('c, 'm) sk_state" where
  "sk_load ops st =
     (if sk_phase st = SECURITY_KEYS_FAILED then (Inl (sk_result st), st)
      else if sk_phase st < SECURITY_KEYS_PROVISIONED then (Inl SECURITY_KEYS_STATE, st)
      else (case sk_read ops st of (r, record, n, st1) \<Rightarrow>
        if r \<noteq> SECURITY_COUNTER_OK then map_prod Inl id (sk_fault SECURITY_KEYS_STORAGE st1)
        else if \<not> valid_record n record \<or> phase_of record \<noteq> sk_phase st1 then map_prod Inl id (sk_fault SECURITY_KEYS_FORMAT st1)
        else (Inr (sk_overlay st1 record), st1)))"

definition keep_volatile :: "bytes \<Rightarrow> ('c, 'm) sk_state \<Rightarrow> ('c, 'm) sk_state" where
  "keep_volatile record st = st\<lparr>sk_floor_cache := take 8 (drop K_NF record), sk_phase_cache := record ! K_PHASE\<rparr>"

definition sk_save :: "'c counter_ops \<Rightarrow> u16 \<Rightarrow> bytes \<Rightarrow> ('c, 'm) sk_state \<Rightarrow> security_keys_result \<times> ('c, 'm) sk_state" where
  "sk_save ops polls record st =
     (case co_save ops record polls (sk_counter st) of (r, c) \<Rightarrow>
      if r \<noteq> SECURITY_COUNTER_OK then sk_fault SECURITY_KEYS_STORAGE (st\<lparr>sk_counter := c\<rparr>)
      else (SECURITY_KEYS_OK, keep_volatile record (st\<lparr>sk_counter := c, sk_phase := phase_of record\<rparr>)))"

definition limits_ok :: "ccm_star_limits option \<Rightarrow> u16 \<Rightarrow> bool" where
  "limits_ok limits polls \<longleftrightarrow> (case limits of None \<Rightarrow> False | Some l \<Rightarrow>
     block_timeout l \<noteq> 0 \<and> block_timeout l < TIMEBASE_HALF_RANGE \<and> block_polls l \<noteq> 0 \<and> polls \<noteq> 0)"

fun crypto_result :: "zigbee_security_result \<Rightarrow> security_keys_result" where
  "crypto_result ZIGBEE_SECURITY_OK = SECURITY_KEYS_OK"
| "crypto_result ZIGBEE_SECURITY_AUTH = SECURITY_KEYS_AUTH"
| "crypto_result ZIGBEE_SECURITY_SPACE = SECURITY_KEYS_SPACE"
| "crypto_result ZIGBEE_SECURITY_AES = SECURITY_KEYS_CRYPTO"
| "crypto_result ZIGBEE_SECURITY_CCM = SECURITY_KEYS_CRYPTO"
| "crypto_result _ = SECURITY_KEYS_FORMAT"

text \<open>The effective key: a slice of the record, or its keyed hash for transport and load keys.\<close>

definition sk_key :: "'m aes_call \<Rightarrow> ccm_star_limits \<Rightarrow> bytes \<Rightarrow> nat \<Rightarrow> u8 \<Rightarrow> bool \<Rightarrow> 'm \<Rightarrow>
    (security_keys_result + zigbee_security_key) \<times> 'm" where
  "sk_key aes limits record offset identifier sending hw =
     (let k = \<lparr>zk_key = take 16 (drop offset record), zk_source = take 8 (drop (if sending then K_OWN else K_TC) record), zk_counter = 0,
            zk_level = 5, zk_key_identifier = identifier, zk_key_sequence = 0, zk_extended_nonce = 1, zk_limits = limits\<rparr> in
      if identifier = 2 \<or> identifier = 3 then
        (case zigbee_key_hash aes (Some (take 16 (drop offset record))) (if identifier = 2 then ZIGBEE_HASH_TRANSPORT else ZIGBEE_HASH_LOAD)
            True (block_timeout limits) (block_polls limits) True hw of (r, digest, _, hw') \<Rightarrow>
          if r \<noteq> ZIGBEE_MMO_OK then (Inl SECURITY_KEYS_CRYPTO, hw') else (Inr (k\<lparr>zk_key := digest\<rparr>), hw'))
      else (Inr k, hw))"

definition sk_take :: "'c counter_ops \<Rightarrow> nat \<Rightarrow> u16 \<Rightarrow> ('c, 'm) sk_state \<Rightarrow> (security_keys_result + u32) \<times> ('c, 'm) sk_state" where
  "sk_take ops domain polls st =
     (case co_take ops domain polls (sk_counter st) of (r, v, c) \<Rightarrow>
      let st1 = st\<lparr>sk_counter := c\<rparr> in
      if r = SECURITY_COUNTER_EXHAUSTED then (Inl SECURITY_KEYS_EXHAUSTED, st1)
      else if r \<noteq> SECURITY_COUNTER_OK then map_prod Inl id (sk_fault SECURITY_KEYS_STORAGE st1)
      else (Inr (case v of None \<Rightarrow> 0 | Some n \<Rightarrow> n), st1))"

section \<open>Opening and provisioning\<close>

definition security_keys_open :: "'c counter_ops \<Rightarrow> ('c, 'm) sk_state \<Rightarrow> security_keys_result \<times> ('c, 'm) sk_state" where
  "security_keys_open ops st =
     (if sk_phase st \<noteq> SECURITY_KEYS_COLD then sk_finish SECURITY_KEYS_STATE st
      else (case co_open ops (sk_counter st) of (r, c) \<Rightarrow>
        let st1 = st\<lparr>sk_counter := c\<rparr> in
        if r = SECURITY_COUNTER_EMPTY then sk_finish SECURITY_KEYS_EMPTY (st1\<lparr>sk_phase := SECURITY_KEYS_UNPROVISIONED\<rparr>)
        else if r \<noteq> SECURITY_COUNTER_OK then case_prod sk_finish (sk_fault SECURITY_KEYS_STORAGE st1)
        else (case sk_read ops st1 of (r2, record, n, st2) \<Rightarrow>
          if r2 \<noteq> SECURITY_COUNTER_OK then case_prod sk_finish (sk_fault SECURITY_KEYS_STORAGE st2)
          else if \<not> valid_record n record then case_prod sk_finish (sk_fault SECURITY_KEYS_FORMAT st2)
          else sk_finish SECURITY_KEYS_OK (keep_volatile record (st2\<lparr>sk_phase := phase_of record\<rparr>)))))"

definition sk_provision_record :: "security_keys_config \<Rightarrow> bytes" where
  "sk_provision_record config =
     (let r1 = store_at K_OWN (take 8 (skc_own_ieee config)) (replicate 112 0);
          r2 = store_at K_TC (take 8 (skc_tc_ieee config)) r1;
          r3 = store_at K_EP (take 8 (skc_extended_pan config)) r2;
          r4 = store_at K_ADDR (write_le16 (skc_address config)) (store_at K_PAN (write_le16 (skc_pan config)) r3)
      in r4[K_CHANNEL := skc_channel config, K_UPDATE := skc_update_id config])"

definition security_keys_provision :: "'c counter_ops \<Rightarrow> 'm aes_call \<Rightarrow> security_keys_config option \<Rightarrow> bytes option \<Rightarrow> u32 \<Rightarrow> u32 \<Rightarrow>
    ccm_star_limits option \<Rightarrow> u16 \<Rightarrow> ('c, 'm) sk_state \<Rightarrow> security_keys_result \<times> ('c, 'm) sk_state" where
  "security_keys_provision ops aes config code nwk_floor aps_floor limits polls st =
     (if sk_phase st \<noteq> SECURITY_KEYS_UNPROVISIONED then sk_finish SECURITY_KEYS_STATE st
      else if config = None \<or> code = None \<or> \<not> limits_ok limits polls \<or> nwk_floor = 0xffffffff \<or> aps_floor = 0xffffffff
        then sk_finish SECURITY_KEYS_ARGUMENT st
      else let record = sk_provision_record (the config); l = the limits in
      if \<not> valid_config record then sk_finish SECURITY_KEYS_ARGUMENT st
      else (case install_code_derive aes (Some (take 18 (the code))) 18 True (block_timeout l) (block_polls l) True (sk_hw st) of
        (r, link, _, hw) \<Rightarrow>
        let st1 = st\<lparr>sk_hw := hw\<rparr> in
        if r \<noteq> ZIGBEE_MMO_OK then sk_finish SECURITY_KEYS_CRYPTO st1
        else let record1 = set_phase SECURITY_KEYS_PROVISIONED ((store_at K_LK link record)[K_MAGIC := 0x4b, K_MAGIC + 1 := 2]) in
        (case co_create ops nwk_floor aps_floor record1 polls (sk_counter st1) of (c, cs) \<Rightarrow>
          let st2 = st1\<lparr>sk_counter := cs\<rparr> in
          if c \<noteq> SECURITY_COUNTER_OK then case_prod sk_finish (sk_fault SECURITY_KEYS_STORAGE st2)
          else sk_finish SECURITY_KEYS_OK (st2\<lparr>sk_phase := SECURITY_KEYS_PROVISIONED\<rparr>))))"

definition security_keys_associate :: "'c counter_ops \<Rightarrow> u16 \<Rightarrow> u16 \<Rightarrow> ('c, 'm) sk_state \<Rightarrow> security_keys_result \<times> ('c, 'm) sk_state" where
  "security_keys_associate ops short_address polls st =
     (case sk_load ops st of (Inl r, st1) \<Rightarrow> sk_finish r st1
      | (Inr record, st1) \<Rightarrow>
        if phase_of record \<noteq> SECURITY_KEYS_PROVISIONED then sk_finish SECURITY_KEYS_STATE st1
        else if short_address = 0 \<or> short_address \<ge> 0xfff8 \<or> polls = 0 then sk_finish SECURITY_KEYS_ARGUMENT st1
        else let address = read_le16 (drop K_ADDR record) in
        if address \<noteq> 0xffff \<and> address \<noteq> short_address then sk_finish SECURITY_KEYS_IDENTITY st1
        else let record1 = set_phase SECURITY_KEYS_ASSOCIATED (store_at K_ADDR (write_le16 short_address) record) in
        (case co_restage ops record1 (sk_counter st1) of (c, cs) \<Rightarrow>
          let st2 = st1\<lparr>sk_counter := cs\<rparr> in
          if c = SECURITY_COUNTER_OK then sk_finish SECURITY_KEYS_OK (st2\<lparr>sk_phase := SECURITY_KEYS_ASSOCIATED\<rparr>)
          else case_prod sk_finish (sk_save ops polls record1 st2)))"

section \<open>Received commands\<close>

definition sk_broadcast :: "u16 \<Rightarrow> bool" where
  "sk_broadcast address \<longleftrightarrow> address = 0xffff \<or> address = 0xfffd"

definition outbound_broadcast :: "u16 \<Rightarrow> bool" where
  "outbound_broadcast address \<longleftrightarrow> sk_broadcast address \<or> address = 0xfffc"

definition join_management :: "ed_packet \<Rightarrow> bool" where
  "join_management p \<longleftrightarrow>
     (if aps_type (ep_aps p) = ED_APS_ACK then ep_length p = 0
      else aps_type (ep_aps p) = 0 \<and> aps_profile_id (ep_aps p) = 0 \<and> aps_source_endpoint (ep_aps p) = 0 \<and>
        aps_destination_endpoint (ep_aps p) = 0 \<and>
        (aps_cluster_id (ep_aps p) = 0x0002 \<or> aps_cluster_id (ep_aps p) = 0x8002 \<or> aps_cluster_id (ep_aps p) = 0x0013))"

definition aps_addressing :: "bool \<Rightarrow> ed_packet \<Rightarrow> bool" where
  "aps_addressing sending p =
     (let broadcast = (if sending then outbound_broadcast (nwk_destination (ep_nwk p)) else sk_broadcast (nwk_destination (ep_nwk p))) in
      if aps_type (ep_aps p) = ED_APS_COMMAND then True
      else if aps_type (ep_aps p) = ED_APS_ACK then \<not> broadcast
      else (aps_delivery_mode (ep_aps p) = APS_DELIVERY_BROADCAST) = broadcast)"

definition sk_reused :: "bytes \<Rightarrow> bytes \<Rightarrow> bool" where
  "sk_reused material record \<longleftrightarrow> sk_all material 16 0 \<or> sk_same material (drop K_LK record) 16 \<or>
     (\<not> sk_all (drop K_PK record) 16 0 \<and> sk_same material (drop K_PK record) 16) \<or>
     (record ! K_FLAGS AND slot_bit 0 \<noteq> 0 \<and> sk_same material (drop K_NK record) 16) \<or>
     (record ! K_FLAGS AND slot_bit 1 \<noteq> 0 \<and> sk_same material (drop (K_NK + 16) record) 16)"

text \<open>The first valid slot with a sequence number; 2 when there is none.\<close>

definition sk_find_slot :: "u8 \<Rightarrow> bytes \<Rightarrow> nat" where
  "sk_find_slot sequence record =
     (if record ! K_FLAGS AND slot_bit 0 \<noteq> 0 \<and> record ! K_SEQ = sequence then 0
      else if record ! K_FLAGS AND slot_bit 1 \<noteq> 0 \<and> record ! (K_SEQ + 1) = sequence then 1 else 2)"

definition store_network_key :: "nat \<Rightarrow> bytes \<Rightarrow> u8 \<Rightarrow> bytes \<Rightarrow> bytes" where
  "store_network_key i material sequence record =
     (store_at (K_NF + 4 * i) (encode32 0) (store_at (K_NK + 16 * i) (take 16 material) record))[K_SEQ + i := sequence]"

text \<open>A command handler returns the result, the event and the record. The context of the frame is whether
  the APS layer was authenticated, whether by the pending key, the key identifier and the counter.\<close>

record sk_context =
  cx_secured :: nat
  cx_aps_secured :: nat
  cx_pending :: bool
  cx_key_id :: u8
  cx_counter :: u32

definition sk_network_key :: "ed_packet \<Rightarrow> bytes \<Rightarrow> security_keys_result \<times> u8 \<times> bytes" where
  "sk_network_key p record =
     (let material = take 16 (drop 2 (ep_payload p)); sequence = ep_payload p ! 18; i = sk_find_slot sequence record in
      if i < 2 then
        (if \<not> sk_same material (drop (K_NK + 16 * i) record) 16 then (SECURITY_KEYS_SELECTOR, 0, record)
         else (SECURITY_KEYS_OK, SECURITY_KEYS_EVENT_NETWORK_KEY, record))
      else if sk_reused material record then (SECURITY_KEYS_SELECTOR, 0, record)
      else if \<not> sk_network record then
        (if phase_of record \<noteq> SECURITY_KEYS_ASSOCIATED then (SECURITY_KEYS_CONTEXT, 0, record)
         else (SECURITY_KEYS_OK, SECURITY_KEYS_EVENT_NETWORK_KEY,
           store_network_key 0 material sequence (set_phase SECURITY_KEYS_RECEIVED (record[K_FLAGS := 1]))))
      else if \<not> sk_verified record then (SECURITY_KEYS_CONTEXT, 0, record)
      else let active = active_slot record; newest = (if record ! K_FLAGS AND KF_NEWER \<noteq> 0 then 1 - active else active) in
      if sequence \<noteq> record ! (K_SEQ + newest) + 1 then (SECURITY_KEYS_SELECTOR, 0, record)
      else (SECURITY_KEYS_OK, SECURITY_KEYS_EVENT_NETWORK_KEY,
        store_network_key (1 - active) material sequence (record[K_FLAGS := record ! K_FLAGS OR (slot_bit (1 - active) OR KF_NEWER)])))"

definition sk_transport :: "sk_context \<Rightarrow> ed_packet \<Rightarrow> bytes \<Rightarrow> security_keys_result \<times> u8 \<times> bytes" where
  "sk_transport cx p record =
     (if cx_aps_secured cx = 0 \<or> cx_pending cx \<or> ep_length p < 2 then (SECURITY_KEYS_CONTEXT, 0, record)
      else let type = ep_payload p ! 1; offset = (if type = 1 then 19 else 18) in
      if type \<noteq> 1 \<and> type \<noteq> 4 then (SECURITY_KEYS_UNSUPPORTED, 0, record)
      else if cx_key_id cx \<noteq> (if type = 1 then 2 else 3) then (SECURITY_KEYS_SELECTOR, 0, record)
      else if ep_length p \<noteq> (if type = 1 then 35 else 34) then (SECURITY_KEYS_FORMAT, 0, record)
      else if \<not> sk_same (drop (offset + 8) (ep_payload p)) (drop K_TC record) 8 \<or>
        \<not> sk_same (drop offset (ep_payload p)) (drop K_OWN record) 8 \<or>
        nwk_destination (ep_nwk p) \<noteq> read_le16 (drop K_ADDR record) then (SECURITY_KEYS_IDENTITY, 0, record)
      else if type = 4 then
        (if phase_of record \<noteq> SECURITY_KEYS_REQUESTED then (SECURITY_KEYS_CONTEXT, 0, record)
         else let material = take 16 (drop 2 (ep_payload p)) in
         if sk_reused material record then (SECURITY_KEYS_SELECTOR, 0, record)
         else let r1 = store_at K_PK material record; r2 = r1[K_FLAGS := r1 ! K_FLAGS AND NOT KF_RETIRED] in
           (SECURITY_KEYS_OK, SECURITY_KEYS_EVENT_TC_KEY, set_phase SECURITY_KEYS_PROVISIONAL r2))
      else sk_network_key p record)"

definition sk_adopt :: "nat \<Rightarrow> bytes \<Rightarrow> bytes" where
  "sk_adopt slot record =
     record[K_FLAGS := (record ! K_FLAGS AND NOT (KF_ACTIVE OR KF_NEWER)) OR (if slot \<noteq> 0 then KF_ACTIVE else 0)]"

text \<open>The confirmed pending key becomes the link key; the old one stays as a tombstone.\<close>

definition sk_confirm_record :: "u32 \<Rightarrow> bytes \<Rightarrow> bytes" where
  "sk_confirm_record counter record =
     (let lk = take 16 (drop K_LK record); pk = take 16 (drop K_PK record);
          r1 = store_at K_PK lk (store_at K_LK pk record);
          r2 = store_at K_AF (encode32 (counter + 1)) r1
      in set_phase SECURITY_KEYS_VERIFIED (r2[K_FLAGS := r2 ! K_FLAGS OR (KF_VERIFIED OR KF_RETIRED)]))"

definition sk_aps_command :: "sk_context \<Rightarrow> ed_packet \<Rightarrow> bytes \<Rightarrow> security_keys_result \<times> u8 \<times> bytes" where
  "sk_aps_command cx p record =
     (let b = ep_payload p; destination = nwk_destination (ep_nwk p) in
      if ep_length p = 0 \<or> nwk_source (ep_nwk p) \<noteq> 0 then (SECURITY_KEYS_IDENTITY, 0, record)
      else if b ! 0 = 5 then sk_transport cx p record
      else if b ! 0 = 16 then
        (if cx_aps_secured cx = 0 \<or> \<not> cx_pending cx \<or> phase_of record \<noteq> SECURITY_KEYS_WAIT_CONFIRM then (SECURITY_KEYS_CONTEXT, 0, record)
         else if ep_length p \<noteq> 11 \<or> b ! 1 \<noteq> 0 \<or> b ! 2 \<noteq> 4 then (SECURITY_KEYS_FORMAT, 0, record)
         else if destination \<noteq> read_le16 (drop K_ADDR record) \<or> \<not> sk_same (drop 3 b) (drop K_OWN record) 8
           then (SECURITY_KEYS_IDENTITY, 0, record)
         else (SECURITY_KEYS_OK, SECURITY_KEYS_EVENT_VERIFIED, sk_confirm_record (cx_counter cx) record))
      else if b ! 0 = 9 then
        (if cx_secured cx = 0 \<or> cx_pending cx \<or> ep_length p \<noteq> 2 \<or> \<not> sk_broadcast destination then (SECURITY_KEYS_CONTEXT, 0, record)
         else if cx_aps_secured cx \<noteq> 0 \<and> cx_key_id cx \<noteq> 0 then (SECURITY_KEYS_SELECTOR, 0, record)
         else let active = active_slot record in
         if b ! 1 = record ! (K_SEQ + active) then (SECURITY_KEYS_OK, SECURITY_KEYS_EVENT_SWITCH, record)
         else if record ! K_FLAGS AND KF_NEWER = 0 \<or> b ! 1 \<noteq> record ! (K_SEQ + (1 - active)) then (SECURITY_KEYS_SELECTOR, 0, record)
         else (SECURITY_KEYS_OK, SECURITY_KEYS_EVENT_SWITCH, sk_adopt (1 - active) record))
      else (SECURITY_KEYS_UNSUPPORTED, 0, record))"

definition sk_set_rejoin :: "bool \<Rightarrow> bytes \<Rightarrow> bytes" where
  "sk_set_rejoin allowed record =
     record[K_FLAGS := (if allowed then record ! K_FLAGS OR KF_REJOIN else record ! K_FLAGS AND NOT KF_REJOIN)]"

definition sk_nwk_leave :: "ed_packet \<Rightarrow> bytes \<Rightarrow> security_keys_result \<times> u8 \<times> bytes" where
  "sk_nwk_leave p record =
     (let b = ep_payload p; n = ep_nwk p in
      if ep_length p \<noteq> 2 \<or> nwk_flags n AND NWK_FLAG_SOURCE_IEEE = 0 \<or> nwk_radius n \<noteq> 1 then (SECURITY_KEYS_FORMAT, 0, record)
      else if (if b ! 1 AND 0x40 \<noteq> 0 then nwk_destination n \<noteq> read_le16 (drop K_ADDR record) else nwk_destination n \<noteq> 0xfffd)
        then (SECURITY_KEYS_IDENTITY, 0, record)
      else (SECURITY_KEYS_OK, SECURITY_KEYS_EVENT_LEAVE, sk_set_rejoin (b ! 1 AND 0x20 \<noteq> 0) (set_phase SECURITY_KEYS_LEFT record)))"

definition sk_nwk_update :: "ed_packet \<Rightarrow> bytes \<Rightarrow> security_keys_result \<times> u8 \<times> bytes" where
  "sk_nwk_update p record =
     (let b = ep_payload p; n = ep_nwk p in
      if ep_length p \<noteq> 13 \<or> b ! 1 \<noteq> 1 \<or> nwk_flags n AND NWK_FLAG_SOURCE_IEEE = 0 \<or>
        nwk_flags n AND NWK_FLAG_DESTINATION_IEEE \<noteq> 0 \<or> nwk_destination n \<noteq> 0xffff then (SECURITY_KEYS_FORMAT, 0, record)
      else if \<not> sk_same (drop 2 b) (drop K_EP record) 8 \<or> read_le16 (drop 11 b) = 0xffff then (SECURITY_KEYS_IDENTITY, 0, record)
      else let delta = b ! 10 - record ! K_UPDATE in
      if delta \<ge> 128 \<or> (delta = 0 \<and> \<not> sk_same (drop K_PAN record) (drop 11 b) 2) then (SECURITY_KEYS_CONTEXT, 0, record)
      else (SECURITY_KEYS_OK, SECURITY_KEYS_EVENT_UPDATE,
        if delta \<noteq> 0 then store_at K_PAN (take 2 (drop 11 b)) (record[K_UPDATE := b ! 10]) else record))"

definition sk_nwk_rejoin :: "ed_packet \<Rightarrow> bytes \<Rightarrow> security_keys_result \<times> u8 \<times> bytes" where
  "sk_nwk_rejoin p record =
     (let b = ep_payload p; n = ep_nwk p; address = read_le16 (drop 1 b) in
      if phase_of record \<noteq> SECURITY_KEYS_REJOINING then (SECURITY_KEYS_CONTEXT, 0, record)
      else if ep_length p \<noteq> 4 \<or> nwk_flags n AND BOTH_IEEE \<noteq> BOTH_IEEE \<or> nwk_destination n \<noteq> read_le16 (drop K_ADDR record)
        then (SECURITY_KEYS_FORMAT, 0, record)
      else if b ! 3 > 2 then (SECURITY_KEYS_FORMAT, 0, record)
      else if b ! 3 \<noteq> 0 then
        (if address \<noteq> 0xffff then (SECURITY_KEYS_FORMAT, 0, record) else (SECURITY_KEYS_OK, SECURITY_KEYS_EVENT_REJOIN_REFUSED, record))
      else if address = 0 \<or> address \<ge> 0xfff8 then (SECURITY_KEYS_IDENTITY, 0, record)
      else (SECURITY_KEYS_OK, SECURITY_KEYS_EVENT_REJOINED,
        sk_set_rejoin False (set_phase SECURITY_KEYS_VERIFIED (store_at K_ADDR (take 2 (drop 1 b)) record))))"

definition sk_nwk_timeout :: "ed_packet \<Rightarrow> bytes \<Rightarrow> security_keys_result \<times> u8 \<times> bytes" where
  "sk_nwk_timeout p record =
     (let b = ep_payload p; n = ep_nwk p in
      if ep_length p \<noteq> 3 \<or> b ! 1 > 1 \<or> nwk_flags n AND BOTH_IEEE \<noteq> BOTH_IEEE \<or>
        nwk_destination n \<noteq> read_le16 (drop K_ADDR record) \<or> nwk_radius n \<noteq> 1 then (SECURITY_KEYS_FORMAT, 0, record)
      else if record ! K_PHASE AND TIMEOUT_PENDING = 0 then (SECURITY_KEYS_CONTEXT, 0, record)
      else let p1 = record ! K_PHASE AND NOT TIMEOUT_PENDING;
               p2 = (if b ! 1 = 0 then (p1 AND NOT PARENT_MASK) OR push_bit 4 (b ! 2 AND 7) else p1) in
        (SECURITY_KEYS_OK, SECURITY_KEYS_EVENT_MANAGEMENT, record[K_PHASE := p2]))"

definition sk_nwk_command :: "sk_context \<Rightarrow> ed_packet \<Rightarrow> bytes \<Rightarrow> security_keys_result \<times> u8 \<times> bytes" where
  "sk_nwk_command cx p record =
     (if cx_secured cx = 0 \<or> ep_length p = 0 then (SECURITY_KEYS_CONTEXT, 0, record)
      else if nwk_source (ep_nwk p) \<noteq> 0 then (SECURITY_KEYS_CONTEXT, 0, record)
      else let command = ep_payload p ! 0 in
      if phase_of record = SECURITY_KEYS_REJOINING \<and> command \<noteq> 7 \<and> command \<noteq> 4 then (SECURITY_KEYS_CONTEXT, 0, record)
      else if command = 4 then sk_nwk_leave p record
      else if command = 10 then sk_nwk_update p record
      else if command = 7 then sk_nwk_rejoin p record
      else if command = 12 then sk_nwk_timeout p record
      else if command = 3 then
        (if ep_length p < 2 \<or> ep_length p > 4 then (SECURITY_KEYS_FORMAT, 0, record)
         else (SECURITY_KEYS_OK, SECURITY_KEYS_EVENT_MANAGEMENT, record))
      else (SECURITY_KEYS_UNSUPPORTED, 0, record))"

section \<open>Receiving\<close>

text \<open>The outer layer: slot selection, replay floor, authentication, adoption of a newer key. The result is the
  record, the clear frame and how the frame was secured (2 when it switched the active key).\<close>

definition sk_open_nwk :: "'m aes_call \<Rightarrow> ccm_star_limits \<Rightarrow> bytes \<Rightarrow> bytes \<Rightarrow> nwk_header \<Rightarrow> 'm \<Rightarrow>
    (security_keys_result + bytes \<times> bytes \<times> nat) \<times> 'm" where
  "sk_open_nwk aes limits record raw nwk hw =
     (if nwk_flags nwk AND NWK_FLAG_SECURITY \<noteq> 0 then
        (case ed_wire_inspect ZIGBEE_SECURITY_NWK (Some raw) True of Inl e \<Rightarrow> (Inl (crypto_result e), hw) | Inr meta \<Rightarrow>
          let i = sk_find_slot (sm_key_sequence meta) record in
          if \<not> sk_same (sm_source meta) (drop K_TC record) 8 then (Inl SECURITY_KEYS_IDENTITY, hw)
          else if i = 2 then (Inl SECURITY_KEYS_SELECTOR, hw)
          else if sm_counter meta = 0xffffffff \<or> sm_counter meta < decode32 (drop (K_NF + 4 * i) record) then (Inl SECURITY_KEYS_REPLAY, hw)
          else (case sk_key aes limits record (K_NK + 16 * i) 1 False hw of (Inl r, hw1) \<Rightarrow> (Inl r, hw1)
            | (Inr k, hw1) \<Rightarrow>
              (case ed_wire_crypt aes 1 ZIGBEE_SECURITY_NWK (Some (k\<lparr>zk_key_sequence := record ! (K_SEQ + i)\<rparr>)) (Some raw) True 116 True hw1 of
                (c, frame, _, hw2) \<Rightarrow>
                if crypto_result c \<noteq> SECURITY_KEYS_OK then (Inl (crypto_result c), hw2)
                else let r1 = store_at (K_NF + 4 * i) (encode32 (sm_counter meta + 1)) record in
                if r1 ! K_FLAGS AND KF_NEWER \<noteq> 0 \<and> i \<noteq> active_slot r1 then (Inr (sk_adopt i r1, frame, 2), hw2)
                else (Inr (r1, frame, 1), hw2))))
      else if sk_network record \<or> length raw > 116 then (Inl SECURITY_KEYS_CONTEXT, hw)
      else (Inr (record, raw, 0), hw))"

text \<open>The inner layer of a clear frame: the record, the frame and the context of the APS part.\<close>

definition sk_open_aps :: "'m aes_call \<Rightarrow> ccm_star_limits \<Rightarrow> bytes \<Rightarrow> bytes \<Rightarrow> nat \<Rightarrow> nat \<Rightarrow> nat \<Rightarrow> 'm \<Rightarrow>
    (security_keys_result + bytes \<times> bytes \<times> sk_context) \<times> 'm" where
  "sk_open_aps aes limits record frame secured offset len hw =
     (let body = take len (drop offset frame); cx = \<lparr>cx_secured = secured, cx_aps_secured = 0, cx_pending = False, cx_key_id = 0, cx_counter = 0\<rparr> in
      if frame ! offset AND APS_FLAG_SECURITY = 0 then (Inr (record, frame, cx), hw)
      else (case ed_wire_inspect ZIGBEE_SECURITY_APS (Some body) True of Inl e \<Rightarrow> (Inl (crypto_result e), hw) | Inr meta \<Rightarrow>
        let kid = sm_key_identifier meta; cx1 = cx\<lparr>cx_aps_secured := 1, cx_key_id := kid, cx_counter := sm_counter meta\<rparr> in
        if sm_counter meta = 0xffffffff then (Inl SECURITY_KEYS_REPLAY, hw)
        else if kid \<noteq> 0 \<and> kid \<noteq> 2 \<and> kid \<noteq> 3 then (Inl SECURITY_KEYS_SELECTOR, hw)
        else if sm_extended_nonce meta \<noteq> 0 \<and> \<not> sk_same (sm_source meta) (drop K_TC record) 8 then (Inl SECURITY_KEYS_IDENTITY, hw)
        else (case (if phase_of record = SECURITY_KEYS_WAIT_CONFIRM \<and> kid = 0 \<and> frame ! offset AND 3 = ED_APS_COMMAND then
              (case sk_key aes limits record K_PK 0 False hw of (Inl r, hw1) \<Rightarrow> (Inl r, hw1)
               | (Inr k, hw1) \<Rightarrow>
                 (case ed_wire_crypt aes 1 ZIGBEE_SECURITY_APS (Some k) (Some body) True 116 True hw1 of (c, out, _, hw2) \<Rightarrow>
                   if crypto_result c = SECURITY_KEYS_OK then (Inr (Some out), hw2)
                   else if crypto_result c \<noteq> SECURITY_KEYS_AUTH then (Inl (crypto_result c), hw2) else (Inr None, hw2)))
            else (Inr None, hw)) of
            (Inl r, hw1) \<Rightarrow> (Inl r, hw1)
          | (Inr (Some out), hw1) \<Rightarrow> (Inr (record, take offset frame @ out, cx1\<lparr>cx_pending := True\<rparr>), hw1)
          | (Inr None, hw1) \<Rightarrow>
            if sm_counter meta < decode32 (drop K_AF record) then (Inl SECURITY_KEYS_REPLAY, hw1)
            else (case sk_key aes limits record K_LK kid False hw1 of (Inl r, hw2) \<Rightarrow> (Inl r, hw2)
              | (Inr k, hw2) \<Rightarrow>
                (case ed_wire_crypt aes 1 ZIGBEE_SECURITY_APS (Some (k\<lparr>zk_extended_nonce := sm_extended_nonce meta\<rparr>)) (Some body) True 116 True hw2 of
                  (c, out, _, hw3) \<Rightarrow>
                  if crypto_result c \<noteq> SECURITY_KEYS_OK then (Inl (crypto_result c), hw3)
                  else (Inr (store_at K_AF (encode32 (sm_counter meta + 1)) record, take offset frame @ out, cx1\<lparr>cx_aps_secured := 2\<rparr>), hw3))))))"

text \<open>What the clear packet does to the record.\<close>

definition sk_dispatch :: "sk_context \<Rightarrow> ed_packet \<Rightarrow> bytes \<Rightarrow> security_keys_result \<times> u8 \<times> bytes" where
  "sk_dispatch cx p record =
     (if nwk_type (ep_nwk p) \<noteq> ED_NWK_COMMAND \<and> \<not> aps_addressing False p then (SECURITY_KEYS_IDENTITY, 0, record)
      else if phase_of record = SECURITY_KEYS_REJOINING \<and> nwk_type (ep_nwk p) \<noteq> ED_NWK_COMMAND then (SECURITY_KEYS_CONTEXT, 0, record)
      else if cx_secured cx = 0 \<and> (nwk_type (ep_nwk p) = ED_NWK_COMMAND \<or> aps_type (ep_aps p) \<noteq> ED_APS_COMMAND \<or> ep_length p \<noteq> 35 \<or>
        ep_payload p ! 0 \<noteq> 5 \<or> ep_payload p ! 1 \<noteq> 1) then (SECURITY_KEYS_CONTEXT, 0, record)
      else if nwk_type (ep_nwk p) = ED_NWK_COMMAND then sk_nwk_command cx p record
      else if aps_type (ep_aps p) = ED_APS_COMMAND then sk_aps_command cx p record
      else if cx_pending cx \<or> (cx_aps_secured cx \<noteq> 0 \<and> cx_key_id cx \<noteq> 0) then (SECURITY_KEYS_SELECTOR, 0, record)
      else if join_management p then (SECURITY_KEYS_OK, SECURITY_KEYS_EVENT_MANAGEMENT, record)
      else if \<not> sk_verified record then (SECURITY_KEYS_CONTEXT, 0, record)
      else (SECURITY_KEYS_OK, SECURITY_KEYS_EVENT_DATA, record))"

text \<open>The label \<open>rejected\<close>: floors and an adopted key survive, nothing is reported.\<close>

definition sk_rejected :: "'c counter_ops \<Rightarrow> u16 \<Rightarrow> security_keys_result \<Rightarrow> bool \<Rightarrow> bytes \<Rightarrow> ('c, 'm) sk_state \<Rightarrow>
    security_keys_result \<times> (ed_packet \<times> u8) option \<times> ('c, 'm) sk_state" where
  "sk_rejected ops polls r durable record st =
     (if durable then
        (case sk_save ops polls record st of (r1, st1) \<Rightarrow>
          (case sk_finish (if r1 \<noteq> SECURITY_KEYS_OK then r1 else r) st1 of (r2, st2) \<Rightarrow> (r2, None, st2)))
      else (case sk_finish r (keep_volatile record st) of (r2, st2) \<Rightarrow> (r2, None, st2)))"

definition sk_accepted :: "'c counter_ops \<Rightarrow> u16 \<Rightarrow> u8 \<Rightarrow> sk_context \<Rightarrow> ed_packet \<Rightarrow> bytes \<Rightarrow> ('c, 'm) sk_state \<Rightarrow>
    security_keys_result \<times> (ed_packet \<times> u8) option \<times> ('c, 'm) sk_state" where
  "sk_accepted ops polls event cx p record st =
     (let p1 = (if nwk_type (ep_nwk p) \<noteq> ED_NWK_COMMAND \<and> aps_type (ep_aps p) = ED_APS_COMMAND
            then p\<lparr>ep_payload := replicate ED_PAYLOAD_MAX 0, ep_length := 0\<rparr> else p) in
      case (if event > SECURITY_KEYS_EVENT_MANAGEMENT \<or> cx_aps_secured cx \<noteq> 0 \<or> cx_secured cx = 2 then sk_save ops polls record st
            else (SECURITY_KEYS_OK, keep_volatile record st)) of (r, st1) \<Rightarrow>
      case sk_finish r st1 of (r2, st2) \<Rightarrow>
        (r2, if r = SECURITY_KEYS_OK then Some (p1, event OR (if cx_aps_secured cx \<noteq> 0 then SECURITY_KEYS_EVENT_APS_SECURED else 0)) else None, st2))"

definition sk_opened :: "'c counter_ops \<Rightarrow> 'm aes_call \<Rightarrow> ccm_star_limits \<Rightarrow> u16 \<Rightarrow> bytes \<Rightarrow> bytes \<Rightarrow> nat \<Rightarrow> ('c, 'm) sk_state \<Rightarrow>
    security_keys_result \<times> (ed_packet \<times> u8) option \<times> ('c, 'm) sk_state" where
  "sk_opened ops aes limits polls record frame secured st =
     (case ed_wire_nwk (Some frame) True of Inl e \<Rightarrow> sk_rejected ops polls (crypto_result e) (secured = 2) record st
      | Inr n \<Rightarrow>
        let cx0 = \<lparr>cx_secured = secured, cx_aps_secured = 0, cx_pending = False, cx_key_id = 0, cx_counter = 0\<rparr> in
        if nwk_type (nfi_header n) \<noteq> ED_NWK_COMMAND \<and> nfi_payload_length n = 0 then sk_rejected ops polls SECURITY_KEYS_FORMAT (secured = 2) record st
        else (case (if nwk_type (nfi_header n) \<noteq> ED_NWK_COMMAND
              then sk_open_aps aes limits record frame secured (nfi_payload_offset n) (nfi_payload_length n) (sk_hw st)
              else (Inr (record, frame, cx0), sk_hw st)) of
            (Inl r, hw1) \<Rightarrow> sk_rejected ops polls r (secured = 2) record (st\<lparr>sk_hw := hw1\<rparr>)
          | (Inr (record1, frame1, cx), hw1) \<Rightarrow>
            let st1 = st\<lparr>sk_hw := hw1\<rparr>; durable = (cx_aps_secured cx = 2 \<or> secured = 2) in
            (case ed_wire_decode (Some frame1) True of Inl e \<Rightarrow> sk_rejected ops polls (crypto_result e) durable record1 st1
             | Inr p \<Rightarrow>
               (case sk_dispatch cx p record1 of (r, event, record2) \<Rightarrow>
                 if r \<noteq> SECURITY_KEYS_OK then sk_rejected ops polls r durable record2 st1
                 else sk_accepted ops polls event cx p record2 st1))))"

definition sk_addressed :: "nwk_header \<Rightarrow> bytes \<Rightarrow> bool" where
  "sk_addressed n record \<longleftrightarrow> nwk_source n = 0 \<and>
     (nwk_destination n = read_le16 (drop K_ADDR record) \<or> sk_broadcast (nwk_destination n)) \<and>
     (nwk_flags n AND NWK_FLAG_SOURCE_IEEE \<noteq> 0 \<longrightarrow> sk_same (nwk_source_ieee n) (drop K_TC record) 8) \<and>
     (nwk_flags n AND NWK_FLAG_DESTINATION_IEEE \<noteq> 0 \<longrightarrow> sk_same (nwk_destination_ieee n) (drop K_OWN record) 8)"

definition sk_refuse :: "security_keys_result \<Rightarrow> ('c, 'm) sk_state \<Rightarrow> security_keys_result \<times> 'a option \<times> ('c, 'm) sk_state" where
  "sk_refuse r st = (case sk_finish r st of (r1, st1) \<Rightarrow> (r1, None, st1))"

definition security_keys_receive :: "'c counter_ops \<Rightarrow> 'm aes_call \<Rightarrow> bytes option \<Rightarrow> bool \<Rightarrow> bool \<Rightarrow> ccm_star_limits option \<Rightarrow> u16 \<Rightarrow>
    ('c, 'm) sk_state \<Rightarrow> security_keys_result \<times> (ed_packet \<times> u8) option \<times> ('c, 'm) sk_state" where
  "security_keys_receive ops aes raw out event limits polls st =
     (case sk_load ops st of (Inl r, st1) \<Rightarrow> sk_refuse r st1
      | (Inr record, st1) \<Rightarrow>
        if raw = None \<or> \<not> out \<or> \<not> event \<or> \<not> limits_ok limits polls then sk_refuse SECURITY_KEYS_ARGUMENT st1
        else if sk_phase st1 < SECURITY_KEYS_ASSOCIATED \<or> sk_phase st1 = SECURITY_KEYS_LEFT then sk_refuse SECURITY_KEYS_STATE st1
        else (case ed_wire_nwk raw True of Inl e \<Rightarrow> sk_refuse (crypto_result e) st1
          | Inr n \<Rightarrow>
            if \<not> sk_addressed (nfi_header n) record then sk_refuse SECURITY_KEYS_IDENTITY st1
            else (case sk_open_nwk aes (the limits) record (the raw) (nfi_header n) (sk_hw st1) of
                (Inl r, hw1) \<Rightarrow> sk_refuse r (st1\<lparr>sk_hw := hw1\<rparr>)
              | (Inr (record1, frame, secured), hw1) \<Rightarrow>
                sk_opened ops aes (the limits) polls record1 frame secured (st1\<lparr>sk_hw := hw1\<rparr>))))"

section \<open>Sending\<close>

text \<open>Protection of an outgoing packet: every layer takes a fresh counter value before its encryption.\<close>

definition sk_protect :: "'c counter_ops \<Rightarrow> 'm aes_call \<Rightarrow> u8 \<Rightarrow> nat \<Rightarrow> u16 \<Rightarrow> (security_keys_result + zigbee_security_key) \<times> 'm \<Rightarrow> bytes \<Rightarrow>
    ('c, 'm) sk_state \<Rightarrow> (security_keys_result + bytes) \<times> ('c, 'm) sk_state" where
  "sk_protect ops aes layer domain polls selected frame st =
     (case selected of (Inl r, hw) \<Rightarrow> (Inl r, st\<lparr>sk_hw := hw\<rparr>)
      | (Inr k, hw) \<Rightarrow>
        (case sk_take ops domain polls (st\<lparr>sk_hw := hw\<rparr>) of (Inl r, st1) \<Rightarrow> (Inl r, st1)
         | (Inr v, st1) \<Rightarrow>
           (case ed_wire_crypt aes 0 layer (Some (k\<lparr>zk_counter := v\<rparr>)) (Some frame) True 116 True (sk_hw st1) of (c, out, _, hw1) \<Rightarrow>
             if crypto_result c \<noteq> SECURITY_KEYS_OK then (Inl (crypto_result c), st1\<lparr>sk_hw := hw1\<rparr>)
             else (Inr out, st1\<lparr>sk_hw := hw1\<rparr>))))"

definition sk_seal :: "'c counter_ops \<Rightarrow> 'm aes_call \<Rightarrow> ccm_star_limits \<Rightarrow> u16 \<Rightarrow> bool \<Rightarrow> bytes \<Rightarrow> ed_packet \<Rightarrow> ('c, 'm) sk_state \<Rightarrow>
    (security_keys_result + bytes) \<times> ('c, 'm) sk_state" where
  "sk_seal ops aes limits polls aps_secure record p st =
     (let slot = active_slot record; n = ep_nwk p; f0 = nwk_flags n AND NOT NWK_FLAG_END_DEVICE_INITIATOR;
          f1 = (if parent_information record \<noteq> 0 then f0 OR NWK_FLAG_END_DEVICE_INITIATOR else f0) in
      case ed_wire_encode (Some (p\<lparr>ep_nwk := n\<lparr>nwk_flags := f1\<rparr>\<rparr>)) True 116 True of Inl e \<Rightarrow> (Inl (crypto_result e), st)
      | Inr a \<Rightarrow>
        (case (if aps_secure then
              (case ed_wire_nwk (Some a) True of Inl e \<Rightarrow> (Inl (crypto_result e), st)
               | Inr i \<Rightarrow>
                 let offset = nfi_payload_offset i in
                 (case sk_protect ops aes ZIGBEE_SECURITY_APS 1 polls (sk_key aes limits record K_LK 0 True (sk_hw st))
                     (take (nfi_payload_length i) (drop offset a)) st of
                   (Inl r, st1) \<Rightarrow> (Inl r, st1)
                 | (Inr b, st1) \<Rightarrow> if offset + length b > 116 then (Inl SECURITY_KEYS_SPACE, st1) else (Inr (take offset a @ b), st1)))
            else (Inr a, st)) of
            (Inl r, st1) \<Rightarrow> (Inl r, st1)
          | (Inr frame, st1) \<Rightarrow>
            (case sk_key aes limits record (K_NK + 16 * slot) 1 True (sk_hw st1) of (Inl r, hw1) \<Rightarrow> (Inl r, st1\<lparr>sk_hw := hw1\<rparr>)
             | (Inr k, hw1) \<Rightarrow> sk_protect ops aes ZIGBEE_SECURITY_NWK 0 polls (Inr (k\<lparr>zk_key_sequence := record ! (K_SEQ + slot)\<rparr>), hw1) frame st1)))"

text \<open>Ends of the sending operations: \<open>publish\<close> and \<open>finish\<close>; the second component is the stored frame.\<close>

definition sk_publish :: "nat \<Rightarrow> bytes \<Rightarrow> ('c, 'm) sk_state \<Rightarrow> security_keys_result \<times> bytes option \<times> ('c, 'm) sk_state" where
  "sk_publish capacity frame st =
     (if capacity < length frame then sk_refuse SECURITY_KEYS_SPACE st
      else (case sk_finish SECURITY_KEYS_OK st of (r, st1) \<Rightarrow> (r, Some frame, st1)))"

definition nwk_header_zero :: nwk_header where
  "nwk_header_zero = \<lparr>nwk_type = 0, nwk_version = 0, nwk_discover_route = 0, nwk_flags = 0, nwk_destination = 0, nwk_source = 0,
     nwk_radius = 0, nwk_sequence = 0, nwk_destination_ieee = replicate 8 0, nwk_source_ieee = replicate 8 0\<rparr>"

definition command_packet :: "u8 \<Rightarrow> u8 \<Rightarrow> bytes \<Rightarrow> bytes \<Rightarrow> ed_packet" where
  "command_packet nwk_seq aps_ctr payload record =
     \<lparr>ep_nwk = nwk_header_zero\<lparr>nwk_version := 2, nwk_source := read_le16 (drop K_ADDR record), nwk_destination := 0, nwk_radius := 1,
        nwk_sequence := nwk_seq\<rparr>,
      ep_aps = aps_header_zero\<lparr>aps_type := ED_APS_COMMAND, aps_counter := aps_ctr\<rparr>,
      ep_length = length payload, ep_payload = store_at 0 payload (replicate ED_PAYLOAD_MAX 0)\<rparr>"

text \<open>Request and Verify: seal, move to the next phase durably, then publish.\<close>

definition sk_advance :: "'c counter_ops \<Rightarrow> u16 \<Rightarrow> u8 \<Rightarrow> nat \<Rightarrow> bytes \<Rightarrow> (security_keys_result + bytes) \<times> ('c, 'm) sk_state \<Rightarrow>
    security_keys_result \<times> bytes option \<times> ('c, 'm) sk_state" where
  "sk_advance ops polls next capacity record sealed =
     (case sealed of (Inl r, st1) \<Rightarrow> sk_refuse r st1
      | (Inr frame, st1) \<Rightarrow>
        (case sk_save ops polls (set_phase next record) st1 of (r, st2) \<Rightarrow>
          if r \<noteq> SECURITY_KEYS_OK then sk_refuse r st2 else sk_publish capacity frame st2))"

definition security_keys_request :: "'c counter_ops \<Rightarrow> 'm aes_call \<Rightarrow> u8 \<Rightarrow> u8 \<Rightarrow> bool \<Rightarrow> nat \<Rightarrow> bool \<Rightarrow> ccm_star_limits option \<Rightarrow> u16 \<Rightarrow>
    ('c, 'm) sk_state \<Rightarrow> security_keys_result \<times> bytes option \<times> ('c, 'm) sk_state" where
  "security_keys_request ops aes nwk_seq aps_ctr out capacity written limits polls st =
     (case sk_load ops st of (Inl r, st1) \<Rightarrow> sk_refuse r st1
      | (Inr record, st1) \<Rightarrow>
        if \<not> out \<or> \<not> written \<or> \<not> limits_ok limits polls then sk_refuse SECURITY_KEYS_ARGUMENT st1
        else if phase_of record - SECURITY_KEYS_RECEIVED > 1 \<and> phase_of record \<noteq> SECURITY_KEYS_VERIFIED then sk_refuse SECURITY_KEYS_CONTEXT st1
        else if capacity < 47 then sk_refuse SECURITY_KEYS_SPACE st1
        else sk_advance ops polls SECURITY_KEYS_REQUESTED capacity record
          (sk_seal ops aes (the limits) polls True record (command_packet nwk_seq aps_ctr [8, 4] record) st1))"

definition security_keys_verify :: "'c counter_ops \<Rightarrow> 'm aes_call \<Rightarrow> u8 \<Rightarrow> u8 \<Rightarrow> bool \<Rightarrow> nat \<Rightarrow> bool \<Rightarrow> ccm_star_limits option \<Rightarrow> u16 \<Rightarrow>
    ('c, 'm) sk_state \<Rightarrow> security_keys_result \<times> bytes option \<times> ('c, 'm) sk_state" where
  "security_keys_verify ops aes nwk_seq aps_ctr out capacity written limits polls st =
     (case sk_load ops st of (Inl r, st1) \<Rightarrow> sk_refuse r st1
      | (Inr record, st1) \<Rightarrow>
        if \<not> out \<or> \<not> written \<or> \<not> limits_ok limits polls then sk_refuse SECURITY_KEYS_ARGUMENT st1
        else if phase_of record - SECURITY_KEYS_PROVISIONAL > 1 then sk_refuse SECURITY_KEYS_CONTEXT st1
        else if capacity < 54 then sk_refuse SECURITY_KEYS_SPACE st1
        else let l = the limits in
        (case zigbee_key_hash aes (Some (take 16 (drop K_PK record))) ZIGBEE_HASH_VERIFY True (block_timeout l) (block_polls l) True (sk_hw st1) of
          (r, digest, _, hw1) \<Rightarrow>
          let st2 = st1\<lparr>sk_hw := hw1\<rparr> in
          if r \<noteq> ZIGBEE_MMO_OK then sk_refuse SECURITY_KEYS_CRYPTO st2
          else sk_advance ops polls SECURITY_KEYS_WAIT_CONFIRM capacity record
            (sk_seal ops aes l polls False record
              (command_packet nwk_seq aps_ctr ([15, 4] @ take 8 (drop K_OWN record) @ take 16 digest) record) st2)))"

definition leave_packet :: "u8 \<Rightarrow> bytes \<Rightarrow> ed_packet" where
  "leave_packet nwk_seq record =
     \<lparr>ep_nwk = nwk_header_zero\<lparr>nwk_type := ED_NWK_COMMAND, nwk_version := 2, nwk_source := read_le16 (drop K_ADDR record),
        nwk_destination := 0xfffd, nwk_flags := NWK_FLAG_SOURCE_IEEE, nwk_radius := 1, nwk_sequence := nwk_seq,
        nwk_source_ieee := take 8 (drop K_OWN record)\<rparr>,
      ep_aps = aps_header_zero, ep_length = 2, ep_payload = store_at 0 [4, 0] (replicate ED_PAYLOAD_MAX 0)\<rparr>"

definition security_keys_leave :: "'c counter_ops \<Rightarrow> 'm aes_call \<Rightarrow> u8 \<Rightarrow> bool \<Rightarrow> nat \<Rightarrow> bool \<Rightarrow> ccm_star_limits option \<Rightarrow> u16 \<Rightarrow>
    ('c, 'm) sk_state \<Rightarrow> security_keys_result \<times> bytes option \<times> ('c, 'm) sk_state" where
  "security_keys_leave ops aes nwk_seq out capacity written limits polls st =
     (case sk_load ops st of (Inl r, st1) \<Rightarrow> sk_refuse r st1
      | (Inr record, st1) \<Rightarrow>
        if \<not> out \<or> \<not> written \<or> \<not> limits_ok limits polls then sk_refuse SECURITY_KEYS_ARGUMENT st1
        else if sk_network record \<and> capacity < 36 then sk_refuse SECURITY_KEYS_SPACE st1
        else (case (if sk_network record then sk_seal ops aes (the limits) polls False record (leave_packet nwk_seq record) st1
              else (Inr [], st1)) of
            (Inl r, st2) \<Rightarrow> sk_refuse r st2
          | (Inr frame, st2) \<Rightarrow>
            (case sk_save ops polls (sk_set_rejoin False (set_phase SECURITY_KEYS_LEFT record)) st2 of (r, st3) \<Rightarrow>
              if r \<noteq> SECURITY_KEYS_OK then sk_refuse r st3
              else if sk_network record then sk_publish capacity frame st3
              else (case sk_finish SECURITY_KEYS_OK st3 of (r1, st4) \<Rightarrow> (r1, Some [], st4)))))"

definition sk_send_addressed :: "nwk_header \<Rightarrow> bytes \<Rightarrow> bool" where
  "sk_send_addressed n record \<longleftrightarrow> nwk_source n = read_le16 (drop K_ADDR record) \<and>
     (nwk_destination n = 0 \<or> outbound_broadcast (nwk_destination n)) \<and>
     (nwk_flags n AND NWK_FLAG_SOURCE_IEEE \<noteq> 0 \<longrightarrow> sk_same (nwk_source_ieee n) (drop K_OWN record) 8) \<and>
     (nwk_flags n AND NWK_FLAG_DESTINATION_IEEE \<noteq> 0 \<longrightarrow> sk_same (nwk_destination_ieee n) (drop K_TC record) 8)"

text \<open>The checks of an outgoing packet; the result is the phase it leads to, 0 for none.\<close>

definition sk_send_check :: "ed_packet \<Rightarrow> u8 \<Rightarrow> bytes \<Rightarrow> security_keys_result + u8" where
  "sk_send_check p aps_secure record =
     (let n = ep_nwk p; b = ep_payload p in
      if nwk_type n = ED_NWK_COMMAND then
        (if aps_secure \<noteq> 0 \<or> nwk_radius n \<noteq> 1 then Inl SECURITY_KEYS_UNSUPPORTED
         else if b ! 0 = 6 then
           (if \<not> sk_verified record \<or> ep_length p \<noteq> 2 \<or> b ! 1 AND NOT 0x0c \<noteq> 0 \<or> nwk_destination n \<noteq> 0 \<or>
              nwk_flags n AND BOTH_IEEE \<noteq> BOTH_IEEE then Inl SECURITY_KEYS_UNSUPPORTED
            else if record ! K_FLAGS AND KF_RETIRED = 0 \<and> \<not> sk_all (drop K_PK record) 16 0 then Inl SECURITY_KEYS_CONTEXT
            else if phase_of record \<noteq> SECURITY_KEYS_VERIFIED \<and> phase_of record \<noteq> SECURITY_KEYS_REJOINING \<and>
              \<not> (phase_of record = SECURITY_KEYS_LEFT \<and> record ! K_FLAGS AND KF_REJOIN \<noteq> 0) then Inl SECURITY_KEYS_CONTEXT
            else Inr SECURITY_KEYS_REJOINING)
         else if b ! 0 = 4 then
           (if ep_length p \<noteq> 2 \<or> b ! 1 AND NOT 0x20 \<noteq> 0 \<or> nwk_destination n \<noteq> 0xfffd \<or> nwk_flags n AND NWK_FLAG_SOURCE_IEEE = 0 \<or>
              nwk_flags n AND NWK_FLAG_DESTINATION_IEEE \<noteq> 0 then Inl SECURITY_KEYS_UNSUPPORTED
            else Inr SECURITY_KEYS_LEFT)
         else if b ! 0 \<noteq> 11 \<or> ep_length p \<noteq> 3 \<or> b ! 1 > 14 \<or> b ! 2 \<noteq> 0 \<or> nwk_destination n \<noteq> 0 \<or>
           nwk_flags n AND BOTH_IEEE \<noteq> BOTH_IEEE then Inl SECURITY_KEYS_UNSUPPORTED
         else Inr 0)
      else if aps_type (ep_aps p) = ED_APS_COMMAND then Inl SECURITY_KEYS_UNSUPPORTED
      else if \<not> aps_addressing True p then Inl SECURITY_KEYS_IDENTITY
      else if \<not> sk_verified record \<and> \<not> join_management p then Inl SECURITY_KEYS_CONTEXT
      else if aps_secure \<noteq> 0 \<and> nwk_destination n \<noteq> 0 then Inl SECURITY_KEYS_UNSUPPORTED
      else Inr 0)"

text \<open>After sealing: the durable transition or the lazy timeout mark, then publication.\<close>

definition sk_send_record :: "u8 \<Rightarrow> ed_packet \<Rightarrow> bytes \<Rightarrow> bytes" where
  "sk_send_record transition p record =
     (let r1 = set_phase transition record in
      if transition = SECURITY_KEYS_LEFT then sk_set_rejoin (ep_payload p ! 1 AND 0x20 \<noteq> 0) r1 else r1)"

definition sk_sent :: "'c counter_ops \<Rightarrow> u16 \<Rightarrow> u8 \<Rightarrow> ed_packet \<Rightarrow> nat \<Rightarrow> bytes \<Rightarrow> bytes \<Rightarrow> ('c, 'm) sk_state \<Rightarrow>
    security_keys_result \<times> bytes option \<times> ('c, 'm) sk_state" where
  "sk_sent ops polls transition p capacity frame record st =
     (if capacity < length frame then sk_refuse SECURITY_KEYS_SPACE st
      else let record1 = (if transition \<noteq> 0 then sk_send_record transition p record else record) in
      (case (if transition \<noteq> 0 then sk_save ops polls record1 st else (SECURITY_KEYS_OK, st)) of (r, st1) \<Rightarrow>
        if r \<noteq> SECURITY_KEYS_OK then sk_refuse r st1
        else let st2 = (if nwk_type (ep_nwk p) = ED_NWK_COMMAND \<and> ep_payload p ! 0 = 11
            then keep_volatile (record1[K_PHASE := record1 ! K_PHASE OR TIMEOUT_PENDING]) st1 else st1) in
          sk_publish capacity frame st2))"

definition security_keys_send :: "'c counter_ops \<Rightarrow> 'm aes_call \<Rightarrow> ed_packet option \<Rightarrow> u8 \<Rightarrow> bool \<Rightarrow> nat \<Rightarrow> bool \<Rightarrow> ccm_star_limits option \<Rightarrow> u16 \<Rightarrow>
    ('c, 'm) sk_state \<Rightarrow> security_keys_result \<times> bytes option \<times> ('c, 'm) sk_state" where
  "security_keys_send ops aes packet aps_secure out capacity written limits polls st =
     (case sk_load ops st of (Inl r, st1) \<Rightarrow> sk_refuse r st1
      | (Inr record, st1) \<Rightarrow>
        (case packet of None \<Rightarrow> sk_refuse SECURITY_KEYS_ARGUMENT st1 | Some p \<Rightarrow>
        if \<not> out \<or> \<not> written \<or> aps_secure > 1 \<or> \<not> limits_ok limits polls then sk_refuse SECURITY_KEYS_ARGUMENT st1
        else if \<not> sk_network record then sk_refuse SECURITY_KEYS_STATE st1
        else if \<not> sk_send_addressed (ep_nwk p) record then sk_refuse SECURITY_KEYS_IDENTITY st1
        else (case sk_send_check p aps_secure record of Inl r \<Rightarrow> sk_refuse r st1
          | Inr transition \<Rightarrow>
            if (phase_of record = SECURITY_KEYS_LEFT \<or> phase_of record = SECURITY_KEYS_REJOINING) \<and> transition = 0
              then sk_refuse SECURITY_KEYS_STATE st1
            else let record1 = (if transition = SECURITY_KEYS_REJOINING
                then record[K_PHASE := record ! K_PHASE AND NOT (PARENT_MASK OR TIMEOUT_PENDING)] else record) in
            (case sk_seal ops aes (the limits) polls (aps_secure \<noteq> 0) record1 p st1 of (Inl r, st2) \<Rightarrow> sk_refuse r st2
             | (Inr frame, st2) \<Rightarrow> sk_sent ops polls transition p capacity frame record1 st2))))"

section \<open>Status\<close>

definition sk_config_of :: "bytes \<Rightarrow> security_keys_config" where
  "sk_config_of record = \<lparr>skc_own_ieee = take 8 (drop K_OWN record), skc_tc_ieee = take 8 (drop K_TC record),
     skc_extended_pan = take 8 (drop K_EP record), skc_pan = read_le16 (drop K_PAN record), skc_address = read_le16 (drop K_ADDR record),
     skc_channel = record ! K_CHANNEL, skc_update_id = record ! K_UPDATE\<rparr>"

definition sk_config_zero :: security_keys_config where
  "sk_config_zero = \<lparr>skc_own_ieee = replicate 8 0, skc_tc_ieee = replicate 8 0, skc_extended_pan = replicate 8 0, skc_pan = 0,
     skc_address = 0, skc_channel = 0, skc_update_id = 0\<rparr>"

definition security_keys_status :: "'c counter_ops \<Rightarrow> bool \<Rightarrow> ('c, 'm) sk_state \<Rightarrow>
    security_keys_result \<times> security_keys_status_t option \<times> ('c, 'm) sk_state" where
  "security_keys_status ops out st =
     (let prior = sk_result st in
      if \<not> out then sk_refuse SECURITY_KEYS_ARGUMENT st
      else if sk_phase st < SECURITY_KEYS_PROVISIONED \<or> sk_phase st = SECURITY_KEYS_FAILED then
        (case sk_finish SECURITY_KEYS_OK st of (r, st1) \<Rightarrow>
          (r, Some \<lparr>sks_config = sk_config_zero, sks_phase = sk_phase st, sks_active_sequence = 0, sks_slot_valid = 0, sks_newer_pending = False,
            sks_parent_information = 0, sks_timeout_pending = False, sks_result = prior\<rparr>, st1))
      else (case sk_load ops st of (Inl r, st1) \<Rightarrow> sk_refuse r st1
        | (Inr record, st1) \<Rightarrow>
          (case sk_finish SECURITY_KEYS_OK st1 of (r, st2) \<Rightarrow>
            (r, Some \<lparr>sks_config = sk_config_of record, sks_phase = sk_phase st1, sks_active_sequence = record ! (K_SEQ + active_slot record),
              sks_slot_valid = record ! K_FLAGS AND 3, sks_newer_pending = (record ! K_FLAGS AND KF_NEWER \<noteq> 0),
              sks_parent_information = parent_information record, sks_timeout_pending = (record ! K_PHASE AND TIMEOUT_PENDING \<noteq> 0),
              sks_result = prior\<rparr>, st2))))"

text \<open>The statics after reset.\<close>

definition sk_boot :: "'c \<Rightarrow> 'm \<Rightarrow> ('c, 'm) sk_state" where
  "sk_boot c hw = \<lparr>sk_phase = SECURITY_KEYS_COLD, sk_result = SECURITY_KEYS_OK, sk_floor_cache = replicate 8 0, sk_phase_cache = 0,
     sk_counter = c, sk_hw = hw\<rparr>"

end
