(* ===== verification/Key_Record.thy ===== *)
theory Key_Record
  imports Security_Keys
begin

text \<open>
  The record of the key store as a collection of fields: what a store into one field does to the
  others, and the validity check \<open>valid_record\<close> on fields. The check is shown to be kept by every
  change the key store makes.
\<close>

section \<open>Fields\<close>

definition fld :: "nat \<Rightarrow> nat \<Rightarrow> bytes \<Rightarrow> bytes" where
  "fld off n r = take n (drop off r)"

lemma length_fld [simp]: "off + n \<le> length r \<Longrightarrow> length (fld off n r) = n"
  by (simp add: fld_def)

lemma fld_store_same: "length b = n \<Longrightarrow> off \<le> length r \<Longrightarrow> fld off n (store_at off b r) = b"
  by (simp add: fld_def store_at_def)

lemma fld_store_other:
  "off + n \<le> p \<or> p + length b \<le> off \<Longrightarrow> p + length b \<le> length r \<Longrightarrow> fld off n (store_at p b r) = fld off n r"
  by (auto simp: fld_def store_at_def drop_append take_append intro!: nth_equalityI simp: nth_append nth_drop nth_take)

lemma fld_update: "i < off \<or> off + n \<le> i \<Longrightarrow> fld off n (r[i := v]) = fld off n r"
  by (auto simp: fld_def take_update_cancel drop_update_swap)

lemma nth_store_other: "i < p \<or> p + length b \<le> i \<Longrightarrow> p + length b \<le> length r \<Longrightarrow> i < length r \<Longrightarrow> store_at p b r ! i = r ! i"
  by (auto simp: nth_store_at)

lemma read_fld: "off + 2 \<le> length r \<Longrightarrow> read_le16 (drop off r) = read_le16 (fld off 2 r)"
  by (simp add: fld_def read_le16_def)

lemma decode_fld: "decode32 (drop off r) = decode32 (fld off 4 r)"
  by (simp add: fld_def decode32_def)

lemma sk_same_iff:
  assumes "n \<le> length a" "n \<le> length b"
  shows "sk_same a b n \<longleftrightarrow> take n a = take n b"
proof -
  have "foldl (\<lambda>d i. d OR (a ! i XOR b ! i)) 0 [0..<n] = foldl (OR) 0 (map (\<lambda>i. a ! i XOR b ! i) [0..<n])"
    by (simp add: foldl_map)
  moreover have "(\<forall>i < n. a ! i XOR b ! i = 0) \<longleftrightarrow> (\<forall>i < n. a ! i = b ! i)"
    by (metis xor_cancel xor_self_eq)
  ultimately show ?thesis unfolding sk_same_def using assms
    by (auto simp: foldl_or_zero list_eq_iff_nth_eq)
qed

lemma sk_all_iff:
  assumes "n \<le> length a"
  shows "sk_all a n v \<longleftrightarrow> take n a = replicate n v"
proof -
  have "sk_all a n v = sk_same a (replicate n v) n"
    unfolding sk_all_def sk_same_def by (intro arg_cong [of _ _ "\<lambda>x. x = 0"] foldl_cong) auto
  with sk_same_iff [of n a "replicate n v"] assms show ?thesis by simp
qed

lemma sk_same_fld: "o1 + n \<le> length r \<Longrightarrow> o2 + n \<le> length r \<Longrightarrow> sk_same (drop o1 r) (drop o2 r) n \<longleftrightarrow> fld o1 n r = fld o2 n r"
  by (simp add: sk_same_iff fld_def)

lemma sk_all_fld: "off + n \<le> length r \<Longrightarrow> sk_all (drop off r) n v \<longleftrightarrow> fld off n r = replicate n v"
  by (simp add: sk_all_iff fld_def)

lemma fld_split: "fld off (n + m) r = fld off n r @ fld (off + n) m r"
  unfolding fld_def take_add drop_drop by (simp only: add.commute [of off])

lemma fld_zero_split: "off + n + m \<le> length r \<Longrightarrow>
    fld off (n + m) r = replicate (n + m) v \<longleftrightarrow> fld off n r = replicate n v \<and> fld (off + n) m r = replicate m v"
  by (simp add: fld_split replicate_add)

section \<open>Flag bits\<close>

lemma and_bits [simp]:
  "(x :: u8) AND 1 = 0 \<longleftrightarrow> \<not> bit x 0" "x AND 2 = 0 \<longleftrightarrow> \<not> bit x 1" "x AND 4 = 0 \<longleftrightarrow> \<not> bit x 2" "x AND 8 = 0 \<longleftrightarrow> \<not> bit x 3"
  "x AND 16 = 0 \<longleftrightarrow> \<not> bit x 4" "x AND 32 = 0 \<longleftrightarrow> \<not> bit x 5" "x AND 64 = 0 \<longleftrightarrow> \<not> bit x 6" "x AND 128 = 0 \<longleftrightarrow> \<not> bit x 7"
  using and_exp_eq_0_iff_not_bit [of x 0] and_exp_eq_0_iff_not_bit [of x 1] and_exp_eq_0_iff_not_bit [of x 2] and_exp_eq_0_iff_not_bit [of x 3]
    and_exp_eq_0_iff_not_bit [of x 4] and_exp_eq_0_iff_not_bit [of x 5] and_exp_eq_0_iff_not_bit [of x 6] and_exp_eq_0_iff_not_bit [of x 7]
  by simp_all

lemma byte_bits: "(x :: u8) = 0 \<longleftrightarrow> \<not> bit x 0 \<and> \<not> bit x 1 \<and> \<not> bit x 2 \<and> \<not> bit x 3 \<and> \<not> bit x 4 \<and> \<not> bit x 5 \<and> \<not> bit x 6 \<and> \<not> bit x 7"
proof
  assume "\<not> bit x 0 \<and> \<not> bit x 1 \<and> \<not> bit x 2 \<and> \<not> bit x 3 \<and> \<not> bit x 4 \<and> \<not> bit x 5 \<and> \<not> bit x 6 \<and> \<not> bit x 7"
  then have "\<not> bit x n" if "n < 8" for n
    using that by (auto simp: less_Suc_eq numeral_eq_Suc)
  then show "x = 0" by (intro bit_word_eqI) simp
qed auto

section \<open>The validity check on fields\<close>

abbreviation zeros :: "nat \<Rightarrow> bytes" where "zeros n \<equiv> replicate n 0"

definition config_ok :: "bytes \<Rightarrow> bytes \<Rightarrow> bytes \<Rightarrow> u16 \<Rightarrow> u16 \<Rightarrow> u8 \<Rightarrow> bool" where
  "config_ok own tc ep pan addr ch \<longleftrightarrow> own \<notin> {zeros 8, replicate 8 255} \<and> tc \<notin> {zeros 8, replicate 8 255} \<and> own \<noteq> tc \<and>
     ep \<notin> {zeros 8, replicate 8 255} \<and> pan \<noteq> 0xffff \<and> addr \<noteq> 0 \<and> (addr < 0xfff8 \<or> addr = 0xffff) \<and> 11 \<le> ch \<and> ch \<le> 26"

definition slot_ok :: "bool \<Rightarrow> bytes \<Rightarrow> bytes \<Rightarrow> bytes \<Rightarrow> u32 \<Rightarrow> u8 \<Rightarrow> bool" where
  "slot_ok valid nk lk pk nf sq \<longleftrightarrow> (if valid then nk \<noteq> zeros 16 \<and> nk \<noteq> lk \<and> nk \<noteq> pk else nk = zeros 16 \<and> nf = 0 \<and> sq = 0)"

definition slots_ok :: "u8 \<Rightarrow> u8 \<Rightarrow> u8 \<Rightarrow> bytes \<Rightarrow> bytes \<Rightarrow> bytes \<Rightarrow> bytes \<Rightarrow> u32 \<Rightarrow> u32 \<Rightarrow> bool" where
  "slots_ok f sq0 sq1 nk0 nk1 lk pk nf0 nf1 \<longleftrightarrow> (if bit f 2 then bit f 1 else bit f 0) \<and> (bit f 3 \<longrightarrow> bit f 0 \<and> bit f 1) \<and>
     (bit f 0 \<and> bit f 1 \<longrightarrow> sq0 \<noteq> sq1 \<and> nk0 \<noteq> nk1) \<and> slot_ok (bit f 0) nk0 lk pk nf0 sq0 \<and> slot_ok (bit f 1) nk1 lk pk nf1 sq1"

definition link_ok :: "u8 \<Rightarrow> bool \<Rightarrow> bool \<Rightarrow> bytes \<Rightarrow> bytes \<Rightarrow> bool" where
  "link_ok p retired ver pk lk \<longleftrightarrow>
     (if p = 6 \<or> p = 7 \<or> (p = 9 \<and> \<not> retired \<and> pk \<noteq> zeros 16) then \<not> retired \<and> pk \<noteq> zeros 16 \<and> pk \<noteq> lk
      else if retired then ver \<and> pk \<noteq> zeros 16 \<and> pk \<noteq> lk else pk = zeros 16)"

definition phase_ok :: "u8 \<Rightarrow> bool \<Rightarrow> bool \<Rightarrow> bool \<Rightarrow> bool" where
  "phase_ok p ver rejoin timeout \<longleftrightarrow> (p = 8 \<longrightarrow> ver) \<and> (ver \<longrightarrow> 5 \<le> p) \<and> (rejoin \<longrightarrow> p = 9 \<or> p = 10) \<and> (p = 10 \<longrightarrow> ver) \<and>
     (timeout \<longrightarrow> p \<noteq> 9 \<and> p \<noteq> 10)"

definition bare_ok :: "bytes \<Rightarrow> bool" where
  "bare_ok r \<longleftrightarrow> r ! 108 = 0 \<and> fld 16 16 r = zeros 16 \<and> fld 32 16 r = zeros 16 \<and> fld 64 16 r = zeros 16 \<and> fld 80 8 r = zeros 8 \<and>
     r ! 106 = 0 \<and> r ! 107 = 0 \<and> r ! 109 AND 0xf0 = 0"

definition is_bare :: "u8 \<Rightarrow> u8 \<Rightarrow> bool" where
  "is_bare p f \<longleftrightarrow> p \<le> 3 \<or> (p = 9 \<and> \<not> bit f 0 \<and> \<not> bit f 1)"

lemma and_3: "(x :: u8) AND 3 = 0 \<longleftrightarrow> \<not> bit x 0 \<and> \<not> bit x 1" "x AND 3 = 3 \<longleftrightarrow> bit x 0 \<and> bit x 1"
proof -
  have c: "x AND 3 = 3 \<longleftrightarrow> (\<forall>n < 8. bit (3 :: u8) n \<longrightarrow> bit x n)" "x AND 3 = 0 \<longleftrightarrow> (\<forall>n < 8. bit (3 :: u8) n \<longrightarrow> \<not> bit x n)"
    by (auto simp: bit_eq_iff bit_simps)
  have b: "bit (3 :: u8) n \<longleftrightarrow> n = 0 \<or> n = 1" if "n < 8" for n
    using that by (cases n) (auto simp: bit_Suc bit_1_iff)
  have "(\<forall>n < 8. bit (3 :: u8) n \<longrightarrow> P n) \<longleftrightarrow> P 0 \<and> P 1" for P :: "nat \<Rightarrow> bool"
    using b by (metis one_less_numeral_iff semiring_norm(76) zero_less_numeral)
  from this [of "bit x"] this [of "\<lambda>n. \<not> bit x n"] c show "x AND 3 = 0 \<longleftrightarrow> \<not> bit x 0 \<and> \<not> bit x 1" "x AND 3 = 3 \<longleftrightarrow> bit x 0 \<and> bit x 1"
    by blast+
qed

lemma slot_bit_simps [simp]: "slot_bit 0 = 1" "slot_bit (Suc 0) = 2" "slot_bit 1 = 2"
  by (simp_all add: slot_bit_def)

lemma valid_slot_fld:
  assumes "length r = 112" "i < 2"
  shows "valid_slot r i \<longleftrightarrow> slot_ok (bit (r ! 108) i) (fld (16 + 16 * i) 16 r) (fld 48 16 r) (fld 64 16 r) (decode32 (fld (80 + 4 * i) 4 r)) (r ! (106 + i))"
  using assms by (auto simp: valid_slot_def slot_ok_def sk_all_fld sk_same_fld decode_fld less_2_cases_iff)

lemma valid_slots_fld:
  assumes "length r = 112"
  shows "valid_slots r \<longleftrightarrow> slots_ok (r ! 108) (r ! 106) (r ! 107) (fld 16 16 r) (fld 32 16 r) (fld 48 16 r) (fld 64 16 r)
    (decode32 (fld 80 4 r)) (decode32 (fld 84 4 r))"
  using assms by (auto simp: valid_slots_def slots_ok_def valid_slot_fld active_slot_def and_3 sk_same_fld)

lemma valid_no_network_fld:
  assumes "length r = 112"
  shows "valid_no_network r \<longleftrightarrow> bare_ok r"
  using assms fld_zero_split [of 16 16 16 r 0] fld_zero_split [of 64 16 8 r 0]
  by (auto simp: valid_no_network_def bare_ok_def sk_all_fld)

lemma valid_config_fld:
  assumes "length r = 112"
  shows "valid_config r \<longleftrightarrow> config_ok (fld 0 8 r) (fld 8 8 r) (fld 92 8 r) (read_le16 (fld 100 2 r)) (read_le16 (fld 102 2 r)) (r ! 104)"
  unfolding valid_config_def config_ok_def sk_identity_def Let_def
  using assms sk_all_fld [of 0 8 r] sk_same_fld [of 0 8 r 8] by (auto simp: sk_all_fld read_fld)

lemma valid_link_fld:
  assumes "length r = 112"
  shows "valid_link r \<longleftrightarrow> link_ok (phase_of r) (bit (r ! 108) 4) (bit (r ! 108) 5) (fld 64 16 r) (fld 48 16 r)"
  using assms by (auto simp: valid_link_def link_ok_def sk_all_fld sk_same_fld sk_verified_def Let_def)

lemma valid_record_fld:
  assumes "length r = 112"
  shows "valid_record sz r \<longleftrightarrow> sz = 112 \<and> r ! 110 = 0x4b \<and> r ! 111 = 2 \<and>
     config_ok (fld 0 8 r) (fld 8 8 r) (fld 92 8 r) (read_le16 (fld 100 2 r)) (read_le16 (fld 102 2 r)) (r ! 104) \<and>
     \<not> bit (r ! 108) 7 \<and> 2 \<le> phase_of r \<and> phase_of r \<le> 10 \<and> fld 48 16 r \<noteq> zeros 16 \<and>
     (if is_bare (phase_of r) (r ! 108) then bare_ok r
      else slots_ok (r ! 108) (r ! 106) (r ! 107) (fld 16 16 r) (fld 32 16 r) (fld 48 16 r) (fld 64 16 r) (decode32 (fld 80 4 r)) (decode32 (fld 84 4 r))) \<and>
     (phase_of r = 2 \<or> (phase_of r = 9 \<and> \<not> bit (r ! 108) 0 \<and> \<not> bit (r ! 108) 1) \<or> read_le16 (fld 102 2 r) \<noteq> 0xffff) \<and>
     link_ok (phase_of r) (bit (r ! 108) 4) (bit (r ! 108) 5) (fld 64 16 r) (fld 48 16 r) \<and>
     phase_ok (phase_of r) (bit (r ! 108) 5) (bit (r ! 108) 6) (bit (r ! 109) 7)"
  using assms valid_config_fld [OF assms] valid_link_fld [OF assms] valid_slots_fld [OF assms] valid_no_network_fld [OF assms]
  unfolding valid_record_def Let_def is_bare_def phase_ok_def sk_network_def sk_verified_def
  by (simp add: and_3 sk_all_fld read_fld)

section \<open>The phase octet\<close>

definition phase_byte :: "u8 \<Rightarrow> u8 \<Rightarrow> u8" where
  "phase_byte v x =
     (if v \<le> 3 then v
      else let p0 = (x AND NOT 0x0f) OR v; p1 = (if v = 10 then p0 AND NOT 0x70 else p0) in
        if v = 9 \<or> v = 10 then p1 AND NOT 0x80 else p1)"

lemma set_phase_eq: "set_phase v r = r[109 := phase_byte v (r ! 109)]"
  by (simp add: set_phase_def phase_byte_def Let_def)

lemma low_nibble:
  "((x AND NOT 15) OR v) AND 15 = v AND (15 :: u8)" "(x AND NOT 128) AND 15 = x AND (15 :: u8)" "(x AND NOT 112) AND 15 = x AND (15 :: u8)"
  "((x AND NOT 112) OR push_bit 4 v) AND 15 = x AND (15 :: u8)"
proof -
  show "((x AND NOT 15) OR v) AND 15 = v AND (15 :: u8)" by (rule bit_word_eqI) (auto simp: bit_simps)
  show a: "(x AND NOT 128) AND 15 = x AND (15 :: u8)" "(x AND NOT 112) AND 15 = x AND (15 :: u8)" by (simp_all add: and.assoc)
  have "push_bit 4 v AND (15 :: u8) = push_bit 4 v AND mask 4" by (simp add: mask_eq_exp_minus_1)
  also have "\<dots> = 0" by (rule bit_word_eqI) (auto simp: bit_simps)
  finally have z: "push_bit 4 v AND (15 :: u8) = 0" .
  show "((x AND NOT 112) OR push_bit 4 v) AND 15 = x AND (15 :: u8)" unfolding bit.conj_disj_distrib2 a z by simp
qed

lemma phase_byte_low: "v AND 15 = v \<Longrightarrow> phase_byte v x AND 15 = v"
  unfolding phase_byte_def Let_def by (simp only: low_nibble split: if_split) simp

lemma phase_byte_timeout:
  assumes "v AND 15 = v"
  shows "bit (phase_byte v x) 7 \<longleftrightarrow> \<not> v \<le> 3 \<and> v \<noteq> 9 \<and> v \<noteq> 10 \<and> bit x 7"
proof -
  have "\<not> bit (v AND 15) 7" by (simp add: bit_simps)
  then have "\<not> bit v 7" using assms by simp
  then show ?thesis by (auto simp: phase_byte_def Let_def bit_simps)
qed

lemma nibbles: "(x :: u8) AND 0xf0 = 0 \<longleftrightarrow> x AND 15 = x"
proof -
  have all: "(15 :: u8) OR 0xf0 = -1" by simp
  have "x = x AND (15 OR 0xf0)" unfolding all by simp
  then have x: "x = (x AND 15) OR (x AND 0xf0)" unfolding bit.conj_disj_distrib .
  have "(x AND 15) AND 0xf0 = 0" by (simp add: and.assoc)
  with x show ?thesis by (metis or.right_neutral)
qed

lemma phase_byte_high:
  assumes "v AND 15 = v" "x AND 0xf0 = 0"
  shows "phase_byte v x AND 0xf0 = 0"
proof -
  have x: "x AND NOT 15 = 0" using assms(2) unfolding nibbles by (metis and.assoc and_zero_eq bit.conj_cancel_right)
  have v: "v AND 0xf0 = 0" using assms(1) by (simp only: nibbles)
  have m: "(v AND k) AND 0xf0 = 0" for k using v by (metis and.assoc and.commute and_zero_eq)
  show ?thesis unfolding phase_byte_def Let_def x using v m by (simp add: and.assoc split: if_split)
qed

end
