(* ===== verification/Key_Steps.thy ===== *)
theory Key_Steps
  imports Key_Record
begin

text \<open>
  The changes the key store makes to its record, as a step relation with the guards of the code,
  and the two facts every step has: a valid record stays valid, and the replay floor of a
  network key that stays in its slot does not fall.
\<close>

section \<open>The steps\<close>

inductive key_step :: "bytes \<Rightarrow> bytes \<Rightarrow> bool" where
  Associate: "phase_of r = 2 \<Longrightarrow> a \<noteq> 0 \<Longrightarrow> a < 0xfff8 \<Longrightarrow> key_step r (set_phase 3 (store_at 102 (write_le16 a) r))"
| Nwk_floor: "i < 2 \<Longrightarrow> bit (r ! 108) i \<Longrightarrow> decode32 (fld (80 + 4 * i) 4 r) \<le> c \<Longrightarrow> c \<noteq> 0xffffffff \<Longrightarrow>
    key_step r (store_at (80 + 4 * i) (encode32 (c + 1)) r)"
| Aps_floor: "decode32 (fld 88 4 r) \<le> c \<Longrightarrow> c \<noteq> 0xffffffff \<Longrightarrow> key_step r (store_at 88 (encode32 (c + 1)) r)"
| Adopt: "bit (r ! 108) 3 \<Longrightarrow> key_step r (sk_adopt (1 - active_slot r) r)"
| First_key: "phase_of r = 3 \<Longrightarrow> length m = 16 \<Longrightarrow> \<not> sk_reused m r \<Longrightarrow>
    key_step r (store_network_key 0 m s (set_phase 4 (r[108 := 1])))"
| Next_key: "sk_network r \<Longrightarrow> sk_verified r \<Longrightarrow> sk_find_slot s r = 2 \<Longrightarrow> length m = 16 \<Longrightarrow> \<not> sk_reused m r \<Longrightarrow>
    key_step r (store_network_key (1 - active_slot r) m s (r[108 := r ! 108 OR (slot_bit (1 - active_slot r) OR 8)]))"
| Tc_key: "phase_of r = 5 \<Longrightarrow> length m = 16 \<Longrightarrow> \<not> sk_reused m r \<Longrightarrow>
    key_step r (set_phase 6 ((store_at 64 m r)[108 := store_at 64 m r ! 108 AND NOT 16]))"
| Confirm: "phase_of r = 7 \<Longrightarrow> key_step r (sk_confirm_record c r)"
| Leave: "sk_network r \<or> \<not> b \<Longrightarrow> key_step r (sk_set_rejoin b (set_phase 9 r))"
| Update: "length pan = 2 \<Longrightarrow> read_le16 pan \<noteq> 0xffff \<Longrightarrow> key_step r (store_at 100 pan (r[105 := u]))"
| Rejoined: "phase_of r = 10 \<Longrightarrow> length a = 2 \<Longrightarrow> read_le16 a \<noteq> 0 \<Longrightarrow> read_le16 a < 0xfff8 \<Longrightarrow>
    key_step r (sk_set_rejoin False (set_phase 8 (store_at 102 a r)))"
| Timeout_answer: "bit (r ! 109) 7 \<Longrightarrow> p1 = r ! 109 AND NOT 0x80 \<Longrightarrow> v \<in> {p1, (p1 AND NOT 0x70) OR push_bit 4 (x AND 7)} \<Longrightarrow>
    key_step r (r[109 := v])"
| Timeout_request: "sk_network r \<Longrightarrow> phase_of r \<noteq> 9 \<Longrightarrow> phase_of r \<noteq> 10 \<Longrightarrow> key_step r (r[109 := r ! 109 OR 0x80])"
| Request: "phase_of r \<in> {4, 5, 8} \<Longrightarrow> key_step r (set_phase 5 r)"
| Verify: "phase_of r \<in> {6, 7} \<Longrightarrow> key_step r (set_phase 7 r)"
| Rejoin: "sk_network r \<Longrightarrow> sk_verified r \<Longrightarrow> bit (r ! 108) 4 \<or> fld 64 16 r = zeros 16 \<Longrightarrow>
    phase_of r \<in> {8, 10} \<or> (phase_of r = 9 \<and> bit (r ! 108) 6) \<Longrightarrow>
    key_step r (set_phase 10 (r[109 := r ! 109 AND NOT 0xf0]))"

lemmas key_record_defs = set_phase_eq sk_adopt_def store_network_key_def sk_confirm_record_def sk_set_rejoin_def Let_def

lemma key_step_length: "key_step r r' \<Longrightarrow> length r = 112 \<Longrightarrow> length r' = 112"
  by (induction rule: key_step.induct) (simp_all add: key_record_defs)

section \<open>Validity\<close>

lemmas fld_simps = fld_store_same fld_store_other fld_update nth_store_other nth_list_update key_record_defs

definition fields_ok :: "bytes \<Rightarrow> bytes \<Rightarrow> bytes \<Rightarrow> u16 \<Rightarrow> u16 \<Rightarrow> u8 \<Rightarrow> u8 \<Rightarrow> u8 \<Rightarrow> u8 \<Rightarrow> bytes \<Rightarrow> bytes \<Rightarrow> bytes \<Rightarrow> bytes \<Rightarrow> u32 \<Rightarrow> u32 \<Rightarrow>
    u8 \<Rightarrow> u8 \<Rightarrow> bool" where
  "fields_ok own tc ep pan addr ch f sq0 sq1 nk0 nk1 lk pk nf0 nf1 p hi \<longleftrightarrow>
     config_ok own tc ep pan addr ch \<and> \<not> bit f 7 \<and> 2 \<le> p \<and> p \<le> 10 \<and> lk \<noteq> zeros 16 \<and>
     (if is_bare p f then f = 0 \<and> nk0 = zeros 16 \<and> nk1 = zeros 16 \<and> pk = zeros 16 \<and> nf0 = 0 \<and> nf1 = 0 \<and> sq0 = 0 \<and> sq1 = 0 \<and> hi = 0
      else slots_ok f sq0 sq1 nk0 nk1 lk pk nf0 nf1) \<and>
     (p = 2 \<or> (p = 9 \<and> \<not> bit f 0 \<and> \<not> bit f 1) \<or> addr \<noteq> 0xffff) \<and>
     link_ok p (bit f 4) (bit f 5) pk lk \<and> phase_ok p (bit f 5) (bit f 6) (bit hi 7)"

definition good :: "bytes \<Rightarrow> bool" where
  "good r \<longleftrightarrow> length r = 112 \<and> valid_record 112 r"

lemma decode32_zero: "length b = 4 \<Longrightarrow> decode32 b = 0 \<longleftrightarrow> b = zeros 4"
proof
  assume l: "length b = 4" and z: "decode32 b = 0"
  have b: "bit (decode32 b) n \<longleftrightarrow> (if n < 8 then bit (b ! 0) n else if n < 16 then bit (b ! 1) (n - 8) else if n < 24 then bit (b ! 2) (n - 16)
      else n < 32 \<and> bit (b ! 3) (n - 24))" for n
    by (auto simp: decode32_def bit_simps dest: bit_imp_le_length)
  have "\<not> bit (b ! 0) n \<and> \<not> bit (b ! 1) n \<and> \<not> bit (b ! 2) n \<and> \<not> bit (b ! 3) n" if "n < 8" for n
    using b [of n] b [of "8 + n"] b [of "16 + n"] b [of "24 + n"] z that by auto
  then have "b ! 0 = 0" "b ! 1 = 0" "b ! 2 = 0" "b ! 3 = 0" by (auto intro!: bit_word_eqI)
  then have "b ! i = 0" if "i < 4" for i using that by (auto simp: less_Suc_eq numeral_eq_Suc)
  with l show "b = zeros 4" by (intro nth_equalityI) auto
next
  assume "b = zeros 4"
  then show "decode32 b = 0" by (simp add: decode32_def)
qed

lemma good_fields:
  assumes "length r = 112"
  shows "good r \<longleftrightarrow> r ! 110 = 0x4b \<and> r ! 111 = 2 \<and>
    fields_ok (fld 0 8 r) (fld 8 8 r) (fld 92 8 r) (read_le16 (fld 100 2 r)) (read_le16 (fld 102 2 r)) (r ! 104) (r ! 108) (r ! 106) (r ! 107)
      (fld 16 16 r) (fld 32 16 r) (fld 48 16 r) (fld 64 16 r) (decode32 (fld 80 4 r)) (decode32 (fld 84 4 r)) (phase_of r) (r ! 109 AND 0xf0)"
  using assms fld_zero_split [of 80 4 4 r 0] decode32_zero [of "fld 80 4 r"] decode32_zero [of "fld 84 4 r"]
  unfolding good_def valid_record_fld [OF assms] fields_ok_def bare_ok_def
  by (auto simp: bit_simps)

lemma phase_byte_3: "phase_byte 3 x = 3"
  by (simp add: phase_byte_def)

lemma hi_timeout: "bit (x AND (0xf0 :: u8)) 7 \<longleftrightarrow> bit x 7"
  by (simp add: bit_simps)

lemma word_le_3: "(4 :: u8) \<le> p \<longleftrightarrow> \<not> p \<le> 3"
  by (simp add: word_le_nat_alt) linarith

lemmas phase_simps = phase_of_def phase_byte_low hi_timeout phase_byte_timeout

lemmas fields_defs = fields_ok_def config_ok_def is_bare_def slots_ok_def slot_ok_def link_ok_def phase_ok_def

lemma fields_associate:
  "fields_ok own tc ep pan addr ch f sq0 sq1 nk0 nk1 lk pk nf0 nf1 2 hi \<Longrightarrow> a \<noteq> 0 \<Longrightarrow> a < 0xfff8 \<Longrightarrow>
   fields_ok own tc ep pan a ch f sq0 sq1 nk0 nk1 lk pk nf0 nf1 3 0"
  by (auto simp: fields_defs)

lemma fields_floor:
  "fields_ok own tc ep pan addr ch f sq0 sq1 nk0 nk1 lk pk nf0 nf1 p hi \<Longrightarrow> bit f 0 \<Longrightarrow>
   fields_ok own tc ep pan addr ch f sq0 sq1 nk0 nk1 lk pk c nf1 p hi"
  "fields_ok own tc ep pan addr ch f sq0 sq1 nk0 nk1 lk pk nf0 nf1 p hi \<Longrightarrow> bit f 1 \<Longrightarrow>
   fields_ok own tc ep pan addr ch f sq0 sq1 nk0 nk1 lk pk nf0 c p hi"
  by (auto simp: fields_ok_def slots_ok_def slot_ok_def split: if_splits)

lemma fields_live:
  "p = 4 \<or> bit f 3 \<or> bit f 5 \<or> bit f 0 \<or> bit f 1 \<Longrightarrow>
   fields_ok own tc ep pan addr ch f sq0 sq1 nk0 nk1 lk pk nf0 nf1 p hi \<longleftrightarrow> config_ok own tc ep pan addr ch \<and> \<not> bit f 7 \<and> 4 \<le> p \<and> p \<le> 10 \<and>
     lk \<noteq> zeros 16 \<and> slots_ok f sq0 sq1 nk0 nk1 lk pk nf0 nf1 \<and> addr \<noteq> 0xffff \<and> link_ok p (bit f 4) (bit f 5) pk lk \<and>
     phase_ok p (bit f 5) (bit f 6) (bit hi 7)"
proof (cases "is_bare p f")
  case True
  then have "\<not> (4 \<le> p \<and> (if bit f 2 then bit f 1 else bit f 0))" "p \<noteq> 4" by (auto simp: is_bare_def word_le_3)
  with True show "p = 4 \<or> bit f 3 \<or> bit f 5 \<or> bit f 0 \<or> bit f 1 \<Longrightarrow> ?thesis" unfolding fields_ok_def slots_ok_def by auto
next
  case False
  then have "4 \<le> p \<and> \<not> (p = 9 \<and> \<not> bit f 0 \<and> \<not> bit f 1) \<and> p \<noteq> 2" by (auto simp: is_bare_def word_le_3)
  moreover from this have "2 \<le> p" by (simp add: word_le_nat_alt)
  ultimately show ?thesis using False unfolding fields_ok_def by auto
qed

lemma fields_adopt:
  assumes "fields_ok own tc ep pan addr ch f sq0 sq1 nk0 nk1 lk pk nf0 nf1 p hi" "bit f 3"
    and "g = (f AND NOT (4 OR 8)) OR (if b then 4 else 0)"
  shows "fields_ok own tc ep pan addr ch g sq0 sq1 nk0 nk1 lk pk nf0 nf1 p hi"
proof -
  have g: "bit g 0 = bit f 0" "bit g 1 = bit f 1" "bit g 2 = b" "\<not> bit g 3" "bit g 4 = bit f 4" "bit g 5 = bit f 5" "bit g 6 = bit f 6"
    "bit g 7 = bit f 7"
    unfolding assms(3) by (simp_all add: bit_simps)
  have o: "slots_ok f sq0 sq1 nk0 nk1 lk pk nf0 nf1" using assms(1,2) by (simp add: fields_live)
  then have "bit f 0" "bit f 1" using assms(2) by (simp_all add: slots_ok_def)
  with assms(1) o show ?thesis by (simp add: fields_live g slots_ok_def del: One_nat_def)
qed

lemma fields_first_key:
  "fields_ok own tc ep pan addr ch f sq0 sq1 nk0 nk1 lk pk nf0 nf1 3 hi \<Longrightarrow> m \<noteq> zeros 16 \<Longrightarrow> m \<noteq> lk \<Longrightarrow>
   fields_ok own tc ep pan addr ch 1 s sq1 m nk1 lk pk 0 nf1 4 hi'"
  by (auto simp: fields_ok_def is_bare_def slots_ok_def slot_ok_def link_ok_def phase_ok_def bit_1_iff)

lemma fields_next_key:
  assumes "fields_ok own tc ep pan addr ch f sq0 sq1 nk0 nk1 lk pk nf0 nf1 p hi" "bit f 5" "m \<noteq> zeros 16" "m \<noteq> lk" "m \<noteq> pk"
  shows "\<not> bit f 2 \<Longrightarrow> s \<noteq> sq0 \<Longrightarrow> m \<noteq> nk0 \<Longrightarrow> fields_ok own tc ep pan addr ch (f OR (2 OR 8)) sq0 s nk0 m lk pk nf0 0 p hi"
    and "bit f 2 \<Longrightarrow> s \<noteq> sq1 \<Longrightarrow> m \<noteq> nk1 \<Longrightarrow> fields_ok own tc ep pan addr ch (f OR (1 OR 8)) s sq1 m nk1 lk pk 0 nf1 p hi"
proof -
  have o: "slots_ok f sq0 sq1 nk0 nk1 lk pk nf0 nf1" using assms(1,2) by (simp add: fields_live)
  {
    fix g assume "\<not> bit f 2" "s \<noteq> sq0" "m \<noteq> nk0" and g: "g = f OR (2 OR 8)"
    moreover have "bit g 0 = bit f 0" "bit g 1" "bit g 2 = bit f 2" "bit g 3" "bit g 4 = bit f 4" "bit g 5 = bit f 5" "bit g 6 = bit f 6"
      "bit g 7 = bit f 7" unfolding g by (simp_all add: bit_simps)
    ultimately have "fields_ok own tc ep pan addr ch g sq0 s nk0 m lk pk nf0 0 p hi"
      using assms o by (simp add: fields_live slots_ok_def slot_ok_def del: One_nat_def)
  }
  then show "\<not> bit f 2 \<Longrightarrow> s \<noteq> sq0 \<Longrightarrow> m \<noteq> nk0 \<Longrightarrow> fields_ok own tc ep pan addr ch (f OR (2 OR 8)) sq0 s nk0 m lk pk nf0 0 p hi"
    by blast
  {
    fix g assume "bit f 2" "s \<noteq> sq1" "m \<noteq> nk1" and g: "g = f OR (1 OR 8)"
    moreover have "bit g 0" "bit g 1 = bit f 1" "bit g 2 = bit f 2" "bit g 3" "bit g 4 = bit f 4" "bit g 5 = bit f 5" "bit g 6 = bit f 6"
      "bit g 7 = bit f 7" unfolding g by (simp_all add: bit_simps)
    ultimately have "fields_ok own tc ep pan addr ch g s sq1 m nk1 lk pk 0 nf1 p hi"
      using assms o by (auto simp: fields_live slots_ok_def slot_ok_def simp del: One_nat_def)
  }
  then show "bit f 2 \<Longrightarrow> s \<noteq> sq1 \<Longrightarrow> m \<noteq> nk1 \<Longrightarrow> fields_ok own tc ep pan addr ch (f OR (1 OR 8)) s sq1 m nk1 lk pk 0 nf1 p hi"
    by blast
qed

lemma fields_tc_key:
  assumes "fields_ok own tc ep pan addr ch f sq0 sq1 nk0 nk1 lk pk nf0 nf1 5 hi" "m \<noteq> zeros 16" "m \<noteq> lk"
    and "bit f 0 \<Longrightarrow> m \<noteq> nk0" "bit f 1 \<Longrightarrow> m \<noteq> nk1" and "\<And>n. bit g n = (n \<noteq> 4 \<and> bit f n)"
  shows "fields_ok own tc ep pan addr ch g sq0 sq1 nk0 nk1 lk m nf0 nf1 6 hi'"
  using assms(1-5) by (auto simp: assms(6) fields_ok_def is_bare_def slots_ok_def slot_ok_def link_ok_def phase_ok_def)

lemma fields_confirm:
  assumes "fields_ok own tc ep pan addr ch f sq0 sq1 nk0 nk1 lk pk nf0 nf1 7 hi" and "\<And>n. n < 8 \<Longrightarrow> bit g n = (n = 4 \<or> n = 5 \<or> bit f n)"
  shows "fields_ok own tc ep pan addr ch g sq0 sq1 nk0 nk1 pk lk nf0 nf1 8 hi'"
  using assms(1) by (auto simp: assms(2) fields_ok_def is_bare_def slots_ok_def slot_ok_def link_ok_def phase_ok_def)

lemma fields_leave:
  assumes "fields_ok own tc ep pan addr ch f sq0 sq1 nk0 nk1 lk pk nf0 nf1 p hi" and "bit f 0 \<or> bit f 1 \<or> \<not> b"
    and "\<And>n. n < 8 \<Longrightarrow> bit g n = (if n = 6 then b else bit f n)" and "\<not> bit hi' 7" "hi = 0 \<Longrightarrow> hi' = 0"
  shows "fields_ok own tc ep pan addr ch g sq0 sq1 nk0 nk1 lk pk nf0 nf1 9 hi'"
proof (cases "bit f 0 \<or> bit f 1")
  case True
  then have "slots_ok g sq0 sq1 nk0 nk1 lk pk nf0 nf1" using assms(1) by (simp add: fields_live slots_ok_def assms(3) del: One_nat_def)
  moreover have "link_ok 9 (bit f 4) (bit f 5) pk lk"
    using assms(1) True by (auto simp: fields_live link_ok_def split: if_splits)
  ultimately show ?thesis using assms True by (simp add: fields_live) (auto simp: phase_ok_def)
next
  case False
  then have "is_bare p f" using assms(1) by (auto simp: fields_ok_def slots_ok_def split: if_splits)
  then have "f = 0" using assms(1) by (simp add: fields_ok_def)
  moreover from this have "g = 0" using assms(2,3) by (simp add: byte_bits)
  ultimately show ?thesis using assms \<open>is_bare p f\<close> by (auto simp: fields_ok_def is_bare_def link_ok_def phase_ok_def)
qed

lemma fields_update: "fields_ok own tc ep pan addr ch f sq0 sq1 nk0 nk1 lk pk nf0 nf1 p hi \<Longrightarrow> x \<noteq> 0xffff \<Longrightarrow>
    fields_ok own tc ep x addr ch f sq0 sq1 nk0 nk1 lk pk nf0 nf1 p hi"
  by (simp add: fields_ok_def config_ok_def)

lemma fields_rejoined:
  assumes "fields_ok own tc ep pan addr ch f sq0 sq1 nk0 nk1 lk pk nf0 nf1 10 hi" "a \<noteq> 0" "a < 0xfff8"
    and "\<And>n. bit g n = (n \<noteq> 6 \<and> bit f n)"
  shows "fields_ok own tc ep pan a ch g sq0 sq1 nk0 nk1 lk pk nf0 nf1 8 hi'"
  using assms(1-3) by (auto simp: assms(4) fields_ok_def config_ok_def is_bare_def slots_ok_def slot_ok_def link_ok_def phase_ok_def)

lemma fields_timeout: "fields_ok own tc ep pan addr ch f sq0 sq1 nk0 nk1 lk pk nf0 nf1 p hi \<Longrightarrow> bit f 0 \<or> bit f 1 \<Longrightarrow>
    (bit hi' 7 \<Longrightarrow> p \<noteq> 9 \<and> p \<noteq> 10) \<Longrightarrow> fields_ok own tc ep pan addr ch f sq0 sq1 nk0 nk1 lk pk nf0 nf1 p hi'"
  by (simp add: fields_live) (auto simp: phase_ok_def)

lemma fields_request: "fields_ok own tc ep pan addr ch f sq0 sq1 nk0 nk1 lk pk nf0 nf1 p hi \<Longrightarrow> p = 4 \<or> p = 5 \<or> p = 8 \<Longrightarrow>
    fields_ok own tc ep pan addr ch f sq0 sq1 nk0 nk1 lk pk nf0 nf1 5 hi'"
  by (elim disjE; auto simp: fields_ok_def is_bare_def link_ok_def phase_ok_def split: if_splits)

lemma fields_verify: "fields_ok own tc ep pan addr ch f sq0 sq1 nk0 nk1 lk pk nf0 nf1 p hi \<Longrightarrow> p = 6 \<or> p = 7 \<Longrightarrow>
    fields_ok own tc ep pan addr ch f sq0 sq1 nk0 nk1 lk pk nf0 nf1 7 hi'"
  by (elim disjE; simp add: fields_ok_def is_bare_def link_ok_def phase_ok_def)

lemma fields_rejoin: "fields_ok own tc ep pan addr ch f sq0 sq1 nk0 nk1 lk pk nf0 nf1 p hi \<Longrightarrow> bit f 5 \<Longrightarrow> bit f 4 \<or> pk = zeros 16 \<Longrightarrow>
    p \<in> {8, 9, 10} \<Longrightarrow> \<not> bit hi' 7 \<Longrightarrow> fields_ok own tc ep pan addr ch f sq0 sq1 nk0 nk1 lk pk nf0 nf1 10 hi'"
  by (simp add: fields_live) (auto simp: phase_ok_def link_ok_def)

lemma flag_bits:
  "bit (x AND NOT (16 :: u8)) n = (n \<noteq> 4 \<and> bit x n)" "bit (x AND NOT (64 :: u8)) n = (n \<noteq> 6 \<and> bit x n)"
  "n < 8 \<Longrightarrow> bit (x OR (64 :: u8)) n = (n = 6 \<or> bit x n)" "n < 8 \<Longrightarrow> bit (x OR (32 OR 16 :: u8)) n = (n = 4 \<or> n = 5 \<or> bit x n)"
proof -
  have b: "bit (16 :: u8) n = (n = 4)" "bit (32 :: u8) n = (n = 5)" "bit (64 :: u8) n = (n = 6)" for n
    using bit_exp_iff [of "4" n] bit_exp_iff [where 'a = u8, of 4 n] bit_exp_iff [where 'a = u8, of 5 n] bit_exp_iff [where 'a = u8, of 6 n] by auto
  show "bit (x AND NOT (16 :: u8)) n = (n \<noteq> 4 \<and> bit x n)" "bit (x AND NOT (64 :: u8)) n = (n \<noteq> 6 \<and> bit x n)"
    unfolding bit_and_iff bit_not_iff b by (auto dest: bit_imp_le_length)
  show "n < 8 \<Longrightarrow> bit (x OR (64 :: u8)) n = (n = 6 \<or> bit x n)" "n < 8 \<Longrightarrow> bit (x OR (32 OR 16 :: u8)) n = (n = 4 \<or> n = 5 \<or> bit x n)"
    unfolding bit_or_iff b by auto
qed

lemma reused_fld:
  assumes "length r = 112" "length m = 16" "\<not> sk_reused m r"
  shows "m \<noteq> zeros 16" "m \<noteq> fld 48 16 r" "m \<noteq> fld 64 16 r" "bit (r ! 108) 0 \<Longrightarrow> m \<noteq> fld 16 16 r" "bit (r ! 108) 1 \<Longrightarrow> m \<noteq> fld 32 16 r"
  using assms by (auto simp: sk_reused_def sk_all_fld sk_same_iff sk_all_iff fld_def)

lemma goodD:
  assumes "good r"
  shows "length r = 112"
    and "fields_ok (fld 0 8 r) (fld 8 8 r) (fld 92 8 r) (read_le16 (fld 100 2 r)) (read_le16 (fld 102 2 r)) (r ! 104) (r ! 108) (r ! 106) (r ! 107)
      (fld 16 16 r) (fld 32 16 r) (fld 48 16 r) (fld 64 16 r) (decode32 (fld 80 4 r)) (decode32 (fld 84 4 r)) (phase_of r) (r ! 109 AND 0xf0)"
    and "r ! 110 = 0x4b" "r ! 111 = 2"
  using assms good_fields [of r] by (simp_all add: good_def)

text \<open>A store keeps the record good when the fields it leaves behind are.\<close>

lemmas good_simps = good_fields fld_simps phase_simps

lemma good_step_keys:
  assumes "good r"
  shows "phase_of r = 3 \<Longrightarrow> length m = 16 \<Longrightarrow> \<not> sk_reused m r \<Longrightarrow> good (store_network_key 0 m s (set_phase 4 (r[108 := 1])))"
    and "sk_verified r \<Longrightarrow> sk_find_slot s r = 2 \<Longrightarrow> length m = 16 \<Longrightarrow> \<not> sk_reused m r \<Longrightarrow>
      good (store_network_key (1 - active_slot r) m s (r[108 := r ! 108 OR (slot_bit (1 - active_slot r) OR 8)]))"
    and "phase_of r = 5 \<Longrightarrow> length m = 16 \<Longrightarrow> \<not> sk_reused m r \<Longrightarrow>
      good (set_phase 6 ((store_at 64 m r)[108 := store_at 64 m r ! 108 AND NOT 16]))"
    and "phase_of r = 7 \<Longrightarrow> good (sk_confirm_record c r)"
proof -
  note d = goodD [OF assms]
  note f = d(2)
  {
    assume m: "phase_of r = 3" "length m = 16" "\<not> sk_reused m r"
    show "good (store_network_key 0 m s (set_phase 4 (r[108 := 1])))"
      using fields_first_key [OF f [unfolded m(1)] reused_fld(1,2) [OF d(1) m(2,3)], of s "phase_byte 4 (r ! 109) AND 0xf0"] d m
      by (simp add: good_simps)
  next
    assume m: "sk_verified r" "sk_find_slot s r = 2" "length m = 16" "\<not> sk_reused m r"
    note u = reused_fld [OF d(1) m(3,4)]
    have v: "bit (r ! 108) 5" using m(1) by (simp add: sk_verified_def)
    have o: "slots_ok (r ! 108) (r ! 106) (r ! 107) (fld 16 16 r) (fld 32 16 r) (fld 48 16 r) (fld 64 16 r) (decode32 (fld 80 4 r)) (decode32 (fld 84 4 r))"
      using f v by (simp add: fields_live)
    show "good (store_network_key (1 - active_slot r) m s (r[108 := r ! 108 OR (slot_bit (1 - active_slot r) OR 8)]))"
    proof (cases "bit (r ! 108) 2")
      case True
      then have a: "bit (r ! 108) 1" "s \<noteq> r ! 107" "active_slot r = 1"
        using o m(2) by (auto simp: slots_ok_def sk_find_slot_def active_slot_def split: if_splits)
      from fields_next_key(2) [OF f v u(1-3) True a(2) u(5) [OF a(1)]] d m a(3) show ?thesis by (simp add: good_simps)
    next
      case False
      then have a: "bit (r ! 108) 0" "s \<noteq> r ! 106" "active_slot r = 0"
        using o m(2) by (auto simp: slots_ok_def sk_find_slot_def active_slot_def split: if_splits)
      from fields_next_key(1) [OF f v u(1-3) False a(2) u(4) [OF a(1)]] d m a(3) show ?thesis by (simp add: good_simps)
    qed
  next
    assume m: "phase_of r = 5" "length m = 16" "\<not> sk_reused m r"
    note u = reused_fld [OF d(1) m(2,3)]
    show "good (set_phase 6 ((store_at 64 m r)[108 := store_at 64 m r ! 108 AND NOT 16]))"
      using fields_tc_key [OF f [unfolded m(1)] u(1,2,4,5) flag_bits(1), of "phase_byte 6 (r ! 109) AND 0xf0"] d m
      by (simp add: good_simps)
  next
    assume m: "phase_of r = 7"
    show "good (sk_confirm_record c r)"
      using fields_confirm [OF f [unfolded m] flag_bits(4), of "phase_byte 8 (r ! 109) AND 0xf0"] d
      by (simp add: good_simps flip: fld_def)
  }
qed

lemma good_step_phases:
  assumes "good r"
  shows "sk_network r \<or> \<not> b \<Longrightarrow> good (sk_set_rejoin b (set_phase 9 r))"
    and "phase_of r = 10 \<Longrightarrow> length a = 2 \<Longrightarrow> read_le16 a \<noteq> 0 \<Longrightarrow> read_le16 a < 0xfff8 \<Longrightarrow>
      good (sk_set_rejoin False (set_phase 8 (store_at 102 a r)))"
    and "bit (r ! 109) 7 \<Longrightarrow> \<not> bit v 7 \<Longrightarrow> v AND 15 = phase_of r \<Longrightarrow> good (r[109 := v])"
    and "sk_network r \<Longrightarrow> phase_of r \<noteq> 9 \<Longrightarrow> phase_of r \<noteq> 10 \<Longrightarrow> good (r[109 := r ! 109 OR 0x80])"
    and "phase_of r = 4 \<or> phase_of r = 5 \<or> phase_of r = 8 \<Longrightarrow> good (set_phase 5 r)"
    and "phase_of r = 6 \<or> phase_of r = 7 \<Longrightarrow> good (set_phase 7 r)"
    and "sk_verified r \<Longrightarrow> bit (r ! 108) 4 \<or> fld 64 16 r = zeros 16 \<Longrightarrow> phase_of r \<in> {8, 9, 10} \<Longrightarrow>
      good (set_phase 10 (r[109 := r ! 109 AND NOT 0xf0]))"
proof -
  note d = goodD [OF assms]
  note f = d(2)
  show "good (sk_set_rejoin b (set_phase 9 r))" if n: "sk_network r \<or> \<not> b"
  proof -
    have g: "bit (if b then r ! 108 OR 64 else r ! 108 AND NOT 64) i = (if i = 6 then b else bit (r ! 108) i)" if "i < 8" for i
      using that flag_bits(2) [of "r ! 108" i] flag_bits(3) [of i "r ! 108"] by (cases b) auto
    have "bit (r ! 108) 0 \<or> bit (r ! 108) 1 \<or> \<not> b" using n by (simp add: sk_network_def and_3)
    from fields_leave [OF f this g, of "phase_byte 9 (r ! 109) AND 0xf0"] phase_byte_high [of 9 "r ! 109"] d show ?thesis
      by (cases b) (simp_all add: good_simps)
  qed
  show "good (sk_set_rejoin False (set_phase 8 (store_at 102 a r)))"
    if "phase_of r = 10" "length a = 2" "read_le16 a \<noteq> 0" "read_le16 a < 0xfff8"
    using fields_rejoined [OF f [unfolded that(1)] that(3,4) flag_bits(2), of "phase_byte 8 (r ! 109) AND 0xf0"] d that by (simp add: good_simps)
  show "good (r[109 := v])" if "bit (r ! 109) 7" "\<not> bit v 7" "v AND 15 = phase_of r"
  proof -
    have "r ! 109 AND 0xf0 \<noteq> 0" using hi_timeout [of "r ! 109"] that(1) by (metis bit_0_eq bot_apply bot_bool_def)
    then have "bit (r ! 108) 0 \<or> bit (r ! 108) 1" using f by (auto simp: fields_ok_def slots_ok_def split: if_splits)
    from fields_timeout [OF f this, of "v AND 0xf0"] d that show ?thesis by (simp add: good_simps)
  qed
  show "good (r[109 := r ! 109 OR 0x80])" if "sk_network r" "phase_of r \<noteq> 9" "phase_of r \<noteq> 10"
  proof -
    have "bit (r ! 108) 0 \<or> bit (r ! 108) 1" using that(1) by (simp add: sk_network_def and_3)
    from fields_timeout [OF f this, of "(r ! 109 OR 0x80) AND 0xf0"] d that show ?thesis
      by (simp add: good_simps bit.conj_disj_distrib2)
  qed
  show "phase_of r = 4 \<or> phase_of r = 5 \<or> phase_of r = 8 \<Longrightarrow> good (set_phase 5 r)"
    using fields_request [OF f, of "phase_byte 5 (r ! 109) AND 0xf0"] d by (simp add: good_simps)
  show "phase_of r = 6 \<or> phase_of r = 7 \<Longrightarrow> good (set_phase 7 r)"
    using fields_verify [OF f, of "phase_byte 7 (r ! 109) AND 0xf0"] d by (simp add: good_simps)
  show "good (set_phase 10 (r[109 := r ! 109 AND NOT 0xf0]))"
    if "sk_verified r" "bit (r ! 108) 4 \<or> fld 64 16 r = zeros 16" "phase_of r \<in> {8, 9, 10}"
    using fields_rejoin [OF f _ that(2,3), of "phase_byte 10 (r ! 109 AND NOT 0xf0) AND 0xf0"] d that(1)
    by (simp add: good_simps sk_verified_def)
qed

lemma good_step: "key_step r r' \<Longrightarrow> good r \<Longrightarrow> good r'"
proof (induction rule: key_step.induct)
  case (Associate r a)
  note d = goodD [OF Associate(4)]
  from fields_associate [OF d(2) [unfolded Associate(1)] Associate(2,3)] d show ?case by (simp add: good_simps phase_byte_3)
next
  case (Nwk_floor i r c)
  note d = goodD [OF Nwk_floor(5)]
  from Nwk_floor(1) consider "i = 0" | "i = 1" by linarith
  then show ?case using Nwk_floor d fields_floor(1) [OF d(2), of "c + 1"] fields_floor(2) [OF d(2), of "c + 1"]
    by cases (simp_all add: good_simps)
next
  case (Aps_floor r c)
  with goodD [OF Aps_floor(3)] show ?case by (simp add: good_simps)
next
  case (Adopt r)
  note d = goodD [OF Adopt(2)]
  from fields_adopt [OF d(2) Adopt(1) refl, of "1 - active_slot r \<noteq> 0"] d show ?case by (simp add: good_simps)
next
  case (Update pan r u)
  note d = goodD [OF Update(3)]
  from fields_update [OF d(2) Update(2)] d Update show ?case by (simp add: good_simps)
next
  case (Timeout_answer r p1 v x)
  have "\<not> bit (push_bit 4 (x AND 7)) 7" by (simp add: bit_simps)
  with Timeout_answer(2,3) have "\<not> bit v 7" by (auto simp: bit_simps)
  moreover have "v AND 15 = phase_of r"
    using Timeout_answer(2,3) low_nibble(2) [of "r ! 109"] low_nibble(4) [of p1 "x AND 7"] by (auto simp: phase_of_def)
  ultimately show ?case by (rule good_step_phases(3) [OF Timeout_answer(4,1)])
qed (blast intro: good_step_keys good_step_phases)+

section \<open>Replay floors\<close>

definition nwk_floor :: "nat \<Rightarrow> bytes \<Rightarrow> u32" where
  "nwk_floor i r = decode32 (fld (80 + 4 * i) 4 r)"

definition nwk_key :: "nat \<Rightarrow> bytes \<Rightarrow> bytes" where
  "nwk_key i r = fld (16 + 16 * i) 16 r"

lemma word_floor_rises: "(f :: u32) \<le> c \<Longrightarrow> c \<noteq> 0xffffffff \<Longrightarrow> f \<le> c + 1 \<and> c < c + 1"
proof -
  assume le: "f \<le> c" and c: "c \<noteq> 0xffffffff"
  have "unat c < 2 ^ LENGTH(32)" by (rule unsigned_less)
  with c have "unat (c + 1) = unat c + 1" by (simp add: unat_word_ariths word_unat_eq_iff)
  with le show ?thesis by (simp add: word_le_nat_alt word_less_nat_alt)
qed

text \<open>A used slot stays used, and its floor does not fall while it holds the same key.\<close>

lemma floor_step:
  assumes "key_step r r'" "good r" "i < 2" "bit (r ! 108) i"
  shows "bit (r' ! 108) i \<and> (nwk_key i r' = nwk_key i r \<longrightarrow> r' ! (106 + i) = r ! (106 + i) \<and> nwk_floor i r \<le> nwk_floor i r')"
proof -
  have i: "i = 0 \<or> i = 1" using assms(3) by linarith
  have l: "length r = 112" using assms(2) by (rule goodD)
  note d = goodD [OF assms(2)]
  show ?thesis using assms(1,4) d
  proof cases
    case (Nwk_floor j c)
    then have "nwk_floor j r \<le> c + 1" using word_floor_rises by (simp add: nwk_floor_def)
    with Nwk_floor i l assms(4) show ?thesis
      by (auto simp: less_2_cases_iff nwk_floor_def nwk_key_def fld_simps)
  next
    case (First_key m s)
    then have "r ! 108 = 0" using d(2) by (simp add: fields_ok_def is_bare_def)
    with assms(4) show ?thesis by simp
  next
    case (Next_key s m)
    note u = reused_fld [OF l Next_key(5,6)]
    with Next_key i l assms(4) show ?thesis
      by (auto simp: nwk_floor_def nwk_key_def fld_simps bit_or_iff active_slot_def split: if_splits)
  qed (use i l in \<open>auto simp: nwk_floor_def fld_simps bit_simps flag_bits\<close>)
qed

end
