(* ===== verification/Key_Receive.thy ===== *)
theory Key_Receive
  imports Key_Steps
begin

text \<open>
  The command handlers and the two decryption layers of the key store on the record: each is a
  sequence of record steps, a handler that refuses leaves the record alone, and only the parts
  kept in the volatile caches change when nothing is to be saved.
\<close>

text \<open>The record outside the network floors and the phase octet.\<close>

definition same_base :: "bytes \<Rightarrow> bytes \<Rightarrow> bool" where
  "same_base a b \<longleftrightarrow> length b = length a \<and> (\<forall>j < length a. (j < 80 \<or> 88 \<le> j) \<and> j \<noteq> 109 \<longrightarrow> b ! j = a ! j)"

lemma same_base_refl [simp]: "same_base r r"
  by (simp add: same_base_def)

lemma same_base_trans: "same_base a b \<Longrightarrow> same_base b c \<Longrightarrow> same_base a c"
  by (auto simp: same_base_def)

lemma same_base_phase: "same_base r (r[109 := v])"
  by (simp add: same_base_def nth_list_update)

text \<open>Steps that leave both network keys in place, and what one call does: such steps and then at most one more.\<close>

definition quiet_step :: "bytes \<Rightarrow> bytes \<Rightarrow> bool" where
  "quiet_step r r' \<longleftrightarrow> key_step r r' \<and> nwk_key 0 r' = nwk_key 0 r \<and> nwk_key 1 r' = nwk_key 1 r"

definition key_path :: "bytes \<Rightarrow> bytes \<Rightarrow> bool" where
  "key_path r r' \<longleftrightarrow> (\<exists>m. quiet_step\<^sup>*\<^sup>* r m \<and> (r' = m \<or> key_step m r'))"

lemma key_path_refl [simp]: "key_path r r"
  by (auto simp: key_path_def)

lemma key_path_step: "key_step r r' \<Longrightarrow> key_path r r'"
  by (auto simp: key_path_def)

lemma key_path_quiet: "quiet_step\<^sup>*\<^sup>* r r' \<Longrightarrow> key_path r r'"
  by (auto simp: key_path_def)

lemma key_path_end: "quiet_step\<^sup>*\<^sup>* r m \<Longrightarrow> r' = m \<or> key_step m r' \<Longrightarrow> key_path r r'"
  by (auto simp: key_path_def)

lemma key_path_after: "quiet_step\<^sup>*\<^sup>* r m \<Longrightarrow> key_path m r' \<Longrightarrow> key_path r r'"
  unfolding key_path_def by (blast intro: rtranclp_trans)

lemma quiet_good: "quiet_step\<^sup>*\<^sup>* r r' \<Longrightarrow> good r \<Longrightarrow> good r'"
  by (induction rule: rtranclp_induct) (auto simp: quiet_step_def intro: good_step)

lemma good_path: "key_path r r' \<Longrightarrow> good r \<Longrightarrow> good r'"
  by (auto simp: key_path_def intro: good_step dest: quiet_good)

lemma quiet_floor:
  "quiet_step\<^sup>*\<^sup>* r r' \<Longrightarrow> good r \<Longrightarrow> i < 2 \<Longrightarrow> bit (r ! 108) i \<Longrightarrow>
   bit (r' ! 108) i \<and> nwk_key i r' = nwk_key i r \<and> r' ! (106 + i) = r ! (106 + i) \<and> nwk_floor i r \<le> nwk_floor i r'"
proof (induction rule: rtranclp_induct)
  case (step a b)
  then have "nwk_key i b = nwk_key i a" by (auto simp: quiet_step_def less_2_cases_iff)
  with step floor_step [of a b i] quiet_good [OF step.hyps(1)] show ?case by (auto simp: quiet_step_def)
qed simp

text \<open>Along one call the floor of a slot that keeps its key does not fall.\<close>

lemma path_floor:
  assumes "key_path r r'" "good r" "i < 2" "bit (r ! 108) i"
  shows "bit (r' ! 108) i \<and> (nwk_key i r' = nwk_key i r \<longrightarrow> r' ! (106 + i) = r ! (106 + i) \<and> nwk_floor i r \<le> nwk_floor i r')"
proof -
  from assms(1) obtain m where m: "quiet_step\<^sup>*\<^sup>* r m" "r' = m \<or> key_step m r'" by (auto simp: key_path_def)
  note q = quiet_floor [OF m(1) assms(2-4)]
  from m(2) show ?thesis
  proof
    assume "key_step m r'"
    from floor_step [OF this quiet_good [OF m(1) assms(2)] assms(3)] q show ?thesis by auto
  qed (use q in simp)
qed

definition effect :: "bytes \<Rightarrow> security_keys_result \<times> u8 \<times> bytes \<Rightarrow> bool" where
  "effect r x \<longleftrightarrow> (case x of (res, ev, r') \<Rightarrow> if res = SECURITY_KEYS_OK then (r' = r \<or> key_step r r') \<and> (ev \<in> {0, 1} \<longrightarrow> same_base r r' \<and> phase_of r' = phase_of r)
     else r' = r)"

lemma effect_same [simp]: "effect r (res, ev, r)"
  by (simp add: effect_def)

lemma effect_step: "key_step r r' \<Longrightarrow> ev \<noteq> 0 \<Longrightarrow> ev \<noteq> 1 \<Longrightarrow> effect r (SECURITY_KEYS_OK, ev, r')"
  by (simp add: effect_def r_into_rtranclp)

lemma effect_if: "(c \<Longrightarrow> effect r x) \<Longrightarrow> (\<not> c \<Longrightarrow> effect r y) \<Longrightarrow> effect r (if c then x else y)"
  by simp

lemma sk_network_key_effect:
  assumes "18 \<le> length (ep_payload p)"
  shows "effect r (sk_network_key p r)"
proof -
  let ?m = "take 16 (drop 2 (ep_payload p))" and ?s = "ep_payload p ! 18"
  have l: "length ?m = 16" using assms by simp
  have f: "sk_find_slot ?s r = 2" if "\<not> sk_find_slot ?s r < 2" using that by (auto simp: sk_find_slot_def split: if_splits)
  show ?thesis unfolding sk_network_key_def Let_def
    by (intro effect_if effect_same effect_step First_key Next_key) (use l f in simp_all)
qed

lemma sk_transport_effect:
  assumes "18 \<le> length (ep_payload p)"
  shows "effect r (sk_transport cx p r)"
  unfolding sk_transport_def Let_def
  by (intro effect_if effect_same effect_step Tc_key sk_network_key_effect) (use assms in simp_all)

lemma sk_aps_command_effect:
  assumes "18 \<le> length (ep_payload p)"
  shows "effect r (sk_aps_command cx p r)"
  unfolding sk_aps_command_def Let_def
  by (intro effect_if effect_same effect_step Confirm Adopt sk_transport_effect) (use assms in simp_all)

lemma sk_nwk_command_effect:
  assumes "cx_secured cx \<noteq> 0 \<Longrightarrow> sk_network r" "length r = 112" "13 \<le> length (ep_payload p)"
  shows "effect r (sk_nwk_command cx p r)"
proof -
  have n: "cx_secured cx \<noteq> 0 \<longrightarrow> sk_network r" using assms(1) by simp
  have up: "effect r (SECURITY_KEYS_OK, 6, if d then store_at 100 (take 2 (drop 11 (ep_payload p))) (r[105 := u]) else r)"
    if "read_le16 (drop 11 (ep_payload p)) \<noteq> 0xffff" for d u
    using effect_step [OF Update [of "take 2 (drop 11 (ep_payload p))"]] that assms(3) by (simp add: read_le16_def)
  have ti: "effect r (SECURITY_KEYS_OK, 1, r[109 := if d then (r ! 109 AND NOT 0x80) AND NOT 0x70 OR push_bit 4 (x AND 7) else r ! 109 AND NOT 0x80])"
    if "r ! 109 AND 0x80 \<noteq> 0" for d x
  proof -
    define v where "v = (if d then (r ! 109 AND NOT 0x80) AND NOT 0x70 OR push_bit 4 (x AND 7) else r ! 109 AND NOT 0x80)"
    have "key_step r (r[109 := v])" by (rule Timeout_answer [OF _ refl, of _ _ x]) (use that in \<open>simp_all add: v_def\<close>)
    moreover have "v AND 15 = r ! 109 AND 15" by (simp only: v_def low_nibble split: if_split) simp
    ultimately show ?thesis using assms(2) unfolding v_def [symmetric]
      by (simp add: effect_def same_base_phase phase_of_def r_into_rtranclp)
  qed
  show ?thesis
    unfolding sk_nwk_command_def sk_nwk_leave_def sk_nwk_update_def sk_nwk_rejoin_def sk_nwk_timeout_def Let_def
    by (intro effect_if effect_same effect_step [OF Leave] effect_step [OF Rejoined] up ti) (use assms n in \<open>simp_all add: read_le16_def not_le\<close>)
qed

text \<open>The clear packet: its payload array has the size of the buffer.\<close>

lemma sk_dispatch_effect:
  assumes "cx_secured cx \<noteq> 0 \<Longrightarrow> sk_network r" "length r = 112" "length (ep_payload p) = 82"
  shows "effect r (sk_dispatch cx p r)"
  unfolding sk_dispatch_def
  by (intro effect_if effect_same sk_nwk_command_effect sk_aps_command_effect) (use assms in simp_all)

lemma ed_wire_decode_payload: "ed_wire_decode frame b = Inr p \<Longrightarrow> length (ep_payload p) = 82"
  by (auto simp: ed_wire_decode_def ew_packet_def Let_def split: if_splits sum.splits)

section \<open>The two layers\<close>

lemma sk_find_slot_used: "sk_find_slot s r \<noteq> 2 \<Longrightarrow> sk_find_slot s r < 2 \<and> bit (r ! 108) (sk_find_slot s r) \<and> r ! (106 + sk_find_slot s r) = s"
  by (auto simp: sk_find_slot_def split: if_splits)

definition outer_ok :: "bytes \<Rightarrow> bytes \<times> bytes \<times> nat \<Rightarrow> bool" where
  "outer_ok r x \<longleftrightarrow> (case x of (r', frame, secured) \<Rightarrow> quiet_step\<^sup>*\<^sup>* r r' \<and> phase_of r' = phase_of r \<and> (secured \<noteq> 0 \<longrightarrow> sk_network r') \<and>
     (secured \<noteq> 2 \<longrightarrow> same_base r r'))"

lemma sk_open_nwk_cases:
  assumes "sk_open_nwk aes limits r raw nwk hw = (Inr x, hw')" "nwk_flags nwk AND NWK_FLAG_SECURITY \<noteq> 0"
  obtains meta i c r1 where "ed_wire_inspect ZIGBEE_SECURITY_NWK (Some raw) True = Inr meta" "i = sk_find_slot (sm_key_sequence meta) r" "i \<noteq> 2"
    "c = sm_counter meta" "c \<noteq> 0xffffffff" "nwk_floor i r \<le> c" "r1 = store_at (80 + 4 * i) (encode32 (c + 1)) r"
    "fst x = r1 \<and> snd (snd x) = 1 \<or> r1 ! 108 AND 8 \<noteq> 0 \<and> i \<noteq> active_slot r1 \<and> fst x = sk_adopt i r1 \<and> snd (snd x) = 2"
proof -
  from assms obtain meta where m: "ed_wire_inspect ZIGBEE_SECURITY_NWK (Some raw) True = Inr meta"
    by (cases "ed_wire_inspect ZIGBEE_SECURITY_NWK (Some raw) True") (auto simp: sk_open_nwk_def)
  let ?i = "sk_find_slot (sm_key_sequence meta) r" and ?c = "sm_counter meta"
  let ?r1 = "store_at (80 + 4 * ?i) (encode32 (?c + 1)) r"
  from assms m have "?i \<noteq> 2" "?c \<noteq> 0xffffffff" "nwk_floor ?i r \<le> ?c"
    and "fst x = ?r1 \<and> snd (snd x) = 1 \<or> ?r1 ! 108 AND 8 \<noteq> 0 \<and> ?i \<noteq> active_slot ?r1 \<and> fst x = sk_adopt ?i ?r1 \<and> snd (snd x) = 2"
    by (auto simp: sk_open_nwk_def Let_def decode_fld nwk_floor_def split: if_splits sum.splits prod.splits)
  with m that show ?thesis by blast
qed

text \<open>An authenticated outer layer moves the floor of its key past the counter and keeps both keys.\<close>

lemma sk_open_nwk_secured:
  assumes "sk_open_nwk aes limits r raw nwk hw = (Inr x, hw')" "nwk_flags nwk AND NWK_FLAG_SECURITY \<noteq> 0" "length r = 112"
  shows "outer_ok r x" and "\<exists>meta i. ed_wire_inspect ZIGBEE_SECURITY_NWK (Some raw) True = Inr meta \<and> i = sk_find_slot (sm_key_sequence meta) r \<and>
    i < 2 \<and> bit (r ! 108) i \<and> nwk_floor i r \<le> sm_counter meta \<and> sm_counter meta < nwk_floor i (fst x) \<and> bit (fst x ! 108) i"
proof -
  obtain meta i c r1 where m: "ed_wire_inspect ZIGBEE_SECURITY_NWK (Some raw) True = Inr meta" "i = sk_find_slot (sm_key_sequence meta) r" "i \<noteq> 2"
    "c = sm_counter meta" "c \<noteq> 0xffffffff" "nwk_floor i r \<le> c" "r1 = store_at (80 + 4 * i) (encode32 (c + 1)) r"
    "fst x = r1 \<and> snd (snd x) = 1 \<or> r1 ! 108 AND 8 \<noteq> 0 \<and> i \<noteq> active_slot r1 \<and> fst x = sk_adopt i r1 \<and> snd (snd x) = 2"
    by (rule sk_open_nwk_cases [OF assms(1,2)])
  have s: "i < 2" "bit (r ! 108) i" using sk_find_slot_used m(2,3) by blast+
  have l1: "length r1 = 112" using m(7) s assms(3) by simp
  have k: "nwk_key j r1 = nwk_key j r" if "j < 2" for j
    using that s assms(3) unfolding m(7) by (auto simp: nwk_key_def fld_store_other)
  have st: "quiet_step r r1" unfolding quiet_step_def using k Nwk_floor [of i r c] s m(5-7) by (simp add: nwk_floor_def)
  have b: "same_base r r1" "phase_of r1 = phase_of r" "r1 ! 108 = r ! 108"
    using s assms(3) m(7) by (auto simp: same_base_def nth_store_at phase_of_def)
  have n: "sk_network r" using s by (auto simp: sk_network_def and_3 less_2_cases_iff)
  have fl: "nwk_floor i r1 = c + 1" using s assms(3) m(7) by (simp add: nwk_floor_def fld_store_same)
  have up: "c < c + 1" using word_floor_rises [OF order_refl m(5)] by blast
  have ad: "key_step\<^sup>=\<^sup>= r1 (fst x) \<and> nwk_key 0 (fst x) = nwk_key 0 r1 \<and> nwk_key 1 (fst x) = nwk_key 1 r1 \<and> nwk_floor i (fst x) = nwk_floor i r1 \<and>
      bit (fst x ! 108) i = bit (r1 ! 108) i \<and> phase_of (fst x) = phase_of r1 \<and> (sk_network r1 \<longrightarrow> sk_network (fst x)) \<and>
      (snd (snd x) \<noteq> 2 \<longrightarrow> fst x = r1) \<and> snd (snd x) \<noteq> 0"
    using m(8)
  proof
    assume a: "r1 ! 108 AND 8 \<noteq> 0 \<and> i \<noteq> active_slot r1 \<and> fst x = sk_adopt i r1 \<and> snd (snd x) = 2"
    then have "i = 1 - active_slot r1" using s by (auto simp: active_slot_def split: if_splits)
    then have "key_step r1 (sk_adopt i r1)" using a Adopt [of r1] by simp
    with a s l1 show ?thesis
      by (auto simp: sk_adopt_def nwk_key_def nwk_floor_def fld_update phase_of_def sk_network_def and_3 bit_simps less_2_cases_iff)
  qed simp
  then have "quiet_step\<^sup>*\<^sup>* r1 (fst x)" by (auto simp: quiet_step_def)
  with st have "quiet_step\<^sup>*\<^sup>* r (fst x)" by (rule converse_rtranclp_into_rtranclp)
  moreover have "sk_network r1" using n b(3) by (simp add: sk_network_def)
  ultimately show "outer_ok r x" using ad b by (cases x) (auto simp: outer_ok_def)
  show "\<exists>meta i. ed_wire_inspect ZIGBEE_SECURITY_NWK (Some raw) True = Inr meta \<and> i = sk_find_slot (sm_key_sequence meta) r \<and>
    i < 2 \<and> bit (r ! 108) i \<and> nwk_floor i r \<le> sm_counter meta \<and> sm_counter meta < nwk_floor i (fst x) \<and> bit (fst x ! 108) i"
    using m s ad fl up b(3) by auto
qed

lemma sk_open_nwk_outer:
  assumes "sk_open_nwk aes limits r raw nwk hw = (Inr x, hw')" "length r = 112"
  shows "outer_ok r x"
proof (cases "nwk_flags nwk AND NWK_FLAG_SECURITY \<noteq> 0")
  case False
  with assms show ?thesis by (auto simp: sk_open_nwk_def outer_ok_def split: if_splits)
qed (rule sk_open_nwk_secured(1) [OF assms(1) _ assms(2)])

lemma sk_open_aps_inner:
  assumes "sk_open_aps aes limits r frame secured offset len hw = (Inr (r', frame', cx), hw')" "length r = 112"
  shows "quiet_step\<^sup>*\<^sup>* r r' \<and> phase_of r' = phase_of r \<and> r' ! 108 = r ! 108 \<and> cx_secured cx = secured \<and> (cx_aps_secured cx \<noteq> 2 \<longrightarrow> r' = r)"
proof -
  define P where "P x \<longleftrightarrow> (case x of (Inl e, _) \<Rightarrow> True | (Inr (r', _, cx), _) \<Rightarrow> cx_secured cx = secured \<and>
    (r' = r \<or> cx_aps_secured cx = 2 \<and> (\<exists>c. r' = store_at 88 (encode32 (c + 1)) r \<and> decode32 (fld 88 4 r) \<le> c \<and> c \<noteq> 0xffffffff)))"
    for x :: "(security_keys_result + bytes \<times> bytes \<times> sk_context) \<times> 'a"
  have p: "(c \<Longrightarrow> P x) \<Longrightarrow> (\<not> c \<Longrightarrow> P y) \<Longrightarrow> P (if c then x else y)"
    "(\<And>a b. P (f a b)) \<Longrightarrow> P (case z of (a, b) \<Rightarrow> f a b)" "(\<And>e. P (g e)) \<Longrightarrow> (\<And>v. P (h v)) \<Longrightarrow> P (case s of Inl e \<Rightarrow> g e | Inr v \<Rightarrow> h v)"
    "P n \<Longrightarrow> (\<And>v. P (k v)) \<Longrightarrow> P (case t of None \<Rightarrow> n | Some v \<Rightarrow> k v)"
    for c x y and f :: "'b \<Rightarrow> 'c \<Rightarrow> _" and z and g :: "'d \<Rightarrow> _" and h :: "'e \<Rightarrow> _" and s n and k :: "'f \<Rightarrow> _" and t
    by (auto split: prod.split sum.split option.split)
  have "P (sk_open_aps aes limits r frame secured offset len hw)"
    unfolding sk_open_aps_def Let_def
    by (intro p) (auto simp: P_def decode_fld)
  moreover have "quiet_step r (store_at 88 (encode32 (c + 1)) r)" if "decode32 (fld 88 4 r) \<le> c" "c \<noteq> 0xffffffff" for c
    using Aps_floor [OF that] assms(2) by (simp add: quiet_step_def nwk_key_def fld_store_other)
  ultimately show ?thesis using assms unfolding P_def
    by (auto simp: phase_of_def nth_store_at r_into_rtranclp)
qed

end
