(* ===== verification/Key_Store.thy ===== *)
theory Key_Store
  imports Key_Receive
begin

text \<open>
  The key store over the contract of the counter module: in every live state the stored record
  and the record with the volatile caches laid over it are valid and in the module's phase, and
  every operation moves the second along record steps or latches the failed phase.
\<close>

section \<open>The counter module as the key store sees it\<close>

locale counter_service =
  fixes ops :: "'c counter_ops"
    and cinv :: "'c \<Rightarrow> bool"
    and payload :: "'c \<Rightarrow> bytes"
    and unsaved :: "'c \<Rightarrow> bool"
  assumes open_keeps: "cinv c \<Longrightarrow> co_open ops c = (r, c') \<Longrightarrow> cinv c' \<and> (r = SECURITY_COUNTER_OK \<longrightarrow> \<not> unsaved c')"
    and read_keeps: "cinv c \<Longrightarrow> co_read ops c = (r, out, c') \<Longrightarrow> cinv c' \<and> payload c' = payload c \<and> unsaved c' = unsaved c \<and>
      (r = SECURITY_COUNTER_OK \<longrightarrow> length (payload c) \<le> 112 \<and> out = Some (payload c, of_nat (length (payload c))))"
    and create_keeps: "cinv c \<Longrightarrow> length d = 112 \<Longrightarrow> co_create ops nf af d l c = (r, c') \<Longrightarrow> cinv c' \<and> (r = SECURITY_COUNTER_OK \<longrightarrow> payload c' = d)"
    and restage_keeps: "cinv c \<Longrightarrow> length d = 112 \<Longrightarrow> co_restage ops d c = (r, c') \<Longrightarrow>
      cinv c' \<and> (if r = SECURITY_COUNTER_OK then payload c' = d \<and> unsaved c else c' = c)"
    and take_keeps: "cinv c \<Longrightarrow> co_take ops domain l c = (r, v, c') \<Longrightarrow>
      cinv c' \<and> (r \<in> {SECURITY_COUNTER_OK, SECURITY_COUNTER_EXHAUSTED} \<longrightarrow> payload c' = payload c \<and> (unsaved c' \<longrightarrow> unsaved c))"
    and save_keeps: "cinv c \<Longrightarrow> length d = 112 \<Longrightarrow> co_save ops d l c = (r, c') \<Longrightarrow>
      cinv c' \<and> (r = SECURITY_COUNTER_OK \<longrightarrow> payload c' = d \<and> \<not> unsaved c')"

section \<open>The invariant\<close>

text \<open>The effective record: the stored one with the caches laid over it.\<close>

definition sk_view :: "('c \<Rightarrow> bytes) \<Rightarrow> ('c, 'm) sk_state \<Rightarrow> bytes" where
  "sk_view payload st = sk_overlay st (payload (sk_counter st))"

definition sk_live :: "('c \<Rightarrow> bytes) \<Rightarrow> ('c \<Rightarrow> bool) \<Rightarrow> ('c, 'm) sk_state \<Rightarrow> bool" where
  "sk_live payload unsaved st \<longleftrightarrow> length (sk_floor_cache st) = 8 \<and> good (payload (sk_counter st)) \<and> phase_of (payload (sk_counter st)) = sk_phase st \<and>
     good (sk_view payload st) \<and> phase_of (sk_view payload st) = sk_phase st \<and> (sk_phase_cache st \<noteq> 0 \<and> sk_phase st = 2 \<longrightarrow> \<not> unsaved (sk_counter st))"

definition sk_inv :: "('c \<Rightarrow> bool) \<Rightarrow> ('c \<Rightarrow> bytes) \<Rightarrow> ('c \<Rightarrow> bool) \<Rightarrow> ('c, 'm) sk_state \<Rightarrow> bool" where
  "sk_inv cinv payload unsaved st \<longleftrightarrow> cinv (sk_counter st) \<and>
     (sk_phase st = 11 \<or> (sk_phase st \<le> 1 \<and> sk_floor_cache st = zeros 8 \<and> sk_phase_cache st = 0) \<or> sk_live payload unsaved st)"

text \<open>States that differ in the counter position, the hardware and the last result only.\<close>

definition sk_like :: "('c \<Rightarrow> bool) \<Rightarrow> ('c \<Rightarrow> bytes) \<Rightarrow> ('c \<Rightarrow> bool) \<Rightarrow> ('c, 'm) sk_state \<Rightarrow> ('c, 'm) sk_state \<Rightarrow> bool" where
  "sk_like cinv payload unsaved st st' \<longleftrightarrow> sk_phase st' = sk_phase st \<and> sk_floor_cache st' = sk_floor_cache st \<and> sk_phase_cache st' = sk_phase_cache st \<and>
     cinv (sk_counter st') \<and> payload (sk_counter st') = payload (sk_counter st) \<and> (unsaved (sk_counter st') \<longrightarrow> unsaved (sk_counter st))"

definition sk_failed :: "('c \<Rightarrow> bool) \<Rightarrow> ('c, 'm) sk_state \<Rightarrow> bool" where
  "sk_failed cinv st \<longleftrightarrow> sk_phase st = 11 \<and> cinv (sk_counter st)"

text \<open>What an operation does in a live state.\<close>

definition sk_leads :: "('c \<Rightarrow> bool) \<Rightarrow> ('c \<Rightarrow> bytes) \<Rightarrow> ('c \<Rightarrow> bool) \<Rightarrow> bytes \<Rightarrow> ('c, 'm) sk_state \<Rightarrow> bool" where
  "sk_leads cinv payload unsaved r st' \<longleftrightarrow> sk_failed cinv st' \<or>
     cinv (sk_counter st') \<and> sk_live payload unsaved st' \<and> key_path r (sk_view payload st')"

definition sk_moves :: "('c \<Rightarrow> bool) \<Rightarrow> ('c \<Rightarrow> bytes) \<Rightarrow> ('c \<Rightarrow> bool) \<Rightarrow> ('c, 'm) sk_state \<Rightarrow> ('c, 'm) sk_state \<Rightarrow> bool" where
  "sk_moves cinv payload unsaved st st' \<longleftrightarrow> sk_failed cinv st' \<or>
     cinv (sk_counter st') \<and> sk_live payload unsaved st' \<and> key_path (sk_view payload st) (sk_view payload st')"

lemma sk_moves_leads: "sk_moves cinv payload unsaved st st' = sk_leads cinv payload unsaved (sk_view payload st) st'"
  by (simp add: sk_moves_def sk_leads_def)

lemma good_phase: "good r \<Longrightarrow> 2 \<le> phase_of r \<and> phase_of r \<le> 10"
  using goodD(2) [of r] by (simp add: fields_ok_def)

lemma good_phase_octet: "good r \<Longrightarrow> r ! 109 \<noteq> 0"
  using good_phase [of r] by (auto simp: phase_of_def)

lemma sk_live_phase: "sk_live payload unsaved st \<Longrightarrow> 2 \<le> sk_phase st \<and> sk_phase st \<le> 10"
  using good_phase unfolding sk_live_def by metis

text \<open>Caches filled from a record show that record.\<close>

lemma overlay_keep:
  assumes "length r = 112" "r ! 109 \<noteq> 0" "same_base r b"
  shows "sk_overlay (keep_volatile r st) b = r"
proof -
  have l: "length b = 112" using assms by (simp add: same_base_def)
  have f: "length (take 8 (drop 80 r)) = 8" using assms by simp
  have "sk_overlay (keep_volatile r st) b = (store_at 80 (take 8 (drop 80 r)) b)[109 := r ! 109]"
    using assms by (simp add: sk_overlay_def keep_volatile_def)
  also have "\<dots> = r"
    by (rule nth_equalityI) (use assms l f in \<open>auto simp: nth_list_update nth_store_at same_base_def nth_take nth_drop\<close>)
  finally show ?thesis .
qed

lemma overlay_base: "length b = 112 \<Longrightarrow> length (sk_floor_cache st) = 8 \<Longrightarrow> same_base (sk_overlay st b) b"
  by (auto simp: same_base_def sk_overlay_def Let_def nth_list_update nth_store_at)

lemma sk_overlay_cong:
  "sk_floor_cache st' = sk_floor_cache st \<Longrightarrow> sk_phase_cache st' = sk_phase_cache st \<Longrightarrow> sk_overlay st' b = sk_overlay st b"
  by (simp add: sk_overlay_def Let_def)

lemma sk_live_like: "sk_live payload unsaved st \<Longrightarrow> sk_like cinv payload unsaved st st' \<Longrightarrow>
    sk_live payload unsaved st' \<and> cinv (sk_counter st') \<and> sk_view payload st' = sk_view payload st"
  by (auto simp: sk_live_def sk_like_def sk_view_def sk_overlay_cong [of st' st])

lemma sk_like_refl: "cinv (sk_counter st) \<Longrightarrow> sk_like cinv payload unsaved st st"
  by (simp add: sk_like_def)

lemma sk_like_trans: "sk_like cinv payload unsaved a b \<Longrightarrow> sk_like cinv payload unsaved b c \<Longrightarrow> sk_like cinv payload unsaved a c"
  by (simp add: sk_like_def)

lemma sk_like_hw: "sk_like cinv payload unsaved st (st'\<lparr>sk_hw := h\<rparr>) = sk_like cinv payload unsaved st st'"
  "sk_like cinv payload unsaved st (st'\<lparr>sk_result := q\<rparr>) = sk_like cinv payload unsaved st st'"
  "sk_like cinv payload unsaved (st\<lparr>sk_hw := h\<rparr>) st' = sk_like cinv payload unsaved st st'"
  by (simp_all add: sk_like_def)

lemma sk_moves_like: "sk_live payload unsaved st \<Longrightarrow> sk_like cinv payload unsaved st st' \<Longrightarrow> sk_moves cinv payload unsaved st st'"
  using sk_live_like [of payload unsaved st cinv st'] by (simp add: sk_moves_def)

lemma sk_moves_after: "sk_live payload unsaved st \<Longrightarrow> sk_like cinv payload unsaved st st1 \<Longrightarrow> sk_moves cinv payload unsaved st1 st2 \<Longrightarrow>
    sk_moves cinv payload unsaved st st2"
  using sk_live_like [of payload unsaved st cinv st1] by (simp add: sk_moves_def)

lemma sk_live_result: "sk_live payload unsaved (st\<lparr>sk_result := r\<rparr>) = sk_live payload unsaved st" "sk_view payload (st\<lparr>sk_result := r\<rparr>) = sk_view payload st"
  by (simp_all add: sk_live_def sk_view_def sk_overlay_cong [of "st\<lparr>sk_result := r\<rparr>" st])

lemma sk_finish_leads: "sk_leads cinv payload unsaved q (snd (sk_finish r st')) = sk_leads cinv payload unsaved q st'"
  by (auto simp: sk_finish_def sk_leads_def sk_failed_def sk_live_result)

lemma sk_finish_moves: "sk_moves cinv payload unsaved st (snd (sk_finish r st')) = sk_moves cinv payload unsaved st st'"
  by (simp add: sk_moves_leads sk_finish_leads)

lemma sk_hw_simps [simp]: "sk_live payload unsaved (st\<lparr>sk_hw := h\<rparr>) = sk_live payload unsaved st" "sk_view payload (st\<lparr>sk_hw := h\<rparr>) = sk_view payload st"
  "sk_moves cinv payload unsaved (st\<lparr>sk_hw := h\<rparr>) st' = sk_moves cinv payload unsaved st st'"
  by (simp_all add: sk_live_def sk_view_def sk_moves_def sk_overlay_cong [of "st\<lparr>sk_hw := h\<rparr>" st])

lemma sk_refuse_moves [simp]: "sk_moves cinv payload unsaved st (snd (snd (sk_refuse r st'))) = sk_moves cinv payload unsaved st st'"
  using sk_finish_moves [of cinv payload unsaved st r st'] by (cases "sk_finish r st'") (simp add: sk_refuse_def)

lemma sk_publish_moves [simp]: "sk_moves cinv payload unsaved st (snd (snd (sk_publish n f st'))) = sk_moves cinv payload unsaved st st'"
  using sk_finish_moves [of cinv payload unsaved st SECURITY_KEYS_OK st']
  by (cases "sk_finish SECURITY_KEYS_OK st'") (simp add: sk_publish_def)

section \<open>Loading, saving and sending\<close>

context counter_service
begin

abbreviation "live \<equiv> sk_live payload unsaved"
abbreviation "like \<equiv> sk_like cinv payload unsaved"
abbreviation "moves \<equiv> sk_moves cinv payload unsaved"
abbreviation "leads \<equiv> sk_leads cinv payload unsaved"
abbreviation "failed \<equiv> sk_failed cinv"
abbreviation "view \<equiv> sk_view payload"
abbreviation "kinv \<equiv> sk_inv cinv payload unsaved"

lemma read_spec:
  assumes "cinv (sk_counter st)" "sk_read ops st = (r, record, n, st')"
  shows "like st st' \<and> (r = SECURITY_COUNTER_OK \<longrightarrow> length (payload (sk_counter st)) \<le> 112 \<and>
    record = store_at 0 (payload (sk_counter st)) (replicate 112 0) \<and> n = of_nat (length (payload (sk_counter st))))"
proof -
  obtain r1 out c where rd: "co_read ops (sk_counter st) = (r1, out, c)" using prod_cases3 by blast
  from read_keeps [OF assms(1) rd] assms rd show ?thesis
    by (auto simp: sk_read_def sk_like_def split: option.splits)
qed

lemma store_whole: "length p = 112 \<Longrightarrow> store_at 0 p (zeros 112) = p"
  by (simp add: store_at_def)

text \<open>A load in a live state returns the effective record, unless the counter module fails.\<close>

lemma load_live:
  assumes "live st" "cinv (sk_counter st)" "sk_load ops st = (x, st')"
  shows "case x of Inl r \<Rightarrow> r = SECURITY_KEYS_STORAGE \<and> failed st' | Inr record \<Rightarrow> record = view st \<and> like st st'"
proof -
  obtain r rec n st1 where rd: "sk_read ops st = (r, rec, n, st1)" using prod_cases4 by blast
  note k = read_spec [OF assms(2) rd]
  have l: "good (payload (sk_counter st))" "phase_of (payload (sk_counter st)) = sk_phase st" using assms(1) by (simp_all add: sk_live_def)
  note p = sk_live_phase [OF assms(1)]
  have q: "sk_phase st \<noteq> 11" "\<not> sk_phase st < 2" using p by auto
  have ok: "rec = payload (sk_counter st)" "n = 112" if "r = SECURITY_COUNTER_OK"
    using k that l(1) store_whole by (simp_all add: good_def)
  from assms(3) q rd ok l k show ?thesis
    by (auto simp: sk_load_def sk_fault_def sk_failed_def sk_like_def sk_view_def good_def sk_overlay_cong [of st1 st] split: if_splits)
qed

lemma take_spec:
  assumes "cinv (sk_counter st)" "sk_take ops domain polls st = (x, st')"
  shows "case x of Inl r \<Rightarrow> r \<noteq> SECURITY_KEYS_OK \<and> (failed st' \<or> like st st') | Inr v \<Rightarrow> like st st'"
proof -
  obtain r v c where t: "co_take ops domain polls (sk_counter st) = (r, v, c)" using prod_cases3 by blast
  from take_keeps [OF assms(1) t] assms t show ?thesis
    by (auto simp: sk_take_def Let_def sk_fault_def sk_failed_def sk_like_def split: if_splits option.splits)
qed

text \<open>A successful save makes the record the effective one.\<close>

lemma save_spec:
  assumes "cinv (sk_counter st)" "good record" "sk_save ops polls record st = (r, st')"
  shows "r = SECURITY_KEYS_OK \<and> cinv (sk_counter st') \<and> live st' \<and> view st' = record \<or> r = SECURITY_KEYS_STORAGE \<and> failed st'"
proof -
  have l: "length record = 112" using assms(2) by (rule goodD)
  obtain r1 c where sv: "co_save ops record polls (sk_counter st) = (r1, c)" by fastforce
  note k = save_keeps [OF assms(1) l sv]
  show ?thesis
  proof (cases "r1 = SECURITY_COUNTER_OK")
    case True
    let ?st = "keep_volatile record (st\<lparr>sk_counter := c, sk_phase := phase_of record\<rparr>)"
    have st': "st' = ?st" "r = SECURITY_KEYS_OK" using assms(3) sv True by (simp_all add: sk_save_def)
    have c: "sk_counter ?st = c" "sk_phase ?st = phase_of record" "length (sk_floor_cache ?st) = 8" using l by (simp_all add: keep_volatile_def)
    have "sk_view payload ?st = record" unfolding sk_view_def c(1)
      using overlay_keep [OF l good_phase_octet [OF assms(2)] same_base_refl] k True by simp
    then show ?thesis using k True c assms(2) unfolding st' by (auto simp: sk_live_def)
  next
    case False
    with assms(3) sv k show ?thesis by (auto simp: sk_save_def sk_fault_def sk_failed_def)
  qed
qed

lemma save_leads:
  assumes "cinv (sk_counter st)" "key_path q record" "good record" "sk_save ops polls record st = (r, st')"
  shows "leads q st'"
  using save_spec [OF assms(1,3,4)] assms(2) by (auto simp: sk_leads_def)

lemma save_moves:
  assumes "live st" "cinv (sk_counter st)" "key_path (view st) record" "sk_save ops polls record st = (r, st')"
  shows "moves st st'"
  using save_leads [OF assms(2,3) _ assms(4)] good_path [OF assms(3)] assms(1) by (simp add: sk_live_def sk_moves_leads)

text \<open>The lazy path: only floors and keep-alive bits change.\<close>

lemma keep_leads:
  assumes "live st" "cinv (sk_counter st)" "key_path q record" "good record" "same_base (view st) record" "phase_of record = sk_phase st" "sk_phase st \<noteq> 2"
  shows "leads q (keep_volatile record st)"
proof -
  note g = assms(4)
  have l: "length record = 112" using g by (rule goodD)
  have b: "length (payload (sk_counter st)) = 112" "length (sk_floor_cache st) = 8" using assms(1) by (simp_all add: sk_live_def good_def)
  have "same_base record (payload (sk_counter st))"
    using overlay_base [OF b] assms(5) by (auto simp: same_base_def sk_view_def)
  then have "sk_overlay (keep_volatile record st) (payload (sk_counter st)) = record"
    by (rule overlay_keep [OF l good_phase_octet [OF g]])
  then have "view (keep_volatile record st) = record" by (simp add: sk_view_def keep_volatile_def)
  moreover have "sk_counter (keep_volatile record st) = sk_counter st" "sk_phase (keep_volatile record st) = sk_phase st"
    "length (sk_floor_cache (keep_volatile record st)) = 8" using l by (simp_all add: keep_volatile_def)
  ultimately show ?thesis using assms g by (auto simp: sk_leads_def sk_live_def)
qed

lemma keep_moves:
  assumes "live st" "cinv (sk_counter st)" "key_path (view st) record" "same_base (view st) record" "phase_of record = sk_phase st" "sk_phase st \<noteq> 2"
  shows "moves st (keep_volatile record st)"
  using keep_leads [OF assms(1-3) _ assms(4-6)] good_path [OF assms(3)] assms(1) by (simp add: sk_live_def sk_moves_leads)

lemma protect_spec:
  assumes "cinv (sk_counter st)" "sk_protect ops aes layer domain polls sel frame st = (x, st')"
  shows "case x of Inl r \<Rightarrow> failed st' \<or> like st st' | Inr v \<Rightarrow> like st st'"
proof -
  obtain s hw where sel: "sel = (s, hw)" by fastforce
  show ?thesis
  proof (cases s)
    case (Inl r)
    with assms sel show ?thesis by (auto simp: sk_protect_def sk_like_hw sk_like_refl)
  next
    case (Inr k)
    obtain t st1 where tk: "sk_take ops domain polls (st\<lparr>sk_hw := hw\<rparr>) = (t, st1)" by fastforce
    from take_spec [OF _ tk] assms(1) have "case t of Inl r \<Rightarrow> failed st1 \<or> like st st1 | Inr v \<Rightarrow> like st st1"
      by (auto simp: sk_like_hw split: sum.splits)
    with assms(2) sel Inr tk show ?thesis
      by (auto simp: sk_protect_def sk_like_hw split: sum.splits prod.splits if_splits)
  qed
qed

lemma protect_like:
  assumes "like st s" "sk_protect ops aes layer d polls sel f s = (y, s')"
  shows "failed s' \<or> like st s'" "y = Inr v \<Longrightarrow> like st s'"
proof -
  have "cinv (sk_counter s)" using assms(1) by (simp add: sk_like_def)
  from protect_spec [OF this assms(2)] sk_like_trans [OF assms(1)]
  show "failed s' \<or> like st s'" "y = Inr v \<Longrightarrow> like st s'" by (auto split: sum.splits)
qed

lemma seal_spec:
  assumes "cinv (sk_counter st)" "sk_seal ops aes limits polls aps rec p st = (x, st')"
  shows "(failed st' \<or> like st st') \<and> (\<forall>v. x = Inr v \<longrightarrow> like st st')"
proof -
  have rf: "like st st" using assms(1) by (rule sk_like_refl)
  let ?inner = "\<lambda>a. if aps then
      (case ed_wire_nwk (Some a) True of Inl e \<Rightarrow> (Inl (crypto_result e), st)
       | Inr i \<Rightarrow> let offset = nfi_payload_offset i in
         (case sk_protect ops aes ZIGBEE_SECURITY_APS 1 polls (sk_key aes limits rec K_LK 0 True (sk_hw st))
             (take (nfi_payload_length i) (drop offset a)) st of
           (Inl r, st1) \<Rightarrow> (Inl r, st1)
         | (Inr b, st1) \<Rightarrow> if offset + length b > 116 then (Inl SECURITY_KEYS_SPACE, st1) else (Inr (take offset a @ b), st1)))
    else (Inr a, st)"
  have inner: "(failed s \<or> like st s) \<and> (\<forall>v. y = Inr v \<longrightarrow> like st s)" if "?inner a = (y, s)" for a y s
    using that protect_like [OF rf] rf by (auto simp: Let_def split: sum.splits prod.splits if_splits)
  let ?pk = "p\<lparr>ep_nwk := (ep_nwk p)\<lparr>nwk_flags := if parent_information rec \<noteq> 0
      then nwk_flags (ep_nwk p) AND NOT NWK_FLAG_END_DEVICE_INITIATOR OR NWK_FLAG_END_DEVICE_INITIATOR
      else nwk_flags (ep_nwk p) AND NOT NWK_FLAG_END_DEVICE_INITIATOR\<rparr>\<rparr>"
  note run = assms(2) [unfolded sk_seal_def Let_def [of "active_slot rec"] Let_def [of "ep_nwk p"] Let_def [of "_ AND _"] Let_def [of "if _ then _ else _"]]
  show ?thesis
  proof (cases "ed_wire_encode (Some ?pk) True 116 True")
    case (Inl e)
    with run rf show ?thesis by simp
  next
    case (Inr a)
    obtain y s where y: "?inner a = (y, s)" by fastforce
    show ?thesis
    proof (cases y)
      case (Inl r)
      with run \<open>ed_wire_encode _ _ _ _ = Inr a\<close> y inner [OF y] show ?thesis by simp
    next
      case (Inr f)
      then have l: "like st s" using inner [OF y] by blast
      with run \<open>ed_wire_encode _ _ _ _ = Inr a\<close> y Inr protect_like [OF l] show ?thesis
        by (auto simp: sk_like_hw split: prod.splits sum.splits)
    qed
  qed
qed

section \<open>Sending\<close>

lemma seal_moves:
  assumes "live st" "cinv (sk_counter st)" "sk_seal ops aes limits polls aps rec p st = (x, st')"
  shows "moves st st'" "x = Inr v \<Longrightarrow> live st' \<and> cinv (sk_counter st') \<and> view st' = view st"
proof -
  note k = seal_spec [OF assms(2,3)]
  show "x = Inr v \<Longrightarrow> live st' \<and> cinv (sk_counter st') \<and> view st' = view st" using k sk_live_like [OF assms(1)] by blast
  show "moves st st'" using k sk_moves_like [OF assms(1)] by (auto simp: sk_moves_def)
qed

lemma moves_after: "live st1 \<Longrightarrow> view st1 = view st \<Longrightarrow> moves st1 st2 \<Longrightarrow> moves st st2"
  by (simp add: sk_moves_def)

lemma advance_moves:
  assumes "live st" "cinv (sk_counter st)" "key_step (view st) (set_phase next rec)"
  shows "moves st (snd (snd (sk_advance ops polls next capacity rec (sk_seal ops aes limits polls aps rec p st))))"
proof -
  obtain x st1 where x: "sk_seal ops aes limits polls aps rec p st = (x, st1)" by fastforce
  note k = seal_moves [OF assms(1,2) x]
  show ?thesis
  proof (cases x)
    case (Inl r)
    then show ?thesis using k(1) x by (simp add: sk_advance_def)
  next
    case (Inr frame)
    obtain r st2 where sv: "sk_save ops polls (set_phase next rec) st1 = (r, st2)" by fastforce
    have "moves st st2"
      using save_moves [OF _ _ _ sv] k(2) [OF Inr] assms(3) moves_after [of st1 st st2] by (simp add: key_path_step)
    then show ?thesis using x Inr sv by (simp add: sk_advance_def)
  qed
qed

text \<open>Operations that begin with a load.\<close>

lemma load_moves:
  assumes "live st" "cinv (sk_counter st)" and "\<And>st1. live st1 \<Longrightarrow> cinv (sk_counter st1) \<Longrightarrow> view st1 = view st \<Longrightarrow> moves st1 (snd (snd (body (view st) st1)))"
  shows "moves st (snd (snd (case sk_load ops st of (Inl r, st1) \<Rightarrow> sk_refuse r st1 | (Inr rec, st1) \<Rightarrow> body rec st1)))"
proof -
  obtain x st1 where x: "sk_load ops st = (x, st1)" by fastforce
  note k = load_live [OF assms(1,2) x]
  show ?thesis
  proof (cases x)
    case (Inl r)
    then have "moves st st1" using k by (simp add: sk_moves_def)
    then show ?thesis using x Inl by simp
  next
    case (Inr rec)
    then have "like st st1" "rec = view st" using k by simp_all
    with sk_live_like [OF assms(1) this(1)] assms(3) [of st1] moves_after [of st1 st] x Inr show ?thesis by simp
  qed
qed

lemma moves_refl: "live st \<Longrightarrow> cinv (sk_counter st) \<Longrightarrow> moves st st"
  by (simp add: sk_moves_def)

lemma request_moves:
  assumes "live st" "cinv (sk_counter st)"
  shows "moves st (snd (snd (security_keys_request ops aes nseq actr out capacity written limits polls st)))"
  unfolding security_keys_request_def
proof (rule load_moves [OF assms], goal_cases)
  case (1 st1)
  have "phase_of (view st) = 4 \<or> phase_of (view st) = 5 \<or> phase_of (view st) = 8"
    if "\<not> (phase_of (view st) - 4 > 1 \<and> phase_of (view st) \<noteq> 8)"
    using that word_le_cases(1) [of "phase_of (view st) - 4"] by (auto simp: not_less diff_eq_eq)
  then show ?case using advance_moves [OF 1(1,2)] moves_refl [OF 1(1,2)] 1(3) Request [of "view st"] by auto
qed

lemma verify_moves:
  assumes "live st" "cinv (sk_counter st)"
  shows "moves st (snd (snd (security_keys_verify ops aes nseq actr out capacity written limits polls st)))"
  unfolding security_keys_verify_def
proof (rule load_moves [OF assms], goal_cases)
  case (1 st1)
  have "phase_of (view st) = 6 \<or> phase_of (view st) = 7" if "\<not> phase_of (view st) - 6 > 1"
    using that word_le_cases(1) [of "phase_of (view st) - 6"] by (auto simp: not_less diff_eq_eq)
  then have a: "moves st1 (snd (snd (sk_advance ops polls 7 capacity (view st) (sk_seal ops aes (the limits) polls False (view st) p (st1\<lparr>sk_hw := h\<rparr>)))))"
    if "\<not> phase_of (view st) - 6 > 1" for p h
    using advance_moves [of "st1\<lparr>sk_hw := h\<rparr>"] 1 Verify [of "view st"] that by simp
  have b: "moves st1 (st1\<lparr>sk_hw := h\<rparr>)" for h using 1(1,2) by (simp add: sk_moves_def)
  show ?case using a b moves_refl [OF 1(1,2)] by (auto simp: Let_def split: prod.splits)
qed

lemma leave_moves:
  assumes "live st" "cinv (sk_counter st)"
  shows "moves st (snd (snd (security_keys_leave ops aes nseq out capacity written limits polls st)))"
  unfolding security_keys_leave_def
proof (rule load_moves [OF assms], goal_cases)
  case (1 st1)
  let ?r = "view st" and ?new = "sk_set_rejoin False (set_phase SECURITY_KEYS_LEFT (view st))"
  obtain x st2 where x: "(if sk_network ?r then sk_seal ops aes (the limits) polls False ?r (leave_packet nseq ?r) st1 else (Inr [], st1)) = (x, st2)"
    by fastforce
  have k: "moves st1 st2" "x = Inr v \<Longrightarrow> live st2 \<and> cinv (sk_counter st2) \<and> view st2 = view st1" for v
    using x seal_moves [OF 1(1,2)] moves_refl [OF 1(1,2)] 1(1,2) by (auto split: if_splits)
  obtain r st3 where sv: "sk_save ops polls ?new st2 = (r, st3)" by fastforce
  have m: "moves st1 st3" if "x = Inr v" for v
    using save_moves [OF _ _ _ sv] k(2) [OF that] Leave [of ?r False] 1(3) moves_after [of st2 st1 st3] by (simp add: key_path_step)
  have f: "moves st1 (snd (snd (case sk_finish q st3 of (r1, st4) \<Rightarrow> (r1, Some [], st4))))" if "x = Inr v" for q v
    using m [OF that] sk_finish_moves [of cinv payload unsaved st1 q st3] by (cases "sk_finish q st3") simp
  show ?case unfolding x using k(1) m f moves_refl [OF 1(1,2)] by (auto simp: sv split: sum.splits)
qed

lemma send_check_cases:
  assumes "sk_send_check p aps r = Inr t"
  shows "t = 0 \<or> t = 9 \<and> ep_payload p ! 0 \<noteq> 11 \<or> t = 10 \<and> ep_payload p ! 0 \<noteq> 11 \<and> sk_verified r \<and>
    (r ! 108 AND 16 \<noteq> 0 \<or> sk_all (drop 64 r) 16 0) \<and> (phase_of r = 8 \<or> phase_of r = 10 \<or> phase_of r = 9 \<and> r ! 108 AND 64 \<noteq> 0)"
proof -
  have "case sk_send_check p aps r of Inl e \<Rightarrow> True | Inr t \<Rightarrow> t = 0 \<or> t = 9 \<and> ep_payload p ! 0 \<noteq> 11 \<or> t = 10 \<and> ep_payload p ! 0 \<noteq> 11 \<and> sk_verified r \<and>
    (r ! 108 AND 16 \<noteq> 0 \<or> sk_all (drop 64 r) 16 0) \<and> (phase_of r = 8 \<or> phase_of r = 10 \<or> phase_of r = 9 \<and> r ! 108 AND 64 \<noteq> 0)"
    unfolding sk_send_check_def Let_def by (simp split: if_split)
  then show ?thesis using assms by simp
qed

text \<open>The end of a send: the phase it leads to was admitted by the check of the packet.\<close>

lemma sent_moves:
  assumes "live st" "cinv (sk_counter st)" and t: "sk_send_check p aps (view st) = Inr t" and n: "sk_network (view st)"
    and ph: "\<not> ((phase_of (view st) = 9 \<or> phase_of (view st) = 10) \<and> t = 0)"
    and r1: "r1 = (if t = 10 then (view st)[109 := view st ! 109 AND NOT (0x70 OR 0x80)] else view st)"
  shows "moves st (snd (snd (sk_sent ops polls t p capacity frame r1 st)))"
proof -
  have l: "length (view st) = 112" using assms(1) by (simp add: sk_live_def good_def)
  have g: "sk_phase st = phase_of (view st)" "good (view st)" using assms(1) by (simp_all add: sk_live_def)
  have step: "key_step (view st) (sk_send_record t p r1)" if "t \<noteq> 0"
  proof -
    from send_check_cases [OF t] that consider "t = 9"
      | "t = 10" "sk_verified (view st)" "bit (view st ! 108) 4 \<or> fld 64 16 (view st) = zeros 16"
        "phase_of (view st) \<in> {8, 10} \<or> phase_of (view st) = 9 \<and> bit (view st ! 108) 6"
      using l by (auto simp: sk_all_fld)
    then show ?thesis
    proof cases
      case 1
      then show ?thesis using Leave [of "view st"] n by (simp add: sk_send_record_def Let_def r1)
    next
      case 2
      then show ?thesis using Rejoin [OF n 2(2-4)] by (simp add: sk_send_record_def Let_def r1)
    qed
  qed
  show ?thesis
  proof (cases "t = 0")
    case False
    obtain r st1 where sv: "sk_save ops polls (sk_send_record t p r1) st = (r, st1)" by fastforce
    have m: "moves st st1" using save_moves [OF assms(1,2) _ sv] step [OF False] by (simp add: key_path_step)
    have "ep_payload p ! 0 \<noteq> 11" using send_check_cases [OF t] False by blast
    then show ?thesis using m sv False moves_refl [OF assms(1,2)] by (simp add: sk_sent_def Let_def)
  next
    case True
    let ?v = "view st ! 109 OR 0x80"
    have p: "phase_of (view st) \<noteq> 9" "phase_of (view st) \<noteq> 10" using ph True by blast+
    have q: "phase_of ((view st)[109 := ?v]) = phase_of (view st)" using l by (simp add: phase_of_def bit.conj_disj_distrib2)
    have two: "phase_of (view st) \<noteq> 2" using n goodD(2) [OF g(2)] by (auto simp: fields_ok_def is_bare_def sk_network_def and_3)
    have "moves st (keep_volatile ((view st)[109 := ?v]) st)"
      by (rule keep_moves [OF assms(1,2)]) (use Timeout_request [OF n p] same_base_phase q g two in \<open>simp_all add: key_path_step\<close>)
    then show ?thesis using True moves_refl [OF assms(1,2)] by (simp add: sk_sent_def Let_def r1)
  qed
qed

lemma send_moves:
  assumes "live st" "cinv (sk_counter st)"
  shows "moves st (snd (snd (security_keys_send ops aes packet aps out capacity written limits polls st)))"
  unfolding security_keys_send_def
proof (rule load_moves [OF assms], goal_cases)
  case (1 st1)
  note rf = moves_refl [OF 1(1,2)]
  have go: "moves st1 (snd (snd (case sk_seal ops aes (the limits) polls b r1 p st1 of (Inl r, st2) \<Rightarrow> sk_refuse r st2
      | (Inr frame, st2) \<Rightarrow> sk_sent ops polls t p capacity frame r1 st2)))"
    if t: "sk_send_check p aps (view st) = Inr t" and n: "sk_network (view st)" and ph: "\<not> ((phase_of (view st) = 9 \<or> phase_of (view st) = 10) \<and> t = 0)"
      and r1: "r1 = (if t = 10 then (view st)[109 := view st ! 109 AND NOT (0x70 OR 0x80)] else view st)" for p t r1 b
  proof -
    obtain x st2 where x: "sk_seal ops aes (the limits) polls b r1 p st1 = (x, st2)" by fastforce
    note k = seal_moves [OF 1(1,2) x]
    show ?thesis
    proof (cases x)
      case (Inl r)
      then show ?thesis using k(1) x by simp
    next
      case (Inr frame)
      note k2 = k(2) [OF Inr]
      have v: "view st2 = view st" using k2 1(3) by simp
      have "moves st2 (snd (snd (sk_sent ops polls t p capacity frame r1 st2)))"
        by (rule sent_moves [where aps = aps]) (use k2 in blast, use k2 in blast, simp_all only: v t n r1, use ph in blast)
      then show ?thesis using moves_after [of st2 st1] k2 x Inr by simp
    qed
  qed
  show ?case
  proof (cases packet)
    case (Some p)
    then show ?thesis using rf go by (auto simp: Let_def split: sum.splits)
  qed (use rf in simp)
qed

section \<open>Receiving\<close>

lemma rejected_leads:
  assumes "live st" "cinv (sk_counter st)" "key_path q rec" "good rec" "\<not> durable \<Longrightarrow> same_base (view st) rec \<and> phase_of rec = sk_phase st" "sk_phase st \<noteq> 2"
  shows "leads q (snd (snd (sk_rejected ops polls r durable rec st)))"
proof (cases durable)
  case True
  obtain r1 st1 where sv: "sk_save ops polls rec st = (r1, st1)" by fastforce
  obtain r2 st2 where f: "sk_finish (if r1 \<noteq> SECURITY_KEYS_OK then r1 else r) st1 = (r2, st2)" by fastforce
  have "leads q st2" using save_leads [OF assms(2-4) sv] sk_finish_leads [of cinv payload unsaved q _ st1] f by (metis snd_conv)
  then show ?thesis using True sv f by (simp add: sk_rejected_def)
next
  case False
  obtain r2 st2 where f: "sk_finish r (keep_volatile rec st) = (r2, st2)" by fastforce
  have "leads q st2" using keep_leads [OF assms(1-4)] assms(5) [OF False] assms(6) sk_finish_leads [of cinv payload unsaved q r "keep_volatile rec st"] f
    by simp
  then show ?thesis using False f by (simp add: sk_rejected_def)
qed

lemma accepted_leads:
  assumes "live st" "cinv (sk_counter st)" "key_path q rec" "good rec" "sk_phase st \<noteq> 2"
    and "\<not> (ev > 1 \<or> cx_aps_secured cx \<noteq> 0 \<or> cx_secured cx = 2) \<Longrightarrow> same_base (view st) rec \<and> phase_of rec = sk_phase st"
  shows "leads q (snd (snd (sk_accepted ops polls ev cx p rec st)))"
proof -
  let ?d = "ev > 1 \<or> cx_aps_secured cx \<noteq> 0 \<or> cx_secured cx = 2"
  obtain r st1 where e: "(if ?d then sk_save ops polls rec st else (SECURITY_KEYS_OK, keep_volatile rec st)) = (r, st1)" by fastforce
  have m: "leads q st1"
    using e save_leads [OF assms(2-4)] keep_leads [OF assms(1-4) _ _ assms(5)] assms(6) by (cases ?d) auto
  obtain r2 st2 where f: "sk_finish r st1 = (r2, st2)" by fastforce
  have "leads q st2" using m sk_finish_leads [of cinv payload unsaved q r st1] f by simp
  then show ?thesis unfolding sk_accepted_def Let_def e using f by simp
qed

lemma opened_leads:
  assumes st: "live st" "cinv (sk_counter st)" "sk_phase st \<noteq> 2" and o: "outer_ok (view st) (rec, frame, secured)"
  shows "leads rec (snd (snd (sk_opened ops aes limits polls rec frame secured st)))"
proof -
  have kq: "quiet_step\<^sup>*\<^sup>* (view st) rec" and k: "key_path (view st) rec" "phase_of rec = sk_phase st" "secured \<noteq> 0 \<longrightarrow> sk_network rec" "secured \<noteq> 2 \<longrightarrow> same_base (view st) rec"
    using o st(1) by (auto simp: outer_ok_def sk_live_def intro: key_path_quiet)
  have g: "good rec" using good_path [OF k(1)] st(1) by (simp add: sk_live_def)
  have l: "length rec = 112" using g by (rule goodD)
  have rej: "leads rec (snd (snd (sk_rejected ops polls r (secured = 2) rec (st\<lparr>sk_hw := h\<rparr>))))" for r h
    using rejected_leads [of "st\<lparr>sk_hw := h\<rparr>" rec rec "secured = 2" polls r] st k g by simp
  have rej0: "leads rec (snd (snd (sk_rejected ops polls r (secured = 2) rec st)))" for r
    using rejected_leads [of st rec rec "secured = 2" polls r] st k g by simp
  have run: "leads rec (snd (snd (let st1 = st\<lparr>sk_hw := h\<rparr>; durable = (cx_aps_secured cx = 2 \<or> secured = 2) in
            (case ed_wire_decode (Some frame1) True of Inl e \<Rightarrow> sk_rejected ops polls (crypto_result e) durable rec1 st1
             | Inr p \<Rightarrow>
               (case sk_dispatch cx p rec1 of (r, event, rec2) \<Rightarrow>
                 if r \<noteq> SECURITY_KEYS_OK then sk_rejected ops polls r durable rec2 st1
                 else sk_accepted ops polls event cx p rec2 st1)))))"
    if i: "quiet_step\<^sup>*\<^sup>* rec rec1" "phase_of rec1 = phase_of rec" "rec1 ! 108 = rec ! 108" "cx_secured cx = secured" "cx_aps_secured cx \<noteq> 2 \<longrightarrow> rec1 = rec"
      for rec1 frame1 cx h
  proof -
    have sq: "quiet_step\<^sup>*\<^sup>* (view st) rec1" using kq i(1) by simp
    then have s1: "key_path (view st) rec1" by (rule key_path_quiet)
    have g1: "good rec1" using good_path [OF s1] st(1) by (simp add: sk_live_def)
    have l1: "length rec1 = 112" using g1 by (rule goodD)
    have q1: "key_path rec rec1" using i(1) by (rule key_path_quiet)
    have b1: "same_base (view st) rec1" if "\<not> (cx_aps_secured cx = 2 \<or> secured = 2)" using that i(5) k(4) by simp
    note R = rejected_leads [of "st\<lparr>sk_hw := h\<rparr>" rec rec1 "cx_aps_secured cx = 2 \<or> secured = 2"]
    show ?thesis
    proof (cases "ed_wire_decode (Some frame1) True")
      case (Inl e)
      then show ?thesis using R q1 g1 b1 st i(2) k(2) by (simp add: Let_def)
    next
      case (Inr p)
      obtain r ev rec2 where d: "sk_dispatch cx p rec1 = (r, ev, rec2)" using prod_cases3 by blast
      have net: "cx_secured cx \<noteq> 0 \<longrightarrow> sk_network rec1" using i(3,4) k(3) by (simp add: sk_network_def)
      have "effect rec1 (sk_dispatch cx p rec1)"
        by (rule sk_dispatch_effect [OF _ l1 ed_wire_decode_payload [OF Inr]]) (use net in simp)
      then have ef: "effect rec1 (r, ev, rec2)" by (simp only: d)
      show ?thesis
      proof (cases "r = SECURITY_KEYS_OK")
        case False
        then have "rec2 = rec1" using ef by (simp add: effect_def)
        then show ?thesis using False Inr d R q1 g1 b1 st i(2) k(2) by (simp add: Let_def)
      next
        case True
        then have e: "rec2 = rec1 \<or> key_step rec1 rec2" "ev \<in> {0, 1} \<longrightarrow> same_base rec1 rec2 \<and> phase_of rec2 = phase_of rec1" using ef by (simp_all add: effect_def)
        have "leads rec (snd (snd (sk_accepted ops polls ev cx p rec2 (st\<lparr>sk_hw := h\<rparr>))))"
        proof (rule accepted_leads, goal_cases)
          case 6
          then have "ev \<le> 1" "cx_aps_secured cx = 0" "secured \<noteq> 2" using i(4) by (simp_all add: not_less)
          moreover from this(1) have "ev \<in> {0, 1}" using word_le_cases(1) by auto
          ultimately show ?case using e(2) b1 same_base_trans i(2) k(2) by auto
        qed (use st key_path_end [OF i(1) e(1)] good_step [of rec1 rec2] g1 e(1) in auto)
        then show ?thesis using True Inr d by (simp add: Let_def)
      qed
    qed
  qed
  show ?thesis
  proof (cases "ed_wire_nwk (Some frame) True")
    case (Inl e)
    then show ?thesis using rej0 by (simp add: sk_opened_def)
  next
    case (Inr n)
    let ?c = "nwk_type (nfi_header n) \<noteq> ED_NWK_COMMAND"
    let ?cx = "\<lparr>cx_secured = secured, cx_aps_secured = 0, cx_pending = False, cx_key_id = 0, cx_counter = 0\<rparr>"
    obtain x h where x: "(if ?c then sk_open_aps aes limits rec frame secured (nfi_payload_offset n) (nfi_payload_length n) (sk_hw st)
        else (Inr (rec, frame, ?cx), sk_hw st)) = (x, h)" by fastforce
    show ?thesis
    proof (cases x)
      case (Inl e)
      then show ?thesis unfolding sk_opened_def Let_def [of ?cx] using \<open>ed_wire_nwk _ _ = Inr n\<close> x rej rej0 by simp
    next
      case x2: (Inr y)
      obtain rec1 frame1 cx where y: "y = (rec1, frame1, cx)" using prod_cases3 by blast
      have "quiet_step\<^sup>*\<^sup>* rec rec1 \<and> phase_of rec1 = phase_of rec \<and> rec1 ! 108 = rec ! 108 \<and> cx_secured cx = secured \<and> (cx_aps_secured cx \<noteq> 2 \<longrightarrow> rec1 = rec)"
        using x x2 y by (cases ?c) (auto dest!: sk_open_aps_inner [OF _ l])
      then have "leads rec (snd (snd (let st1 = st\<lparr>sk_hw := h\<rparr>; durable = (cx_aps_secured cx = 2 \<or> secured = 2) in
            (case ed_wire_decode (Some frame1) True of Inl e \<Rightarrow> sk_rejected ops polls (crypto_result e) durable rec1 st1
             | Inr p \<Rightarrow>
               (case sk_dispatch cx p rec1 of (r, event, rec2) \<Rightarrow>
                 if r \<noteq> SECURITY_KEYS_OK then sk_rejected ops polls r durable rec2 st1
                 else sk_accepted ops polls event cx p rec2 st1)))))"
        by (intro run) blast+
      then show ?thesis unfolding sk_opened_def Let_def [of ?cx] using \<open>ed_wire_nwk _ _ = Inr n\<close> x x2 y rej0 by simp
    qed
  qed
qed

lemma receive_moves:
  assumes "live st" "cinv (sk_counter st)"
  shows "moves st (snd (snd (security_keys_receive ops aes raw out event limits polls st)))"
  unfolding security_keys_receive_def
proof (rule load_moves [OF assms], goal_cases)
  case (1 st1)
  note rf = moves_refl [OF 1(1,2)]
  have hw: "moves st1 (st1\<lparr>sk_hw := h\<rparr>)" for h using 1(1,2) by (simp add: sk_moves_def)
  have l: "length (view st) = 112" using 1(1,3) by (simp add: sk_live_def good_def)
  have go: "moves st1 (snd (snd (sk_opened ops aes (the limits) polls rec frame secured (st1\<lparr>sk_hw := h\<rparr>))))"
    if "sk_open_nwk aes (the limits) (view st) (the raw) nwk (sk_hw st1) = (Inr (rec, frame, secured), h)" "\<not> sk_phase st1 < 3" for rec frame secured h nwk
  proof -
    have "sk_phase st1 \<noteq> 2" using that(2) by auto
    then have "leads rec (snd (snd (sk_opened ops aes (the limits) polls rec frame secured (st1\<lparr>sk_hw := h\<rparr>))))"
      using opened_leads [of "st1\<lparr>sk_hw := h\<rparr>" rec frame secured] sk_open_nwk_outer [OF that(1) l] 1 by simp
    moreover have "quiet_step\<^sup>*\<^sup>* (view st1) rec" using sk_open_nwk_outer [OF that(1) l] 1(3) by (simp add: outer_ok_def)
    ultimately show ?thesis using key_path_after by (auto simp: sk_leads_def sk_moves_def)
  qed
  show ?case using rf hw go by (auto split: sum.splits prod.splits)
qed

text \<open>A call that reports a packet went through the outer layer, and its effect starts from the record that layer left.\<close>

lemma receive_output:
  assumes "live st" "cinv (sk_counter st)" and run: "security_keys_receive ops aes raw out event limits polls st = (r, Some o', st')"
  obtains f n hw x hw' where "raw = Some f" "ed_wire_nwk raw True = Inr n" "sk_open_nwk aes (the limits) (view st) f (nfi_header n) hw = (Inr x, hw')"
    "leads (fst x) st'"
proof -
  obtain y st1 where y: "sk_load ops st = (y, st1)" by fastforce
  note k = load_live [OF assms(1,2) y]
  have no: "sk_refuse q s \<noteq> (r, Some o', st')" for q s by (auto simp: sk_refuse_def split: prod.splits)
  then obtain rec where rec: "y = Inr rec" using run y by (cases y) (auto simp: security_keys_receive_def)
  then have rv: "rec = view st" "like st st1" using k by simp_all
  note l = sk_live_like [OF assms(1) rv(2)]
  have len: "length (view st) = 112" using assms(1) by (simp add: sk_live_def good_def)
  from run y rec no rv obtain f n where f: "raw = Some f" "\<not> sk_phase st1 < 3" and n: "ed_wire_nwk raw True = Inr n"
    and go: "(case sk_open_nwk aes (the limits) (view st) f (nfi_header n) (sk_hw st1) of (Inl q, h) \<Rightarrow> sk_refuse q (st1\<lparr>sk_hw := h\<rparr>)
      | (Inr (rec1, frame, secured), h) \<Rightarrow> sk_opened ops aes (the limits) polls rec1 frame secured (st1\<lparr>sk_hw := h\<rparr>)) = (r, Some o', st')"
    by (cases raw) (auto simp: security_keys_receive_def split: if_splits sum.splits)
  obtain z h where z: "sk_open_nwk aes (the limits) (view st) f (nfi_header n) (sk_hw st1) = (z, h)" by fastforce
  with go no obtain rec1 frame secured where z1: "z = Inr (rec1, frame, secured)" by (cases z) auto
  have two: "sk_phase st1 \<noteq> 2" using f(2) by auto
  have "leads rec1 (snd (snd (sk_opened ops aes (the limits) polls rec1 frame secured (st1\<lparr>sk_hw := h\<rparr>))))"
    using opened_leads [of "st1\<lparr>sk_hw := h\<rparr>" rec1 frame secured] sk_open_nwk_outer [OF z [unfolded z1] len] l two by simp
  then have "leads rec1 st'" using go z z1 by simp
  with f n z z1 that show ?thesis by simp
qed

end

end
