(* ===== verification/Key_Invariant.thy ===== *)
theory Key_Invariant
  imports Key_Store Counter_Proof
begin

text \<open>
  The remaining operations of the key store, the invariant of every reachable state, and the
  counter module as the provider of the contract \<open>counter_service\<close>.
\<close>

lemma mmo_hash_length:
  assumes "zigbee_mmo_hash aes inp len out timeout limit info m = (ZIGBEE_MMO_OK, h, i, m')"
  shows "length h = 16"
proof -
  have c: "length (mmo_hash st') = 16" if "mmo_compress aes st = (True, st')" for st st'
    using that by (auto simp: mmo_compress_def Let_def split: prod.splits if_splits)
  have "length (mmo_hash st') = 16" if "mmo_close aes b off st = (True, st')" for b off st st'
    using that c by (auto simp: mmo_close_def Let_def split: prod.splits if_splits)
  with assms show ?thesis by (auto simp: zigbee_mmo_hash_def Let_def split: prod.splits if_splits)
qed

lemma install_link_length:
  "install_code_derive aes code len out timeout limit info m = (ZIGBEE_MMO_OK, h, i, m') \<Longrightarrow> length h = 16"
  by (auto simp: install_code_derive_def Let_def dest: mmo_hash_length split: option.splits if_splits)

text \<open>A provisioned record is valid when its configuration is and its link key is not zero.\<close>

lemma provision_good:
  assumes "valid_config (sk_provision_record c)" "length link = 16" "link \<noteq> zeros 16" "length (skc_own_ieee c) = 8" "length (skc_tc_ieee c) = 8"
    "length (skc_extended_pan c) = 8"
  shows "good (set_phase 2 ((store_at 48 link (sk_provision_record c))[110 := 0x4b, 110 + 1 := 2])) \<and>
    phase_of (set_phase 2 ((store_at 48 link (sk_provision_record c))[110 := 0x4b, 110 + 1 := 2])) = 2"
proof -
  let ?p = "sk_provision_record c"
  have l: "length ?p = 112" using assms(4-6) by (simp add: sk_provision_record_def Let_def)
  have z: "?p ! 108 = 0" "?p ! 106 = 0" "?p ! 107 = 0" "fld 16 16 ?p = zeros 16" "fld 32 16 ?p = zeros 16" "fld 64 16 ?p = zeros 16"
    "fld 80 4 ?p = zeros 4" "fld 84 4 ?p = zeros 4"
    using assms(4-6) by (simp_all add: sk_provision_record_def Let_def fld_store_other fld_update nth_store_at nth_list_update fld_def [of _ _ "replicate _ _"])
  have d: "decode32 (zeros 4) = 0" by (simp add: decode32_def)
  have "phase_byte 2 x = 2" for x by (simp add: phase_byte_def)
  then show ?thesis using assms(1-3) l z d
    by (simp add: good_simps valid_config_fld fields_ok_def is_bare_def link_ok_def phase_ok_def)
qed

section \<open>Reachable states\<close>

text \<open>
  The arrays of a configuration have eight octets, and the key an install code derives is not zero:
  the code stores that key without a check, and a record with a zero link key is refused afterwards.
\<close>

definition provision_ok :: "'m aes_call \<Rightarrow> security_keys_config option \<Rightarrow> bytes option \<Rightarrow> ccm_star_limits option \<Rightarrow> 'm \<Rightarrow> bool" where
  "provision_ok aes config code limits hw \<longleftrightarrow>
     (\<forall>c. config = Some c \<longrightarrow> length (skc_own_ieee c) = 8 \<and> length (skc_tc_ieee c) = 8 \<and> length (skc_extended_pan c) = 8) \<and>
     (case install_code_derive aes (Some (take 18 (the code))) 18 True (block_timeout (the limits)) (block_polls (the limits)) True hw of
       (r, link, _, _) \<Rightarrow> r = ZIGBEE_MMO_OK \<longrightarrow> link \<noteq> zeros 16)"

text \<open>One call of the key store.\<close>

inductive sk_step :: "'c counter_ops \<Rightarrow> 'm aes_call \<Rightarrow> ('c, 'm) sk_state \<Rightarrow> ('c, 'm) sk_state \<Rightarrow> bool" for ops aes where
  Open: "sk_step ops aes st (snd (security_keys_open ops st))"
| Provision: "provision_ok aes config code limits (sk_hw st) \<Longrightarrow>
    sk_step ops aes st (snd (security_keys_provision ops aes config code nf af limits polls st))"
| Associate: "sk_step ops aes st (snd (security_keys_associate ops addr polls st))"
| Receive: "sk_step ops aes st (snd (snd (security_keys_receive ops aes raw out event limits polls st)))"
| Request: "sk_step ops aes st (snd (snd (security_keys_request ops aes nseq actr out capacity written limits polls st)))"
| Verify: "sk_step ops aes st (snd (snd (security_keys_verify ops aes nseq actr out capacity written limits polls st)))"
| Send: "sk_step ops aes st (snd (snd (security_keys_send ops aes packet aps out capacity written limits polls st)))"
| Leave: "sk_step ops aes st (snd (snd (security_keys_leave ops aes nseq out capacity written limits polls st)))"
| Status: "sk_step ops aes st (snd (snd (security_keys_status ops out st)))"

text \<open>A frame with the security flag of the network layer, and the metadata of its auxiliary header.\<close>

definition secured_frame :: "bytes \<Rightarrow> zigbee_security_meta \<Rightarrow> bool" where
  "secured_frame raw meta \<longleftrightarrow> ed_wire_inspect ZIGBEE_SECURITY_NWK (Some raw) True = Inr meta \<and>
     (\<exists>n. ed_wire_nwk (Some raw) True = Inr n \<and> nwk_flags (nfi_header n) AND NWK_FLAG_SECURITY \<noteq> 0)"

text \<open>A call after which slot \<open>i\<close> of the effective record still holds its network key.\<close>

definition sk_kept :: "'c counter_ops \<Rightarrow> 'm aes_call \<Rightarrow> ('c \<Rightarrow> bytes) \<Rightarrow> nat \<Rightarrow> ('c, 'm) sk_state \<Rightarrow> ('c, 'm) sk_state \<Rightarrow> bool" where
  "sk_kept ops aes payload i st st' \<longleftrightarrow> sk_step ops aes st st' \<and> nwk_key i (sk_view payload st') = nwk_key i (sk_view payload st)"

lemma find_slot_unique:
  assumes "good r" "i < 2" "bit (r ! 108) i" "r ! (106 + i) = s"
  shows "sk_find_slot s r = i"
proof -
  from assms(2) consider "i = 0" | "i = 1" by linarith
  then show ?thesis
  proof cases
    case 1
    then show ?thesis using assms(3,4) by (simp add: sk_find_slot_def)
  next
    case 2
    then have b: "bit (r ! 108) 1" "r ! 107 = s" using assms(3,4) by simp_all
    then have "slots_ok (r ! 108) (r ! 106) (r ! 107) (fld 16 16 r) (fld 32 16 r) (fld 48 16 r) (fld 64 16 r) (decode32 (fld 80 4 r)) (decode32 (fld 84 4 r))"
      using goodD(2) [OF assms(1)] by (simp add: fields_live del: One_nat_def)
    then have "bit (r ! 108) 0 \<longrightarrow> r ! 106 \<noteq> r ! 107" using b(1) unfolding slots_ok_def by blast
    then show ?thesis using 2 b by (simp add: sk_find_slot_def)
  qed
qed

lemma sk_inv_finish: "sk_inv cinv payload unsaved (snd (sk_finish r st)) = sk_inv cinv payload unsaved st"
  by (auto simp: sk_finish_def sk_inv_def sk_live_result)

lemma sk_inv_refuse: "sk_inv cinv payload unsaved (snd (snd (sk_refuse r st))) = sk_inv cinv payload unsaved st"
  using sk_inv_finish [of cinv payload unsaved r st] by (cases "sk_finish r st") (simp add: sk_refuse_def)

context counter_service
begin

lemma status_moves:
  assumes "live st" "cinv (sk_counter st)"
  shows "moves st (snd (snd (security_keys_status ops out st)))"
proof -
  have p: "\<not> (sk_phase st < 2 \<or> sk_phase st = 11)" using sk_live_phase [OF assms(1)] by auto
  obtain x st1 where x: "sk_load ops st = (x, st1)" by fastforce
  note k = load_live [OF assms x]
  obtain r st2 where f: "sk_finish SECURITY_KEYS_OK st1 = (r, st2)" by fastforce
  have m: "moves st st1" using k sk_moves_like [OF assms(1)] by (cases x) (auto simp: sk_moves_def)
  then have "moves st st2" using sk_finish_moves [of cinv payload unsaved st SECURITY_KEYS_OK st1] f by simp
  then show ?thesis using p x f m moves_refl [OF assms]
    by (cases x) (simp_all add: security_keys_status_def Let_def)
qed

lemma associate_moves:
  assumes "live st" "cinv (sk_counter st)"
  shows "moves st (snd (security_keys_associate ops addr polls st))"
proof -
  obtain x st1 where x: "sk_load ops st = (x, st1)" by fastforce
  note k = load_live [OF assms x]
  show ?thesis
  proof (cases x)
    case (Inl r)
    then have "moves st st1" using k by (simp add: sk_moves_def)
    then show ?thesis using x Inl by (simp add: security_keys_associate_def sk_finish_moves)
  next
    case (Inr rec)
    then have rec: "rec = view st" "like st st1" using k by simp_all
    note l = sk_live_like [OF assms(1) rec(2)]
    have m: "moves st st1" by (rule sk_moves_like [OF assms(1) rec(2)])
    have fin: "moves st (snd (sk_finish r st1))" for r using m by (simp add: sk_finish_moves)
    let ?new = "set_phase 3 (store_at 102 (write_le16 addr) rec)"
    let ?go = "phase_of rec = 2 \<and> addr \<noteq> 0 \<and> addr < 0xfff8 \<and> polls \<noteq> 0"
    obtain q c where rs: "co_restage ops ?new (sk_counter st1) = (q, c)" by fastforce
    have fini: "moves st (snd (if q = SECURITY_COUNTER_OK then sk_finish SECURITY_KEYS_OK (st1\<lparr>sk_counter := c, sk_phase := 3\<rparr>)
        else case_prod sk_finish (sk_save ops polls ?new (st1\<lparr>sk_counter := c\<rparr>))))" if go: ?go
    proof -
      have step: "key_step (view st) ?new" using key_step.Associate [of rec addr] go rec(1) by simp
      have g: "good ?new" using good_step [OF step] assms(1) by (simp add: sk_live_def)
      have ln: "length ?new = 112" using g by (rule goodD)
      note rk = restage_keeps [OF _ ln rs]
      have ph: "phase_of ?new = 3" using ln by (simp add: set_phase_eq phase_of_def phase_byte_low)
      show ?thesis
      proof (cases "q = SECURITY_COUNTER_OK")
        case True
        let ?st = "st1\<lparr>sk_counter := c, sk_phase := 3\<rparr>"
        have pc: "payload c = ?new" "cinv c" "unsaved (sk_counter st1)" using rk True l by simp_all
        have c0: "sk_phase_cache st1 = 0" "length (sk_floor_cache st1) = 8" using l pc(3) go rec(1) by (auto simp: sk_live_def)
        have v: "view st = store_at 80 (sk_floor_cache st1) (payload (sk_counter st1))"
          using l c0 by (simp add: sk_view_def sk_overlay_def)
        have "view ?st = store_at 80 (sk_floor_cache st1) ?new" using pc(1) c0 by (simp add: sk_view_def sk_overlay_def)
        also have "\<dots> = ?new"
          by (rule nth_equalityI)
            (use v c0 ln l rec(1) in \<open>auto simp: nth_store_at set_phase_eq nth_list_update sk_live_def good_def\<close>)
        finally have "view ?st = ?new" .
        then have "live ?st" "key_path (view st) (view ?st)" using step g ph pc c0 by (simp_all add: sk_live_def key_path_step)
        then have "moves st ?st" using pc(2) by (simp add: sk_moves_def)
        then show ?thesis using True by (simp add: sk_finish_moves)
      next
        case False
        then have "c = sk_counter st1" using rk l by simp
        then have c: "st1\<lparr>sk_counter := c\<rparr> = st1" by simp
        obtain r2 st2 where sv: "sk_save ops polls ?new st1 = (r2, st2)" by fastforce
        have "moves st1 st2" using save_moves [OF _ _ _ sv] l step by (simp add: key_path_step)
        then have "moves st st2" using moves_after l by blast
        then show ?thesis using False c sv by (simp add: sk_finish_moves)
      qed
    qed
    have alt: "snd (security_keys_associate ops addr polls st) \<in> range (\<lambda>r. snd (sk_finish r st1)) \<or> ?go \<and>
      snd (security_keys_associate ops addr polls st) = snd (if q = SECURITY_COUNTER_OK then sk_finish SECURITY_KEYS_OK (st1\<lparr>sk_counter := c, sk_phase := 3\<rparr>)
        else case_prod sk_finish (sk_save ops polls ?new (st1\<lparr>sk_counter := c\<rparr>)))"
      using x Inr rs by (auto simp: security_keys_associate_def Let_def not_le)
    then show ?thesis using fin fini by auto
  qed
qed

lemma moves_inv: "moves st st' \<Longrightarrow> kinv st'"
  by (auto simp: sk_moves_def sk_inv_def sk_failed_def)

lemma kinv_failed: "failed st \<Longrightarrow> kinv st"
  by (simp add: sk_failed_def sk_inv_def)

lemma live_phase: "live st \<Longrightarrow> sk_phase st \<noteq> 0 \<and> sk_phase st \<noteq> 1"
  using sk_live_phase [of payload unsaved st] by (auto simp: word_le_nat_alt)

lemma load_other:
  assumes "kinv st" "\<not> live st"
  shows "\<exists>r. sk_load ops st = (Inl r, st)"
proof -
  have "sk_phase st = 11 \<or> sk_phase st \<le> 1" using assms by (auto simp: sk_inv_def)
  then have "sk_phase st = 11 \<or> sk_phase st < 2" by (auto dest: word_le_cases(1))
  then show ?thesis by (auto simp: sk_load_def)
qed

lemma open_inv:
  assumes "kinv st"
  shows "kinv (snd (security_keys_open ops st))"
proof (cases "sk_phase st = 0")
  case False
  then show ?thesis using assms by (simp add: security_keys_open_def sk_inv_finish)
next
  case True
  have ci: "cinv (sk_counter st)" "sk_floor_cache st = zeros 8" "sk_phase_cache st = 0"
    using assms True live_phase by (auto simp: sk_inv_def)
  obtain r c where o: "co_open ops (sk_counter st) = (r, c)" by fastforce
  note k = open_keeps [OF ci(1) o]
  let ?st1 = "st\<lparr>sk_counter := c\<rparr>"
  obtain r2 rec n st2 where rd: "sk_read ops ?st1 = (r2, rec, n, st2)" using prod_cases4 by blast
  have "cinv (sk_counter ?st1)" using k by simp
  note k2 = read_spec [OF this rd]
  have flt: "kinv (snd (sk_fault q s))" if "cinv (sk_counter s)" for q and s :: "('c, 'a) sk_state"
    using that by (simp add: sk_fault_def sk_inv_def)
  have flt': "kinv (snd (case_prod sk_finish (sk_fault q s)))" if "cinv (sk_counter s)" for q and s :: "('c, 'a) sk_state"
    using flt [OF that, of q] by (cases "sk_fault q s") (simp add: sk_inv_finish)
  have ci2: "cinv (sk_counter st2)" using k2 by (simp add: sk_like_def)
  have fin: "kinv (keep_volatile rec (st2\<lparr>sk_phase := phase_of rec\<rparr>))"
    if "r = SECURITY_COUNTER_OK" "r2 = SECURITY_COUNTER_OK" "valid_record n rec"
  proof -
    let ?s = "keep_volatile rec (st2\<lparr>sk_phase := phase_of rec\<rparr>)"
    have n: "length (payload c) \<le> 112" "rec = store_at 0 (payload c) (replicate 112 0)" "n = of_nat (length (payload c))" using k2 that by simp_all
    have "n = 112" using that(3) by (simp add: valid_record_def Let_def)
    then have "unat (of_nat (length (payload c)) :: u8) = 112" using n(3) by simp
    then have len: "length (payload c) = 112" using n(1) by (simp add: unat_of_nat)
    then have rec: "rec = payload c" using n(2) by (simp add: store_at_def)
    have g: "good rec" using that(3) \<open>n = 112\<close> len rec by (simp add: good_def)
    have cs: "sk_counter ?s = sk_counter st2" "payload (sk_counter st2) = rec" "\<not> unsaved (sk_counter st2)" "sk_phase ?s = phase_of rec"
      "length (sk_floor_cache ?s) = 8"
      using k2 k that(1) rec len by (auto simp: keep_volatile_def sk_like_def)
    have "view ?s = rec" unfolding sk_view_def cs using overlay_keep [OF _ good_phase_octet [OF g] same_base_refl] goodD(1) [OF g] by simp
    then show ?thesis using g cs ci2 by (auto simp: sk_inv_def sk_live_def)
  qed
  have em: "kinv (?st1\<lparr>sk_phase := 1\<rparr>)" using k ci by (simp add: sk_inv_def)
  show ?thesis unfolding security_keys_open_def using True o rd em fin flt' k ci2
    by (simp add: Let_def sk_inv_finish)
qed

lemma provision_inv:
  assumes "kinv st" "provision_ok aes config code limits (sk_hw st)"
  shows "kinv (snd (security_keys_provision ops aes config code nf af limits polls st))"
proof (cases "sk_phase st = 1 \<and> \<not> (config = None \<or> code = None \<or> \<not> limits_ok limits polls \<or> nf = 0xffffffff \<or> af = 0xffffffff) \<and>
    valid_config (sk_provision_record (the config))")
  case False
  then show ?thesis using assms by (auto simp: security_keys_provision_def Let_def sk_inv_finish)
next
  case True
  have ci: "cinv (sk_counter st)" "sk_floor_cache st = zeros 8" "sk_phase_cache st = 0"
    using assms(1) True live_phase by (auto simp: sk_inv_def)
  obtain r link i h where d: "install_code_derive aes (Some (take 18 (the code))) 18 True (block_timeout (the limits)) (block_polls (the limits)) True (sk_hw st)
      = (r, link, i, h)" using prod_cases4 by blast
  let ?new = "set_phase 2 ((store_at 48 link (sk_provision_record (the config)))[110 := 0x4b, 110 + 1 := 2])"
  obtain q c where cr: "co_create ops nf af ?new polls (sk_counter st) = (q, c)" by fastforce
  have hw: "kinv (st\<lparr>sk_hw := h\<rparr>)" using assms(1) by (simp add: sk_inv_def)
  have flt: "kinv (snd (case_prod sk_finish (sk_fault z (st\<lparr>sk_hw := h, sk_counter := c\<rparr>))))" if "cinv c" for z
    using that by (simp add: sk_fault_def sk_inv_finish) (simp add: sk_inv_def)
  have k: "cinv c \<and> (q = SECURITY_COUNTER_OK \<longrightarrow> kinv (st\<lparr>sk_hw := h, sk_counter := c, sk_phase := 2\<rparr>))" if "r = ZIGBEE_MMO_OK"
  proof -
    have "link \<noteq> zeros 16" "length link = 16" using assms(2) d that install_link_length by (auto simp: provision_ok_def)
    then have g: "good ?new \<and> phase_of ?new = 2" using provision_good [of "the config" link] True assms(2) by (auto simp: provision_ok_def)
    have l: "length ?new = 112" using g goodD(1) by blast
    note ck = create_keeps [OF ci(1) l cr]
    let ?s = "st\<lparr>sk_hw := h, sk_counter := c, sk_phase := 2\<rparr>"
    have "view ?s = ?new" if "q = SECURITY_COUNTER_OK"
    proof -
      have "?new ! j = 0" if "80 \<le> j" "j < 88" for j
      proof -
        have "fld 80 8 ?new = zeros 8"
          using g good_def [of ?new] valid_record_fld [OF l] by (simp add: is_bare_def bare_ok_def)
        then have "fld 80 8 ?new ! (j - 80) = 0" using that by simp
        then show ?thesis using that l by (simp add: fld_def)
      qed
      then have "store_at 80 (zeros 8) ?new = ?new" by (intro nth_equalityI) (use l in \<open>auto simp: nth_store_at\<close>)
      then show ?thesis using ck that ci by (simp add: sk_view_def sk_overlay_def)
    qed
    then show ?thesis using ck g ci by (auto simp: sk_inv_def sk_live_def)
  qed
  show ?thesis using True d cr hw flt k assms(1) by (simp add: security_keys_provision_def Let_def sk_inv_finish)
qed

text \<open>Every call keeps the invariant, and in a live state it moves the effective record along record steps.\<close>

lemma step_inv:
  assumes "sk_step ops aes st st'" "kinv st"
  shows "kinv st' \<and> (live st \<longrightarrow> moves st st')"
proof -
  have ci: "cinv (sk_counter st)" using assms(2) by (simp add: sk_inv_def)
  show ?thesis
  proof (cases "live st")
    case True
    have q: "sk_phase st \<noteq> 0" "sk_phase st \<noteq> 1" using live_phase [OF True] by auto
    have "moves st st'" using assms(1)
    proof cases
      case Open
      then show ?thesis using q moves_refl [OF True ci] by (simp add: security_keys_open_def sk_finish_moves)
    next
      case (Provision config code limits nf af polls)
      then show ?thesis using q moves_refl [OF True ci] by (simp add: security_keys_provision_def sk_finish_moves)
    qed (use True ci in \<open>simp_all add: associate_moves receive_moves request_moves verify_moves send_moves leave_moves status_moves\<close>)
    then show ?thesis using moves_inv by blast
  next
    case False
    then obtain r where ld: "sk_load ops st = (Inl r, st)" using load_other [OF assms(2)] by blast
    have fin: "kinv (snd (snd (case sk_finish q st of (r, st1) \<Rightarrow> (r, v, st1))))" for q v
      using assms(2) sk_inv_finish [of cinv payload unsaved q st] by (cases "sk_finish q st") simp
    have "kinv st'" using assms(1)
    proof cases
      case Open
      then show ?thesis using open_inv assms(2) by simp
    next
      case (Provision config code limits nf af polls)
      then show ?thesis using provision_inv assms(2) by simp
    next
      case (Associate addr polls)
      then show ?thesis using assms(2) ld by (simp add: security_keys_associate_def sk_inv_finish)
    next
      case (Status out)
      then show ?thesis using assms(2) ld fin by (auto simp: security_keys_status_def Let_def sk_inv_refuse)
    qed (use ld assms(2) in \<open>simp_all add: security_keys_receive_def security_keys_request_def security_keys_verify_def security_keys_send_def
        security_keys_leave_def sk_inv_refuse\<close>)
    then show ?thesis using False by simp
  qed
qed

lemma boot_inv: "cinv c \<Longrightarrow> kinv (sk_boot c hw)"
  by (simp add: sk_boot_def sk_inv_def)

lemma reach_inv:
  assumes "(sk_step ops aes)\<^sup>*\<^sup>* (sk_boot c hw) st" "cinv c"
  shows "kinv st"
  using assms(1)
proof (induction rule: rtranclp_induct)
  case base
  show ?case by (rule boot_inv [OF assms(2)])
next
  case (step st1 st2)
  from step_inv [OF step.hyps(2) step.IH] show ?case ..
qed

section \<open>Replay\<close>

lemma failed_step:
  assumes "sk_step ops aes st st'" "sk_phase st = 11"
  shows "sk_phase st' = 11"
proof -
  have ld: "sk_load ops st = (Inl (sk_result st), st)" using assms(2) by (simp add: sk_load_def)
  show ?thesis using assms(1)
    by cases (use assms(2) ld in \<open>simp_all add: security_keys_open_def security_keys_provision_def security_keys_associate_def security_keys_receive_def
      security_keys_request_def security_keys_verify_def security_keys_send_def security_keys_leave_def security_keys_status_def sk_refuse_def sk_finish_def Let_def\<close>)
qed

text \<open>The state in which a frame with counter \<open>c\<close> under the key of slot \<open>i\<close> is a replay.\<close>

definition "spent i s c st \<longleftrightarrow> kinv st \<and> (sk_phase st = 11 \<or> live st \<and> i < 2 \<and> bit (view st ! 108) i \<and> view st ! (106 + i) = s \<and> c < nwk_floor i (view st))"
  for st :: "('c, 'm) sk_state"

lemma spent_step:
  assumes "spent i s c st" "sk_kept ops aes payload i st st'"
  shows "spent i s c st'"
proof -
  have st: "sk_step ops aes st st'" "nwk_key i (view st') = nwk_key i (view st)" using assms(2) by (simp_all add: sk_kept_def)
  have k: "kinv st" using assms(1) by (simp add: spent_def)
  note n = step_inv [OF st(1) k]
  show ?thesis
  proof (cases "sk_phase st = 11")
    case True
    then show ?thesis using failed_step [OF st(1)] n by (simp add: spent_def)
  next
    case False
    then have l: "live st" "i < 2" "bit (view st ! 108) i" "view st ! (106 + i) = s" "c < nwk_floor i (view st)" using assms(1) by (simp_all add: spent_def)
    from n l(1) have "moves st st'" by blast
    then show ?thesis using path_floor [of "view st" "view st'" i] l st(2) n
      by (auto simp: sk_moves_def sk_failed_def spent_def sk_live_def)
  qed
qed

lemma spent_refused:
  assumes sp: "spent i (sm_key_sequence meta) (sm_counter meta) st" and f: "secured_frame raw meta"
  shows "fst (snd (security_keys_receive ops aes (Some raw) out event limits polls st)) = None"
proof (rule ccontr)
  assume a: "fst (snd (security_keys_receive ops aes (Some raw) out event limits polls st)) \<noteq> None"
  obtain r o' st' where run: "security_keys_receive ops aes (Some raw) out event limits polls st = (r, Some o', st')"
    using a by (cases "security_keys_receive ops aes (Some raw) out event limits polls st") auto
  have "sk_phase st \<noteq> 11"
  proof
    assume "sk_phase st = 11"
    then have "sk_load ops st = (Inl (sk_result st), st)" by (simp add: sk_load_def)
    with run show False by (auto simp: security_keys_receive_def sk_refuse_def split: prod.splits)
  qed
  with sp have l: "live st" "cinv (sk_counter st)" "i < 2" "bit (view st ! 108) i" "view st ! (106 + i) = sm_key_sequence meta"
    "sm_counter meta < nwk_floor i (view st)" by (simp_all add: spent_def sk_inv_def)
  have g: "good (view st)" using l(1) by (simp add: sk_live_def)
  obtain n hw x hw' where o: "ed_wire_nwk (Some raw) True = Inr n" "sk_open_nwk aes (the limits) (view st) raw (nfi_header n) hw = (Inr x, hw')"
    by (rule receive_output [OF l(1,2) run]) auto
  have "nwk_flags (nfi_header n) AND NWK_FLAG_SECURITY \<noteq> 0" "ed_wire_inspect ZIGBEE_SECURITY_NWK (Some raw) True = Inr meta"
    using f o(1) by (auto simp: secured_frame_def)
  with sk_open_nwk_secured(2) [OF o(2)] goodD(1) [OF g]
  have "nwk_floor (sk_find_slot (sm_key_sequence meta) (view st)) (view st) \<le> sm_counter meta" by auto
  then show False using find_slot_unique [OF g l(3-5)] l(6) by simp
qed

lemma accepted_spent:
  assumes k: "kinv st" and run: "security_keys_receive ops aes (Some raw) out event limits polls st = (r, Some o', st')" and f: "secured_frame raw meta"
    and i: "i = sk_find_slot (sm_key_sequence meta) (view st)" and same: "nwk_key i (view st') = nwk_key i (view st)"
  shows "spent i (sm_key_sequence meta) (sm_counter meta) st'"
proof -
  have st: "sk_step ops aes st st'" using sk_step.Receive [of ops aes st "Some raw" out event limits polls] run by simp
  have l: "live st" "cinv (sk_counter st)"
  proof -
    show "live st"
    proof (rule ccontr)
      assume "\<not> live st"
      with load_other [OF k] run show False by (auto simp: security_keys_receive_def sk_refuse_def split: prod.splits)
    qed
    show "cinv (sk_counter st)" using k by (simp add: sk_inv_def)
  qed
  have g: "good (view st)" using l(1) by (simp add: sk_live_def)
  obtain n hw x hw' where o: "ed_wire_nwk (Some raw) True = Inr n" "sk_open_nwk aes (the limits) (view st) raw (nfi_header n) hw = (Inr x, hw')" "leads (fst x) st'"
    by (rule receive_output [OF l run]) auto
  have fl: "nwk_flags (nfi_header n) AND NWK_FLAG_SECURITY \<noteq> 0" "ed_wire_inspect ZIGBEE_SECURITY_NWK (Some raw) True = Inr meta"
    using f o(1) by (auto simp: secured_frame_def)
  note out = sk_open_nwk_secured [OF o(2) fl(1) goodD(1) [OF g]]
  have x: "i < 2" "bit (view st ! 108) i" "sm_counter meta < nwk_floor i (fst x)" "bit (fst x ! 108) i" using out(2) fl(2) i by auto
  have q: "quiet_step\<^sup>*\<^sup>* (view st) (fst x)" using out(1) by (auto simp: outer_ok_def split: prod.splits)
  note qf = quiet_floor [OF q g x(1,2)]
  have sq: "view st ! (106 + i) = sm_key_sequence meta" using sk_find_slot_used i x(1) by auto
  show ?thesis
  proof (cases "sk_phase st' = 11")
    case True
    then show ?thesis using step_inv [OF st k] by (simp add: spent_def)
  next
    case False
    then have lv: "live st'" and kp: "key_path (fst x) (view st')" using o(3) by (simp_all add: sk_leads_def sk_failed_def)
    have "nwk_key i (view st') = nwk_key i (fst x)" using qf same by simp
    with path_floor [OF kp quiet_good [OF q g] x(1,4)] qf sq
    have p: "bit (view st' ! 108) i" "view st' ! (106 + i) = sm_key_sequence meta" "nwk_floor i (fst x) \<le> nwk_floor i (view st')" by simp_all
    have "sm_counter meta < nwk_floor i (view st')" using x(3) p(3) by (rule less_le_trans)
    then show ?thesis using lv p x(1) step_inv [OF st k] by (simp add: spent_def)
  qed
qed

lemma replay_refused:
  assumes "kinv st" "security_keys_receive ops aes (Some raw) out event limits polls st = (r, Some o', st1)" "secured_frame raw meta"
    and i: "i = sk_find_slot (sm_key_sequence meta) (view st)" "nwk_key i (view st1) = nwk_key i (view st)"
    and later: "(sk_kept ops aes payload i)\<^sup>*\<^sup>* st1 st2"
  shows "fst (snd (security_keys_receive ops aes (Some raw) out' event' limits' polls' st2)) = None"
proof -
  have "spent i (sm_key_sequence meta) (sm_counter meta) st2" using later
    by (induction rule: rtranclp_induct) (use accepted_spent [OF assms(1-3) i] spent_step in blast)+
  then show ?thesis by (rule spent_refused [OF _ assms(3)])
qed

end

section \<open>The counter module keeps the contract\<close>

definition counter_safe :: "('n \<Rightarrow> bool) \<Rightarrow> 'n counter_state \<Rightarrow> bool" where
  "counter_safe sinv c \<longleftrightarrow> sinv (sc_store c) \<and> counter_shape c \<and>
     (sc_state c = SECURITY_COUNTER_READY \<longrightarrow> sc_payload_length c = sc_blob c ! 5 \<and> unat (sc_blob c ! 5) \<le> 112) \<and>
     (sc_state c = SECURITY_COUNTER_FAILED \<longrightarrow> sc_result c \<noteq> SECURITY_COUNTER_OK)"

definition counter_payload :: "'n counter_state \<Rightarrow> bytes" where
  "counter_payload c = take (unat (sc_payload_length c)) (drop 16 (sc_blob c))"

definition counter_unsaved :: "'n counter_state \<Rightarrow> bool" where
  "counter_unsaved c \<longleftrightarrow> sc_generation c = 0"

lemma counter_safe_ready: "counter_safe sinv c \<Longrightarrow> sc_ready c = SECURITY_COUNTER_OK \<longleftrightarrow> sc_state c = SECURITY_COUNTER_READY"
  by (cases "sc_state c") (auto simp: sc_ready_def counter_safe_def)

lemma counter_payload_length: "counter_safe sinv c \<Longrightarrow> sc_state c = SECURITY_COUNTER_READY \<Longrightarrow> length (counter_payload c) = unat (sc_payload_length c)"
  by (auto simp: counter_safe_def counter_shape_def counter_payload_def)

lemma staged_payload:
  assumes "length d = 112" "length b = 128"
  shows "take (unat (112 :: u8)) (drop 16 (store_at 16 (map (\<lambda>i. if i < unat (112 :: u8) then d ! i else 0) [0..<112]) (b[5 := 112]))) = d"
proof -
  have "map (\<lambda>i. if i < unat (112 :: u8) then d ! i else 0) [0..<112] = d"
    by (rule nth_equalityI) (use assms in simp_all)
  then show ?thesis using assms by (simp add: store_at_def)
qed

lemma stage_spec:
  assumes "counter_shape c" "length d = 112" "sc_stage cfg (Some (a, d)) 112 l c = (r, c')"
  shows "if r = SECURITY_COUNTER_OK then counter_payload c' = d \<and> sc_state c' = SECURITY_COUNTER_READY \<and> counter_shape c' \<and> sc_store c' = sc_store c \<and>
    sc_payload_length c' = 112 \<and> sc_blob c' ! 5 = 112 \<and> sc_generation c' = sc_generation c else c' = c"
  using assms staged_payload [OF assms(2), of "sc_blob c"]
  by (auto simp: sc_stage_def sc_finish_def sc_payload_def counter_payload_def counter_shape_def nth_store_at split: if_splits)

context nv_store
begin

lemma safe_read:
  assumes "counter_safe sinv c" "security_counter_read cfg (Some a) 112 (Some b) c = (r, out, c')"
  shows "counter_safe sinv c' \<and> counter_payload c' = counter_payload c \<and> counter_unsaved c' = counter_unsaved c \<and>
    (r = SECURITY_COUNTER_OK \<longrightarrow> length (counter_payload c) \<le> 112 \<and> out = Some (counter_payload c, of_nat (length (counter_payload c))))"
proof -
  note rd = counter_safe_ready [OF assms(1)]
  from assms(2) consider "c' = c" "r \<noteq> SECURITY_COUNTER_OK"
    | "sc_ready c = SECURITY_COUNTER_OK" "c' = c\<lparr>sc_result := SECURITY_COUNTER_OK\<rparr>" "out = Some (counter_payload c, sc_payload_length c)"
    by (auto simp: security_counter_read_def sc_finish_def counter_payload_def split: if_splits)
  then show ?thesis
  proof cases
    case 2
    then have s: "sc_state c = SECURITY_COUNTER_READY" using rd by simp
    have "unat (sc_payload_length c) \<le> 112" using assms(1) s by (simp add: counter_safe_def)
    with 2 s assms(1) counter_payload_length [OF assms(1) s] show ?thesis
      by (auto simp: counter_safe_def counter_shape_def counter_payload_def counter_unsaved_def)
  qed (use assms(1) in simp)
qed

lemma safe_failed: "sinv (sc_store c) \<Longrightarrow> counter_shape c \<Longrightarrow> sc_state c = SECURITY_COUNTER_FAILED \<Longrightarrow> sc_result c \<noteq> SECURITY_COUNTER_OK \<Longrightarrow> counter_safe sinv c"
  by (simp add: counter_safe_def)

text \<open>A commit keeps the payload of the blob and ends in a saved state, or fails.\<close>

lemma safe_commit:
  assumes "sinv (sc_store c)" "counter_shape c" "unat (sc_blob c ! 5) \<le> 112" "sc_commit cfg sops l c = (r, c')"
  shows "counter_safe sinv c' \<and> (r = SECURITY_COUNTER_OK \<longrightarrow> sc_state c' = SECURITY_COUNTER_READY \<and> \<not> counter_unsaved c' \<and>
    counter_payload c' = take (unat (sc_blob c ! 5)) (drop 16 (sc_blob c)) \<and> sc_blob c' = sc_blob c)"
proof -
  have l: "length (sc_blob c) = 128" using assms(2) by (simp add: counter_shape_def)
  note k = sc_commit_spec [OF assms(1) l assms(3,4)]
  show ?thesis
  proof (cases "r = SECURITY_COUNTER_OK")
    case True
    with k assms(2,3) show ?thesis by (simp add: Let_def counter_safe_def counter_shape_def counter_unsaved_def counter_payload_def)
  next
    case False
    with k assms(2) show ?thesis by (auto simp: Let_def counter_shape_def intro!: safe_failed)
  qed
qed

lemma safe_current:
  assumes "counter_safe sinv c" "sc_state c = SECURITY_COUNTER_READY" "sc_current cfg sops c = (r, c')"
  shows "counter_safe sinv c' \<and> sc_blob c' = sc_blob c \<and> (r = SECURITY_COUNTER_OK \<longrightarrow> sc_state c' = SECURITY_COUNTER_READY)"
proof -
  have "sinv (sc_store c)" using assms(1) by (simp add: counter_safe_def)
  note k = sc_current_spec [OF this assms(3)]
  show ?thesis
  proof (cases "r = SECURITY_COUNTER_OK")
    case True
    then have c': "c' = c\<lparr>sc_store := sc_store c', sc_nv_result := sc_nv_result c'\<rparr>" "sinv (sc_store c')" using k by simp_all
    have "counter_safe sinv (c\<lparr>sc_store := sc_store c', sc_nv_result := sc_nv_result c'\<rparr>)"
      using assms(1) c'(2) by (simp add: counter_safe_def counter_shape_def)
    moreover have "sc_state (c\<lparr>sc_store := sc_store c', sc_nv_result := sc_nv_result c'\<rparr>) = SECURITY_COUNTER_READY" using assms(2) by simp
    ultimately show ?thesis using c'(1) k by metis
  next
    case False
    with k assms(1) show ?thesis by (auto simp: counter_safe_def counter_shape_def)
  qed
qed

lemma safe_save:
  assumes "counter_safe sinv c" "length d = 112" "security_counter_save cfg sops (Some (a, d)) 112 l c = (r, c')"
  shows "counter_safe sinv c' \<and> (r = SECURITY_COUNTER_OK \<longrightarrow> counter_payload c' = d \<and> \<not> counter_unsaved c')"
proof (cases "sc_state c = SECURITY_COUNTER_READY \<and> l \<noteq> 0 \<and> sc_caller cfg a 112")
  case False
  with assms counter_safe_ready [OF assms(1)] show ?thesis by (auto simp: security_counter_save_def split: if_splits)
next
  case True
  obtain r1 c1 where cu: "sc_current cfg sops c = (r1, c1)" by fastforce
  note k = safe_current [OF assms(1) _ cu]
  have b: "length (sc_blob c) = 128" using assms(1) by (simp add: counter_safe_def counter_shape_def)
  let ?c2 = "sc_payload d 112 c1"
  from assms(3) True cu counter_safe_ready [OF assms(1)] have run: "(if r1 \<noteq> SECURITY_COUNTER_OK then (r1, c1) else sc_commit cfg sops l ?c2) = (r, c')"
    by (simp add: security_counter_save_def split: if_splits)
  show ?thesis
  proof (cases "r1 = SECURITY_COUNTER_OK")
    case False
    with run k True show ?thesis by auto
  next
    case ok: True
    have c1: "counter_safe sinv c1" "sc_blob c1 = sc_blob c" using k True by simp_all
    have b5: "sc_blob ?c2 ! 5 = 112" "take (unat (112 :: u8)) (drop 16 (sc_blob ?c2)) = d"
      using b c1 assms(2) staged_payload [OF assms(2) b] by (simp_all add: sc_payload_def nth_store_at)
    have "sinv (sc_store ?c2)" "counter_shape ?c2" "sc_commit cfg sops l ?c2 = (r, c')"
      using c1 run ok by (simp_all add: sc_payload_def counter_safe_def counter_shape_def)
    from safe_commit [OF this(1,2) _ this(3)] b5 show ?thesis by simp
  qed
qed

lemma safe_take:
  assumes "counter_safe sinv c" "security_counter_take cfg sops d a l c = (r, v, c')"
  shows "counter_safe sinv c' \<and> (r \<in> {SECURITY_COUNTER_OK, SECURITY_COUNTER_EXHAUSTED} \<longrightarrow>
    counter_payload c' = counter_payload c \<and> (counter_unsaved c' \<longrightarrow> counter_unsaved c))"
proof -
  define go where "go = (sc_state c = SECURITY_COUNTER_READY \<and> d < 2 \<and> a \<noteq> None \<and> l \<noteq> 0 \<and> sc_caller cfg (the a) 4)"
  obtain r1 c1 where rf: "(if sc_next c ! d = sc_until c ! d then sc_refill cfg sops d l c else (SECURITY_COUNTER_OK, c)) = (r1, c1)" by fastforce
  have refill: "counter_safe sinv c1 \<and> (r1 \<in> {SECURITY_COUNTER_OK, SECURITY_COUNTER_EXHAUSTED} \<longrightarrow>
      counter_payload c1 = counter_payload c \<and> (counter_unsaved c1 \<longrightarrow> counter_unsaved c) \<and> sc_state c1 = SECURITY_COUNTER_READY)" if go
  proof (cases "sc_next c ! d = sc_until c ! d \<and> sc_until c ! d \<noteq> 0xffffffff")
    case False
    then have "c1 = c \<or> c1 = c\<lparr>sc_result := SECURITY_COUNTER_EXHAUSTED\<rparr>" using rf by (auto simp: sc_refill_def sc_finish_def split: if_splits)
    then show ?thesis using assms(1) that by (auto simp: go_def counter_safe_def counter_shape_def counter_payload_def counter_unsaved_def)
  next
    case True
    obtain r2 c2 where cu: "sc_current cfg sops c = (r2, c2)" by fastforce
    have rd: "sc_state c = SECURITY_COUNTER_READY" and d: "d < 2" using that by (simp_all add: go_def)
    note k = safe_current [OF assms(1) rd cu]
    have run: "sc_refill cfg sops d l c = (r1, c1)" using rf True by simp
    show ?thesis
    proof (cases "r2 = SECURITY_COUNTER_OK")
      case False
      then have "c1 = c2" "r1 = r2" using run True cu by (simp_all add: sc_refill_def)
      moreover have "r2 \<noteq> SECURITY_COUNTER_EXHAUSTED"
        using cu False by (auto simp: sc_current_def Let_def sc_fail_def sc_finish_def split: prod.splits if_splits)
      ultimately show ?thesis using k False by simp
    next
      case ok: True
      define e where "e = (if sc_until c2 ! d > 0xffffffff - 256 then 0xffffffff else sc_until c2 ! d + 256)"
      let ?c3 = "c2\<lparr>sc_blob := store_at (8 + 4 * d) (encode32 e) (sc_blob c2)\<rparr>"
      obtain r4 c4 where cm: "sc_commit cfg sops l ?c3 = (r4, c4)" by fastforce
      have run': "(r1, c1) = (if r4 \<noteq> SECURITY_COUNTER_OK then (r4, c4) else (SECURITY_COUNTER_OK, c4\<lparr>sc_until := (sc_until c4)[d := e]\<rparr>))"
        using run [unfolded sc_refill_def Let_def cu prod.case, folded e_def] True cm ok by simp
      have c2: "counter_safe sinv c2" "sc_blob c2 = sc_blob c" using k by simp_all
      have b: "length (sc_blob c) = 128" "unat (sc_blob c ! 5) \<le> 112" "sc_payload_length c = sc_blob c ! 5"
        using assms(1) rd by (simp_all add: counter_safe_def counter_shape_def)
      have b3: "sc_blob ?c3 ! 5 = sc_blob c ! 5" "drop 16 (sc_blob ?c3) = drop 16 (sc_blob c)"
        using b d c2(2) by (simp add: nth_store_at, auto simp: store_at_def less_2_cases_iff)
      have "sinv (sc_store ?c3)" "counter_shape ?c3" using c2 b d by (auto simp: counter_safe_def counter_shape_def)
      note f = safe_commit [OF this _ cm, unfolded b3, OF b(2)]
      have nx: "r4 \<noteq> SECURITY_COUNTER_EXHAUSTED" using cm by (auto simp: sc_commit_def Let_def sc_fail_def sc_finish_def split: prod.splits if_splits)
      show ?thesis
      proof (cases "r4 = SECURITY_COUNTER_OK")
        case True
        then have "c1 = c4\<lparr>sc_until := (sc_until c4)[d := e]\<rparr>" using run' by simp
        then show ?thesis using f True b by (auto simp: counter_safe_def counter_shape_def counter_payload_def counter_unsaved_def)
      next
        case False
        then show ?thesis using f nx run' by simp
      qed
    qed
  qed
  consider "\<not> go" "c' = c" "r \<noteq> SECURITY_COUNTER_OK \<and> r \<noteq> SECURITY_COUNTER_EXHAUSTED \<or> counter_payload c' = counter_payload c" | "go" "r1 \<noteq> SECURITY_COUNTER_OK" "c' = c1" "r = r1"
    | "go" "r1 = SECURITY_COUNTER_OK" "c' = c1\<lparr>sc_next := (sc_next c1)[d := sc_next c1 ! d + 1], sc_result := SECURITY_COUNTER_OK\<rparr>"
    using assms(2) counter_safe_ready [OF assms(1)] unfolding security_counter_take_def rf prod.case go_def
    by (auto simp: sc_finish_def Let_def split: if_splits)
  then show ?thesis
  proof cases
    case 3
    then show ?thesis using refill by (auto simp: counter_safe_def counter_shape_def counter_payload_def counter_unsaved_def)
  qed (use assms(1) refill in auto)
qed

lemma safe_open:
  assumes "counter_safe sinv c" "security_counter_open cfg sops c = (r, c')"
  shows "counter_safe sinv c' \<and> (r = SECURITY_COUNTER_OK \<longrightarrow> \<not> counter_unsaved c')"
proof (cases "sc_state c = SECURITY_COUNTER_COLD")
  case False
  with assms show ?thesis by (auto simp: security_counter_open_def counter_safe_def split: if_splits)
next
  case True
  obtain r1 out n where ld: "so_load sops (Some (cc_blob cfg)) 128 (sc_store c) = (r1, out, n)" using prod_cases3 by blast
  have si: "sinv (sc_store c)" "counter_shape c" using assms(1) by (simp_all add: counter_safe_def)
  note k = load_keeps [OF si(1) ld]
  have g: "r1 = NV_RECORD_OK \<Longrightarrow> nv_generation (so_status sops n) \<noteq> 0" using load_record [OF si(1)] ld by blast
  from assms(2) True ld k g si show ?thesis
    by (auto simp: security_counter_open_def Let_def sc_finish_def sc_fail_def sc_floors_def counter_safe_def counter_shape_def counter_unsaved_def not_less
        split: if_splits)
qed

lemma safe_create:
  assumes "counter_safe sinv c" "length d = 112" "security_counter_create cfg nf af (Some (a, d)) 112 l c = (r, c')"
  shows "counter_safe sinv c' \<and> (r = SECURITY_COUNTER_OK \<longrightarrow> counter_payload c' = d)"
proof -
  obtain r1 c1 where sg: "sc_stage cfg (Some (a, d)) 112 l c = (r1, c1)" by fastforce
  have sh: "counter_shape c" using assms(1) by (simp add: counter_safe_def)
  note k = stage_spec [OF sh assms(2) sg]
  from assms(3) sg consider "c' = c" "r = sc_result c" "sc_state c = SECURITY_COUNTER_FAILED" | "c' = c" "r = SECURITY_COUNTER_STATE"
    | "r1 \<noteq> SECURITY_COUNTER_OK" "c' = c1" "r = r1" | "r1 = SECURITY_COUNTER_OK"
    "c' = sc_floors (c1\<lparr>sc_blob := [0x43, 0x54, 0x52, 0x31, 1, sc_blob c1 ! 5, 0, 0] @ encode32 nf @ encode32 af @ drop 16 (sc_blob c1)\<rparr>)"
    by (auto simp: security_counter_create_def split: if_splits)
  then show ?thesis
    by cases (use assms(1) k in \<open>auto simp: counter_safe_def counter_shape_def counter_payload_def sc_floors_def Let_def\<close>)
qed

lemma safe_restage:
  assumes "counter_safe sinv c" "length d = 112" "security_counter_restage cfg (Some (a, d)) 112 c = (r, c')"
  shows "counter_safe sinv c' \<and> (if r = SECURITY_COUNTER_OK then counter_payload c' = d \<and> counter_unsaved c else c' = c)"
proof (cases "sc_state c = SECURITY_COUNTER_READY \<and> sc_generation c = 0")
  case True
  with assms(3) have sg: "sc_stage cfg (Some (a, d)) 112 1 c = (r, c')" by (simp add: security_counter_restage_def)
  have sh: "counter_shape c" using assms(1) by (simp add: counter_safe_def)
  from stage_spec [OF sh assms(2) sg] assms(1) True show ?thesis by (auto simp: counter_safe_def counter_unsaved_def split: if_splits)
next
  case False
  with assms show ?thesis by (auto simp: security_counter_restage_def split: if_splits)
qed

lemma counter_service_keys:
  "counter_service (counter_services cfg sops arecord asize acounter) (counter_safe sinv) counter_payload counter_unsaved"
proof (unfold_locales, unfold counter_services_def counter_ops.simps, goal_cases)
  case (1 c r c')
  then show ?case by (rule safe_open)
next
  case (2 c r out c')
  then show ?case by (rule safe_read)
next
  case (3 c d nf af l r c')
  then show ?case by (rule safe_create)
next
  case (4 c d r c')
  then show ?case by (rule safe_restage)
next
  case (5 c domain l r v c')
  then show ?case by (rule safe_take)
next
  case (6 c d l r c')
  then show ?case by (rule safe_save)
qed

end

sublocale nv_store \<subseteq> keys: counter_service "counter_services cfg sops arecord asize acounter" "counter_safe sinv" counter_payload counter_unsaved
  for cfg arecord asize acounter
  by (rule counter_service_keys)

end
