(* ===== verification/Counter_Sim.thy ===== *)
theory Counter_Sim
  imports Flash_Sim
begin

text \<open>
  The frame counters on the simulated chip: what the journal's calls do there, a counter module
  that is created on blank flash, hands out values, is reset and goes on above its durable
  ceiling.
\<close>

section \<open>The journal on the simulated chip\<close>

definition sim_stores :: "sim flash_state nv_state store_ops" where
  "sim_stores = nv_services (flash_services sim_config sim_bus) 0x280"

definition sim_inv :: "sim flash_state nv_state \<Rightarrow> bool" where
  "sim_inv = nv_invariant (flash_ok sim_bus sim_flash sim_bank sim_addr) (\<lambda>s. sim_flash (flash_hw s))"

definition sim_rec :: "sim flash_state nv_state \<Rightarrow> (u32 \<times> bytes) option" where
  "sim_rec = (\<lambda>n. journal_record (sim_flash (flash_hw (nv_hw n))))"

text \<open>An idle chip, no latched fault, and a journal with the result \<open>jr\<close> and the record \<open>x\<close>.\<close>

definition sim_holds :: "nv_record_result \<Rightarrow> (u32 \<times> bytes) option \<Rightarrow> sim flash_state nv_state \<Rightarrow> bool" where
  "sim_holds jr x n \<longleftrightarrow> sim_inv n \<and> nv_record_fault n = NV_RECORD_OK \<and> sim_rec n = x \<and> fst (journal (sim_flash (flash_hw (nv_hw n)))) = jr \<and>
     flash_usable sim_config sim_bus sim_flash sim_addr sim_idle sim_sfr sim_reg (\<lambda>l. l \<noteq> 0) (nv_hw n)"

definition sim_unworn :: "sim flash_state nv_state \<Rightarrow> bool" where
  "sim_unworn n \<longleftrightarrow> nv_erase_attempts (nv_record_diagnostic n) = [0, 0]"

lemma sim_blank_holds: "sim_holds NV_RECORD_EMPTY None sim_nv" "sim_unworn sim_nv"
  by (simp_all add: sim_holds_def sim_unworn_def sim_inv_def sim_rec_def sim_nv_invariant sim_nv_simps sim_nv_journal sim_boot_usable)

text \<open>After a reset the statics of the flash and journal modules are their initial values; the chip is as it was.\<close>

lemma sim_reset_holds:
  assumes "sim_holds jr x n"
  shows "sim_holds jr x (nv_boot (flash_boot (flash_hw (nv_hw n))))" "sim_unworn (nv_boot (flash_boot (flash_hw (nv_hw n))))"
proof -
  let ?n = "nv_boot (flash_boot (flash_hw (nv_hw n)))"
  have hw: "nv_hw ?n = flash_boot (flash_hw (nv_hw n))" "flash_hw (nv_hw ?n) = flash_hw (nv_hw n)" "nv_record_fault ?n = NV_RECORD_OK"
    by (simp_all add: nv_boot_def flash_boot_def)
  have "sim_inv ?n" unfolding sim_inv_def by (rule nv_boot_invariant) (simp add: flash_ok_def sim_chip writer_wf_def flash_boot_def)
  then show "sim_holds jr x ?n" using assms unfolding sim_holds_def sim_rec_def hw
    by (simp add: flash_usable_def flash_live_def flash_boot_def)
  show "sim_unworn ?n" by (simp add: sim_unworn_def nv_boot_def)
qed

lemma sim_load_holds:
  assumes "sim_holds jr x n" "jr \<in> {NV_RECORD_OK, NV_RECORD_EMPTY}" "nv_caller 0x280 a 128"
  obtains out n' where "so_load sim_stores (Some a) 128 n = (jr, out, n')" "sim_holds jr x n'" "sim_unworn n \<Longrightarrow> sim_unworn n'"
    "jr = NV_RECORD_OK \<Longrightarrow> x = Some (nv_generation (so_status sim_stores n'), out) \<and> length out = unat (nv_length (so_status sim_stores n'))"
    "jr = NV_RECORD_EMPTY \<Longrightarrow> out = []"
proof -
  let ?pg = "sim_flash (flash_hw (nv_hw n))"
  have h: "sim_inv n" "nv_record_fault n = NV_RECORD_OK" "journal_record ?pg = x" "fst (journal ?pg) = jr"
    "flash_usable sim_config sim_bus sim_flash sim_addr sim_idle sim_sfr sim_reg (\<lambda>l. l \<noteq> 0) (nv_hw n)"
    using assms(1) by (simp_all add: sim_holds_def sim_rec_def)
  obtain s where j: "journal ?pg = (jr, s)" using h(4) by (cases "journal ?pg") simp
  obtain r out n' where ld: "nv_record_load (flash_services sim_config sim_bus) 0x280 (Some a) 128 n = (r, out, n')" using prod_cases3 by blast
  have i: "flash_ok sim_bus sim_flash sim_bank sim_addr (nv_hw n)" "nv_wf n" "cache_ok ?pg (nv_record_diagnostic n)"
    using h(1,2) by (simp_all add: sim_inv_def nv_invariant_def)
  note post = fl.nv_record_load_spec [OF i h(2) _ assms(3) ld, where Q = sim_idle and R = sim_sfr and X = sim_reg and enough = "\<lambda>l. l \<noteq> 0"]
  then have p: "flash_ok sim_bus sim_flash sim_bank sim_addr (nv_hw n')" "sim_flash (flash_hw (nv_hw n')) = ?pg" "nv_record_fault n' = NV_RECORD_OK"
    "nv_wf n'" "cache_ok ?pg (nv_record_diagnostic n')" "(r, out) = load_outcome ?pg 128" "readable r \<Longrightarrow> reports ?pg (nv_record_diagnostic n')"
    "nv_erase_attempts (nv_record_diagnostic n') = nv_erase_attempts (nv_record_diagnostic n)"
    "flash_usable sim_config sim_bus sim_flash sim_addr sim_idle sim_sfr sim_reg (\<lambda>l. l \<noteq> 0) (nv_hw n')"
    using h(2,5) by (simp_all add: fl.load_post_def)
  have "unat (page_len (?pg s)) \<le> 128" if "readable jr"
    using page_class_valid_len journal_selected [OF j that] by blast
  then have r: "r = jr" "jr = NV_RECORD_EMPTY \<Longrightarrow> out = []"
    using p(6) j by (auto simp: load_outcome_def word_less_nat_alt readable_def split: if_splits)
  have "length (?pg q) = 2048" for q by (simp add: sim_flash_def)
  from load_outcome_record(1) [OF p(6) [symmetric] this, of "nv_record_diagnostic n'"] p(7)
  have "jr = NV_RECORD_OK \<Longrightarrow> x = Some (nv_generation (nv_record_diagnostic n'), out) \<and> length out = unat (nv_length (nv_record_diagnostic n'))"
    using h(3) r(1) by (simp add: readable_def)
  moreover have "sim_holds jr x n'"
    using p(1-5,9) h(3,4) by (simp add: sim_holds_def sim_inv_def nv_invariant_def sim_rec_def)
  ultimately show ?thesis using that ld r p(8) by (simp add: sim_stores_def nv_services_def sim_unworn_def)
qed

lemma sim_replace_holds:
  assumes "sim_holds jr x n" "jr \<in> {NV_RECORD_OK, NV_RECORD_EMPTY}" "sim_unworn n" "next_gen x \<noteq> 0"
    and "nv_caller 0x280 a len" "len \<noteq> 0" "unat len \<le> 128" "unat len \<le> length src"
  obtains n' where "so_replace sim_stores (Some (a, src)) len 1 0 n = (NV_RECORD_OK, n')"
    "sim_holds NV_RECORD_OK (Some (next_gen x, take (unat len) src)) n'" "nv_generation (so_status sim_stores n') = next_gen x"
proof -
  let ?pg = "sim_flash (flash_hw (nv_hw n))"
  have h: "sim_inv n" "nv_record_fault n = NV_RECORD_OK" "journal_record ?pg = x" "fst (journal ?pg) = jr"
    "flash_usable sim_config sim_bus sim_flash sim_addr sim_idle sim_sfr sim_reg (\<lambda>l. l \<noteq> 0) (nv_hw n)"
    using assms(1) by (simp_all add: sim_holds_def sim_rec_def)
  obtain s where j: "journal ?pg = (jr, s)" using h(4) by (cases "journal ?pg") simp
  obtain r n' where run: "nv_record_replace (flash_services sim_config sim_bus) 0x280 (Some (a, src)) len 1 0 n = (r, n')" by fastforce
  have "jr \<in> {NV_RECORD_OK, NV_RECORD_RECOVERED, NV_RECORD_EMPTY}" using assms(2) by auto
  then have er: "nv_erase_attempts (nv_record_diagnostic n) ! (if s = 255 then 0 else s XOR 1) < 32"
    using assms(3) by (cases rule: journal_writable_cases [OF j]) (simp_all add: sim_unworn_def)
  have g: "replace_guard 0x280 a len 1 0 n" using assms(5-7) h(2) by (simp add: replace_guard_def)
  note sp = fl.nv_record_replace_spec [OF h(1) [unfolded sim_inv_def] assms(8) run j,
      where Q = sim_idle and R = sim_sfr and X = sim_reg and enough = "\<lambda>l. l \<noteq> 0"]
  then have r: "readable r" and u: "flash_usable sim_config sim_bus sim_flash sim_addr sim_idle sim_sfr sim_reg (\<lambda>l. l \<noteq> 0) (nv_hw n')"
    using h(3,5) g er assms(2,4) by auto
  from sp r have c: "sim_inv n'" "nv_record_fault n' = NV_RECORD_OK" "sim_rec n' = Some (next_gen x, take (unat len) src)"
    "fst (journal (sim_flash (flash_hw (nv_hw n')))) = NV_RECORD_OK" "r = NV_RECORD_RECOVERED \<longleftrightarrow> jr = NV_RECORD_RECOVERED"
    "nv_generation (nv_record_diagnostic n') = next_gen x"
    using h(3,4) by (simp_all add: replace_contract_def Let_def sim_inv_def sim_rec_def)
  from c(5) r assms(2) have "r = NV_RECORD_OK" by (auto simp: readable_def)
  with that run c u show ?thesis by (simp add: sim_stores_def nv_services_def sim_holds_def)
qed

section \<open>A counter module on it\<close>

definition sim_counter_config :: counter_config where
  "sim_counter_config = \<lparr>cc_reserved_end = 0x500, cc_blob = 0x380, cc_check = 0x400\<rparr>"

text \<open>The record without payload whose network-layer ceiling is \<open>c\<close>, and the module when its ceiling is
  \<open>c\<close>, its cursor \<open>v\<close> and its generation \<open>g\<close>.\<close>

definition ceiling_blob :: "u32 \<Rightarrow> bytes" where
  "ceiling_blob c = [0x43, 0x54, 0x52, 0x31, 1, 0, 0, 0] @ encode32 c @ encode32 0 @ replicate 112 0"

definition counting :: "nv_record_result \<Rightarrow> u32 \<Rightarrow> u32 \<Rightarrow> u32 \<Rightarrow> 'n \<Rightarrow> 'n counter_state" where
  "counting q c v g n = \<lparr>sc_next = [v, 0], sc_until = [c, 0], sc_generation = g, sc_state = SECURITY_COUNTER_READY,
     sc_result = SECURITY_COUNTER_OK, sc_nv_result = q, sc_payload_length = 0, sc_blob = ceiling_blob c, sc_store = n\<rparr>"

lemma ceiling_blob_simps:
  "length (ceiling_blob c) = 128" "ceiling_blob c ! 5 = 0" "store_at 8 (encode32 d) (ceiling_blob c) = ceiling_blob d"
  "store_at 0 (take 16 (ceiling_blob c)) (replicate 128 0) = ceiling_blob c" "map (\<lambda>i. decode32 (drop (8 + 4 * i) (ceiling_blob c))) [0..<2] = [c, 0]"
  by (simp_all add: ceiling_blob_def store_at_def upt_rec)

lemma sim_create:
  assumes "sim_holds NV_RECORD_EMPTY None n" "sim_unworn n"
  obtains n' st where "security_counter_open sim_counter_config sim_stores (counter_boot n) = (SECURITY_COUNTER_EMPTY, st)"
    "security_counter_create sim_counter_config c 0 None 0 1 st = (SECURITY_COUNTER_OK, counting NV_RECORD_EMPTY c c 0 n')"
    "sim_holds NV_RECORD_EMPTY None n'" "sim_unworn n'"
proof -
  obtain n' where ld: "so_load sim_stores (Some 0x380) 128 n = (NV_RECORD_EMPTY, [], n')" "sim_holds NV_RECORD_EMPTY None n'" "sim_unworn n'"
    using sim_load_holds [OF assms(1), of "0x380"] assms(2) by (auto simp: nv_caller_def)
  define st where "st = (counter_boot n')\<lparr>sc_state := SECURITY_COUNTER_UNPROVISIONED, sc_result := SECURITY_COUNTER_EMPTY, sc_nv_result := NV_RECORD_EMPTY\<rparr>"
  have "security_counter_open sim_counter_config sim_stores (counter_boot n) = (SECURITY_COUNTER_EMPTY, st)"
    using ld(1) by (simp add: security_counter_open_def counter_boot_def sim_counter_config_def sc_finish_def Let_def st_def store_at_def)
  moreover have "map (\<lambda>i. 0) [0..<112] = replicate 112 (0 :: u8)" "(replicate 128 0)[5 := 0] = replicate 128 (0 :: u8)"
    by (simp_all add: map_replicate_const list_update_same_conv)
  then have "security_counter_create sim_counter_config c 0 None 0 1 st = (SECURITY_COUNTER_OK, counting NV_RECORD_EMPTY c c 0 n')"
    by (simp add: security_counter_create_def st_def counter_boot_def sc_finish_def Let_def
      sc_stage_def sc_payload_def sc_floors_def counting_def store_at_def ceiling_blob_def nth_append upt_rec [of _ 2])
  ultimately show ?thesis using that ld(2,3) by blast
qed

lemma sim_reopen:
  assumes "sim_holds NV_RECORD_OK (Some (g, take 16 (ceiling_blob c))) n" "sim_unworn n"
  obtains n' where "security_counter_open sim_counter_config sim_stores (counter_boot n) = (SECURITY_COUNTER_OK, counting NV_RECORD_OK c c g n')"
    "sim_holds NV_RECORD_OK (Some (g, take 16 (ceiling_blob c))) n'" "sim_unworn n'"
proof -
  obtain out n' where ld: "so_load sim_stores (Some 0x380) 128 n = (NV_RECORD_OK, out, n')"
    "sim_holds NV_RECORD_OK (Some (g, take 16 (ceiling_blob c))) n'" "sim_unworn n'"
    and o: "g = nv_generation (so_status sim_stores n')" "out = take 16 (ceiling_blob c)" "length out = unat (nv_length (so_status sim_stores n'))"
    by (rule sim_load_holds [OF assms(1), of "0x380"]) (use assms(2) in \<open>auto simp: nv_caller_def\<close>)
  have "unat (nv_length (so_status sim_stores n')) = 16" using o(2,3) ceiling_blob_simps(1) by simp
  then have l: "nv_length (so_status sim_stores n') = 16" by (simp add: word_unat_eq_iff)
  have f: "ceiling_blob c ! 0 = 0x43" "ceiling_blob c ! 1 = 0x54" "ceiling_blob c ! 2 = 0x52" "ceiling_blob c ! 3 = 0x31" "ceiling_blob c ! 4 = 1"
    "ceiling_blob c ! 6 = 0" "ceiling_blob c ! 7 = 0" by (simp_all add: ceiling_blob_def)
  have "security_counter_open sim_counter_config sim_stores (counter_boot n) = (SECURITY_COUNTER_OK, counting NV_RECORD_OK c c g n')"
    using ld(1) o(1) l f ceiling_blob_simps
    by (simp add: security_counter_open_def counter_boot_def sim_counter_config_def o(2) sc_floors_def sc_finish_def Let_def counting_def del: One_nat_def)
  with that ld show ?thesis by blast
qed

text \<open>A take at the ceiling reserves 256 values durably first; a take below it leaves the journal alone.\<close>

lemma sim_take_reserve:
  assumes "sim_holds jr x n" "sim_unworn n" "(g = 0 \<and> jr = NV_RECORD_EMPTY \<and> x = None) \<or>
      (jr = NV_RECORD_OK \<and> x = Some (g, take 16 (ceiling_blob c)))"
    and "g \<noteq> 0xffffffff" "c \<le> 0xfffffeff"
  obtains n' where "security_counter_take sim_counter_config sim_stores 0 (Some 0x600) 1 (counting q c c g n) =
      (SECURITY_COUNTER_OK, Some c, counting NV_RECORD_OK (c + 256) (c + 1) (g + 1) n')"
    "sim_holds NV_RECORD_OK (Some (g + 1, take 16 (ceiling_blob (c + 256)))) n'"
proof -
  have jr: "jr \<in> {NV_RECORD_OK, NV_RECORD_EMPTY}" using assms(3) by auto
  obtain out n1 where ld: "so_load sim_stores (Some 0x400) 128 n = (jr, out, n1)" "sim_holds jr x n1" "sim_unworn n1"
    and o: "jr = NV_RECORD_OK \<Longrightarrow> x = Some (nv_generation (so_status sim_stores n1), out) \<and> length out = unat (nv_length (so_status sim_stores n1))"
    by (rule sim_load_holds [OF assms(1) jr, of "0x400"]) (use assms(2) in \<open>auto simp: nv_caller_def\<close>)
  have g0: "g \<noteq> 0" if "jr = NV_RECORD_OK"
    using journal_record_gen [of "sim_flash (flash_hw (nv_hw n))" g] assms(1,3) that by (auto simp: sim_holds_def sim_rec_def)
  have cur: "sc_current sim_counter_config sim_stores (counting q c c g n) = (SECURITY_COUNTER_OK, counting jr c c g n1)"
    using assms(3) ld(1) o g0 ceiling_blob_simps(1)
    by (auto simp: sc_current_def sim_counter_config_def counting_def Let_def)
  have ng: "next_gen x = g + 1" using assms(3) by (auto simp: next_gen_def)
  have "g + 1 \<noteq> 0" using assms(4) word_less_succ [of g] by auto
  then obtain n2 where rp: "so_replace sim_stores (Some (0x380, ceiling_blob (c + 256))) 16 1 0 n1 = (NV_RECORD_OK, n2)"
    "sim_holds NV_RECORD_OK (Some (g + 1, take 16 (ceiling_blob (c + 256)))) n2" "nv_generation (so_status sim_stores n2) = g + 1"
    using sim_replace_holds [OF ld(2) jr ld(3), of "0x380" 16 "ceiling_blob (c + 256)"] ng ceiling_blob_simps(1) [of "c + 256"]
    by (auto simp: nv_caller_def)
  have c: "c \<noteq> 0xffffffff" "\<not> 0xffffffff - 256 < c" using assms(5) by (auto simp: word_le_nat_alt word_less_nat_alt)
  have "sc_commit sim_counter_config sim_stores 1 ((counting jr c c g n1)\<lparr>sc_blob := ceiling_blob (c + 256)\<rparr>) =
      (SECURITY_COUNTER_OK, (counting NV_RECORD_OK (c + 256) c (g + 1) n2)\<lparr>sc_until := [c, 0]\<rparr>)"
    using rp(1,3) ceiling_blob_simps(2) by (simp add: sc_commit_def sc_record_length_def sim_counter_config_def counting_def sc_finish_def Let_def)
  then have "sc_refill sim_counter_config sim_stores 0 1 (counting q c c g n) = (SECURITY_COUNTER_OK, counting NV_RECORD_OK (c + 256) c (g + 1) n2)"
    using c cur ceiling_blob_simps(3) [of "c + 256" c] unfolding sc_refill_def by (simp add: counting_def Let_def)
  then have "security_counter_take sim_counter_config sim_stores 0 (Some 0x600) 1 (counting q c c g n) =
      (SECURITY_COUNTER_OK, Some c, counting NV_RECORD_OK (c + 256) (c + 1) (g + 1) n2)"
    unfolding security_counter_take_def by (simp add: counting_def sc_ready_def sc_caller_def sim_counter_config_def sc_finish_def Let_def)
  with that rp(2) show ?thesis by blast
qed

lemma sim_take_next:
  assumes "v \<noteq> c"
  shows "security_counter_take sim_counter_config sim_stores 0 (Some 0x600) 1 (counting q c v g n) =
    (SECURITY_COUNTER_OK, Some v, counting q c (v + 1) g n)"
  using assms by (simp add: security_counter_take_def counting_def sc_ready_def sc_caller_def sim_counter_config_def sc_finish_def Let_def)

text \<open>The run: blank flash, creation with ceiling zero, two values, a reset, one more value.\<close>

lemma sim_counter_run: "\<exists>st. counter_reach sim_counter_config sim_stores sim_inv sim_rec st [(0, 0), (0, 1), (0, 256)]"
proof -
  note reach = counter_reach.intros [where cfg = sim_counter_config and sops = sim_stores and sinv = sim_inv and srec = sim_rec]
  obtain n1 st1 where a: "security_counter_open sim_counter_config sim_stores (counter_boot sim_nv) = (SECURITY_COUNTER_EMPTY, st1)"
    "security_counter_create sim_counter_config 0 0 None 0 1 st1 = (SECURITY_COUNTER_OK, counting NV_RECORD_EMPTY 0 0 0 n1)"
    "sim_holds NV_RECORD_EMPTY None n1" "sim_unworn n1" by (rule sim_create [OF sim_blank_holds])
  obtain n2 where b: "security_counter_take sim_counter_config sim_stores 0 (Some 0x600) 1 (counting NV_RECORD_EMPTY 0 0 0 n1) =
      (SECURITY_COUNTER_OK, Some 0, counting NV_RECORD_OK 256 1 1 n2)" "sim_holds NV_RECORD_OK (Some (1, take 16 (ceiling_blob 256))) n2"
    by (rule sim_take_reserve [OF a(3,4), of 0 0 NV_RECORD_EMPTY]) simp_all
  have c: "security_counter_take sim_counter_config sim_stores 0 (Some 0x600) 1 (counting NV_RECORD_OK 256 1 1 n2) =
      (SECURITY_COUNTER_OK, Some 1, counting NV_RECORD_OK 256 2 1 n2)" by (simp add: sim_take_next)
  let ?n = "nv_boot (flash_boot (flash_hw (nv_hw n2)))"
  obtain n3 where d: "security_counter_open sim_counter_config sim_stores (counter_boot ?n) = (SECURITY_COUNTER_OK, counting NV_RECORD_OK 256 256 1 n3)"
    "sim_holds NV_RECORD_OK (Some (1, take 16 (ceiling_blob 256))) n3" "sim_unworn n3" by (rule sim_reopen [OF sim_reset_holds [OF b(2)]])
  obtain n4 where e: "security_counter_take sim_counter_config sim_stores 0 (Some 0x600) 1 (counting NV_RECORD_OK 256 256 1 n3) =
      (SECURITY_COUNTER_OK, Some 256, counting NV_RECORD_OK 512 257 2 n4)"
    by (rule sim_take_reserve [OF d(2,3), of 1 256 NV_RECORD_OK]) simp_all
  have "sim_inv sim_nv" "sim_inv ?n" "sim_rec ?n = sim_rec n2"
    using sim_blank_holds(1) b(2) sim_reset_holds(1) [OF b(2)] by (simp_all add: sim_holds_def)
  then have "counter_reach sim_counter_config sim_stores sim_inv sim_rec (counting NV_RECORD_OK 512 257 2 n4)
      (((([] @ [(0, 0)]) @ [(0, 1)])) @ [(0, 256)])"
    using reach(8) [OF reach(3) [OF reach(2) [OF reach(8) [OF reach(8) [OF reach(4) [OF reach(3) [OF reach(1) a(1)] a(2)] b(1)] c]] d(1)] e]
    by (simp add: counting_def)
  then show ?thesis by auto
qed

end
