(* ===== verification/Key_Sim.thy ===== *)
theory Key_Sim
  imports Key_Invariant Counter_Sim
begin

text \<open>
  The key store on the firmware's own counter and flash services, and a joined device on the
  simulated chip: its flash holds a verified record, and a network-layer frame of its Trust
  Center is accepted once.
\<close>

interpretation kst: counter_service "counter_services cc (nv_services (flash_services cfg bus) rend) arecord asize acounter"
    "counter_safe (nv_invariant (flash_ok bus F bank faddr) (\<lambda>s. F (flash_hw s)))" counter_payload counter_unsaved
  for cc and cfg :: flash_config and bus :: "'m bus" and rend and F :: "'m \<Rightarrow> nat \<Rightarrow> bytes" and bank :: "'m \<Rightarrow> u8"
    and faddr :: "'m \<Rightarrow> u16" and arecord asize acounter
  by (rule nv_store.counter_service_keys [OF fl.store.nv_store_axioms])

lemma counter_boot_safe: "sinv n \<Longrightarrow> counter_safe sinv (counter_boot n)"
  by (simp add: counter_safe_def counter_boot_def counter_shape_def)

lemma key_store_live:
  assumes "nv_invariant (flash_ok bus F bank faddr) (\<lambda>s. F (flash_hw s)) n"
    and "(sk_step (counter_services cc (nv_services (flash_services cfg bus) rend) arecord asize acounter) aes)\<^sup>*\<^sup>* (sk_boot (counter_boot n) hw) st"
    and "sk_phase st \<notin> {0, 1, 11}"
  shows "sk_live counter_payload counter_unsaved st \<and> counter_safe (nv_invariant (flash_ok bus F bank faddr) (\<lambda>s. F (flash_hw s))) (sk_counter st)"
proof -
  have "sk_phase st \<le> 1 \<longrightarrow> sk_phase st = 0 \<or> sk_phase st = 1" by (auto dest: word_le_cases(1))
  then show ?thesis
    using kst.reach_inv [OF assms(2) counter_boot_safe, OF assms(1)] assms(3) by (auto simp: sk_inv_def)
qed

section \<open>A joined device\<close>

definition sim_record :: bytes where
  "sim_record = replicate 8 1 @ replicate 8 2 @ replicate 16 3 @ replicate 16 0 @ replicate 16 4 @ replicate 28 0 @
     replicate 8 5 @ [0x34, 0x12, 0x78, 0x56, 15, 0, 7, 0, 0x21, 8, 0x4b, 2]"

definition sim_blob :: bytes where
  "sim_blob = [0x43, 0x54, 0x52, 0x31, 1, 112, 0, 0] @ encode32 256 @ encode32 256 @ sim_record"

definition sim_joined :: sim where
  "sim_joined = sim_blank\<lparr>sim_mem := \<lambda>p. if p = 0 then (!) (new_page 1 sim_blob) else (\<lambda>_. 255)\<rparr>"

definition sim_store_nv :: "sim flash_state nv_state" where
  "sim_store_nv = nv_boot (flash_boot sim_joined)"

definition sim_ops :: "sim flash_state nv_state counter_state counter_ops" where
  "sim_ops = counter_services sim_counter_config (nv_services (flash_services sim_config sim_bus) 0x280) 0x600 0x6f0 0x700"

definition sim_keys :: "(sim flash_state nv_state counter_state, unit) sk_state" where
  "sim_keys = snd (security_keys_open sim_ops (sk_boot (counter_boot sim_store_nv) ()))"

definition sim_frame :: bytes where
  "sim_frame = [8, 2, 120, 86, 0, 0, 30, 9, 40, 40, 0, 0, 0, 2, 2, 2, 2, 2, 2, 2, 2, 7, 6, 9, 13, 10, 9, 13, 14, 67, 17, 82, 165, 83, 101, 240]"

definition sim_meta :: zigbee_security_meta where
  "sim_meta = \<lparr>sm_counter = 40, sm_source = replicate 8 2, sm_level = 5, sm_key_identifier = 1, sm_key_sequence = 7, sm_extended_nonce = 1,
     sm_header_length = 8, sm_auxiliary_length = 14, sm_payload_length = 10\<rparr>"

lemma sim_record_good: "length sim_record = 112" "valid_record 112 sim_record" "phase_of sim_record = 8" "sim_record ! 109 = 8"
  "take 8 (drop 80 sim_record) = zeros 8" "(store_at 80 (zeros 8) sim_record)[109 := 8] = sim_record"
  by code_simp+

lemma sim_blob_length: "length sim_blob = 128"
  by (simp add: sim_blob_def sim_record_good)

lemma sim_joined_pages: "sim_flash sim_joined 0 = new_page 1 sim_blob" "sim_flash sim_joined 1 = replicate 2048 255"
proof -
  have "length (new_page 1 sim_blob) = 2048" using sim_blob_length by (simp add: new_page_def new_body_def new_header_def magic_def commit_def)
  then show "sim_flash sim_joined 0 = new_page 1 sim_blob"
    by (intro nth_equalityI) (simp_all add: sim_flash_def sim_joined_def)
qed (simp add: sim_flash_def sim_joined_def map_replicate_const)

lemma erased_page_class: "page_class (replicate 2048 255) = NV_PAGE_EMPTY"
  by (simp add: page_class_def page_erased_def)

lemma sim_joined_journal: "journal (sim_flash sim_joined) = (NV_RECORD_OK, 0)" "journal_record (sim_flash sim_joined) = Some (1, sim_blob)"
proof -
  have d: "record_data sim_blob" using sim_blob_length by (auto simp: record_data_def)
  show "journal (sim_flash sim_joined) = (NV_RECORD_OK, 0)"
    using new_page_valid [OF d, of 1] erased_page_class by (simp add: journal_def sim_joined_pages Let_def del: One_nat_def)
  then show "journal_record (sim_flash sim_joined) = Some (1, sim_blob)"
    using new_page_data [OF d] new_page_fields [OF d] by (simp add: journal_record_def readable_def sim_joined_pages)
qed

lemma sim_joined_invariant: "nv_invariant (flash_ok sim_bus sim_flash sim_bank sim_addr) (\<lambda>s. sim_flash (flash_hw s)) sim_store_nv"
  unfolding sim_store_nv_def by (rule nv_boot_invariant) (simp add: flash_ok_def sim_chip writer_wf_def flash_boot_def)

lemma sim_joined_usable: "flash_usable sim_config sim_bus sim_flash sim_addr sim_idle sim_sfr sim_reg (\<lambda>l. l \<noteq> 0) (flash_boot sim_joined)"
  by (simp add: flash_usable_def sim_chip_idle flash_live_def config_ok_def sim_config_def ready_def flash_boot_def
      sim_idle_def sim_joined_def sim_blank_def sim_sfr_def)

lemma sim_load:
  obtains n where "so_load (nv_services (flash_services sim_config sim_bus) 0x280) (Some 0x380) 128 sim_store_nv = (NV_RECORD_OK, sim_blob, n)"
    "nv_generation (nv_record_diagnostic n) = 1" "nv_length (nv_record_diagnostic n) = 128"
proof -
  obtain r out n where ld: "nv_record_load (flash_services sim_config sim_bus) 0x280 (Some 0x380) 128 sim_store_nv = (r, out, n)"
    using prod_cases3 by blast
  have hw: "nv_hw sim_store_nv = flash_boot sim_joined" "flash_hw (flash_boot sim_joined) = sim_joined" "nv_record_fault sim_store_nv = NV_RECORD_OK"
    by (simp_all add: sim_store_nv_def nv_boot_def flash_boot_def)
  have d: "record_data sim_blob" using sim_blob_length by (auto simp: record_data_def)
  have lo: "load_outcome (sim_flash sim_joined) 128 = (NV_RECORD_OK, sim_blob)"
    using new_page_data [OF d] new_page_fields(4) [OF d] sim_blob_length
    by (simp add: load_outcome_def sim_joined_journal readable_def sim_joined_pages page_len_def)
  have "r \<noteq> NV_RECORD_READ_FAILED"
    using fl.nv_load_live [OF sim_joined_invariant hw(3) _ _ _ ld, of sim_idle sim_sfr sim_reg "\<lambda>l. l \<noteq> 0"] sim_joined_usable hw(1)
    by (simp add: nv_caller_def)
  with fl.nv_load_store [OF sim_joined_invariant ld] hw lo have o: "r = NV_RECORD_OK" "out = sim_blob"
    and rp: "reports (sim_flash sim_joined) (nv_record_diagnostic n)"
    by (simp_all add: nv_caller_def readable_def)
  have "length (sim_flash sim_joined p) = 2048" for p by (simp add: sim_flash_def)
  from load_outcome_record(1) [OF lo this _ rp] have "nv_generation (nv_record_diagnostic n) = 1" "unat (nv_length (nv_record_diagnostic n)) = 128"
    by (simp_all add: readable_def sim_joined_journal sim_blob_length)
  moreover from this(2) have "nv_length (nv_record_diagnostic n) = 128" by (simp add: word_unat_eq_iff)
  ultimately show ?thesis using that ld o by (simp add: nv_services_def)
qed

text \<open>The state of the key store after opening, over the journal state \<open>n\<close>.\<close>

definition sim_ready :: "sim flash_state nv_state \<Rightarrow> sim flash_state nv_state counter_state" where
  "sim_ready n = \<lparr>sc_next = [256, 256], sc_until = [256, 256], sc_generation = 1, sc_state = SECURITY_COUNTER_READY,
     sc_result = SECURITY_COUNTER_OK, sc_nv_result = NV_RECORD_OK, sc_payload_length = 112, sc_blob = sim_blob, sc_store = n\<rparr>"

definition sim_live :: "sim flash_state nv_state \<Rightarrow> (sim flash_state nv_state counter_state, unit) sk_state" where
  "sim_live n = \<lparr>sk_phase = 8, sk_result = SECURITY_KEYS_OK, sk_floor_cache = zeros 8, sk_phase_cache = 8, sk_counter = sim_ready n, sk_hw = ()\<rparr>"

lemma sim_blob_fields:
  "sim_blob ! 0 = 0x43" "sim_blob ! 1 = 0x54" "sim_blob ! 2 = 0x52" "sim_blob ! 3 = 0x31" "sim_blob ! 4 = 1" "sim_blob ! 5 = 112"
  "sim_blob ! 6 = 0" "sim_blob ! 7 = 0" "map (\<lambda>i. decode32 (drop (8 + 4 * i) sim_blob)) [0..<2] = [256, 256]"
  "take 112 (drop 16 sim_blob) = sim_record"
  by code_simp+

lemma sim_ready_payload: "counter_payload (sim_ready n) = sim_record"
  using sim_blob_fields(10) by (simp add: counter_payload_def sim_ready_def)

lemma sim_ready_read: "co_read sim_ops (sim_ready n) = (SECURITY_COUNTER_OK, Some (sim_record, 112), sim_ready n)"
  using sim_blob_fields(10)
  by (simp add: sim_ops_def counter_services_def security_counter_read_def sim_counter_config_def sc_finish_def sc_ready_def sc_caller_def sim_ready_def)

lemma sim_record_store: "store_at 0 sim_record (replicate 112 0) = sim_record"
  using sim_record_good(1) by (simp add: store_at_def)

lemma sim_keys_live: "\<exists>n. sim_keys = sim_live n"
proof -
  obtain n where ld: "so_load (nv_services (flash_services sim_config sim_bus) 0x280) (Some 0x380) 128 sim_store_nv = (NV_RECORD_OK, sim_blob, n)"
    "nv_generation (nv_record_diagnostic n) = 1" "nv_length (nv_record_diagnostic n) = 128" by (rule sim_load)
  have b: "store_at 0 sim_blob (replicate 128 0) = sim_blob" using sim_blob_length by (simp add: store_at_def)
  have "co_open sim_ops (counter_boot sim_store_nv) = (SECURITY_COUNTER_OK, sim_ready n)"
    using ld b sim_blob_fields
    by (simp add: sim_ops_def counter_services_def security_counter_open_def counter_boot_def sim_counter_config_def nv_services_def
        sc_floors_def Let_def sc_finish_def sim_ready_def)
  then have "sim_keys = sim_live n"
    using sim_record_store
    by (simp add: sim_keys_def security_keys_open_def sk_boot_def sk_read_def sim_ready_read sim_record_good sk_finish_def keep_volatile_def sim_live_def)
  then show ?thesis ..
qed

section \<open>A frame of the Trust Center\<close>

lemma sim_frame_secured: "secured_frame sim_frame sim_meta"
proof -
  have "ed_wire_inspect ZIGBEE_SECURITY_NWK (Some sim_frame) True = Inr sim_meta" by code_simp
  moreover have "(case ed_wire_nwk (Some sim_frame) True of Inl _ \<Rightarrow> False | Inr n \<Rightarrow> nwk_flags (nfi_header n) AND NWK_FLAG_SECURITY \<noteq> 0)" by code_simp
  ultimately show ?thesis by (auto simp: secured_frame_def split: sum.splits)
qed

definition sim_floor :: "u32 \<Rightarrow> bytes" where
  "sim_floor c = store_at 80 (encode32 c) sim_record"

definition sim_header :: nwk_header where
  "sim_header = \<lparr>nwk_type = 0, nwk_version = 2, nwk_discover_route = 0, nwk_flags = 0x200, nwk_destination = 0x5678, nwk_source = 0,
     nwk_radius = 30, nwk_sequence = 9, nwk_destination_ieee = replicate 8 0, nwk_source_ieee = replicate 8 0\<rparr>"

definition sim_clear :: bytes where
  "sim_clear = [8, 0, 120, 86, 0, 0, 30, 9, 0, 1, 6, 0, 4, 1, 1, 77, 16, 32]"

definition sim_packet :: ed_packet where
  "sim_packet = \<lparr>ep_nwk = sim_header\<lparr>nwk_flags := 0\<rparr>,
     ep_aps = \<lparr>aps_type = 0, aps_delivery_mode = 0, aps_flags = 0, aps_destination_endpoint = 1, aps_cluster_id = 6, aps_profile_id = 0x104,
       aps_source_endpoint = 1, aps_counter = 77\<rparr>, ep_length = 2, ep_payload = [16, 32] @ replicate 80 0\<rparr>"

definition sim_context :: sk_context where
  "sim_context = \<lparr>cx_secured = 1, cx_aps_secured = 0, cx_pending = False, cx_key_id = 0, cx_counter = 0\<rparr>"

lemma sim_frame_nwk: "ed_wire_nwk (Some sim_frame) True = Inr \<lparr>nfi_header = sim_header, nfi_payload_offset = 8, nfi_payload_length = 28\<rparr>"
  by code_simp

lemma sim_frame_addressed: "sk_addressed sim_header sim_record"
  by code_simp

lemma sim_clear_nwk: "ed_wire_nwk (Some sim_clear) True = Inr \<lparr>nfi_header = sim_header\<lparr>nwk_flags := 0\<rparr>, nfi_payload_offset = 8, nfi_payload_length = 10\<rparr>"
  by code_simp

lemma sim_clear_packet: "ed_wire_decode (Some sim_clear) True = Inr sim_packet"
  by code_simp

lemma sim_dispatch: "sk_dispatch sim_context sim_packet (sim_floor 41) = (SECURITY_KEYS_OK, SECURITY_KEYS_EVENT_DATA, sim_floor 41)"
  by code_simp

lemma sim_open_aps: "sk_open_aps mix_engine mix_limits (sim_floor 41) sim_clear 1 8 10 () = (Inr (sim_floor 41, sim_clear, sim_context), ())"
  by code_simp

definition sim_aad :: bytes where
  "sim_aad = [8, 2, 120, 86, 0, 0, 30, 9, 45, 40, 0, 0, 0, 2, 2, 2, 2, 2, 2, 2, 2, 7]"

definition sim_nonce :: bytes where
  "sim_nonce = [2, 2, 2, 2, 2, 2, 2, 2, 40, 0, 0, 0, 45]"

definition sim_sealed :: bytes where
  "sim_sealed = [6, 9, 13, 10, 9, 13, 14, 67, 17, 82, 165, 83, 101, 240]"

definition sim_key :: zigbee_security_key where
  "sim_key = \<lparr>zk_key = replicate 16 3, zk_source = replicate 8 2, zk_counter = 0, zk_level = 5, zk_key_identifier = 1, zk_key_sequence = 7,
     zk_extended_nonce = 1, zk_limits = mix_limits\<rparr>"

lemma sim_seal: "ccm_open mix_cipher (replicate 16 3) sim_nonce sim_aad 4 sim_sealed = Some (drop 8 sim_clear)"
  by code_simp

lemma mix_open:
  assumes "ccm_request_ok True k n aad inp 4 116 mix_limits" "ccm_open mix_cipher k n aad 4 inp = Some p"
  shows "\<exists>i. ccm_star_crypt mix_engine 1 (Some k) (Some n) (Some aad) (length aad) (Some inp) (length inp) 4 True 116 True (Some mix_limits) True () =
    (CCM_STAR_OK, p, i, ())"
proof -
  obtain r out i m where run: "ccm_star_crypt mix_engine 1 (Some k) (Some n) (Some aad) (length aad) (Some inp) (length inp) 4 True 116 True
    (Some mix_limits) True () = (r, out, i, m)" using prod_cases4 by blast
  have "r = CCM_STAR_OK \<and> out = p"
    using ccm_star_crypt_spec [OF mix_correct _ _ run, of "\<lambda>_. True"] assms mix_live by simp
  with run show ?thesis by simp
qed

lemma sim_ccm: "\<exists>i. ccm_star_crypt mix_engine 1 (Some (replicate 16 3)) (Some sim_nonce) (Some sim_aad) 22 (Some sim_sealed) 14 4 True 116 True
    (Some mix_limits) True () = (CCM_STAR_OK, drop 8 sim_clear, i, ())"
proof -
  have l: "length sim_aad = 22" "length sim_sealed = 14" by (simp_all add: sim_aad_def sim_sealed_def)
  have "ccm_request_ok True (replicate 16 3) sim_nonce sim_aad sim_sealed 4 116 mix_limits"
    by (simp add: ccm_request_ok_def mix_limits_def l sim_nonce_def)
  from mix_open [OF this sim_seal] show ?thesis by (simp only: l)
qed

lemma sim_prepare: "ew_prepare_open 0 sim_key sim_frame = Inr (sim_meta, 0, 18, store_at 0 (sim_aad @ sim_sealed) (replicate 116 0))"
  by code_simp

lemma sim_unwrapped: "take 18 (ew_finish True 0 8 14 10 (drop 8 sim_clear) (store_at 0 (sim_aad @ sim_sealed) (replicate 116 0))) = sim_clear"
  by code_simp

lemma sim_work:
  "take 8 (zk_source sim_key) @ take 4 (drop 9 (store_at 0 (sim_aad @ sim_sealed) (replicate 116 0))) @
     [store_at 0 (sim_aad @ sim_sealed) (replicate 116 0) ! 8] = sim_nonce"
  "take 22 (store_at 0 (sim_aad @ sim_sealed) (replicate 116 0)) = sim_aad"
  "take 14 (drop 22 (store_at 0 (sim_aad @ sim_sealed) (replicate 116 0))) = sim_sealed"
  by code_simp+

lemma sim_crypt: "\<exists>i. ed_wire_crypt mix_engine 1 ZIGBEE_SECURITY_NWK (Some sim_key) (Some sim_frame) True 116 True () = (ZIGBEE_SECURITY_OK, sim_clear, i, ())"
proof -
  obtain i where "ccm_star_crypt mix_engine 1 (Some (replicate 16 3)) (Some sim_nonce) (Some sim_aad) 22 (Some sim_sealed) 14 4 True 116 True
    (Some mix_limits) True () = (CCM_STAR_OK, drop 8 sim_clear, i, ())" using sim_ccm by blast
  moreover have "sm_header_length sim_meta = 8" "sm_auxiliary_length sim_meta = 14" "sm_payload_length sim_meta = 10" "zk_key sim_key = replicate 16 3"
    "zk_limits sim_key = mix_limits" "zk_level sim_key = 5" "zk_extended_nonce sim_key = 1" "zk_key_identifier sim_key = 1"
    by (simp_all add: sim_meta_def sim_key_def)
  ultimately have "ew_crypt mix_engine True 0 sim_key 116 (sim_meta, 0, 18, store_at 0 (sim_aad @ sim_sealed) (replicate 116 0)) () =
      (ZIGBEE_SECURITY_OK, sim_clear, map_option (Pair sim_meta) i, ())"
    using sim_unwrapped sim_work by (simp add: ew_crypt_def Let_def)
  then show ?thesis using sim_prepare by (simp add: ed_wire_crypt_def sim_key_def)
qed

lemma sim_open_nwk: "sk_open_nwk mix_engine mix_limits sim_record sim_frame sim_header () = (Inr (sim_floor 41, sim_clear, 1), ())"
proof -
  have "nwk_flags sim_header AND NWK_FLAG_SECURITY \<noteq> 0" "ed_wire_inspect ZIGBEE_SECURITY_NWK (Some sim_frame) True = Inr sim_meta"
    "sk_find_slot (sm_key_sequence sim_meta) sim_record = 0" "sk_same (sm_source sim_meta) (drop 8 sim_record) 8"
    "sm_counter sim_meta = 40" "decode32 (drop 80 sim_record) = 0" "sim_floor 41 ! 108 AND KF_NEWER = 0"
    by code_simp+
  moreover have "map_prod (map_sum id (\<lambda>k. k\<lparr>zk_key_sequence := sim_record ! 106\<rparr>)) id (sk_key mix_engine mix_limits sim_record 16 1 False ()) = (Inr sim_key, ())"
    by code_simp
  then obtain k where "sk_key mix_engine mix_limits sim_record 16 1 False () = (Inr k, ())" "k\<lparr>zk_key_sequence := sim_record ! 106\<rparr> = sim_key"
    by (cases "sk_key mix_engine mix_limits sim_record 16 1 False ()"; cases "fst (sk_key mix_engine mix_limits sim_record 16 1 False ())") auto
  moreover obtain i where "ed_wire_crypt mix_engine 1 ZIGBEE_SECURITY_NWK (Some sim_key) (Some sim_frame) True 116 True () = (ZIGBEE_SECURITY_OK, sim_clear, i, ())"
    using sim_crypt by blast
  ultimately show ?thesis by (simp add: sk_open_nwk_def Let_def sim_floor_def)
qed

lemma sim_live_hw: "(sim_live n)\<lparr>sk_hw := u\<rparr> = sim_live n"
  by (simp add: sim_live_def)

lemma sim_live_load: "sk_load sim_ops (sim_live n) = (Inr sim_record, sim_live n)"
proof -
  have "sk_overlay (sim_live n) sim_record = sim_record"
    using sim_record_good(6) by (simp add: sk_overlay_def sim_live_def)
  then show ?thesis
    by (simp add: sk_load_def sk_read_def sim_live_def sim_ready_read sim_record_store sim_record_good)
qed

lemma sim_live_receive:
  "security_keys_receive sim_ops mix_engine (Some sim_frame) True True (Some mix_limits) 1 (sim_live n) =
     (SECURITY_KEYS_OK, Some (sim_packet, SECURITY_KEYS_EVENT_DATA), keep_volatile (sim_floor 41) (sim_live n))"
proof -
  have st: "sk_phase (sim_live n) = 8" "sk_hw (sim_live n) = ()" "sk_result (sim_live n) = SECURITY_KEYS_OK"
    by (simp_all add: sim_live_def)
  have p: "nwk_type (ep_nwk sim_packet) = 0" "aps_type (ep_aps sim_packet) = 0" by (simp_all add: sim_packet_def sim_header_def)
  have h: "nwk_type (sim_header\<lparr>nwk_flags := 0\<rparr>) = 0" by (simp add: sim_header_def)
  have cx: "cx_aps_secured sim_context = 0" "cx_secured sim_context = 1" by (simp_all add: sim_context_def)
  have lim: "limits_ok (Some mix_limits) 1" by (simp add: limits_ok_def mix_limits_def)
  have kv: "sk_phase (keep_volatile r (sim_live n)) = 8" "sk_result (keep_volatile r (sim_live n)) = SECURITY_KEYS_OK" for r by (simp_all add: keep_volatile_def st)
  have "sk_accepted sim_ops 1 SECURITY_KEYS_EVENT_DATA sim_context sim_packet (sim_floor 41) (sim_live n) =
      (SECURITY_KEYS_OK, Some (sim_packet, SECURITY_KEYS_EVENT_DATA), keep_volatile (sim_floor 41) (sim_live n))"
    using kv p cx by (simp add: sk_accepted_def sk_finish_def Let_def)
  then show ?thesis
    using sim_live_load sim_frame_nwk sim_frame_addressed sim_open_nwk sim_clear_nwk sim_open_aps sim_clear_packet sim_dispatch lim st p cx h
    by (simp add: security_keys_receive_def sk_opened_def Let_def sim_live_hw)
qed

lemma sim_keys_reach: "(sk_step sim_ops mix_engine)\<^sup>*\<^sup>* (sk_boot (counter_boot sim_store_nv) ()) sim_keys"
  unfolding sim_keys_def by (rule r_into_rtranclp) (rule sk_step.Open)

text \<open>The effective record before and after the frame.\<close>

definition sim_after :: "sim flash_state nv_state \<Rightarrow> (sim flash_state nv_state counter_state, unit) sk_state" where
  "sim_after n = keep_volatile (sim_floor 41) (sim_live n)"

lemma sim_live_view: "sk_view counter_payload (sim_live n) = sim_record"
  using sim_record_good(6) by (simp add: sk_view_def sk_overlay_def sim_live_def sim_ready_payload)

lemma sim_after_view: "sk_view counter_payload (sim_after n) = sim_floor 41"
proof -
  have "(let r1 = store_at 80 (take 8 (drop 80 (sim_floor 41))) sim_record in if sim_floor 41 ! 109 = 0 then r1 else r1[109 := sim_floor 41 ! 109]) = sim_floor 41"
    by code_simp
  then show ?thesis by (simp add: sk_view_def sk_overlay_def sim_after_def keep_volatile_def sim_live_def sim_ready_payload Let_def split: if_splits)
qed

lemma sim_floor_facts: "sk_find_slot (sm_key_sequence sim_meta) sim_record = 0" "nwk_key 0 (sim_floor 41) = nwk_key 0 sim_record"
  by code_simp+

lemma sim_live_phase: "sk_phase (sim_live n) = 8" "sk_phase (sim_after n) = 8"
  by (simp_all add: sim_after_def sim_live_def keep_volatile_def)

end
