(* ===== verification/Spec2Isabelle.thy ===== *)
theory Spec2Isabelle
  imports Flash_Sim Counter_Proof Frame_Stack Zcl_Identify Nwk_Candidates Mac_Association Zigbee_Security Zigbee_Mmo Ed_Wire_Proof Key_Sim
begin

text \<open>
  A verification library for the CC2530 Zigbee firmware: a single-threaded C program for an
  8051 system-on-chip that keeps its security state in two pages of on-chip flash and speaks
  IEEE 802.15.4 and Zigbee as an end device. Paths below are under \<open>src/\<close> of the repository.
  The modelled profile is the plain one: none of \<open>CC2530_MAC_LINK*\<close> (static overlay workspaces),
  \<open>CC2530_PARENT_RECOVERY\<close> and \<open>CC2530_ROUTER_JOIN\<close> is defined.

  \<^bold>\<open>Conventions.\<close> Machine integers are words of their width and wrap; lengths, indices and loop
  counters whose range the code's own guards bound are natural numbers. A pointer argument that
  the code compares with NULL is an option (data read through it) or a boolean (storage written
  through it); caller addresses matter only where the code checks ranges, and are then explicit.
  A failing function returns \<open>Inl\<close> of its result code and leaves the output storage alone; a
  successful one returns \<open>Inr\<close> of what it stores. Static variables are records passed along.

  \<^bold>\<open>Storage.\<close> \<open>Mmio\<close> describes the register bus; the chip behind it is a parameter. \<open>Flash\<close> models
  the NV reader (\<open>src/flash.c\<close>), the RAM command executor with its position-independent template
  (\<open>src/flash_exec.c\<close>) and the verified writer (\<open>src/flash_write.c\<close>); \<open>Flash_Proof\<close> shows that
  whatever a chip does within \<open>flash_chip\<close> (reads return the mapped page, a program changes only
  bits of its word, an erase only its page) a call changes nothing else and success means the
  cells hold the data; \<open>Flash_Live\<close> that an idle chip (\<open>flash_chip_idle\<close>) makes calls succeed;
  \<open>Flash_Sim\<close> is a concrete chip that meets every hypothesis. \<open>Flash_Interface\<close> states the
  services a journal needs as locales; \<open>Nv_Record\<close>, \<open>Nv_Journal\<close>, \<open>Nv_Commit\<close> and \<open>Nv_Store\<close>
  model \<open>src/nv_record.c\<close> over them, with the abstract journal two page images determine and the
  crash analysis of a commit; \<open>Crc32\<close> shows that its nibble tables compute CRC-32.
  \<open>Security_Counter\<close> and \<open>Counter_Proof\<close> model \<open>src/security_counter.c\<close> on a store of records, with the
  relation of the calls and resets (\<open>counter_reach\<close>): of a save or take that fails in the erase phase
  it assumes that the torn page does not pass for a record. \<open>Counter_Sim\<close> runs the counters on the
  simulated chip, through creation, reservations and a reset.

  \<^bold>\<open>Frames.\<close> \<open>Mac_Frame\<close>, \<open>Nwk_Frame\<close>, \<open>Aps_Frame\<close>, \<open>Zcl_Frame\<close> and \<open>Zcl_Value\<close> model the codecs of
  the same names; each codec of a layer is an instance of the locale \<open>frame_codec\<close> of \<open>Codec\<close>, and
  \<open>Frame_Stack\<close> composes the four layers through the locale \<open>codec_stack\<close>.

  \<^bold>\<open>Application layer.\<close> \<open>Zcl_Attributes\<close> (\<open>src/zcl_attributes.c\<close>, \<open>src/zcl_basic.c\<close>),
  \<open>Zcl_Dispatch\<close> (\<open>src/zcl_write.c\<close>, \<open>src/zcl_dispatch.c\<close>) and \<open>Zcl_Identify\<close> (\<open>src/zcl_identify.c\<close>)
  model the attribute server and two clusters, with the responses specified record by record.

  \<^bold>\<open>Joining.\<close> \<open>Nwk_Candidates\<close> models the beacon payload, the candidate table and the parent choice
  (\<open>src/nwk_beacon.c\<close>, \<open>src/nwk_candidates.c\<close>, \<open>src/nwk_parent.c\<close>); \<open>Mac_Association\<close> the bounded
  wait for an association response (\<open>src/mac_association.c\<close>).

  \<^bold>\<open>Security.\<close> \<open>Aes_Engine\<close> states the block service of \<open>include/aes.h\<close> (a success stores the
  encryption of the block, failures latch); \<open>Ccm_Star\<close> models \<open>src/ccm_star.c\<close> over it and shows that
  it computes the CCM* mode defined on whole byte strings; \<open>Zigbee_Security\<close> models the protection of
  NWK and APS frames (\<open>src/zigbee_security.c\<close>) with the round trip and the soundness of opening;
  \<open>Zigbee_Mmo\<close> the AES-MMO hash, install codes and the keyed hash (\<open>src/zigbee_mmo.c\<close>,
  \<open>src/zigbee_key_hash.c\<close>). Overwriting the private buffers at the end of a call has no observer in
  the model and is left out.

  \<^bold>\<open>Key store.\<close> \<open>Ed_Wire\<close> models the wire syntax of the end device (\<open>src/ed_wire.c\<close>), with the round trip
  of its protection in \<open>Ed_Wire_Proof\<close>, and \<open>Security_Keys\<close> the key store on top of the counter
  module (\<open>src/security_keys.c\<close>): the 112-octet record with its checks, and every operation (open, provision, associate, receive, request, verify, send, leave,
  status). \<open>Key_Record\<close> reads the record field by field; \<open>Key_Steps\<close> states the changes a call may make
  to it as a step relation that keeps it valid and keeps the replay floors of a key monotone;
  \<open>Key_Receive\<close> shows what a received frame does to the record; \<open>Key_Store\<close> states what the store needs
  of the counter module as the locale \<open>counter_service\<close> and relates the operations to the record
  steps; \<open>Key_Invariant\<close> closes the relation of the calls, derives the invariant of the reachable
  states and the refusal of replays, and shows that the counter module meets the contract;
  \<open>Key_Sim\<close> interprets it on the firmware's services and runs a joined device on the simulated chip.
  A provisioning call is assumed to pass arrays of eight octets and an install code whose derived
  key is not zero (\<open>provision_ok\<close>): the code stores that key unchecked and refuses it afterwards.

  \<^bold>\<open>Loops.\<close> Every loop of the models is a terminating function. Polling of the flash controller is
  bounded by the code's own poll limit, which is the argument of the modelled loop.

  \<^bold>\<open>Not modelled.\<close> The radio, DMA, clock and interrupt drivers and the MAC state machines on top of
  them (transmit, scan, poll, join), the overlay workspaces of the MAC-link profile, the NWK/APS
  transport and the ZDO and BDB procedures, the sensor clusters, start-up code, smoke images and
  fixtures. Their correctness rests on radio hardware behaviour, or they are glue or test support.
\<close>

section \<open>The journal on the firmware's flash services\<close>

text \<open>C1. A replacement is atomic: on the firmware's own flash services and whatever write is torn,
  the module invariant survives, a reported success has installed the data as the next
  generation, and unless the call ended in the erase phase the journal holds the old record
  or the new one.\<close>

theorem nv_replace_atomic:
  assumes "nv_invariant (flash_ok bus F bank faddr) (\<lambda>s. F (flash_hw s)) st" and "unat len \<le> length src"
    and "nv_record_replace (flash_services cfg bus) rend (Some (a, src)) len l ar st = (r, st')"
  shows "replace_contract (flash_ok bus F bank faddr) (\<lambda>s. F (flash_hw s)) (take (unat len) src) st r st'"
proof -
  obtain jr s where "journal (F (flash_hw (nv_hw st))) = (jr, s)" by fastforce
  from fl.nv_record_replace_spec [OF assms this] show ?thesis by blast
qed

theorem nv_replace_atomic_witness:
  "replace_contract (flash_ok sim_bus sim_flash sim_bank sim_addr) (\<lambda>s. sim_flash (flash_hw s)) [1, 2, 3] sim_nv
     (fst (nv_record_replace (flash_services sim_config sim_bus) 0x280 (Some (0x400, [1, 2, 3, 4])) 3 1 0 sim_nv))
     (snd (nv_record_replace (flash_services sim_config sim_bus) 0x280 (Some (0x400, [1, 2, 3, 4])) 3 1 0 sim_nv))"
  using nv_replace_atomic [OF sim_nv_invariant, where len = 3 and src = "[1, 2, 3, 4]"]
  by (cases "nv_record_replace (flash_services sim_config sim_bus) 0x280 (Some (0x400, [1, 2, 3, 4])) 3 1 0 sim_nv") simp

text \<open>C2. A replacement succeeds: on an idle chip with a poll limit that outlasts a command, valid
  arguments, a journal that is empty or readable, a generation left and an erase attempt
  left, the call returns success and the data is the journal's record.\<close>

theorem nv_replace_succeeds:
  assumes "nv_invariant (flash_ok bus F bank faddr) (\<lambda>s. F (flash_hw s)) st"
    and "flash_usable cfg bus F faddr Q R X enough (nv_hw st)" and "enough l"
    and "replace_guard rend a len l ar st" and "unat len \<le> length src"
    and "journal (F (flash_hw (nv_hw st))) = (jr, s)"
    and "jr \<in> {NV_RECORD_OK, NV_RECORD_EMPTY} \<or> jr = NV_RECORD_RECOVERED \<and> ar = 1"
    and "next_gen (journal_record (F (flash_hw (nv_hw st)))) \<noteq> 0"
    and "nv_erase_attempts (nv_record_diagnostic st) ! (if s = 255 then 0 else s XOR 1) < 32"
  shows "\<exists>r st'. nv_record_replace (flash_services cfg bus) rend (Some (a, src)) len l ar st = (r, st') \<and> readable r \<and>
    journal_record (F (flash_hw (nv_hw st'))) =
      Some (next_gen (journal_record (F (flash_hw (nv_hw st)))), take (unat len) src) \<and>
    flash_usable cfg bus F faddr Q R X enough (nv_hw st')"
proof -
  obtain r st' where run: "nv_record_replace (flash_services cfg bus) rend (Some (a, src)) len l ar st = (r, st')" by fastforce
  from fl.nv_record_replace_spec [OF assms(1,5) run assms(6)] assms run
  show ?thesis by (auto simp: replace_contract_def Let_def)
qed

theorem nv_replace_succeeds_witness:
  "\<exists>r st'. nv_record_replace (flash_services sim_config sim_bus) 0x280 (Some (0x400, [1, 2, 3])) 3 1 0 sim_nv = (r, st') \<and>
      readable r \<and> journal_record (sim_flash (flash_hw (nv_hw st'))) = Some (1, [1, 2, 3]) \<and>
      flash_usable sim_config sim_bus sim_flash sim_addr sim_idle sim_sfr sim_reg (\<lambda>l. l \<noteq> 0) (nv_hw st')"
  using nv_replace_succeeds [OF sim_nv_invariant, where cfg = sim_config and Q = sim_idle and R = sim_sfr and X = sim_reg
      and enough = "\<lambda>l. l \<noteq> 0" and l = 1 and rend = "0x280" and a = "0x400" and len = 3 and ar = 0 and src = "[1, 2, 3]"
      and jr = NV_RECORD_EMPTY and s = 255]
  by (simp add: sim_nv_simps sim_nv_journal sim_boot_usable replace_guard_def nv_caller_def next_gen_def)

text \<open>C3. A load refines the abstract journal: unless the reader failed, the result and the bytes
  stored in the caller's buffer are the ones the two pages determine; the flash is not
  changed and the module invariant is kept. On an idle chip the reader does not fail.\<close>

theorem nv_load_refines_journal:
  assumes "nv_invariant (flash_ok bus F bank faddr) (\<lambda>s. F (flash_hw s)) st" and "nv_record_fault st = NV_RECORD_OK"
    and "capacity \<noteq> 0" and "nv_caller rend a capacity"
    and "nv_record_load (flash_services cfg bus) rend (Some a) capacity st = (r, out, st')"
  shows "nv_invariant (flash_ok bus F bank faddr) (\<lambda>s. F (flash_hw s)) st' \<and> F (flash_hw (nv_hw st')) = F (flash_hw (nv_hw st)) \<and>
    (r \<noteq> NV_RECORD_READ_FAILED \<longrightarrow> (r, out) = load_outcome (F (flash_hw (nv_hw st))) capacity) \<and>
    (flash_usable cfg bus F faddr Q R X enough (nv_hw st) \<longrightarrow> r \<noteq> NV_RECORD_READ_FAILED)"
  using fl.nv_load_store [OF assms(1,5)] fl.nv_load_live [OF assms(1-4) _ assms(5)] assms(2-4) by simp

theorem nv_load_refines_journal_witness:
  "(fst (nv_record_load (flash_services sim_config sim_bus) 0x280 (Some 0x400) 16 sim_nv),
    fst (snd (nv_record_load (flash_services sim_config sim_bus) 0x280 (Some 0x400) 16 sim_nv))) = (NV_RECORD_EMPTY, [])"
  using nv_load_refines_journal [OF sim_nv_invariant, where cfg = sim_config and Q = sim_idle and R = sim_sfr and X = sim_reg
      and enough = "\<lambda>l. l \<noteq> 0" and capacity = 16 and rend = "0x280" and a = "0x400"]
  by (cases "nv_record_load (flash_services sim_config sim_bus) 0x280 (Some 0x400) 16 sim_nv")
    (simp add: sim_nv_simps sim_nv_journal sim_boot_usable nv_caller_def load_outcome_def readable_def)

section \<open>Frame counters on the journal\<close>

text \<open>C4. No frame counter value is ever handed out twice: along any sequence of open, create, restage, save,
  read and take calls and resets over the journal on the firmware's flash services, successful or
  failing, the values taken from one domain strictly increase, none is the exhausted ceiling
  0xffffffff, and each is below the ceiling of its domain in the journal's record. Two things are
  assumed of the steps (\<open>counter_reach\<close>): a save or take that fails in the erase phase leaves the
  journal's record what it was (\<open>settled\<close>: a half-erased page does not pass for a record, which
  a chip free to leave any bits behind could forge), and a reset leaves the journal's record alone.\<close>

theorem counter_values_increase:
  assumes "counter_reach cc (nv_services (flash_services cfg bus) rend)
      (nv_invariant (flash_ok bus F bank faddr) (\<lambda>s. F (flash_hw s))) (\<lambda>n. journal_record (F (flash_hw (nv_hw n)))) st tr"
  shows "sorted_wrt (<) (taken_of d tr) \<and> 0xffffffff \<notin> snd ` set tr \<and>
    durable_above (journal_record (F (flash_hw (nv_hw (sc_store st))))) tr"
  using fl.store.reach_inv [OF assms] by (simp add: counter_inv_def)

text \<open>On the simulated chip: created on blank flash, two values taken, a reset, and one more.\<close>

theorem counter_values_increase_witness:
  "\<exists>st. counter_reach sim_counter_config sim_stores sim_inv sim_rec st [(0, 0), (0, 1), (0, 256)] \<and>
    taken_of 0 [(0, 0), (0, 1), (0, 256)] = [0, 1, 256] \<and> sorted_wrt (<) (taken_of 0 [(0, 0), (0, 1), (0, 256)]) \<and>
    durable_above (sim_rec (sc_store st)) [(0, 0), (0, 1), (0, 256)]"
proof -
  obtain st where run: "counter_reach sim_counter_config sim_stores sim_inv sim_rec st [(0, 0), (0, 1), (0, 256)]"
    using sim_counter_run ..
  have "sorted_wrt (<) (taken_of 0 [(0, 0), (0, 1), (0, 256)]) \<and> 0xffffffff \<notin> snd ` set [(0 :: nat, 0), (0, 1), (0, 256 :: u32)] \<and>
      durable_above (sim_rec (sc_store st)) [(0, 0), (0, 1), (0, 256)]"
    using counter_values_increase [OF run [unfolded sim_stores_def sim_inv_def sim_rec_def], of 0] unfolding sim_rec_def .
  with run show ?thesis by (auto simp: taken_of_def)
qed

section \<open>The verified writer\<close>

text \<open>C12. A flash program or erase is contained and verified: on any chip behind the registers, with whatever
  timing, write protection or torn programming, the other NV page keeps its contents and a
  program changes at most its own word; and a result of success means the page's own cells now
  hold the word, or are all erased.\<close>

theorem flash_write_contained:
  assumes "flash_ok bus F bank faddr st" and "operation = FLASH_EXEC_PROGRAM \<longrightarrow> wd = Some (a, w) \<and> length w = 4"
    and "operate cfg bus operation p off wd l st = (r, st')"
  shows "flash_ok bus F bank faddr st' \<and> (\<forall>q < 2. q \<noteq> p \<longrightarrow> F (flash_hw st') q = F (flash_hw st) q) \<and>
    (operation = FLASH_EXEC_PROGRAM \<longrightarrow> p < 2 \<longrightarrow> off + 4 \<le> 2048 \<longrightarrow>
      (\<exists>t. length t = 4 \<and> F (flash_hw st') p = store_at off t (F (flash_hw st) p))) \<and>
    (r = FLASH_WRITE_OK \<longrightarrow> p < 2 \<and> off < 2048 \<and> off mod 4 = 0 \<and>
      F (flash_hw st') p = (case operation of FLASH_EXEC_PROGRAM \<Rightarrow> store_at off w (F (flash_hw st) p)
        | FLASH_EXEC_ERASE \<Rightarrow> replicate 2048 255))"
proof -
  have "flash_chip bus F bank faddr" "writer_wf st" using assms(1) by (simp_all add: flash_ok_def)
  from operate_spec [OF this _ assms(3), of a w] assms(1,2) show ?thesis
    by (cases operation) (simp_all add: writer_effect_def flash_ok_def)
qed

theorem flash_write_contained_witness:
  "\<exists>st'. operate sim_config sim_bus FLASH_EXEC_ERASE 0 0 None 1 (flash_boot sim_blank) = (FLASH_WRITE_OK, st') \<and>
    sim_flash (flash_hw st') 0 = replicate 2048 255"
proof -
  obtain r st' where run: "operate sim_config sim_bus FLASH_EXEC_ERASE 0 0 None 1 (flash_boot sim_blank) = (r, st')" by fastforce
  then have "op_erase (flash_services sim_config sim_bus) 0 1 (flash_boot sim_blank) = (r, st')" by (simp add: flash_defs)
  from services_erase_live [OF sim_boot_ok sim_boot_usable _ _ this] have "r = FLASH_WRITE_OK" by simp
  with flash_write_contained [OF sim_boot_ok _ run, of undefined "[]"] run show ?thesis by simp
qed

section \<open>The key store on the firmware's services\<close>

text \<open>C33. The stored security record is always valid: in every state that calls of the key store reach from
  reset over the journal on the firmware's flash services, once a record is provisioned and no failure is
  latched, loading it yields a record that passes every check of \<open>valid_record\<close> and has the phase of the
  module, or the storage fails and the failure is latched. The format check never fails. Provisioning
  calls pass arrays of eight octets and an install code whose derived key is not zero (\<open>provision_ok\<close>).\<close>

theorem key_store_record_valid:
  fixes aes :: "'a aes_call"
  assumes "nv_invariant (flash_ok bus F bank faddr) (\<lambda>s. F (flash_hw s)) n"
    and "(sk_step (counter_services cc (nv_services (flash_services cfg bus) rend) arecord asize acounter) aes)\<^sup>*\<^sup>* (sk_boot (counter_boot n) hw) st"
    and "sk_phase st \<notin> {SECURITY_KEYS_COLD, SECURITY_KEYS_UNPROVISIONED, SECURITY_KEYS_FAILED}"
    and "sk_load (counter_services cc (nv_services (flash_services cfg bus) rend) arecord asize acounter) st = (x, st')"
  shows "case x of Inl r \<Rightarrow> r = SECURITY_KEYS_STORAGE \<and> sk_phase st' = SECURITY_KEYS_FAILED
    | Inr record \<Rightarrow> length record = 112 \<and> valid_record 112 record \<and> phase_of record = sk_phase st"
proof -
  have l: "sk_live counter_payload counter_unsaved st" "counter_safe (nv_invariant (flash_ok bus F bank faddr) (\<lambda>s. F (flash_hw s))) (sk_counter st)"
    using key_store_live [OF assms(1-3)] by simp_all
  from kst.load_live [OF l assms(4)] l(1) show ?thesis
    by (cases x) (auto simp: sk_live_def good_def sk_failed_def)
qed

theorem key_store_record_valid_witness:
  "length sim_record = 112 \<and> valid_record 112 sim_record \<and> phase_of sim_record = SECURITY_KEYS_VERIFIED"
proof -
  obtain n where n: "sim_keys = sim_live n" using sim_keys_live ..
  have "case Inr sim_record of Inl r \<Rightarrow> r = SECURITY_KEYS_STORAGE \<and> sk_phase sim_keys = SECURITY_KEYS_FAILED
    | Inr record \<Rightarrow> length record = 112 \<and> valid_record 112 record \<and> phase_of record = sk_phase sim_keys"
    by (rule key_store_record_valid [OF sim_joined_invariant sim_keys_reach [unfolded sim_ops_def]])
      (simp_all add: n sim_live_load [unfolded sim_ops_def] sim_live_phase)
  then show ?thesis by (simp add: n sim_live_phase)
qed

text \<open>C34. Every call changes the record by legal steps only: from any reachable state with a provisioned record, a
  call of the key store latches a failure or leaves a valid record that \<open>key_path\<close> connects to the one
  before the call, the record being the stored one with the volatile floors and phase laid over it.
  Provisioning calls are as in \<open>provision_ok\<close>.\<close>

theorem key_store_refines_steps:
  fixes aes :: "'a aes_call"
  assumes "nv_invariant (flash_ok bus F bank faddr) (\<lambda>s. F (flash_hw s)) n"
    and "(sk_step (counter_services cc (nv_services (flash_services cfg bus) rend) arecord asize acounter) aes)\<^sup>*\<^sup>* (sk_boot (counter_boot n) hw) st"
    and "sk_phase st \<notin> {SECURITY_KEYS_COLD, SECURITY_KEYS_UNPROVISIONED, SECURITY_KEYS_FAILED}"
    and "sk_step (counter_services cc (nv_services (flash_services cfg bus) rend) arecord asize acounter) aes st st'"
  shows "sk_phase st' = SECURITY_KEYS_FAILED \<or> key_path (sk_view counter_payload st) (sk_view counter_payload st') \<and>
    valid_record 112 (sk_view counter_payload st') \<and> phase_of (sk_view counter_payload st') = sk_phase st'"
proof -
  have l: "sk_live counter_payload counter_unsaved st" using key_store_live [OF assms(1-3)] by simp
  have "sk_inv (counter_safe (nv_invariant (flash_ok bus F bank faddr) (\<lambda>s. F (flash_hw s)))) counter_payload counter_unsaved st"
    using kst.reach_inv [OF assms(2) counter_boot_safe, OF assms(1)] .
  from kst.step_inv [OF assms(4) this] l show ?thesis
    by (auto simp: sk_moves_def sk_failed_def sk_live_def good_def)
qed

theorem key_store_refines_steps_witness: "key_path sim_record (sim_floor 41) \<and> valid_record 112 (sim_floor 41)"
proof -
  obtain n where n: "sim_keys = sim_live n" using sim_keys_live ..
  have "sk_step sim_ops mix_engine (sim_live n) (sim_after n)"
    using sk_step.Receive [of sim_ops mix_engine "sim_live n" "Some sim_frame" True True "Some mix_limits" 1] sim_live_receive [of n]
    by (simp add: sim_after_def)
  then show ?thesis
    using key_store_refines_steps [OF sim_joined_invariant sim_keys_reach [unfolded sim_ops_def], of "sim_after n"]
    unfolding n sim_live_view sim_after_view by (simp add: sim_ops_def sim_live_phase)
qed

text \<open>C35. A network-layer frame is delivered once: a secured frame that the device accepted is refused in every
  later state, up to the next reset, as long as the key slot it used keeps its key, whatever calls are made
  in between and whatever the frame's other parts are.\<close>

theorem nwk_replay_refused:
  fixes aes :: "'a aes_call"
  assumes "nv_invariant (flash_ok bus F bank faddr) (\<lambda>s. F (flash_hw s)) n"
    and "(sk_step (counter_services cc (nv_services (flash_services cfg bus) rend) arecord asize acounter) aes)\<^sup>*\<^sup>* (sk_boot (counter_boot n) hw) st"
    and "secured_frame raw meta"
    and "security_keys_receive (counter_services cc (nv_services (flash_services cfg bus) rend) arecord asize acounter) aes (Some raw) out event limits polls st =
      (r, Some packet, st1)"
    and "i = sk_find_slot (sm_key_sequence meta) (sk_view counter_payload st)"
    and "nwk_key i (sk_view counter_payload st1) = nwk_key i (sk_view counter_payload st)"
    and "(sk_kept (counter_services cc (nv_services (flash_services cfg bus) rend) arecord asize acounter) aes counter_payload i)\<^sup>*\<^sup>* st1 st2"
  shows "fst (snd (security_keys_receive (counter_services cc (nv_services (flash_services cfg bus) rend) arecord asize acounter) aes (Some raw)
    out' event' limits' polls' st2)) = None"
  using kst.replay_refused [OF kst.reach_inv [OF assms(2) counter_boot_safe, OF assms(1)] assms(4,3,5-7)] .

theorem nwk_replay_refused_witness:
  "\<exists>packet st1. security_keys_receive sim_ops mix_engine (Some sim_frame) True True (Some mix_limits) 1 sim_keys = (SECURITY_KEYS_OK, Some packet, st1) \<and>
     fst (snd (security_keys_receive sim_ops mix_engine (Some sim_frame) True True (Some mix_limits) 1 st1)) = None"
proof -
  obtain n where n: "sim_keys = sim_live n" using sim_keys_live ..
  have run: "security_keys_receive sim_ops mix_engine (Some sim_frame) True True (Some mix_limits) 1 sim_keys =
      (SECURITY_KEYS_OK, Some (sim_packet, SECURITY_KEYS_EVENT_DATA), sim_after n)"
    unfolding n sim_after_def by (rule sim_live_receive)
  have "fst (snd (security_keys_receive sim_ops mix_engine (Some sim_frame) True True (Some mix_limits) 1 (sim_after n))) = None"
    unfolding sim_ops_def
    by (rule nwk_replay_refused [OF sim_joined_invariant sim_keys_reach [unfolded sim_ops_def] sim_frame_secured run [unfolded sim_ops_def] refl])
      (simp_all add: n sim_live_view sim_after_view sim_floor_facts)
  with run show ?thesis by blast
qed

end
